(* ===== verification/Prelude.thy ===== *)
theory Prelude
  imports Main "HOL-Library.Word"
begin

text \<open>
  Shared vocabulary of the development: the Go integer types, the wrap-around of the
  signed ones, byte strings, the bit vectors that both \<open>idGen\<close> (func.go) and \<open>bitset\<close>
  (sqlitex/exec.go) keep as slices of \<open>uint64\<close>, and the list lemmas about overwriting a
  range of bytes that the blob, buffer and file components share.
\<close>

unbundle bit_operations_syntax

section \<open>Types and collections\<close>

type_synonym byte = "8 word"
type_synonym uint64 = "64 word"
type_synonym int32 = "32 word"
type_synonym gostring = string

named_theorems go_defs \<open>definitions of Go operations unfolded by automation\<close>
named_theorems bits_simps \<open>rewrite rules for bit vectors kept in slices of uint64\<close>
named_theorems splice_simps \<open>rewrite rules for overwriting a range of a byte list\<close>

section \<open>Signed 64-bit and 32-bit arithmetic on int\<close>

text \<open>Go's signed integers wrap around: a result is reduced to its width.\<close>

definition wrap64 :: "int \<Rightarrow> int" where
  "wrap64 x = signed_take_bit 63 x"

definition wrap32 :: "int \<Rightarrow> int" where
  "wrap32 x = signed_take_bit 31 x"

definition in_int64 :: "int \<Rightarrow> bool" where
  "in_int64 x \<longleftrightarrow> - (2 ^ 63) \<le> x \<and> x < 2 ^ 63"

definition in_int32 :: "int \<Rightarrow> bool" where
  "in_int32 x \<longleftrightarrow> - (2 ^ 31) \<le> x \<and> x < 2 ^ 31"

lemma wrap64_id [simp]: "in_int64 x \<Longrightarrow> wrap64 x = x"
  by (simp add: wrap64_def in_int64_def signed_take_bit_int_eq_self)

lemma wrap32_id [simp]: "in_int32 x \<Longrightarrow> wrap32 x = x"
  by (simp add: wrap32_def in_int32_def signed_take_bit_int_eq_self)

lemma in_int64_wrap64 [simp]: "in_int64 (wrap64 x)"
  using signed_take_bit_int_greater_eq_minus_exp [of 63 x] signed_take_bit_int_less_exp [of 63 x]
  by (simp add: wrap64_def in_int64_def)

lemma in_int64_nonneg: "0 \<le> x \<Longrightarrow> x < 2 ^ 63 \<Longrightarrow> in_int64 x"
  by (simp add: in_int64_def)

section \<open>Bit vectors in slices of uint64\<close>

text \<open>\<open>word_bit ws i\<close>: bit \<open>i\<close> of the vector, counting from the low bit of the first word;
  bits beyond the slice are clear.\<close>

definition word_bit :: "uint64 list \<Rightarrow> nat \<Rightarrow> bool" where
  "word_bit ws i \<longleftrightarrow> i div 64 < length ws \<and> bit (ws ! (i div 64)) (i mod 64)"

lemma word_bit_Nil [bits_simps]: "\<not> word_bit [] i"
  by (simp add: word_bit_def)

lemma word_bit_Cons [bits_simps]:
  "word_bit (w # ws) i \<longleftrightarrow> (if i < 64 then bit w i else word_bit ws (i - 64))"
proof (cases "i < 64")
  case True
  then show ?thesis by (simp add: word_bit_def)
next
  case False
  then have "i div 64 = Suc ((i - 64) div 64)" and "i mod 64 = (i - 64) mod 64"
    by (simp_all add: le_div_geq le_mod_geq)
  with False show ?thesis by (simp add: word_bit_def)
qed

lemma word_bit_bound: "word_bit ws i \<Longrightarrow> i < 64 * length ws"
  by (simp add: word_bit_def div_less_iff_less_mult mult.commute)

lemma word_bit_replicate_0 [bits_simps]: "\<not> word_bit (replicate n 0) i"
  by (simp add: word_bit_def)

text \<open>The simplifier writes \<open>1 << n\<close> as a power of two.\<close>

lemma bit_or_exp [bits_simps]:
  "bit (w OR 2 ^ n :: uint64) i \<longleftrightarrow> bit w i \<or> (i = n \<and> n < 64)"
  by (auto simp: bit_simps bit_exp_iff dest: bit_imp_le_length)

lemma bit_and_not_exp [bits_simps]:
  "bit (w AND NOT (2 ^ n) :: uint64) i \<longleftrightarrow> bit w i \<and> i \<noteq> n"
  by (auto simp: bit_simps bit_exp_iff dest: bit_imp_le_length)

lemma word_bit_list_update:
  assumes "k < length ws"
  shows "word_bit (ws[k := w]) i \<longleftrightarrow> (if i div 64 = k then bit w (i mod 64) else word_bit ws i)"
  using assms by (auto simp: word_bit_def)

lemma word_eq_full_iff: "(w :: uint64) = - 1 \<longleftrightarrow> (\<forall>i < 64. bit w i)"
  by (auto simp: bit_eq_iff dest: bit_imp_le_length)

lemma word_not_full_obtains:
  assumes "(w :: uint64) \<noteq> - 1"
  obtains i where "i < 64" and "\<not> bit w i"
  using assms by (auto simp: word_eq_full_iff)

section \<open>Overwriting a range of a list\<close>

text \<open>\<open>splice xs off ys\<close>: the elements of \<open>xs\<close> from \<open>off\<close> on replaced by \<open>ys\<close>, as a write of
  \<open>ys\<close> at offset \<open>off\<close> does.\<close>

definition splice :: "'a list \<Rightarrow> nat \<Rightarrow> 'a list \<Rightarrow> 'a list" where
  "splice xs off ys = take off xs @ ys @ drop (off + length ys) xs"

lemma length_splice [splice_simps, simp]:
  "off + length ys \<le> length xs \<Longrightarrow> length (splice xs off ys) = length xs"
  by (simp add: splice_def)

lemma splice_Nil [splice_simps, simp]: "splice xs off [] = xs"
  by (simp add: splice_def)

lemma nth_splice:
  assumes "off + length ys \<le> length xs" and "i < length xs"
  shows "splice xs off ys ! i =
    (if off \<le> i \<and> i < off + length ys then ys ! (i - off) else xs ! i)"
  using assms by (auto simp: splice_def nth_append min_def)

lemma splice_splice_adjacent:
  assumes "off + length ys + length zs \<le> length xs"
  shows "splice (splice xs off ys) (off + length ys) zs = splice xs off (ys @ zs)"
  using assms by (cases ys) (auto simp: splice_def min_def ac_simps)

lemma take_drop_splice:
  assumes "off + length ys \<le> length xs"
  shows "take (length ys) (drop off (splice xs off ys)) = ys"
  using assms by (simp add: splice_def min_def)

lemma splice_whole: "length ys = length xs \<Longrightarrow> splice xs 0 ys = ys"
  by (simp add: splice_def)

lemma take_add_drop:
  "take m (drop off xs) @ take n (drop (off + m) xs) = take (m + n) (drop off xs)"
  by (simp add: take_add ac_simps)

end
