(* ===== verification/GoLib.thy ===== *)
theory GoLib
  imports Prelude
begin

text \<open>
  The parts of Go's standard library that the modelled code calls: decimal and hexadecimal
  formatting and parsing (package strconv and the verbs of fmt that occur), \<open>strings.TrimSpace\<close>,
  \<open>strings.Join\<close>, \<open>strings.Contains\<close>.  Strings are Go strings, that is lists of bytes.
\<close>

section \<open>Formatting integers\<close>

definition digit_char :: "nat \<Rightarrow> char" where
  "digit_char d = ''0123456789abcdef'' ! d"

fun FormatUint :: "nat \<Rightarrow> nat \<Rightarrow> gostring" where
  "FormatUint base n =
     (if base < 2 \<or> n < base then [digit_char n]
      else FormatUint base (n div base) @ [digit_char (n mod base)])"

declare FormatUint.simps [simp del]

definition FormatInt :: "int \<Rightarrow> gostring" where
  "FormatInt n = (if n < 0 then CHR ''-'' # FormatUint 10 (nat (- n)) else FormatUint 10 (nat n))"

text \<open>The verb \<open>%#x\<close> on an unsigned integer.\<close>

definition FormatHex :: "nat \<Rightarrow> gostring" where
  "FormatHex n = ''0x'' @ FormatUint 16 n"

section \<open>Parsing integers\<close>

definition is_digit :: "char \<Rightarrow> bool" where
  "is_digit c \<longleftrightarrow> 48 \<le> (of_char c :: nat) \<and> (of_char c :: nat) \<le> 57"

definition digit_val :: "char \<Rightarrow> nat" where
  "digit_val c = of_char c - 48"

datatype num_error = ErrSyntax | ErrRange

text \<open>\<open>strconv.ParseUint (s, 10, 64)\<close> after the test for the empty string: the digits left to
  right, leaving as soon as a character is no digit or the value leaves 64 bits.\<close>

fun parse_uint :: "nat \<Rightarrow> gostring \<Rightarrow> nat \<times> num_error option" where
  "parse_uint acc [] = (acc, None)"
| "parse_uint acc (c # cs) =
     (if \<not> is_digit c then (0, Some ErrSyntax)
      else if 2 ^ 64 \<le> acc * 10 + digit_val c then (2 ^ 64 - 1, Some ErrRange)
      else parse_uint (acc * 10 + digit_val c) cs)"

definition ParseUint :: "gostring \<Rightarrow> nat \<times> num_error option" where
  "ParseUint s = (if s = [] then (0, Some ErrSyntax) else parse_uint 0 s)"

definition ParseInt :: "gostring \<Rightarrow> int \<times> num_error option" where
  "ParseInt s =
     (if s = [] then (0, Some ErrSyntax)
      else let neg = hd s = CHR ''-'';
               digits = (if hd s = CHR ''+'' \<or> hd s = CHR ''-'' then tl s else s);
               (un, err) = ParseUint digits
           in if err = Some ErrSyntax then (0, err)
              else if \<not> neg \<and> 2 ^ 63 \<le> un then (2 ^ 63 - 1, Some ErrRange)
              else if neg \<and> 2 ^ 63 < un then (- (2 ^ 63), Some ErrRange)
              else (if neg then - int un else int un, None))"

text \<open>The value of a string of digits.\<close>

definition digits_val :: "gostring \<Rightarrow> nat" where
  "digits_val s = foldl (\<lambda>acc c. acc * 10 + digit_val c) 0 s"

definition clamp64 :: "int \<Rightarrow> int" where
  "clamp64 x = max (- (2 ^ 63)) (min (2 ^ 63 - 1) x)"

section \<open>White space\<close>

text \<open>The code points \<open>unicode.IsSpace\<close> accepts, each as its UTF-8 bytes.\<close>

definition space_seqs :: "gostring list" where
  "space_seqs = map (map char_of)
     ([[9], [10], [11], [12], [13], [32], [194, 133], [194, 160], [225, 154, 128]]
      @ map (\<lambda>b. [226, 128, b]) ([128..<139] @ [168, 169, 175])
      @ [[226, 129, 159], [227, 128, 128]] :: nat list list)"

definition strip_prefix :: "gostring list \<Rightarrow> gostring \<Rightarrow> gostring option" where
  "strip_prefix ps s = (case find (\<lambda>p. take (length p) s = p) ps of
     None \<Rightarrow> None | Some p \<Rightarrow> Some (drop (length p) s))"

lemma find_SomeD: "find P xs = Some x \<Longrightarrow> x \<in> set xs \<and> P x"
  by (auto simp: find_Some_iff)

lemma strip_prefix_shorter:
  assumes "strip_prefix ps s = Some t" and "[] \<notin> set ps"
  shows "length t < length s"
proof -
  from assms(1) obtain p where "p \<in> set ps" "take (length p) s = p" "t = drop (length p) s"
    by (auto simp: strip_prefix_def dest!: find_SomeD split: option.splits)
  moreover with assms(2) have "p \<noteq> []" by auto
  moreover from this \<open>take (length p) s = p\<close> have "0 < length p" "length p \<le> length s"
    by (auto simp: min_def dest: arg_cong [where f = length] split: if_splits)
  ultimately show ?thesis by (metis diff_less length_drop order_less_le_trans)
qed

lemma space_seqs_nonempty [simp]: "[] \<notin> set space_seqs" "[] \<notin> set (map rev space_seqs)"
  by (auto simp: space_seqs_def)

function trim_left :: "gostring list \<Rightarrow> gostring \<Rightarrow> gostring" where
  "trim_left ps s =
     (if [] \<in> set ps then s
      else case strip_prefix ps s of None \<Rightarrow> s | Some t \<Rightarrow> trim_left ps t)"
  by pat_completeness auto
termination
  by (relation "measure (\<lambda>(ps, s). length s)") (auto dest: strip_prefix_shorter)

declare trim_left.simps [simp del]

definition TrimLeftSpace :: "gostring \<Rightarrow> gostring" where
  "TrimLeftSpace s = trim_left space_seqs s"

definition TrimSpace :: "gostring \<Rightarrow> gostring" where
  "TrimSpace s = rev (trim_left (map rev space_seqs) (rev (TrimLeftSpace s)))"

section \<open>Joining and searching\<close>

fun strings_Join :: "gostring list \<Rightarrow> gostring \<Rightarrow> gostring" where
  "strings_Join [] sep = []"
| "strings_Join [x] sep = x"
| "strings_Join (x # y # ys) sep = x @ sep @ strings_Join (y # ys) sep"

definition strings_ContainsByte :: "gostring \<Rightarrow> char \<Rightarrow> bool" where
  "strings_ContainsByte s c \<longleftrightarrow> c \<in> set s"

section \<open>Round trips\<close>

lemma is_digit_digit_char: "d < 10 \<Longrightarrow> is_digit (digit_char d)"
  by (auto simp: is_digit_def digit_char_def less_Suc_eq numeral_eq_Suc)

lemma digit_val_digit_char: "d < 10 \<Longrightarrow> digit_val (digit_char d) = d"
  by (auto simp: digit_val_def digit_char_def less_Suc_eq numeral_eq_Suc)

lemma FormatUint_nonempty: "FormatUint b n \<noteq> []"
  by (subst FormatUint.simps) simp

lemma FormatUint_10_digits: "list_all is_digit (FormatUint 10 n)"
proof (induction n rule: less_induct)
  case (less n)
  show ?case
  proof (cases "n < 10")
    case True
    then show ?thesis by (subst FormatUint.simps) (simp add: is_digit_digit_char)
  next
    case False
    then have "n div 10 < n" by simp
    from less [OF this] False show ?thesis
      by (subst FormatUint.simps) (simp add: is_digit_digit_char)
  qed
qed

lemma digits_val_snoc: "digits_val (s @ [c]) = digits_val s * 10 + digit_val c"
  by (simp add: digits_val_def)

lemma digits_val_FormatUint: "digits_val (FormatUint 10 n) = n"
proof (induction n rule: less_induct)
  case (less n)
  show ?case
  proof (cases "n < 10")
    case True
    then show ?thesis
      by (subst FormatUint.simps) (simp add: digits_val_def digit_val_digit_char)
  next
    case False
    then have "n div 10 < n" by simp
    from less [OF this] False show ?thesis
      by (subst FormatUint.simps) (simp add: digits_val_snoc digit_val_digit_char)
  qed
qed

lemma parse_uint_digits:
  assumes "list_all is_digit s"
  shows "parse_uint acc s =
    (let v = foldl (\<lambda>acc c. acc * 10 + digit_val c) acc s
     in if v < 2 ^ 64 \<or> s = [] then (v, None) else (2 ^ 64 - 1, Some ErrRange))"
  using assms
proof (induction s arbitrary: acc)
  case Nil
  then show ?case by simp
next
  case (Cons c s)
  have mono: "a \<le> foldl (\<lambda>acc c. acc * 10 + digit_val c) a s" for a
  proof (induction s arbitrary: a)
    case (Cons d s)
    have "a \<le> a * 10 + digit_val d" by simp
    also have "\<dots> \<le> foldl (\<lambda>acc c. acc * 10 + digit_val c) (a * 10 + digit_val d) s" by (rule Cons)
    finally show ?case by simp
  qed simp
  show ?case
  proof (cases "2 ^ 64 \<le> acc * 10 + digit_val c")
    case True
    with Cons.prems mono [of "acc * 10 + digit_val c"] show ?thesis by (simp add: Let_def)
  next
    case False
    then have "parse_uint acc (c # s) = parse_uint (acc * 10 + digit_val c) s"
      using Cons.prems by simp
    also note Cons.IH [of "acc * 10 + digit_val c"]
    finally show ?thesis using Cons.prems False by (cases "s = []") (simp_all add: Let_def)
  qed
qed

lemma ParseUint_digits:
  assumes "list_all is_digit s" and "s \<noteq> []"
  shows "ParseUint s = (if digits_val s < 2 ^ 64 then (digits_val s, None) else (2 ^ 64 - 1, Some ErrRange))"
  using assms by (simp add: ParseUint_def parse_uint_digits digits_val_def Let_def)

lemma is_digit_not_sign: "is_digit c \<Longrightarrow> c \<noteq> CHR ''+'' \<and> c \<noteq> CHR ''-''"
  by (auto simp: is_digit_def)

text \<open>On an optionally signed string of digits \<open>ParseInt\<close> gives the value, clamped to 64 bits.\<close>

lemma ParseInt_unsigned:
  assumes "list_all is_digit s"
  shows "fst (ParseInt s) = clamp64 (int (digits_val s))"
proof (cases s)
  case Nil
  then show ?thesis by (simp add: ParseInt_def digits_val_def clamp64_def)
next
  case (Cons c cs)
  with assms have "hd s \<noteq> CHR ''+''" "hd s \<noteq> CHR ''-''" using is_digit_not_sign by auto
  with Cons assms show ?thesis
    by (auto simp: ParseInt_def ParseUint_digits clamp64_def Let_def)
qed

lemma ParseInt_minus:
  assumes "list_all is_digit s"
  shows "fst (ParseInt (CHR ''-'' # s)) = clamp64 (- int (digits_val s))"
proof (cases "s = []")
  case True
  then show ?thesis by (simp add: ParseInt_def ParseUint_def digits_val_def clamp64_def)
next
  case False
  note ParseUint_digits [OF assms False]
  then show ?thesis by (cases "digits_val s < 2 ^ 64") (auto simp: ParseInt_def clamp64_def)
qed

lemma ParseInt_plus:
  assumes "list_all is_digit s"
  shows "fst (ParseInt (CHR ''+'' # s)) = clamp64 (int (digits_val s))"
proof (cases "s = []")
  case True
  then show ?thesis by (simp add: ParseInt_def ParseUint_def digits_val_def clamp64_def)
next
  case False
  note ParseUint_digits [OF assms False]
  then show ?thesis by (cases "digits_val s < 2 ^ 64") (auto simp: ParseInt_def clamp64_def)
qed

lemma TrimSpace_no_space:
  assumes "\<And>p. p \<in> set space_seqs \<Longrightarrow> take (length p) s \<noteq> p"
    and "\<And>p. p \<in> set space_seqs \<Longrightarrow> take (length p) (rev s) \<noteq> rev p"
  shows "TrimSpace s = s"
proof -
  have "strip_prefix space_seqs s = None" "strip_prefix (map rev space_seqs) (rev s) = None"
    using assms by (auto simp: strip_prefix_def find_None_iff split: option.splits)
  then show ?thesis
    by (simp add: TrimSpace_def TrimLeftSpace_def trim_left.simps)
qed

end
