(* ===== verification/Codes.thy ===== *)
theory Codes
  imports GoLib
begin

text \<open>
  The enumerations the library mirrors from SQLite (result codes, authorizer operations, column
  types, limits, changeset conflicts and actions, authorizer results, virtual-table constraint
  operators, open flags) and their \<open>String\<close> methods.  The numeric values are the \<open>lib.SQLITE_*\<close>
  constants of the generated SQLite package, which is not part of the repository: they are the
  parameter \<open>K\<close>, a function from the C name of a constant to its value.
\<close>

section \<open>Enumerations as tables\<close>

text \<open>One row per constant: its Go name, the C constant it is declared as, and the string the
  \<open>case\<close> of the \<open>String\<close> method returns for it, in the order of the \<open>switch\<close>.\<close>

type_synonym enum_table = "(gostring \<times> gostring \<times> gostring) list"
type_synonym lib_consts = "gostring \<Rightarrow> int"

definition enum_String :: "lib_consts \<Rightarrow> enum_table \<Rightarrow> int \<Rightarrow> gostring option" where
  "enum_String K t code = map_option (\<lambda>(g, c, s). s) (find (\<lambda>(g, c, s). K c = code) t)"

definition enum_cnames :: "enum_table \<Rightarrow> gostring list" where
  "enum_cnames t = map (\<lambda>(g, c, s). c) t"

text \<open>What the Go compiler guarantees of a \<open>switch\<close> over constants: no two cases are equal.\<close>

definition distinct_cases :: "lib_consts \<Rightarrow> enum_table \<Rightarrow> bool" where
  "distinct_cases K t \<longleftrightarrow> inj_on K (set (enum_cnames t))"

definition names_match :: "enum_table \<Rightarrow> bool" where
  "names_match t \<longleftrightarrow> list_all (\<lambda>(g, c, s). s = c) t"

subsection \<open>Result codes (result.go)\<close>

definition ResultCode_table :: enum_table where
  "ResultCode_table = [
     (''ResultOK'', ''SQLITE_OK'', ''SQLITE_OK''),
     (''ResultError'', ''SQLITE_ERROR'', ''SQLITE_ERROR''),
     (''ResultInternal'', ''SQLITE_INTERNAL'', ''SQLITE_INTERNAL''),
     (''ResultPerm'', ''SQLITE_PERM'', ''SQLITE_PERM''),
     (''ResultAbort'', ''SQLITE_ABORT'', ''SQLITE_ABORT''),
     (''ResultBusy'', ''SQLITE_BUSY'', ''SQLITE_BUSY''),
     (''ResultLocked'', ''SQLITE_LOCKED'', ''SQLITE_LOCKED''),
     (''ResultNoMem'', ''SQLITE_NOMEM'', ''SQLITE_NOMEM''),
     (''ResultReadOnly'', ''SQLITE_READONLY'', ''SQLITE_READONLY''),
     (''ResultInterrupt'', ''SQLITE_INTERRUPT'', ''SQLITE_INTERRUPT''),
     (''ResultIOErr'', ''SQLITE_IOERR'', ''SQLITE_IOERR''),
     (''ResultCorrupt'', ''SQLITE_CORRUPT'', ''SQLITE_CORRUPT''),
     (''ResultNotFound'', ''SQLITE_NOTFOUND'', ''SQLITE_NOTFOUND''),
     (''ResultFull'', ''SQLITE_FULL'', ''SQLITE_FULL''),
     (''ResultCantOpen'', ''SQLITE_CANTOPEN'', ''SQLITE_CANTOPEN''),
     (''ResultProtocol'', ''SQLITE_PROTOCOL'', ''SQLITE_PROTOCOL''),
     (''ResultEmpty'', ''SQLITE_EMPTY'', ''SQLITE_EMPTY''),
     (''ResultSchema'', ''SQLITE_SCHEMA'', ''SQLITE_SCHEMA''),
     (''ResultTooBig'', ''SQLITE_TOOBIG'', ''SQLITE_TOOBIG''),
     (''ResultConstraint'', ''SQLITE_CONSTRAINT'', ''SQLITE_CONSTRAINT''),
     (''ResultMismatch'', ''SQLITE_MISMATCH'', ''SQLITE_MISMATCH''),
     (''ResultMisuse'', ''SQLITE_MISUSE'', ''SQLITE_MISUSE''),
     (''ResultNoLFS'', ''SQLITE_NOLFS'', ''SQLITE_NOLFS''),
     (''ResultAuth'', ''SQLITE_AUTH'', ''SQLITE_AUTH''),
     (''ResultFormat'', ''SQLITE_FORMAT'', ''SQLITE_FORMAT''),
     (''ResultRange'', ''SQLITE_RANGE'', ''SQLITE_RANGE''),
     (''ResultNotADB'', ''SQLITE_NOTADB'', ''SQLITE_NOTADB''),
     (''ResultNotice'', ''SQLITE_NOTICE'', ''SQLITE_NOTICE''),
     (''ResultWarning'', ''SQLITE_WARNING'', ''SQLITE_WARNING''),
     (''ResultRow'', ''SQLITE_ROW'', ''SQLITE_ROW''),
     (''ResultDone'', ''SQLITE_DONE'', ''SQLITE_DONE''),
     (''ResultErrorMissingCollSeq'', ''SQLITE_ERROR_MISSING_COLLSEQ'', ''SQLITE_ERROR_MISSING_COLLSEQ''),
     (''ResultErrorRetry'', ''SQLITE_ERROR_RETRY'', ''SQLITE_ERROR_RETRY''),
     (''ResultErrorSnapshot'', ''SQLITE_ERROR_SNAPSHOT'', ''SQLITE_ERROR_SNAPSHOT''),
     (''ResultIOErrRead'', ''SQLITE_IOERR_READ'', ''SQLITE_IOERR_READ''),
     (''ResultIOErrShortRead'', ''SQLITE_IOERR_SHORT_READ'', ''SQLITE_IOERR_SHORT_READ''),
     (''ResultIOErrWrite'', ''SQLITE_IOERR_WRITE'', ''SQLITE_IOERR_WRITE''),
     (''ResultIOErrFsync'', ''SQLITE_IOERR_FSYNC'', ''SQLITE_IOERR_FSYNC''),
     (''ResultIOErrDirFsync'', ''SQLITE_IOERR_DIR_FSYNC'', ''SQLITE_IOERR_DIR_FSYNC''),
     (''ResultIOErrTruncate'', ''SQLITE_IOERR_TRUNCATE'', ''SQLITE_IOERR_TRUNCATE''),
     (''ResultIOErrFstat'', ''SQLITE_IOERR_FSTAT'', ''SQLITE_IOERR_FSTAT''),
     (''ResultIOErrUnlock'', ''SQLITE_IOERR_UNLOCK'', ''SQLITE_IOERR_UNLOCK''),
     (''ResultIOErrReadLock'', ''SQLITE_IOERR_RDLOCK'', ''SQLITE_IOERR_RDLOCK''),
     (''ResultIOErrDelete'', ''SQLITE_IOERR_DELETE'', ''SQLITE_IOERR_DELETE''),
     (''ResultIOErrBlocked'', ''SQLITE_IOERR_BLOCKED'', ''SQLITE_IOERR_BLOCKED''),
     (''ResultIOErrNoMem'', ''SQLITE_IOERR_NOMEM'', ''SQLITE_IOERR_NOMEM''),
     (''ResultIOErrAccess'', ''SQLITE_IOERR_ACCESS'', ''SQLITE_IOERR_ACCESS''),
     (''ResultIOErrCheckReservedLock'', ''SQLITE_IOERR_CHECKRESERVEDLOCK'', ''SQLITE_IOERR_CHECKRESERVEDLOCK''),
     (''ResultIOErrLock'', ''SQLITE_IOERR_LOCK'', ''SQLITE_IOERR_LOCK''),
     (''ResultIOErrClose'', ''SQLITE_IOERR_CLOSE'', ''SQLITE_IOERR_CLOSE''),
     (''ResultIOErrDirClose'', ''SQLITE_IOERR_DIR_CLOSE'', ''SQLITE_IOERR_DIR_CLOSE''),
     (''ResultIOErrSHMOpen'', ''SQLITE_IOERR_SHMOPEN'', ''SQLITE_IOERR_SHMOPEN''),
     (''ResultIOErrSHMSize'', ''SQLITE_IOERR_SHMSIZE'', ''SQLITE_IOERR_SHMSIZE''),
     (''ResultIOErrSHMLock'', ''SQLITE_IOERR_SHMLOCK'', ''SQLITE_IOERR_SHMLOCK''),
     (''ResultIOErrSHMMap'', ''SQLITE_IOERR_SHMMAP'', ''SQLITE_IOERR_SHMMAP''),
     (''ResultIOErrSeek'', ''SQLITE_IOERR_SEEK'', ''SQLITE_IOERR_SEEK''),
     (''ResultIOErrDeleteNoEnt'', ''SQLITE_IOERR_DELETE_NOENT'', ''SQLITE_IOERR_DELETE_NOENT''),
     (''ResultIOErrMMap'', ''SQLITE_IOERR_MMAP'', ''SQLITE_IOERR_MMAP''),
     (''ResultIOErrGetTempPath'', ''SQLITE_IOERR_GETTEMPPATH'', ''SQLITE_IOERR_GETTEMPPATH''),
     (''ResultIOErrConvPath'', ''SQLITE_IOERR_CONVPATH'', ''SQLITE_IOERR_CONVPATH''),
     (''ResultIOErrVNode'', ''SQLITE_IOERR_VNODE'', ''SQLITE_IOERR_VNODE''),
     (''ResultIOErrAuth'', ''SQLITE_IOERR_AUTH'', ''SQLITE_IOERR_AUTH''),
     (''ResultIOErrBeginAtomic'', ''SQLITE_IOERR_BEGIN_ATOMIC'', ''SQLITE_IOERR_BEGIN_ATOMIC''),
     (''ResultIOErrCommitAtomic'', ''SQLITE_IOERR_COMMIT_ATOMIC'', ''SQLITE_IOERR_COMMIT_ATOMIC''),
     (''ResultIOErrRollbackAtomic'', ''SQLITE_IOERR_ROLLBACK_ATOMIC'', ''SQLITE_IOERR_ROLLBACK_ATOMIC''),
     (''ResultLockedSharedCache'', ''SQLITE_LOCKED_SHAREDCACHE'', ''SQLITE_LOCKED_SHAREDCACHE''),
     (''ResultBusyRecovery'', ''SQLITE_BUSY_RECOVERY'', ''SQLITE_BUSY_RECOVERY''),
     (''ResultBusySnapshot'', ''SQLITE_BUSY_SNAPSHOT'', ''SQLITE_BUSY_SNAPSHOT''),
     (''ResultCantOpenNoTempDir'', ''SQLITE_CANTOPEN_NOTEMPDIR'', ''SQLITE_CANTOPEN_NOTEMPDIR''),
     (''ResultCantOpenIsDir'', ''SQLITE_CANTOPEN_ISDIR'', ''SQLITE_CANTOPEN_ISDIR''),
     (''ResultCantOpenFullPath'', ''SQLITE_CANTOPEN_FULLPATH'', ''SQLITE_CANTOPEN_FULLPATH''),
     (''ResultCantOpenConvPath'', ''SQLITE_CANTOPEN_CONVPATH'', ''SQLITE_CANTOPEN_CONVPATH''),
     (''ResultCorruptVTab'', ''SQLITE_CORRUPT_VTAB'', ''SQLITE_CORRUPT_VTAB''),
     (''ResultReadOnlyRecovery'', ''SQLITE_READONLY_RECOVERY'', ''SQLITE_READONLY_RECOVERY''),
     (''ResultReadOnlyCantLock'', ''SQLITE_READONLY_CANTLOCK'', ''SQLITE_READONLY_CANTLOCK''),
     (''ResultReadOnlyRollback'', ''SQLITE_READONLY_ROLLBACK'', ''SQLITE_READONLY_ROLLBACK''),
     (''ResultReadOnlyDBMoved'', ''SQLITE_READONLY_DBMOVED'', ''SQLITE_READONLY_DBMOVED''),
     (''ResultReadOnlyCantInit'', ''SQLITE_READONLY_CANTINIT'', ''SQLITE_READONLY_CANTINIT''),
     (''ResultReadOnlyDirectory'', ''SQLITE_READONLY_DIRECTORY'', ''SQLITE_READONLY_DIRECTORY''),
     (''ResultAbortRollback'', ''SQLITE_ABORT_ROLLBACK'', ''SQLITE_ABORT_ROLLBACK''),
     (''ResultConstraintCheck'', ''SQLITE_CONSTRAINT_CHECK'', ''SQLITE_CONSTRAINT_CHECK''),
     (''ResultConstraintCommitHook'', ''SQLITE_CONSTRAINT_COMMITHOOK'', ''SQLITE_CONSTRAINT_COMMITHOOK''),
     (''ResultConstraintForeignKey'', ''SQLITE_CONSTRAINT_FOREIGNKEY'', ''SQLITE_CONSTRAINT_FOREIGNKEY''),
     (''ResultConstraintFunction'', ''SQLITE_CONSTRAINT_FUNCTION'', ''SQLITE_CONSTRAINT_FUNCTION''),
     (''ResultConstraintNotNull'', ''SQLITE_CONSTRAINT_NOTNULL'', ''SQLITE_CONSTRAINT_NOTNULL''),
     (''ResultConstraintPrimaryKey'', ''SQLITE_CONSTRAINT_PRIMARYKEY'', ''SQLITE_CONSTRAINT_PRIMARYKEY''),
     (''ResultConstraintTrigger'', ''SQLITE_CONSTRAINT_TRIGGER'', ''SQLITE_CONSTRAINT_TRIGGER''),
     (''ResultConstraintUnique'', ''SQLITE_CONSTRAINT_UNIQUE'', ''SQLITE_CONSTRAINT_UNIQUE''),
     (''ResultConstraintVTab'', ''SQLITE_CONSTRAINT_VTAB'', ''SQLITE_CONSTRAINT_VTAB''),
     (''ResultConstraintRowID'', ''SQLITE_CONSTRAINT_ROWID'', ''SQLITE_CONSTRAINT_ROWID''),
     (''ResultNoticeRecoverWAL'', ''SQLITE_NOTICE_RECOVER_WAL'', ''SQLITE_NOTICE_RECOVER_WAL''),
     (''ResultNoticeRecoverRollback'', ''SQLITE_NOTICE_RECOVER_ROLLBACK'', ''SQLITE_NOTICE_RECOVER_ROLLBACK''),
     (''ResultWarningAutoIndex'', ''SQLITE_WARNING_AUTOINDEX'', ''SQLITE_WARNING_AUTOINDEX''),
     (''ResultAuthUser'', ''SQLITE_AUTH_USER'', ''SQLITE_AUTH_USER'')]"

definition ResultCode_String :: "lib_consts \<Rightarrow> int \<Rightarrow> gostring" where
  "ResultCode_String K code = (case enum_String K ResultCode_table code of
     Some s \<Rightarrow> s | None \<Rightarrow> ''ResultCode('' @ FormatInt code @ '')'')"

subsection \<open>Operations (op_type.go)\<close>

definition OpType_table :: enum_table where
  "OpType_table = [
     (''OpCreateIndex'', ''SQLITE_CREATE_INDEX'', ''SQLITE_CREATE_INDEX''),
     (''OpCreateTable'', ''SQLITE_CREATE_TABLE'', ''SQLITE_CREATE_TABLE''),
     (''OpCreateTempIndex'', ''SQLITE_CREATE_TEMP_INDEX'', ''SQLITE_CREATE_TEMP_INDEX''),
     (''OpCreateTempTable'', ''SQLITE_CREATE_TEMP_TABLE'', ''SQLITE_CREATE_TEMP_TABLE''),
     (''OpCreateTempTrigger'', ''SQLITE_CREATE_TEMP_TRIGGER'', ''SQLITE_CREATE_TEMP_TRIGGER''),
     (''OpCreateTempView'', ''SQLITE_CREATE_TEMP_VIEW'', ''SQLITE_CREATE_TEMP_VIEW''),
     (''OpCreateTrigger'', ''SQLITE_CREATE_TRIGGER'', ''SQLITE_CREATE_TRIGGER''),
     (''OpCreateView'', ''SQLITE_CREATE_VIEW'', ''SQLITE_CREATE_VIEW''),
     (''OpDelete'', ''SQLITE_DELETE'', ''SQLITE_DELETE''),
     (''OpDropIndex'', ''SQLITE_DROP_INDEX'', ''SQLITE_DROP_INDEX''),
     (''OpDropTable'', ''SQLITE_DROP_TABLE'', ''SQLITE_DROP_TABLE''),
     (''OpDropTempIndex'', ''SQLITE_DROP_TEMP_INDEX'', ''SQLITE_DROP_TEMP_INDEX''),
     (''OpDropTempTable'', ''SQLITE_DROP_TEMP_TABLE'', ''SQLITE_DROP_TEMP_TABLE''),
     (''OpDropTempTrigger'', ''SQLITE_DROP_TEMP_TRIGGER'', ''SQLITE_DROP_TEMP_TRIGGER''),
     (''OpDropTempView'', ''SQLITE_DROP_TEMP_VIEW'', ''SQLITE_DROP_TEMP_VIEW''),
     (''OpDropTrigger'', ''SQLITE_DROP_TRIGGER'', ''SQLITE_DROP_TRIGGER''),
     (''OpDropView'', ''SQLITE_DROP_VIEW'', ''SQLITE_DROP_VIEW''),
     (''OpInsert'', ''SQLITE_INSERT'', ''SQLITE_INSERT''),
     (''OpPragma'', ''SQLITE_PRAGMA'', ''SQLITE_PRAGMA''),
     (''OpRead'', ''SQLITE_READ'', ''SQLITE_READ''),
     (''OpSelect'', ''SQLITE_SELECT'', ''SQLITE_SELECT''),
     (''OpTransaction'', ''SQLITE_TRANSACTION'', ''SQLITE_TRANSACTION''),
     (''OpUpdate'', ''SQLITE_UPDATE'', ''SQLITE_UPDATE''),
     (''OpAttach'', ''SQLITE_ATTACH'', ''SQLITE_ATTACH''),
     (''OpDetach'', ''SQLITE_DETACH'', ''SQLITE_DETACH''),
     (''OpAlterTable'', ''SQLITE_ALTER_TABLE'', ''SQLITE_ALTER_TABLE''),
     (''OpReindex'', ''SQLITE_REINDEX'', ''SQLITE_REINDEX''),
     (''OpAnalyze'', ''SQLITE_ANALYZE'', ''SQLITE_ANALYZE''),
     (''OpCreateVTable'', ''SQLITE_CREATE_VTABLE'', ''SQLITE_CREATE_VTABLE''),
     (''OpDropVTable'', ''SQLITE_DROP_VTABLE'', ''SQLITE_DROP_VTABLE''),
     (''OpFunction'', ''SQLITE_FUNCTION'', ''SQLITE_FUNCTION''),
     (''OpSavepoint'', ''SQLITE_SAVEPOINT'', ''SQLITE_SAVEPOINT''),
     (''OpCopy'', ''SQLITE_COPY'', ''SQLITE_COPY''),
     (''OpRecursive'', ''SQLITE_RECURSIVE'', ''SQLITE_RECURSIVE'')]"

definition OpType_String :: "lib_consts \<Rightarrow> int \<Rightarrow> gostring" where
  "OpType_String K code = (case enum_String K OpType_table code of
     Some s \<Rightarrow> s | None \<Rightarrow> ''OpType('' @ FormatInt code @ '')'')"

subsection \<open>Column types (sqlite.go)\<close>

definition ColumnType_table :: enum_table where
  "ColumnType_table = [
     (''TypeInteger'', ''SQLITE_INTEGER'', ''SQLITE_INTEGER''),
     (''TypeFloat'', ''SQLITE_FLOAT'', ''SQLITE_FLOAT''),
     (''TypeText'', ''SQLITE_TEXT'', ''SQLITE_TEXT''),
     (''TypeBlob'', ''SQLITE_BLOB'', ''SQLITE_BLOB''),
     (''TypeNull'', ''SQLITE_NULL'', ''SQLITE_NULL'')]"

definition ColumnType_String :: "lib_consts \<Rightarrow> int \<Rightarrow> gostring" where
  "ColumnType_String K code = (case enum_String K ColumnType_table code of
     Some s \<Rightarrow> s | None \<Rightarrow> ''<unknown sqlite datatype>'')"

subsection \<open>Limits (sqlite.go)\<close>

definition Limit_table :: enum_table where
  "Limit_table = [
     (''LimitLength'', ''SQLITE_LIMIT_LENGTH'', ''SQLITE_LIMIT_LENGTH''),
     (''LimitSQLLength'', ''SQLITE_LIMIT_SQL_LENGTH'', ''SQLITE_LIMIT_SQL_LENGTH''),
     (''LimitColumn'', ''SQLITE_LIMIT_COLUMN'', ''SQLITE_LIMIT_COLUMN''),
     (''LimitExprDepth'', ''SQLITE_LIMIT_EXPR_DEPTH'', ''SQLITE_LIMIT_EXPR_DEPTH''),
     (''LimitCompoundSelect'', ''SQLITE_LIMIT_COMPOUND_SELECT'', ''SQLITE_LIMIT_COMPOUND_SELECT''),
     (''LimitVDBEOp'', ''SQLITE_LIMIT_VDBE_OP'', ''SQLITE_LIMIT_VDBE_OP''),
     (''LimitFunctionArg'', ''SQLITE_LIMIT_FUNCTION_ARG'', ''SQLITE_LIMIT_FUNCTION_ARG''),
     (''LimitAttached'', ''SQLITE_LIMIT_ATTACHED'', ''SQLITE_LIMIT_ATTACHED''),
     (''LimitLikePatternLength'', ''SQLITE_LIMIT_LIKE_PATTERN_LENGTH'', ''SQLITE_LIMIT_LIKE_PATTERN_LENGTH''),
     (''LimitVariableNumber'', ''SQLITE_LIMIT_VARIABLE_NUMBER'', ''SQLITE_LIMIT_VARIABLE_NUMBER''),
     (''LimitTriggerDepth'', ''SQLITE_LIMIT_TRIGGER_DEPTH'', ''SQLITE_LIMIT_TRIGGER_DEPTH''),
     (''LimitWorkerThreads'', ''SQLITE_LIMIT_WORKER_THREADS'', ''SQLITE_LIMIT_WORKER_THREADS'')]"

definition Limit_String :: "lib_consts \<Rightarrow> int \<Rightarrow> gostring" where
  "Limit_String K code = (case enum_String K Limit_table code of
     Some s \<Rightarrow> s | None \<Rightarrow> ''Limit('' @ FormatInt code @ '')'')"

subsection \<open>Changeset conflicts (session.go)\<close>

definition ConflictType_table :: enum_table where
  "ConflictType_table = [
     (''ChangesetData'', ''SQLITE_CHANGESET_DATA'', ''SQLITE_CHANGESET_DATA''),
     (''ChangesetNotFound'', ''SQLITE_CHANGESET_NOTFOUND'', ''SQLITE_CHANGESET_NOTFOUND''),
     (''ChangesetConflict'', ''SQLITE_CHANGESET_CONFLICT'', ''SQLITE_CHANGESET_CONFLICT''),
     (''ChangesetConstraint'', ''SQLITE_CHANGESET_CONSTRAINT'', ''SQLITE_CHANGESET_CONSTRAINT''),
     (''ChangesetForeignKey'', ''SQLITE_CHANGESET_FOREIGN_KEY'', ''SQLITE_CHANGESET_FOREIGN_KEY'')]"

definition ConflictType_String :: "lib_consts \<Rightarrow> int \<Rightarrow> gostring" where
  "ConflictType_String K code = (case enum_String K ConflictType_table code of
     Some s \<Rightarrow> s | None \<Rightarrow> ''ConflictType('' @ FormatInt code @ '')'')"

subsection \<open>Conflict actions (session.go)\<close>

definition ConflictAction_table :: enum_table where
  "ConflictAction_table = [
     (''ChangesetOmit'', ''SQLITE_CHANGESET_OMIT'', ''SQLITE_CHANGESET_OMIT''),
     (''ChangesetAbort'', ''SQLITE_CHANGESET_ABORT'', ''SQLITE_CHANGESET_ABORT''),
     (''ChangesetReplace'', ''SQLITE_CHANGESET_REPLACE'', ''SQLITE_CHANGESET_REPLACE'')]"

definition ConflictAction_String :: "lib_consts \<Rightarrow> int \<Rightarrow> gostring" where
  "ConflictAction_String K code = (case enum_String K ConflictAction_table code of
     Some s \<Rightarrow> s | None \<Rightarrow> ''ConflictAction('' @ FormatInt code @ '')'')"

subsection \<open>Authorizer results (auth.go)\<close>

definition AuthResult_table :: enum_table where
  "AuthResult_table = [
     (''AuthResultOK'', ''SQLITE_OK'', ''SQLITE_OK''),
     (''AuthResultDeny'', ''SQLITE_DENY'', ''SQLITE_DENY''),
     (''AuthResultIgnore'', ''SQLITE_IGNORE'', ''SQLITE_IGNORE'')]"

definition AuthResult_String :: "lib_consts \<Rightarrow> int \<Rightarrow> gostring" where
  "AuthResult_String K code = (case enum_String K AuthResult_table code of
     Some s \<Rightarrow> s | None \<Rightarrow> ''AuthResult('' @ FormatInt code @ '')'')"

subsection \<open>Constraint operators (index_constraint.go)\<close>

definition IndexConstraintOp_table :: enum_table where
  "IndexConstraintOp_table = [
     (''IndexConstraintEq'', ''SQLITE_INDEX_CONSTRAINT_EQ'', ''=''),
     (''IndexConstraintGT'', ''SQLITE_INDEX_CONSTRAINT_GT'', ''>''),
     (''IndexConstraintLE'', ''SQLITE_INDEX_CONSTRAINT_LE'', ''<=''),
     (''IndexConstraintLT'', ''SQLITE_INDEX_CONSTRAINT_LT'', ''<''),
     (''IndexConstraintGE'', ''SQLITE_INDEX_CONSTRAINT_GE'', ''>=''),
     (''IndexConstraintMatch'', ''SQLITE_INDEX_CONSTRAINT_MATCH'', ''MATCH''),
     (''IndexConstraintLike'', ''SQLITE_INDEX_CONSTRAINT_LIKE'', ''LIKE''),
     (''IndexConstraintGlob'', ''SQLITE_INDEX_CONSTRAINT_GLOB'', ''GLOB''),
     (''IndexConstraintRegexp'', ''SQLITE_INDEX_CONSTRAINT_REGEXP'', ''REGEXP''),
     (''IndexConstraintNE'', ''SQLITE_INDEX_CONSTRAINT_NE'', ''<>''),
     (''IndexConstraintIsNot'', ''SQLITE_INDEX_CONSTRAINT_ISNOT'', ''IS NOT''),
     (''IndexConstraintIsNotNull'', ''SQLITE_INDEX_CONSTRAINT_ISNOTNULL'', ''IS NOT NULL''),
     (''IndexConstraintIsNull'', ''SQLITE_INDEX_CONSTRAINT_ISNULL'', ''IS NULL''),
     (''IndexConstraintIs'', ''SQLITE_INDEX_CONSTRAINT_IS'', ''IS''),
     (''IndexConstraintLimit'', ''SQLITE_INDEX_CONSTRAINT_LIMIT'', ''LIMIT''),
     (''IndexConstraintOffset'', ''SQLITE_INDEX_CONSTRAINT_OFFSET'', ''OFFSET'')]"

definition IndexConstraintOp_String :: "lib_consts \<Rightarrow> int \<Rightarrow> gostring" where
  "IndexConstraintOp_String K op = (case enum_String K IndexConstraintOp_table op of
     Some s \<Rightarrow> s
   | None \<Rightarrow>
       if op < K ''SQLITE_INDEX_CONSTRAINT_FUNCTION''
       then ''IndexConstraintOp('' @ FormatInt op @ '')''
       else ''<function '' @ FormatInt op @ ''>'')"

section \<open>Open flags (openflags.go)\<close>

text \<open>The flags in the order in which \<open>String\<close> tests them.\<close>

definition OpenFlags_names :: "gostring list" where
  "OpenFlags_names = [
     ''SQLITE_OPEN_READONLY'', ''SQLITE_OPEN_READWRITE'', ''SQLITE_OPEN_CREATE'',
     ''SQLITE_OPEN_URI'', ''SQLITE_OPEN_MEMORY'', ''SQLITE_OPEN_NOMUTEX'',
     ''SQLITE_OPEN_FULLMUTEX'', ''SQLITE_OPEN_SHAREDCACHE'', ''SQLITE_OPEN_PRIVATECACHE'',
     ''SQLITE_OPEN_WAL'']"

definition flag_mask :: "lib_consts \<Rightarrow> gostring \<Rightarrow> uint64" where
  "flag_mask K c = word_of_int (K c)"

fun OpenFlags_parts :: "lib_consts \<Rightarrow> gostring list \<Rightarrow> uint64 \<Rightarrow> gostring list \<times> uint64" where
  "OpenFlags_parts K [] flags = ([], flags)"
| "OpenFlags_parts K (c # cs) flags =
     (if flags AND flag_mask K c \<noteq> 0
      then let (parts, rest) = OpenFlags_parts K cs (flags AND NOT (flag_mask K c)) in (c # parts, rest)
      else OpenFlags_parts K cs flags)"

definition OpenFlags_String :: "lib_consts \<Rightarrow> uint64 \<Rightarrow> gostring" where
  "OpenFlags_String K flags =
     (let (parts, rest) = OpenFlags_parts K OpenFlags_names flags
      in strings_Join (if rest \<noteq> 0 \<or> parts = [] then parts @ [FormatHex (unat rest)] else parts) ''|'')"

definition mask_union :: "lib_consts \<Rightarrow> gostring list \<Rightarrow> uint64" where
  "mask_union K cs = foldr (\<lambda>c m. flag_mask K c OR m) cs 0"

text \<open>SQLite documents every open flag as a single bit.\<close>

definition single_bit_flags :: "lib_consts \<Rightarrow> bool" where
  "single_bit_flags K \<longleftrightarrow> list_all (\<lambda>c. \<exists>k < 64. flag_mask K c = push_bit k 1) OpenFlags_names"

section \<open>Lemmas\<close>

lemma enum_String_declared:
  assumes "distinct_cases K t" and "names_match t" and "(g, c, s) \<in> set t"
  shows "enum_String K t (K c) = Some c"
proof -
  have "find (\<lambda>(g, c', s). K c' = K c) t \<noteq> None"
    using assms(3) by (auto simp: find_None_iff)
  then obtain g' c' s' where f: "find (\<lambda>(g, c', s). K c' = K c) t = Some (g', c', s')"
    by (metis option.exhaust prod_cases3)
  then have in_t: "(g', c', s') \<in> set t" and "K c' = K c" by (auto dest: find_SomeD)
  with assms(1,3) have "c' = c"
    by (auto simp: distinct_cases_def enum_cnames_def inj_on_def image_iff)
  moreover from in_t assms(2) have "s' = c'" by (auto simp: names_match_def list_all_iff)
  ultimately show ?thesis using f by (simp add: enum_String_def)
qed

lemma enum_String_other:
  assumes "\<And>c. c \<in> set (enum_cnames t) \<Longrightarrow> K c \<noteq> code"
  shows "enum_String K t code = None"
  using assms by (force simp: enum_String_def enum_cnames_def find_None_iff)

lemma in_cnamesE:
  assumes "c \<in> set (enum_cnames t)"
  obtains g s where "(g, c, s) \<in> set t"
  using assms by (auto simp: enum_cnames_def)

lemmas enum_tables = ResultCode_table_def OpType_table_def ColumnType_table_def Limit_table_def
  ConflictType_table_def ConflictAction_table_def AuthResult_table_def

lemma tables_names_match [simp]:
  "names_match ResultCode_table" "names_match OpType_table" "names_match ColumnType_table"
  "names_match Limit_table" "names_match ConflictType_table" "names_match ConflictAction_table"
  "names_match AuthResult_table"
  by (simp_all only: names_match_def enum_tables list.pred_inject prod.case simp_thms)

lemma OpenFlags_parts_union:
  assumes "OpenFlags_parts K cs flags = (parts, rest)"
    and "list_all (\<lambda>c. \<exists>k < 64. flag_mask K c = push_bit k 1) cs"
  shows "flags = mask_union K parts OR rest"
  using assms
proof (induction K cs flags arbitrary: parts rest rule: OpenFlags_parts.induct)
  case (1 K flags)
  then show ?case by (simp add: mask_union_def)
next
  case (2 K c cs flags)
  from 2(4) obtain k where k: "k < 64" "flag_mask K c = push_bit k 1" by auto
  show ?case
  proof (cases "flags AND flag_mask K c \<noteq> 0")
    case True
    with 2(3) obtain parts' where p: "OpenFlags_parts K cs (flags AND NOT (flag_mask K c)) = (parts', rest)"
      "parts = c # parts'"
      by (auto simp: Let_def split: prod.splits)
    from True k have "bit flags k"
      by (metis and_exp_eq_0_iff_not_bit push_bit_of_1)
    then have "flags = flag_mask K c OR (flags AND NOT (flag_mask K c))"
      using k by (intro bit_word_eqI) (auto simp: bit_simps bit_exp_iff)
    also have "flags AND NOT (flag_mask K c) = mask_union K parts' OR rest"
      using 2(1) [OF True p(1)] 2(4) by simp
    finally show ?thesis by (simp add: p(2) mask_union_def or.assoc)
  next
    case False
    with 2 show ?thesis by simp
  qed
qed

lemma OpenFlags_parts_subset:
  "OpenFlags_parts K cs flags = (parts, rest) \<Longrightarrow> set parts \<subseteq> set cs"
  by (induction K cs flags arbitrary: parts rest rule: OpenFlags_parts.induct)
     (auto simp: Let_def split: if_splits prod.splits)

section \<open>Properties\<close>


text \<open>An assignment of distinct values to distinct names, for instance the name read as a number.\<close>

fun name_num :: "gostring \<Rightarrow> nat" where
  "name_num [] = 0"
| "name_num (c # cs) = Suc (of_char c + 256 * name_num cs)"

definition name_code :: lib_consts where
  "name_code s = int (name_num s)"

lemma name_num_inj: "name_num s = name_num t \<Longrightarrow> s = t"
proof (induction s arbitrary: t)
  case Nil
  then show ?case by (cases t) auto
next
  case (Cons c s)
  then obtain d u where t: "t = d # u" by (cases t) auto
  have lt: "of_char x < (256 :: nat)" for x :: char by simp
  from Cons.prems t have eq: "of_char c + 256 * name_num s = of_char d + 256 * name_num u" by simp
  then have "(of_char c + 256 * name_num s) mod 256 = (of_char d + 256 * name_num u) mod 256" by simp
  with lt have cd: "of_char c = (of_char d :: nat)" by simp
  with eq Cons.IH t show ?case by simp
qed

declare name_num.simps [simp del]

lemma name_code_eq_iff [simp]: "name_code s = name_code t \<longleftrightarrow> s = t"
  by (auto simp: name_code_def dest: name_num_inj)


text \<open>C39: the string of a set of open flags accounts for every bit: the flags it names, and the
  remainder it appends in hexadecimal, together are exactly the argument.\<close>

theorem OpenFlags_String_lossless:
  assumes "single_bit_flags K" and "OpenFlags_parts K OpenFlags_names flags = (parts, rest)"
  shows "flags = mask_union K parts OR rest \<and> set parts \<subseteq> set OpenFlags_names \<and>
    OpenFlags_String K flags =
      strings_Join (if rest \<noteq> 0 \<or> parts = [] then parts @ [FormatHex (unat rest)] else parts) ''|''"
  using OpenFlags_parts_union [OF assms(2)] OpenFlags_parts_subset [OF assms(2)] assms
  by (simp add: single_bit_flags_def OpenFlags_String_def)

text \<open>The values SQLite documents for the open flags.\<close>

definition documented_flags :: lib_consts where
  "documented_flags c = (case map_of (zip OpenFlags_names
      [0x1, 0x2, 0x4, 0x40, 0x80, 0x8000, 0x10000, 0x20000, 0x40000, 0x80000]) c of
    Some v \<Rightarrow> v | None \<Rightarrow> 0)"

theorem OpenFlags_String_lossless_witness:
  "single_bit_flags documented_flags \<and>
   OpenFlags_String documented_flags 0x100006 = ''SQLITE_OPEN_READWRITE|SQLITE_OPEN_CREATE|0x100000'' \<and>
   (0x100006 :: uint64) = mask_union documented_flags [''SQLITE_OPEN_READWRITE'', ''SQLITE_OPEN_CREATE''] OR 0x100000"
proof -
  have single: "single_bit_flags documented_flags"
    by code_simp
  have parts: "OpenFlags_parts documented_flags OpenFlags_names 0x100006 =
      ([''SQLITE_OPEN_READWRITE'', ''SQLITE_OPEN_CREATE''], 0x100000)"
    by code_simp
  have str: "OpenFlags_String documented_flags 0x100006 =
      ''SQLITE_OPEN_READWRITE|SQLITE_OPEN_CREATE|0x100000''"
    by (simp add: OpenFlags_String_def parts FormatHex_def FormatUint.simps digit_char_def)
  from OpenFlags_String_lossless [OF single parts] single str show ?thesis by blast
qed

end
