(* ===== verification/Result.thy ===== *)
theory Result
  imports Codes
begin

text \<open>
  Result codes as errors (result.go): \<open>ToPrimary\<close>, \<open>IsSuccess\<close>, \<open>ToError\<close>, \<open>ErrCode\<close>,
  \<open>ErrorOffset\<close>, and \<open>Conn.extreserr\<close> (sqlite.go).  A Go \<open>error\<close> is \<open>None\<close> for nil or a value
  of \<open>go_error\<close>; of a formatted error the format string and, for the verb \<open>%w\<close>, the wrapped
  error are kept, which is what \<open>errors.As\<close> can see.
\<close>

section \<open>Errors\<close>

datatype go_error =
    sqliteError int
  | extendedError int int gostring
  | Errorf gostring go_error
  | ErrorString gostring

type_synonym error = "go_error option"

text \<open>\<open>fmt.Errorf\<close> with the verb \<open>%w\<close> applied to a non-nil error.\<close>

definition wrap_error :: "gostring \<Rightarrow> error \<Rightarrow> error" where
  "wrap_error fmt err = map_option (Errorf fmt) err"

definition io_EOF :: go_error where
  "io_EOF = ErrorString ''EOF''"

definition ResultOK :: "lib_consts \<Rightarrow> int" where "ResultOK K = K ''SQLITE_OK''"
definition ResultError :: "lib_consts \<Rightarrow> int" where "ResultError K = K ''SQLITE_ERROR''"
definition ResultRow :: "lib_consts \<Rightarrow> int" where "ResultRow K = K ''SQLITE_ROW''"
definition ResultDone :: "lib_consts \<Rightarrow> int" where "ResultDone K = K ''SQLITE_DONE''"
definition ResultLocked :: "lib_consts \<Rightarrow> int" where "ResultLocked K = K ''SQLITE_LOCKED''"
definition ResultInterrupt :: "lib_consts \<Rightarrow> int" where "ResultInterrupt K = K ''SQLITE_INTERRUPT''"
definition ResultRange :: "lib_consts \<Rightarrow> int" where "ResultRange K = K ''SQLITE_RANGE''"
definition ResultConstraint :: "lib_consts \<Rightarrow> int" where "ResultConstraint K = K ''SQLITE_CONSTRAINT''"
definition ResultLockedSharedCache :: "lib_consts \<Rightarrow> int" where "ResultLockedSharedCache K = K ''SQLITE_LOCKED_SHAREDCACHE''"

definition ToPrimary :: "int \<Rightarrow> int" where
  "ToPrimary code = code AND 255"

definition IsSuccess :: "lib_consts \<Rightarrow> int \<Rightarrow> bool" where
  "IsSuccess K code \<longleftrightarrow> code = ResultOK K \<or> code = ResultRow K \<or> code = ResultDone K"

definition ToError :: "lib_consts \<Rightarrow> int \<Rightarrow> error" where
  "ToError K code = (if IsSuccess K code then None else Some (sqliteError code))"

text \<open>\<open>errors.As\<close> into a \<open>sqliteError\<close>: the type itself, the \<open>As\<close> method of \<open>extendedError\<close>,
  then what the error wraps.\<close>

fun As_sqliteError :: "go_error \<Rightarrow> int option" where
  "As_sqliteError (sqliteError code) = Some code"
| "As_sqliteError (extendedError code off msg) = Some code"
| "As_sqliteError (Errorf fmt e) = As_sqliteError e"
| "As_sqliteError (ErrorString s) = None"

fun As_extendedError :: "go_error \<Rightarrow> (int \<times> int \<times> gostring) option" where
  "As_extendedError (sqliteError code) = None"
| "As_extendedError (extendedError code off msg) = Some (code, off, msg)"
| "As_extendedError (Errorf fmt e) = As_extendedError e"
| "As_extendedError (ErrorString s) = None"

definition ErrCode :: "lib_consts \<Rightarrow> error \<Rightarrow> int" where
  "ErrCode K err = (case err of
     None \<Rightarrow> ResultOK K
   | Some e \<Rightarrow> (case As_sqliteError e of Some code \<Rightarrow> code | None \<Rightarrow> ResultError K))"

definition ErrorOffset :: "error \<Rightarrow> int \<times> bool" where
  "ErrorOffset err = (case Option.bind err As_extendedError of
     Some (code, off, msg) \<Rightarrow> (off, 0 \<le> off)
   | None \<Rightarrow> (- 1, False))"

text \<open>\<open>extreserr\<close> asks SQLite for the offset and the message of the last error on the
  connection; both are arguments here.\<close>

definition extreserr :: "lib_consts \<Rightarrow> int \<Rightarrow> int \<Rightarrow> gostring \<Rightarrow> error" where
  "extreserr K res off msg = (if IsSuccess K res then None else Some (extendedError res off msg))"

text \<open>The texts of the two error types; \<open>errstr\<close> is \<open>sqlite3_errstr\<close>.\<close>

definition sqliteError_Error :: "(int \<Rightarrow> gostring) \<Rightarrow> int \<Rightarrow> gostring" where
  "sqliteError_Error errstr code = errstr code"

definition extendedError_Error :: "(int \<Rightarrow> gostring) \<Rightarrow> int \<Rightarrow> gostring \<Rightarrow> gostring" where
  "extendedError_Error errstr code msg =
     (let m = errstr code in if msg = '''' \<or> msg = m then m else m @ '': '' @ msg)"

lemmas result_consts = ResultOK_def ResultError_def ResultRow_def ResultDone_def ResultLocked_def
  ResultInterrupt_def ResultRange_def ResultConstraint_def ResultLockedSharedCache_def

section \<open>Lemmas\<close>

lemma ToError_None_iff: "ToError K code = None \<longleftrightarrow> IsSuccess K code"
  by (simp add: ToError_def)

lemma extreserr_None_iff: "extreserr K code off msg = None \<longleftrightarrow> IsSuccess K code"
  by (simp add: extreserr_def)

lemma ErrCode_None [simp]: "ErrCode K None = ResultOK K"
  by (simp add: ErrCode_def)

lemma ErrCode_wrap_error [simp]: "ErrCode K (wrap_error fmt err) = ErrCode K err"
  by (cases err) (simp_all add: wrap_error_def ErrCode_def)

lemma ErrCode_Errorf [simp]: "ErrCode K (Some (Errorf fmt e)) = ErrCode K (Some e)"
  by (simp add: ErrCode_def)

lemma IsSuccess_OK [simp]: "IsSuccess K (ResultOK K)"
  by (simp add: IsSuccess_def)

text \<open>The errors the package builds from result codes: never a success code.\<close>

inductive code_error :: "lib_consts \<Rightarrow> go_error \<Rightarrow> bool" for K where
  from_ToError: "ToError K code = Some e \<Longrightarrow> code_error K e"
| from_extreserr: "extreserr K code off msg = Some e \<Longrightarrow> code_error K e"
| from_text: "code_error K (ErrorString s)"
| from_wrap: "code_error K e \<Longrightarrow> code_error K (Errorf fmt e)"

lemma code_error_no_success:
  assumes "code_error K e" and "As_sqliteError e = Some code"
  shows "\<not> IsSuccess K code"
  using assms
  by (induction arbitrary: code rule: code_error.induct)
     (auto simp: ToError_def extreserr_def split: if_splits)

section \<open>Properties\<close>

text \<open>C38: an error code survives the trip through \<open>ToError\<close> (or \<open>extreserr\<close>) and any number of
  \<open>%w\<close> wrappings: \<open>ErrCode\<close> returns it again; a success code comes back as \<open>ResultOK\<close>; and the
  offset of an extended error is found through the same wrappings.\<close>

theorem ErrCode_roundtrip:
  "ErrCode K (foldr wrap_error fmts (ToError K code)) = (if IsSuccess K code then ResultOK K else code) \<and>
   ErrCode K (foldr wrap_error fmts (extreserr K code off msg)) = (if IsSuccess K code then ResultOK K else code) \<and>
   ErrorOffset (foldr wrap_error fmts (extreserr K code off msg)) =
     (if IsSuccess K code then (- 1, False) else (off, 0 \<le> off))"
proof -
  have code: "ErrCode K (foldr wrap_error fmts err) = ErrCode K err" for err
    by (induction fmts) simp_all
  have wrap: "ErrorOffset (wrap_error fmt err) = ErrorOffset err" for fmt err
    by (cases err) (simp_all add: ErrorOffset_def wrap_error_def)
  have off: "ErrorOffset (foldr wrap_error fmts err) = ErrorOffset err" for err
    by (induction fmts) (simp_all add: wrap)
  show ?thesis
    by (simp add: code off) (simp add: ErrCode_def ToError_def extreserr_def ErrorOffset_def)
qed

text \<open>\<open>ErrCode\<close> returns \<open>ResultOK\<close> if and only if the error is nil, for every error the
  package can build (from a result code, from a text, or by wrapping one of these).\<close>

theorem ErrCode_OK_iff_nil:
  assumes "ResultOK K \<noteq> ResultError K" and "\<And>e. err = Some e \<Longrightarrow> code_error K e"
  shows "ErrCode K err = ResultOK K \<longleftrightarrow> err = None"
proof (cases err)
  case (Some e)
  with assms(2) have "code_error K e" by blast
  from code_error_no_success [OF this] have "As_sqliteError e \<noteq> Some (ResultOK K)" by auto
  with Some assms(1) show ?thesis by (auto simp: ErrCode_def split: option.splits)
qed simp

theorem ErrCode_OK_iff_nil_witness:
  "ErrCode name_code (wrap_error ''sqlite: step: %w'' (ToError name_code (name_code ''SQLITE_BUSY'')))
     \<noteq> ResultOK name_code"
proof -
  let ?err = "wrap_error ''sqlite: step: %w'' (ToError name_code (name_code ''SQLITE_BUSY''))"
  have te: "ToError name_code (name_code ''SQLITE_BUSY'') = Some (sqliteError (name_code ''SQLITE_BUSY''))"
    by (simp add: ToError_def IsSuccess_def result_consts)
  have built: "code_error name_code e" if "?err = Some e" for e
    using that te by (auto simp: wrap_error_def intro: code_error.intros)
  have "ResultOK name_code \<noteq> ResultError name_code" by (simp add: result_consts)
  from ErrCode_OK_iff_nil [OF this built]
  have "ErrCode name_code ?err = ResultOK name_code \<longleftrightarrow> ?err = None" .
  moreover have "?err \<noteq> None" by (simp only: wrap_error_def te) simp
  ultimately show ?thesis by (simp only: simp_thms)
qed

end
