(* ===== verification/Values.thy ===== *)
theory Values
  imports Result
begin

text \<open>
  SQL values (func.go): the struct \<open>Value\<close>, its constructors and its accessors with SQLite's
  conversions.  A value either belongs to SQLite (its \<open>tls\<close> is set and the accessors call
  \<open>sqlite3_value_*\<close>, the parameter \<open>V\<close>) or to Go.  Floating-point numbers are carried as their
  IEEE 754 bits, as the struct carries them; the conversions between floating point, integers and
  text are the parameter \<open>F\<close>.
\<close>

section \<open>Types\<close>

record Value =
  v_tls :: "nat option"
  ptrOrType :: nat
  v_s :: gostring
  v_n :: int

definition zero_Value :: Value where
  "zero_Value = \<lparr>v_tls = None, ptrOrType = 0, v_s = '''', v_n = 0\<rparr>"

record value_lib =
  value_type :: "nat \<Rightarrow> int"
  value_int64 :: "nat \<Rightarrow> int"
  value_double :: "nat \<Rightarrow> uint64"
  value_text :: "nat \<Rightarrow> gostring"
  value_blob :: "nat \<Rightarrow> gostring"
  value_nochange :: "nat \<Rightarrow> int"

record float_ops =
  float_to_int64 :: "uint64 \<Rightarrow> int"
  float_of_int64 :: "int \<Rightarrow> uint64"
  FormatFloat :: "uint64 \<Rightarrow> gostring"
  ParseFloat :: "gostring \<Rightarrow> uint64 \<times> num_error option"

definition TypeInteger :: "lib_consts \<Rightarrow> int" where "TypeInteger K = K ''SQLITE_INTEGER''"
definition TypeFloat :: "lib_consts \<Rightarrow> int" where "TypeFloat K = K ''SQLITE_FLOAT''"
definition TypeText :: "lib_consts \<Rightarrow> int" where "TypeText K = K ''SQLITE_TEXT''"
definition TypeBlob :: "lib_consts \<Rightarrow> int" where "TypeBlob K = K ''SQLITE_BLOB''"
definition TypeNull :: "lib_consts \<Rightarrow> int" where "TypeNull K = K ''SQLITE_NULL''"

text \<open>SQLite documents the five type codes as 1 to 5; that they are distinct and positive is
  what the code relies on.\<close>

definition column_types_ok :: "lib_consts \<Rightarrow> bool" where
  "column_types_ok K \<longleftrightarrow>
     distinct [TypeInteger K, TypeFloat K, TypeText K, TypeBlob K, TypeNull K] \<and>
     0 < TypeInteger K \<and> 0 < TypeFloat K \<and> 0 < TypeText K \<and> 0 < TypeBlob K \<and> 0 < TypeNull K"

lemmas type_consts = TypeInteger_def TypeFloat_def TypeText_def TypeBlob_def TypeNull_def

section \<open>Constructors\<close>

definition IntegerValue :: "lib_consts \<Rightarrow> int \<Rightarrow> Value" where
  "IntegerValue K i = zero_Value\<lparr>ptrOrType := nat (TypeInteger K), v_n := i\<rparr>"

definition FloatValue :: "lib_consts \<Rightarrow> uint64 \<Rightarrow> Value" where
  "FloatValue K f = zero_Value\<lparr>ptrOrType := nat (TypeFloat K), v_n := sint f\<rparr>"

definition TextValue :: "lib_consts \<Rightarrow> gostring \<Rightarrow> Value" where
  "TextValue K s = zero_Value\<lparr>ptrOrType := nat (TypeText K), v_s := s\<rparr>"

definition BlobValue :: "lib_consts \<Rightarrow> gostring \<Rightarrow> Value" where
  "BlobValue K b = zero_Value\<lparr>ptrOrType := nat (TypeBlob K), v_s := b\<rparr>"

definition Unchanged :: Value where
  "Unchanged = zero_Value\<lparr>v_n := 1\<rparr>"

section \<open>Text to numbers\<close>

fun longestPrefix :: "gostring \<Rightarrow> gostring \<Rightarrow> gostring" where
  "longestPrefix [] allowSet = []"
| "longestPrefix (c # s) allowSet = (if c \<in> set allowSet then c # longestPrefix s allowSet else [])"

definition castTextToInteger :: "gostring \<Rightarrow> int" where
  "castTextToInteger s0 =
     (let digits = ''0123456789'';
          s = TrimSpace s0;
          s = (if 0 < length s \<and> (hd s = CHR ''+'' \<or> hd s = CHR ''-'')
               then take (1 + length (longestPrefix (tl s) digits)) s
               else longestPrefix s digits)
      in fst (ParseInt s))"

function castTextToReal_loop :: "float_ops \<Rightarrow> gostring \<Rightarrow> uint64" where
  "castTextToReal_loop F s =
     (if length s = 0 then 0
      else let (n, err) = ParseFloat F s
           in if err \<noteq> Some ErrSyntax then n else castTextToReal_loop F (butlast s))"
  by pat_completeness auto
termination
  by (relation "measure (\<lambda>(F, s). length s)") auto

declare castTextToReal_loop.simps [simp del]

definition castTextToReal :: "float_ops \<Rightarrow> gostring \<Rightarrow> uint64" where
  "castTextToReal F s = castTextToReal_loop F (TrimSpace s)"

section \<open>Accessors\<close>

text \<open>\<open>None\<close> is the panic \<open>unknown value type\<close>.\<close>

definition Value_Type :: "lib_consts \<Rightarrow> value_lib \<Rightarrow> Value \<Rightarrow> int" where
  "Value_Type K V v =
     (if ptrOrType v = 0 then TypeNull K
      else if v_tls v = None then int (ptrOrType v)
      else value_type V (ptrOrType v))"

definition Value_float :: "Value \<Rightarrow> uint64" where
  "Value_float v = word_of_int (v_n v)"

definition Value_Int64 :: "lib_consts \<Rightarrow> value_lib \<Rightarrow> float_ops \<Rightarrow> Value \<Rightarrow> int option" where
  "Value_Int64 K V F v =
     (if ptrOrType v = 0 then Some 0
      else if v_tls v = None then
        (let t = int (ptrOrType v)
         in if t = TypeNull K then Some 0
            else if t = TypeInteger K then Some (v_n v)
            else if t = TypeFloat K then Some (float_to_int64 F (Value_float v))
            else if t = TypeBlob K \<or> t = TypeText K then Some (castTextToInteger (v_s v))
            else None)
      else Some (value_int64 V (ptrOrType v)))"

definition Value_Float :: "lib_consts \<Rightarrow> value_lib \<Rightarrow> float_ops \<Rightarrow> Value \<Rightarrow> uint64 option" where
  "Value_Float K V F v =
     (if ptrOrType v = 0 then Some 0
      else if v_tls v = None then
        (let t = int (ptrOrType v)
         in if t = TypeNull K then Some 0
            else if t = TypeInteger K then Some (float_of_int64 F (v_n v))
            else if t = TypeFloat K then Some (Value_float v)
            else if t = TypeBlob K \<or> t = TypeText K then Some (castTextToReal F (v_s v))
            else None)
      else Some (value_double V (ptrOrType v)))"

definition Value_Text :: "lib_consts \<Rightarrow> value_lib \<Rightarrow> float_ops \<Rightarrow> Value \<Rightarrow> gostring option" where
  "Value_Text K V F v =
     (if ptrOrType v = 0 then Some ''''
      else if v_tls v = None then
        (let t = int (ptrOrType v)
         in if t = TypeNull K then Some ''''
            else if t = TypeInteger K then Some (FormatInt (v_n v))
            else if t = TypeFloat K then Some (FormatFloat F (Value_float v))
            else if t = TypeText K \<or> t = TypeBlob K then Some (v_s v)
            else None)
      else Some (value_text V (ptrOrType v)))"

definition Value_Blob :: "lib_consts \<Rightarrow> value_lib \<Rightarrow> float_ops \<Rightarrow> Value \<Rightarrow> gostring option" where
  "Value_Blob K V F v =
     (if ptrOrType v = 0 then Some ''''
      else if v_tls v = None then
        (let t = int (ptrOrType v)
         in if t = TypeNull K then Some ''''
            else if t = TypeInteger K then Some (FormatInt (v_n v))
            else if t = TypeFloat K then Some (FormatFloat F (Value_float v))
            else if t = TypeBlob K \<or> t = TypeText K then Some (v_s v)
            else None)
      else Some (value_blob V (ptrOrType v)))"

definition Value_NoChange :: "value_lib \<Rightarrow> Value \<Rightarrow> bool" where
  "Value_NoChange V v =
     (if ptrOrType v = 0 then v_n v \<noteq> 0
      else if v_tls v = None then False
      else value_nochange V (ptrOrType v) \<noteq> 0)"

section \<open>Lemmas\<close>

lemma longestPrefix_takeWhile: "longestPrefix s allow = takeWhile (\<lambda>c. c \<in> set allow) s"
  by (induction s) simp_all

lemma in_digits_iff: "c \<in> set ''0123456789'' \<longleftrightarrow> is_digit c"
proof
  assume "is_digit c"
  then have "of_char c \<in> set [48..<58::nat]"
    by (simp only: is_digit_def set_upt atLeastLessThan_iff) simp
  then have "char_of (of_char c :: nat) \<in> set (map char_of [48..<58::nat])" by (metis imageI list.set_map)
  moreover have "map char_of [48..<58::nat] = ''0123456789''" by code_simp
  ultimately show "c \<in> set ''0123456789''" by simp
qed (auto simp: is_digit_def)

lemma longestPrefix_digits: "longestPrefix s ''0123456789'' = takeWhile is_digit s"
  by (simp only: longestPrefix_takeWhile in_digits_iff)

lemma list_all_takeWhile: "list_all P (takeWhile P s)"
  by (induction s) auto

text \<open>The integer a text stands for: the value of the longest prefix of digits after the white
  space and an optional sign.\<close>

definition text_integer :: "gostring \<Rightarrow> int" where
  "text_integer t =
     (case t of
        [] \<Rightarrow> 0
      | c # cs \<Rightarrow>
          if c = CHR ''-'' then - int (digits_val (takeWhile is_digit cs))
          else if c = CHR ''+'' then int (digits_val (takeWhile is_digit cs))
          else int (digits_val (takeWhile is_digit t)))"

lemma castTextToInteger_cases:
  assumes "TrimSpace s = c # cs"
  shows "castTextToInteger s =
    fst (ParseInt (if c = CHR ''+'' \<or> c = CHR ''-'' then c # takeWhile is_digit cs
                   else takeWhile is_digit (c # cs)))"
  unfolding castTextToInteger_def Let_def longestPrefix_digits assms
  by (simp add: takeWhile_eq_take [symmetric] del: takeWhile.simps)

lemma castTextToInteger_eq: "castTextToInteger s = clamp64 (text_integer (TrimSpace s))"
proof (cases "TrimSpace s")
  case Nil
  then show ?thesis
    by (simp add: castTextToInteger_def text_integer_def ParseInt_def clamp64_def)
next
  case (Cons c cs)
  note cast = castTextToInteger_cases [OF this]
  consider "c = CHR ''-''" | "c = CHR ''+''" | "c \<noteq> CHR ''-''" "c \<noteq> CHR ''+''" by blast
  then show ?thesis
  proof cases
    case 1
    then show ?thesis
      using ParseInt_minus [OF list_all_takeWhile] by (simp add: cast Cons text_integer_def)
  next
    case 2
    then show ?thesis
      using ParseInt_plus [OF list_all_takeWhile] by (simp add: cast Cons text_integer_def)
  next
    case 3
    then show ?thesis
      using ParseInt_unsigned [OF list_all_takeWhile]
      by (simp add: cast Cons text_integer_def del: takeWhile.simps)
  qed
qed

lemma FormatInt_chars: "c \<in> set (FormatInt n) \<Longrightarrow> is_digit c \<or> c = CHR ''-''"
  using FormatUint_10_digits by (auto simp: FormatInt_def list_all_iff split: if_splits)

lemma space_seqs_not_numeric:
  assumes "p \<in> set space_seqs"
  shows "p \<noteq> [] \<and> \<not> is_digit (hd p) \<and> hd p \<noteq> CHR ''-'' \<and> \<not> is_digit (last p) \<and> last p \<noteq> CHR ''-''"
proof -
  have "list_all (\<lambda>p. p \<noteq> [] \<and> (of_char (hd p) :: nat) \<notin> {45} \<union> {48..57} \<and>
      (of_char (last p) :: nat) \<notin> {45} \<union> {48..57}) space_seqs"
    by (simp add: space_seqs_def upt_rec)
  with assms have *: "p \<noteq> [] \<and> (of_char (hd p) :: nat) \<notin> {45} \<union> {48..57} \<and>
      (of_char (last p) :: nat) \<notin> {45} \<union> {48..57}"
    by (simp add: list_all_iff)
  have "c \<noteq> CHR ''-''" if "(of_char c :: nat) \<noteq> 45" for c using that by auto
  with * show ?thesis by (auto simp: is_digit_def)
qed

lemma TrimSpace_FormatInt: "TrimSpace (FormatInt n) = FormatInt n"
proof (rule TrimSpace_no_space)
  fix p assume p: "p \<in> set space_seqs"
  note np = space_seqs_not_numeric [OF p]
  show "take (length p) (FormatInt n) \<noteq> p"
  proof
    assume eq: "take (length p) (FormatInt n) = p"
    with np have "hd p \<in> set (FormatInt n)" by (metis hd_in_set in_set_takeD)
    with np FormatInt_chars show False by blast
  qed
  show "take (length p) (rev (FormatInt n)) \<noteq> rev p"
  proof
    assume eq: "take (length p) (rev (FormatInt n)) = rev p"
    with np have "hd (rev p) \<in> set (FormatInt n)" by (metis hd_in_set in_set_takeD rev_is_Nil_conv set_rev)
    with np FormatInt_chars show False by (metis hd_rev)
  qed
qed

lemma text_integer_FormatInt: "text_integer (FormatInt n) = n"
proof -
  have all: "takeWhile is_digit (FormatUint 10 m) = FormatUint 10 m" for m
    using FormatUint_10_digits [of m] by (simp add: list_all_iff takeWhile_eq_all_conv)
  have pos: "text_integer (FormatUint 10 m) = int m" for m
  proof (cases "FormatUint 10 m")
    case Nil
    then show ?thesis using FormatUint_nonempty by simp
  next
    case (Cons c cs)
    then have "is_digit c" using FormatUint_10_digits [of m] by (simp add: list_all_iff)
    then have "c \<noteq> CHR ''-''" "c \<noteq> CHR ''+''" using is_digit_not_sign by auto
    then have "text_integer (FormatUint 10 m) = int (digits_val (takeWhile is_digit (FormatUint 10 m)))"
      by (simp add: text_integer_def Cons)
    then show ?thesis by (simp only: all digits_val_FormatUint)
  qed
  show ?thesis
  proof (cases "n < 0")
    case True
    then show ?thesis by (simp add: FormatInt_def text_integer_def all digits_val_FormatUint)
  next
    case False
    then show ?thesis by (simp add: FormatInt_def pos)
  qed
qed

section \<open>Properties\<close>

text \<open>C35: the conversion of text to an integer, for every string: after trimming white space, the
  longest run of digits behind an optional sign, clamped to the range of a signed 64-bit integer;
  text without such a run is 0.\<close>

theorem castTextToInteger_spec:
  "castTextToInteger s = clamp64 (text_integer (TrimSpace s)) \<and> in_int64 (castTextToInteger s)"
  by (simp add: castTextToInteger_eq clamp64_def in_int64_def)

lemma column_types_nat:
  assumes "column_types_ok K"
  shows "int (nat (TypeInteger K)) = TypeInteger K" "int (nat (TypeText K)) = TypeText K"
    "int (nat (TypeBlob K)) = TypeBlob K" "nat (TypeInteger K) \<noteq> 0" "nat (TypeText K) \<noteq> 0"
    "nat (TypeBlob K) \<noteq> 0"
    "TypeInteger K \<noteq> TypeNull K" "TypeText K \<noteq> TypeNull K" "TypeBlob K \<noteq> TypeNull K"
    "TypeText K \<noteq> TypeInteger K" "TypeBlob K \<noteq> TypeInteger K"
    "TypeText K \<noteq> TypeFloat K" "TypeBlob K \<noteq> TypeFloat K"
  using assms by (auto simp: column_types_ok_def)

lemma Value_accessors:
  assumes "column_types_ok K"
  shows "Value_Int64 K V F (IntegerValue K i) = Some i"
    and "Value_Int64 K V F (TextValue K s) = Some (castTextToInteger s)"
    and "Value_Int64 K V F (BlobValue K s) = Some (castTextToInteger s)"
    and "Value_Text K V F (IntegerValue K i) = Some (FormatInt i)"
  using column_types_nat [OF assms]
  by (simp_all add: Value_Text_def Value_Int64_def IntegerValue_def TextValue_def BlobValue_def
        zero_Value_def Let_def)

text \<open>C36: an integer survives the trip through text: for every 64-bit integer, the text of the
  integer value, stored as a text or as a blob value, reads back as the same integer.\<close>

theorem Value_integer_text_roundtrip:
  assumes "column_types_ok K" and "in_int64 i"
  shows "\<exists>s. Value_Text K V F (IntegerValue K i) = Some s \<and>
    Value_Int64 K V F (TextValue K s) = Some i \<and> Value_Int64 K V F (BlobValue K s) = Some i \<and>
    Value_Int64 K V F (IntegerValue K i) = Some i"
proof -
  have "castTextToInteger (FormatInt i) = i"
    using assms(2)
    by (simp add: castTextToInteger_eq TrimSpace_FormatInt text_integer_FormatInt clamp64_def in_int64_def)
  then show ?thesis by (simp add: Value_accessors [OF assms(1)])
qed

text \<open>The documented type codes.\<close>

definition documented_types :: lib_consts where
  "documented_types c =
     (if c = ''SQLITE_INTEGER'' then 1 else if c = ''SQLITE_FLOAT'' then 2
      else if c = ''SQLITE_TEXT'' then 3 else if c = ''SQLITE_BLOB'' then 4 else 5)"

lemma documented_types_ok: "column_types_ok documented_types"
  by (simp add: column_types_ok_def documented_types_def type_consts)

theorem Value_integer_text_roundtrip_witness:
  "in_int64 (- 42) \<and> (\<forall>V F. \<exists>s. Value_Text documented_types V F (IntegerValue documented_types (- 42)) = Some s \<and>
     Value_Int64 documented_types V F (TextValue documented_types s) = Some (- 42))"
proof -
  have i: "in_int64 (- 42)" by (simp add: in_int64_def)
  with Value_integer_text_roundtrip [OF documented_types_ok i] show ?thesis by blast
qed

end
