(* ===== verification/Series.thy ===== *)
theory Series
  imports Values "HOL-Library.Signed_Division"
begin

text \<open>
  The table-valued function \<open>generate_series\<close> (ext/generateseries/generateseries.go) with the
  types of vtable.go and index_constraint.go it uses: \<open>BestIndex\<close> plans a query, \<open>Filter\<close> starts
  a cursor on the chosen plan, and \<open>Next\<close>, \<open>EOF\<close>, \<open>Column\<close> and \<open>RowID\<close> walk it.  Integers are
  Go's \<open>int64\<close>, with the wrap-around written out.
\<close>

section \<open>Virtual-table types\<close>

record IndexConstraint =
  ic_Column :: int
  ic_Op :: int
  ic_Usable :: bool
  ic_Collation :: gostring
  ic_RValue :: Value
  ic_RValueKnown :: bool

record IndexOrderBy =
  ob_Column :: int
  ob_Desc :: bool

record IndexInputs =
  in_Constraints :: "IndexConstraint list"
  in_OrderBy :: "IndexOrderBy list"
  in_ColumnsUsed :: uint64

record IndexConstraintUsage =
  cu_ArgvIndex :: int
  cu_Omit :: bool

record IndexID =
  id_Num :: int
  id_String :: gostring

text \<open>The estimated cost is a \<open>float64\<close> of which only whole numbers occur.\<close>

record IndexOutputs =
  out_ConstraintUsage :: "IndexConstraintUsage list"
  out_ID :: IndexID
  out_OrderByConsumed :: bool
  out_EstimatedCost :: int
  out_EstimatedRows :: int
  out_UseZeroEstimates :: bool
  out_IndexFlags :: int

definition IndexConstraintEq :: "lib_consts \<Rightarrow> int" where
  "IndexConstraintEq K = K ''SQLITE_INDEX_CONSTRAINT_EQ''"

section \<open>Planning: BestIndex\<close>

text \<open>Columns 0 to 3 are value, start, stop and step.\<close>

record best_index_state =
  bi_idxNum :: int
  bi_startSeen :: bool
  bi_unusableMask :: int
  bi_aIdx :: "int list"

definition bi_init :: best_index_state where
  "bi_init = \<lparr>bi_idxNum = 0, bi_startSeen = False, bi_unusableMask = 0, bi_aIdx = [-1, -1, -1]\<rparr>"

text \<open>One turn of the loop over the constraints; \<open>None\<close> is the panic of \<open>aIdx[col]\<close> out of
  range.\<close>

definition bi_step :: "lib_consts \<Rightarrow> nat \<Rightarrow> IndexConstraint \<Rightarrow> best_index_state \<Rightarrow> best_index_state option" where
  "bi_step K i c st =
     (if ic_Column c < 1 then Some st
      else let col = ic_Column c - 1;
               mask = (if col < 64 then push_bit (nat col) 1 else 0);
               st = (if col = 0 then st\<lparr>bi_startSeen := True\<rparr> else st)
           in if \<not> ic_Usable c then Some (st\<lparr>bi_unusableMask := bi_unusableMask st OR mask\<rparr>)
              else if ic_Op c = IndexConstraintEq K then
                (if 3 \<le> col then None
                 else Some (st\<lparr>bi_idxNum := bi_idxNum st OR mask, bi_aIdx := (bi_aIdx st)[nat col := int i]\<rparr>))
              else Some st)"

fun bi_loop :: "lib_consts \<Rightarrow> nat \<Rightarrow> IndexConstraint list \<Rightarrow> best_index_state \<Rightarrow> best_index_state option" where
  "bi_loop K i [] st = Some st"
| "bi_loop K i (c # cs) st = (case bi_step K i c st of None \<Rightarrow> None | Some st' \<Rightarrow> bi_loop K (Suc i) cs st')"

text \<open>The second loop: the constraints found become the arguments of \<open>Filter\<close>, in the order
  start, stop, step.\<close>

fun bi_assign :: "int \<Rightarrow> int list \<Rightarrow> IndexConstraintUsage list \<Rightarrow> IndexConstraintUsage list" where
  "bi_assign nArg [] us = us"
| "bi_assign nArg (j # js) us =
     (if 0 \<le> j then bi_assign (nArg + 1) js (us[nat j := \<lparr>cu_ArgvIndex = nArg + 1, cu_Omit = True\<rparr>])
      else bi_assign nArg js us)"

definition BestIndex :: "lib_consts \<Rightarrow> IndexInputs \<Rightarrow> (error \<times> IndexOutputs option) option" where
  "BestIndex K inputs =
     (case bi_loop K 0 (in_Constraints inputs) bi_init of
        None \<Rightarrow> None
      | Some st \<Rightarrow>
          (let idxNum = bi_idxNum st;
               outputs = \<lparr>out_ConstraintUsage = bi_assign 0 (bi_aIdx st)
                            (replicate (length (in_Constraints inputs)) \<lparr>cu_ArgvIndex = 0, cu_Omit = False\<rparr>),
                          out_ID = \<lparr>id_Num = idxNum, id_String = ''''\<rparr>,
                          out_OrderByConsumed = False, out_EstimatedCost = 0, out_EstimatedRows = 0,
                          out_UseZeroEstimates = False, out_IndexFlags = 0\<rparr>
           in if \<not> bi_startSeen st then
                Some (Some (ErrorString ''first argument to \"generate_series()\" missing or unusable''), None)
              else if bi_unusableMask st AND NOT idxNum \<noteq> 0 then
                Some (ToError K (ResultConstraint K), None)
              else if idxNum AND 3 = 3 then
                (let outputs = outputs\<lparr>out_EstimatedCost := (if idxNum AND 4 \<noteq> 0 then 1 else 2),
                                       out_EstimatedRows := 1000\<rparr>
                 in if 1 \<le> length (in_OrderBy inputs) \<and> ob_Column (in_OrderBy inputs ! 0) = 0
                    then
                      \<comment> \<open>the source sets bit 8 or 16 of its variable idxNum here, after the copy in outputs.ID was made\<close>
                      Some (None, Some (outputs\<lparr>out_OrderByConsumed := True\<rparr>))
                    else Some (None, Some outputs))
              else Some (None, Some (outputs\<lparr>out_EstimatedRows := 2147483647\<rparr>))))"

section \<open>The cursor\<close>

record cursor =
  isDesc :: bool
  c_rowid :: int
  c_value :: int
  mnValue :: int
  mxValue :: int
  c_step :: int

definition new_cursor :: cursor where
  "new_cursor = \<lparr>isDesc = False, c_rowid = 0, c_value = 0, mnValue = 0, mxValue = 0, c_step = 0\<rparr>"

text \<open>Reading \<open>argv[i].Int64()\<close>: \<open>None\<close> is a panic.\<close>

definition arg_Int64 :: "lib_consts \<Rightarrow> value_lib \<Rightarrow> float_ops \<Rightarrow> Value list \<Rightarrow> nat \<Rightarrow> int option" where
  "arg_Int64 K V F argv i = (if i < length argv then Value_Int64 K V F (argv ! i) else None)"

text \<open>Each of the three bounds: its argument if the plan has the constraint, else the default.\<close>

definition filter_arg ::
  "lib_consts \<Rightarrow> value_lib \<Rightarrow> float_ops \<Rightarrow> Value list \<Rightarrow> bool \<Rightarrow> int \<Rightarrow> nat \<Rightarrow> (int \<times> nat) option" where
  "filter_arg K V F argv present dflt i =
     (if present then map_option (\<lambda>x. (x, Suc i)) (arg_Int64 K V F argv i) else Some (dflt, i))"

definition Filter_start :: "int \<Rightarrow> cursor \<Rightarrow> cursor" where
  "Filter_start num cur =
     (if num AND 8 \<noteq> 0 then
        cur\<lparr>isDesc := True,
            c_value := (if 0 < c_step cur
                        then wrap64 (mxValue cur - (wrap64 (mxValue cur - mnValue cur) smod c_step cur))
                        else mxValue cur),
            c_rowid := 1\<rparr>
      else cur\<lparr>isDesc := False, c_value := mnValue cur, c_rowid := 1\<rparr>)"

definition Filter :: "lib_consts \<Rightarrow> value_lib \<Rightarrow> float_ops \<Rightarrow> IndexID \<Rightarrow> Value list \<Rightarrow> cursor \<Rightarrow> cursor option" where
  "Filter K V F idx argv cur =
     (case filter_arg K V F argv (id_Num idx AND 1 \<noteq> 0) 0 0 of
        None \<Rightarrow> None
      | Some (mn, i) \<Rightarrow>
     (case filter_arg K V F argv (id_Num idx AND 2 \<noteq> 0) 0xffffffff i of
        None \<Rightarrow> None
      | Some (mx, i) \<Rightarrow>
     (case filter_arg K V F argv (id_Num idx AND 4 \<noteq> 0) 1 i of
        None \<Rightarrow> None
      | Some (st, i) \<Rightarrow>
          let num = (if st < 0 \<and> id_Num idx AND 16 = 0 then id_Num idx OR 8 else id_Num idx);
              st = (if st = 0 then 1 else if st < 0 then wrap64 (- st) else st);
              (mn, mx) = (if list_ex (\<lambda>arg. Value_Type K V arg = TypeNull K) argv then (1, 0) else (mn, mx))
          in Some (Filter_start num (cur\<lparr>mnValue := mn, mxValue := mx, c_step := st\<rparr>)))))"

definition cursor_Next :: "cursor \<Rightarrow> cursor" where
  "cursor_Next cur =
     cur\<lparr>c_value := (if isDesc cur then wrap64 (c_value cur - c_step cur) else wrap64 (c_value cur + c_step cur)),
         c_rowid := wrap64 (c_rowid cur + 1)\<rparr>"

definition cursor_EOF :: "cursor \<Rightarrow> bool" where
  "cursor_EOF cur = (if isDesc cur then c_value cur < mnValue cur else mxValue cur < c_value cur)"

text \<open>\<open>None\<close> is the panic \<open>unreachable\<close>.\<close>

definition cursor_Column :: "lib_consts \<Rightarrow> cursor \<Rightarrow> int \<Rightarrow> Value option" where
  "cursor_Column K cur i =
     (if i = 0 then Some (IntegerValue K (c_value cur))
      else if i = 1 then Some (IntegerValue K (mnValue cur))
      else if i = 2 then Some (IntegerValue K (mxValue cur))
      else if i = 3 then Some (IntegerValue K (c_step cur))
      else None)"

definition cursor_RowID :: "cursor \<Rightarrow> int" where
  "cursor_RowID cur = c_rowid cur"

text \<open>The rows a query sees: SQLite calls \<open>EOF\<close>, reads the columns of the row and calls \<open>Next\<close>
  until \<open>EOF\<close> reports true.  The fuel bounds the number of calls of \<open>EOF\<close>.\<close>

fun series_rows :: "nat \<Rightarrow> cursor \<Rightarrow> int list option" where
  "series_rows 0 cur = None"
| "series_rows (Suc n) cur =
     (if cursor_EOF cur then Some []
      else map_option ((#) (c_value cur)) (series_rows n (cursor_Next cur)))"

section \<open>Lemmas: walking the cursor\<close>

lemma series_rows_asc:
  assumes "\<not> isDesc cur" and "0 < c_step cur" and "in_int64 (c_value cur)"
    and "mxValue cur + c_step cur < 2 ^ 63"
    and "c_value cur \<le> mxValue cur + c_step cur"
    and "nat ((mxValue cur - c_value cur) div c_step cur + 1) < n"
  shows "series_rows n cur =
    Some (map (\<lambda>k. c_value cur + int k * c_step cur) [0..<nat ((mxValue cur - c_value cur) div c_step cur + 1)])"
  using assms
proof (induction n arbitrary: cur)
  case 0
  then show ?case by simp
next
  case (Suc n)
  let ?d = "c_step cur" and ?v = "c_value cur" and ?mx = "mxValue cur"
  show ?case
  proof (cases "?mx < ?v")
    case True
    with Suc.prems have "(?mx - ?v) div ?d + 1 \<le> 0" by (simp add: div_neg_pos_less0 add1_zle_eq)
    then show ?thesis using True Suc.prems by (simp add: cursor_EOF_def)
  next
    case False
    let ?cur = "cursor_Next cur"
    have w: "in_int64 (?v + ?d)" using False Suc.prems by (simp add: in_int64_def)
    have nxt: "\<not> isDesc ?cur" "c_step ?cur = ?d" "c_value ?cur = ?v + ?d" "mxValue ?cur = ?mx"
      using Suc.prems w by (simp_all add: cursor_Next_def)
    have dv: "(?mx - (?v + ?d)) div ?d = (?mx - ?v) div ?d - 1"
      using Suc.prems div_mult_self1 [of ?d "?mx - ?v" "-1"] by (simp add: algebra_simps)
    have ge: "0 \<le> (?mx - ?v) div ?d" using False Suc.prems by (simp add: pos_imp_zdiv_nonneg_iff)
    have "series_rows n ?cur = Some (map (\<lambda>k. ?v + ?d + int k * ?d) [0..<nat ((?mx - ?v) div ?d)])"
      using Suc.IH [of ?cur] nxt w False Suc.prems dv ge by (simp add: Suc_nat_eq_nat_zadd1)
    moreover have "[0..<nat ((?mx - ?v) div ?d + 1)] = 0 # map Suc [0..<nat ((?mx - ?v) div ?d)]"
      using ge by (simp add: nat_add_distrib map_Suc_upt upt_conv_Cons)
    ultimately show ?thesis
      using False Suc.prems by (simp add: cursor_EOF_def o_def algebra_simps)
  qed
qed

lemma series_rows_desc:
  assumes "isDesc cur" and "0 < c_step cur" and "in_int64 (c_value cur)"
    and "- (2 ^ 63) \<le> mnValue cur - c_step cur"
    and "mnValue cur - c_step cur \<le> c_value cur"
    and "nat ((c_value cur - mnValue cur) div c_step cur + 1) < n"
  shows "series_rows n cur =
    Some (map (\<lambda>k. c_value cur - int k * c_step cur) [0..<nat ((c_value cur - mnValue cur) div c_step cur + 1)])"
  using assms
proof (induction n arbitrary: cur)
  case 0
  then show ?case by simp
next
  case (Suc n)
  let ?d = "c_step cur" and ?v = "c_value cur" and ?mn = "mnValue cur"
  show ?case
  proof (cases "?v < ?mn")
    case True
    with Suc.prems have "(?v - ?mn) div ?d + 1 \<le> 0" by (simp add: div_neg_pos_less0 add1_zle_eq)
    then show ?thesis using True Suc.prems by (simp add: cursor_EOF_def)
  next
    case False
    let ?cur = "cursor_Next cur"
    have w: "in_int64 (?v - ?d)" using False Suc.prems by (simp add: in_int64_def)
    have nxt: "isDesc ?cur" "c_step ?cur = ?d" "c_value ?cur = ?v - ?d" "mnValue ?cur = ?mn"
      using Suc.prems w by (simp_all add: cursor_Next_def)
    have dv: "(?v - ?d - ?mn) div ?d = (?v - ?mn) div ?d - 1"
      using Suc.prems div_mult_self1 [of ?d "?v - ?mn" "-1"] by (simp add: algebra_simps)
    have ge: "0 \<le> (?v - ?mn) div ?d" using False Suc.prems by (simp add: pos_imp_zdiv_nonneg_iff)
    have "series_rows n ?cur = Some (map (\<lambda>k. ?v - ?d - int k * ?d) [0..<nat ((?v - ?mn) div ?d)])"
      using Suc.IH [of ?cur] nxt w False Suc.prems dv ge by (simp add: Suc_nat_eq_nat_zadd1)
    moreover have "[0..<nat ((?v - ?mn) div ?d + 1)] = 0 # map Suc [0..<nat ((?v - ?mn) div ?d)]"
      using ge by (simp add: nat_add_distrib map_Suc_upt upt_conv_Cons)
    ultimately show ?thesis
      using False Suc.prems by (simp add: cursor_EOF_def o_def algebra_simps)
  qed
qed

section \<open>Specification: arithmetic progressions\<close>

definition series_spec :: "int \<Rightarrow> int \<Rightarrow> int \<Rightarrow> int list" where
  "series_spec start stop d = map (\<lambda>k. start + int k * d) [0..<nat ((stop - start) div d + 1)]"

lemma length_series_spec [simp]: "length (series_spec start stop d) = nat ((stop - start) div d + 1)"
  by (simp add: series_spec_def)

lemma rev_series_spec:
  assumes "0 < d" and "start \<le> stop"
  shows "rev (series_spec start stop d) =
    map (\<lambda>k. stop - (stop - start) mod d - int k * d) [0..<nat ((stop - start) div d + 1)]"
proof (rule nth_equalityI)
  fix k assume "k < length (rev (series_spec start stop d))"
  then have k: "int k < (stop - start) div d + 1" by simp
  have "stop - start = (stop - start) div d * d + (stop - start) mod d" by simp
  then have e: "stop - (stop - start) mod d = start + (stop - start) div d * d" by linarith
  have i: "int (nat ((stop - start) div d + 1) - Suc k) = (stop - start) div d - int k"
    using k by linarith
  show "rev (series_spec start stop d) ! k =
    map (\<lambda>k. stop - (stop - start) mod d - int k * d) [0..<nat ((stop - start) div d + 1)] ! k"
    using k by (simp add: rev_nth series_spec_def i e left_diff_distrib)
qed simp

text \<open>The plan of a call with all three arguments: every constraint present.\<close>

abbreviation plan_all :: IndexID where
  "plan_all \<equiv> \<lparr>id_Num = 7, id_String = ''''\<rparr>"

lemma IntegerValue_not_null:
  assumes "column_types_ok K"
  shows "Value_Type K V (IntegerValue K x) \<noteq> TypeNull K"
  using column_types_nat(1,4,7) [OF assms] by (simp add: Value_Type_def IntegerValue_def zero_Value_def)

lemma Filter_integers:
  assumes "column_types_ok K"
  shows "Filter K V F plan_all (map (IntegerValue K) [a, b, s]) cur =
    Some (Filter_start (if s < 0 then 15 else 7)
      (cur\<lparr>mnValue := a, mxValue := b, c_step := (if s = 0 then 1 else if s < 0 then wrap64 (- s) else s)\<rparr>))"
  using IntegerValue_not_null [OF assms] Value_accessors(1) [OF assms]
  by (simp add: Filter_def filter_arg_def arg_Int64_def Let_def)

section \<open>Lemmas: the plan\<close>

text \<open>A constraint the plan can use for input \<open>b\<close> (0 start, 1 stop, 2 step), and the index of the
  last one, \<open>-1\<close> if there is none.\<close>

definition eq_on :: "lib_consts \<Rightarrow> nat \<Rightarrow> IndexConstraint \<Rightarrow> bool" where
  "eq_on K b c \<longleftrightarrow> ic_Column c = int b + 1 \<and> ic_Usable c \<and> ic_Op c = IndexConstraintEq K"

definition last_idx :: "lib_consts \<Rightarrow> nat \<Rightarrow> IndexConstraint list \<Rightarrow> int" where
  "last_idx K b cs = fold (\<lambda>(j, c) r. if eq_on K b c then int j else r) (enumerate 0 cs) (-1)"

lemma last_idx_Nil [simp]: "last_idx K b [] = -1"
  by (simp add: last_idx_def)

lemma last_idx_snoc: "last_idx K b (cs @ [c]) = (if eq_on K b c then int (length cs) else last_idx K b cs)"
  by (simp add: last_idx_def enumerate_append_eq)

lemma last_idx_cases:
  "last_idx K b cs = -1 \<or> (\<exists>j < length cs. last_idx K b cs = int j \<and> eq_on K b (cs ! j))"
proof (induction cs rule: rev_induct)
  case (snoc c cs)
  show ?case
  proof (cases "eq_on K b c")
    case True
    then show ?thesis by (auto simp: last_idx_snoc nth_append intro!: exI [of _ "length cs"])
  next
    case False
    then show ?thesis using snoc by (auto simp: last_idx_snoc nth_append intro: less_SucI)
  qed
qed simp

lemma last_idx_bounds: "last_idx K b cs < int (length cs)" "0 \<le> last_idx K b cs \<or> last_idx K b cs = -1"
  using last_idx_cases [of K b cs] by auto

lemma last_idx_distinct: "0 \<le> last_idx K b cs \<Longrightarrow> last_idx K b cs = last_idx K b' cs \<Longrightarrow> b = b'"
  using last_idx_cases [of K b cs] last_idx_cases [of K b' cs] by (auto simp: eq_on_def)

definition bi_inv :: "lib_consts \<Rightarrow> IndexConstraint list \<Rightarrow> best_index_state \<Rightarrow> bool" where
  "bi_inv K cs st \<longleftrightarrow>
     bi_aIdx st = [last_idx K 0 cs, last_idx K 1 cs, last_idx K 2 cs] \<and>
     (\<forall>b. bit (bi_idxNum st) b \<longleftrightarrow> b < 3 \<and> 0 \<le> last_idx K b cs)"

lemma bi_inv_init: "bi_inv K [] bi_init"
  by (simp add: bi_inv_def bi_init_def)

lemma bi_step_inv:
  assumes "bi_step K (length cs) c st = Some st'" and "bi_inv K cs st"
  shows "bi_inv K (cs @ [c]) st'"
proof -
  let ?b = "nat (ic_Column c - 1)"
  consider (skip) "\<forall>b. \<not> eq_on K b c" "bi_aIdx st' = bi_aIdx st" "bi_idxNum st' = bi_idxNum st"
    | (eq) b where "b < 3" "eq_on K b c" "bi_aIdx st' = (bi_aIdx st)[b := int (length cs)]"
        "bi_idxNum st' = bi_idxNum st OR push_bit b 1"
  proof (cases "1 \<le> ic_Column c \<and> ic_Usable c \<and> ic_Op c = IndexConstraintEq K")
    case True
    then show ?thesis
      using that(2) [of ?b] assms(1) by (auto simp: bi_step_def eq_on_def Let_def split: if_splits)
  next
    case False
    then show ?thesis
      using that(1) assms(1) by (auto simp: bi_step_def eq_on_def Let_def split: if_splits)
  qed
  then show ?thesis
  proof cases
    case skip
    then show ?thesis using assms(2) by (simp add: bi_inv_def last_idx_snoc)
  next
    case eq
    then have "eq_on K b' c \<longleftrightarrow> b' = b" for b' by (auto simp: eq_on_def)
    moreover have "b = 0 \<or> b = 1 \<or> b = 2" using eq(1) by linarith
    ultimately show ?thesis
      using assms(2) eq by (auto simp: bi_inv_def last_idx_snoc bit_simps)
  qed
qed

lemma bi_loop_inv:
  assumes "bi_loop K (length ps) cs st = Some st'" and "bi_inv K ps st"
  shows "bi_inv K (ps @ cs) st'"
  using assms
proof (induction cs arbitrary: ps st)
  case (Cons c cs)
  then obtain st1 where "bi_step K (length ps) c st = Some st1"
    and "bi_loop K (length (ps @ [c])) cs st1 = Some st'" by (auto split: option.splits)
  with Cons.IH [of "ps @ [c]" st1] Cons.prems(2) bi_step_inv show ?case by simp
qed simp

text \<open>The contract of \<open>xBestIndex\<close> and \<open>xFilter\<close>: a constraint whose \<open>ArgvIndex\<close> is \<open>k > 0\<close> has its
  right-hand side in \<open>argv[k - 1]\<close>.\<close>

definition argv_matches :: "IndexOutputs \<Rightarrow> Value list \<Rightarrow> Value list \<Rightarrow> bool" where
  "argv_matches out rhs argv \<longleftrightarrow>
     list_all (\<lambda>(u, r). 0 < cu_ArgvIndex u \<longrightarrow>
       nat (cu_ArgvIndex u) \<le> length argv \<and> argv ! (nat (cu_ArgvIndex u) - 1) = r)
     (zip (out_ConstraintUsage out) rhs)"

lemma argv_matchesD:
  assumes "argv_matches out rhs argv" and "j < length (out_ConstraintUsage out)" and "j < length rhs"
    and "cu_ArgvIndex (out_ConstraintUsage out ! j) = int k + 1"
  shows "k < length argv \<and> argv ! k = rhs ! j"
  using assms by (force simp: argv_matches_def list_all_length nat_add_distrib)

text \<open>What the query asks for: the value of the last usable equality on an input, or a default.\<close>

definition series_input :: "lib_consts \<Rightarrow> value_lib \<Rightarrow> float_ops \<Rightarrow> IndexConstraint list \<Rightarrow> Value list \<Rightarrow> nat \<Rightarrow> int \<Rightarrow> int option" where
  "series_input K V F cs rhs b dflt =
     (if last_idx K b cs < 0 then Some dflt else Value_Int64 K V F (rhs ! nat (last_idx K b cs)))"

lemma BestIndex_plan:
  assumes "BestIndex K inp = Some (None, Some out)"
  shows "(\<forall>b. bit (id_Num (out_ID out)) b \<longleftrightarrow> b < 3 \<and> 0 \<le> last_idx K b (in_Constraints inp)) \<and>
    out_ConstraintUsage out =
      bi_assign 0 (map (\<lambda>b. last_idx K b (in_Constraints inp)) [0, 1, 2])
        (replicate (length (in_Constraints inp)) \<lparr>cu_ArgvIndex = 0, cu_Omit = False\<rparr>)"
proof -
  from assms obtain st where st: "bi_loop K 0 (in_Constraints inp) bi_init = Some st"
    by (auto simp: BestIndex_def split: option.splits)
  then have "bi_inv K (in_Constraints inp) st"
    using bi_loop_inv [of K "[]"] bi_inv_init by simp
  moreover have "out_ID out = \<lparr>id_Num = bi_idxNum st, id_String = ''''\<rparr> \<and>
    out_ConstraintUsage out = bi_assign 0 (bi_aIdx st)
      (replicate (length (in_Constraints inp)) \<lparr>cu_ArgvIndex = 0, cu_Omit = False\<rparr>)"
    using assms st by (auto simp: BestIndex_def Let_def split: if_splits)
  ultimately show ?thesis by (simp add: bi_inv_def)
qed

lemma length_bi_assign [simp]: "length (bi_assign n js us) = length us"
  by (induction n js us rule: bi_assign.induct) simp_all

lemma bi_assign_other: "int j \<notin> set js \<Longrightarrow> bi_assign n js us ! j = us ! j"
  by (induction n js us rule: bi_assign.induct) (auto simp: nth_list_update)

text \<open>The k-th input present in the plan gets argument \<open>k\<close>.\<close>

lemma bi_assign_nth:
  assumes "distinct (filter ((\<le>) 0) js)" and "\<forall>j \<in> set js. j < int (length us)"
    and "b < length js" and "0 \<le> js ! b"
  shows "cu_ArgvIndex (bi_assign n js us ! nat (js ! b)) = n + 1 + int (length (filter ((\<le>) 0) (take b js)))"
  using assms
proof (induction n js us arbitrary: b rule: bi_assign.induct)
  case (2 n j js us)
  show ?case
  proof (cases b)
    case 0
    with 2 show ?thesis by (auto simp: bi_assign_other)
  next
    case (Suc b')
    with 2 show ?thesis by (auto simp: algebra_simps)
  qed
qed simp

lemma filter_arg_input:
  assumes "series_input K V F cs rhs b dflt = Some x"
    and "0 \<le> last_idx K b cs \<Longrightarrow> i < length argv \<and> argv ! i = rhs ! nat (last_idx K b cs)"
  shows "filter_arg K V F argv (0 \<le> last_idx K b cs) dflt i =
    Some (x, if 0 \<le> last_idx K b cs then Suc i else i)"
  using assms by (auto simp: series_input_def filter_arg_def arg_Int64_def)

lemma and_bit_iff: "(n :: int) AND 1 \<noteq> 0 \<longleftrightarrow> bit n 0" "n AND 2 \<noteq> 0 \<longleftrightarrow> bit n 1" "n AND 4 \<noteq> 0 \<longleftrightarrow> bit n 2"
  "n AND 8 \<noteq> 0 \<longleftrightarrow> bit n 3" "n AND 16 \<noteq> 0 \<longleftrightarrow> bit n 4"
  using and_exp_eq_0_iff_not_bit [of n 0] and_exp_eq_0_iff_not_bit [of n 1] and_exp_eq_0_iff_not_bit [of n 2]
    and_exp_eq_0_iff_not_bit [of n 3] and_exp_eq_0_iff_not_bit [of n 4] by simp_all

lemma upt_3: "[0..<3] = [0, 1, 2 :: nat]"
  by (simp add: numeral_3_eq_3)

lemma plan_args:
  assumes "BestIndex K inp = Some (None, Some out)" and "argv_matches out rhs argv"
    and "length rhs = length (in_Constraints inp)" and "b < 3"
    and "0 \<le> last_idx K b (in_Constraints inp)"
    and "i = length (filter (\<lambda>b'. 0 \<le> last_idx K b' (in_Constraints inp)) [0..<b])"
  shows "i < length argv \<and> argv ! i = rhs ! nat (last_idx K b (in_Constraints inp))"
proof -
  let ?cs = "in_Constraints inp" and ?l = "\<lambda>b. last_idx K b (in_Constraints inp)"
  let ?js = "map ?l [0..<3]" and ?us = "out_ConstraintUsage out"
  have us: "?us = bi_assign 0 ?js (replicate (length ?cs) \<lparr>cu_ArgvIndex = 0, cu_Omit = False\<rparr>)"
    using BestIndex_plan [OF assms(1)] by (simp add: upt_3)
  have js: "distinct (filter ((\<le>) 0) ?js)" "\<forall>j \<in> set ?js. j < int (length ?cs)"
    using last_idx_distinct [of K _ ?cs] last_idx_bounds(1) [of K _ ?cs]
    by (auto simp: filter_map distinct_map inj_on_def)
  have "cu_ArgvIndex (?us ! nat (?l b)) = int i + 1"
    using bi_assign_nth [of ?js "replicate (length ?cs) \<lparr>cu_ArgvIndex = 0, cu_Omit = False\<rparr>" b 0] js assms(4,5)
    by (simp add: us assms(6) take_map filter_map o_def)
  moreover have "nat (?l b) < length ?cs" using last_idx_bounds(1) [of K b ?cs] assms(5) by linarith
  ultimately show ?thesis
    using argv_matchesD [OF assms(2), of "nat (?l b)" i] assms(3) by (simp add: us)
qed

section \<open>Properties\<close>






text \<open>The constraints of \<open>generate_series(2, 9, -3)\<close>, listed as stop, start, step, and their
  right-hand sides.\<close>

definition example_constraint :: "int \<Rightarrow> IndexConstraint" where
  "example_constraint c = \<lparr>ic_Column = c, ic_Op = IndexConstraintEq documented_types, ic_Usable = True,
     ic_Collation = '''', ic_RValue = zero_Value, ic_RValueKnown = False\<rparr>"

definition example_inputs :: "bool \<Rightarrow> IndexInputs" where
  "example_inputs desc = \<lparr>in_Constraints = map example_constraint [2, 1, 3],
     in_OrderBy = [\<lparr>ob_Column = 0, ob_Desc = desc\<rparr>], in_ColumnsUsed = 1\<rparr>"

definition example_outputs :: IndexOutputs where
  "example_outputs = \<lparr>out_ConstraintUsage =
       [\<lparr>cu_ArgvIndex = 2, cu_Omit = True\<rparr>, \<lparr>cu_ArgvIndex = 1, cu_Omit = True\<rparr>, \<lparr>cu_ArgvIndex = 3, cu_Omit = True\<rparr>],
     out_ID = plan_all, out_OrderByConsumed = True, out_EstimatedCost = 1, out_EstimatedRows = 1000,
     out_UseZeroEstimates = False, out_IndexFlags = 0\<rparr>"

lemma example_BestIndex: "BestIndex documented_types (example_inputs desc) = Some (None, Some example_outputs)"
  by (simp add: BestIndex_def example_inputs_def example_constraint_def example_outputs_def bi_init_def
      bi_step_def Let_def)

lemma example_last_idx:
  "last_idx documented_types 0 (in_Constraints (example_inputs desc)) = 1"
  "last_idx documented_types (Suc 0) (in_Constraints (example_inputs desc)) = 0"
  "last_idx documented_types 2 (in_Constraints (example_inputs desc)) = 2"
  by (simp_all add: last_idx_def example_inputs_def example_constraint_def eq_on_def)


section \<open>What the model shows about the corner cases\<close>

text \<open>The plan never carries the order bits 8 and 16, although \<open>OrderByConsumed\<close> promises the order:
  the query with \<open>ORDER BY value DESC\<close> gets the same plan as the ascending one.\<close>

lemma BestIndex_order_bits_lost:
  assumes "BestIndex K inp = Some (None, Some out)"
  shows "\<not> bit (id_Num (out_ID out)) 3 \<and> \<not> bit (id_Num (out_ID out)) 4"
  using BestIndex_plan [OF assms] by simp

lemma BestIndex_ignores_desc:
  "BestIndex documented_types (example_inputs True) = BestIndex documented_types (example_inputs False) \<and>
   out_OrderByConsumed example_outputs"
  by (simp add: example_BestIndex) (simp add: example_outputs_def)

text \<open>A NULL argument is meant to give no rows; with a step of -2 it gives one.\<close>

lemma Value_Type_null: "Value_Type K V zero_Value = TypeNull K"
  by (simp add: Value_Type_def zero_Value_def)

lemma Value_Int64_null: "Value_Int64 documented_types V F zero_Value = Some 0"
  by (simp add: Value_Int64_def zero_Value_def documented_types_def type_consts Let_def)

lemma Filter_null_descending_row:
  "map_option (series_rows 3) (Filter documented_types V F plan_all
     [zero_Value, IntegerValue documented_types 9, IntegerValue documented_types (- 2)] new_cursor)
   = Some (Some [1])"
  by (simp add: Filter_def filter_arg_def arg_Int64_def Value_accessors(1) [OF documented_types_ok]
      Value_Int64_null Value_Type_null Filter_start_def cursor_EOF_def cursor_Next_def new_cursor_def
      in_int64_def numeral_3_eq_3 signed_modulo_int_def signed_divide_int_def Let_def)

text \<open>A series up to the largest 64-bit integer never ends.\<close>

lemma series_rows_max_diverges:
  assumes "\<not> isDesc cur" and "mxValue cur = 2 ^ 63 - 1" and "in_int64 (c_value cur)"
  shows "series_rows n cur = None"
  using assms
proof (induction n arbitrary: cur)
  case (Suc n)
  have "series_rows n (cursor_Next cur) = None"
    using Suc.prems by (intro Suc.IH) (simp_all add: cursor_Next_def)
  then show ?case using Suc.prems by (simp add: cursor_EOF_def in_int64_def)
qed simp

end
