(* ===== verification/UnlockNote.thy ===== *)
theory UnlockNote
  imports Result
begin

text \<open>
  The condition variable of blocking_step.go.  A connection that meets a shared-cache lock registers
  its note with \<open>sqlite3_unlock_notify\<close> and blocks on the mutex \<open>wait\<close>, which is held while the
  note has not been fired.  SQLite and the environment are the parameter \<open>notify_lib\<close>: the
  registration returns a code and may run the callback at once, and \<open>un_block\<close> is what happens
  while the connection sleeps: the world at the moment the note is fired, \<open>None\<close> if it never is.
\<close>

record unlockNote =
  un_wait :: bool
  un_fired :: bool

record 'w notify_lib =
  x_unlock_notify :: "'w \<Rightarrow> int \<times> bool \<times> 'w"
  un_block :: "'w \<Rightarrow> 'w option"

definition allocUnlockNote :: unlockNote where
  "allocUnlockNote = \<lparr>un_wait = True, un_fired = False\<rparr>"

definition fireUnlockNote :: "unlockNote \<Rightarrow> unlockNote" where
  "fireUnlockNote un = (if \<not> un_fired un then un\<lparr>un_fired := True, un_wait := False\<rparr> else un)"

text \<open>The callback gets an array of pointers to notes.\<close>

fun unlockNotifyCallback :: "nat list \<Rightarrow> (nat \<Rightarrow> unlockNote) \<Rightarrow> nat \<Rightarrow> unlockNote" where
  "unlockNotifyCallback [] h = h"
| "unlockNotifyCallback (p # ps) h = unlockNotifyCallback ps (h(p := fireUnlockNote (h p)))"

text \<open>\<open>None\<close>: the call never returns, because it locks a mutex that nobody releases.\<close>

definition waitForUnlockNotify ::
  "lib_consts \<Rightarrow> ('w, 'm) notify_lib_scheme \<Rightarrow> unlockNote \<Rightarrow> 'w \<Rightarrow> (int \<times> unlockNote \<times> 'w) option" where
  "waitForUnlockNotify K N un w =
     (case (if un_fired un then (if un_wait un then None else Some (un\<lparr>un_wait := True\<rparr>)) else Some un) of
        None \<Rightarrow> None
      | Some un \<Rightarrow>
          (let un = un\<lparr>un_fired := False\<rparr>;
               (res, called, w) = x_unlock_notify N w;
               un = (if called then fireUnlockNote un else un)
           in if res = ResultOK K then
                (if un_fired un then Some (res, un, w)
                 else (case un_block N w of
                         None \<Rightarrow> None
                       | Some w' \<Rightarrow> Some (res, fireUnlockNote un, w')))
              else Some (res, un, w)))"

section \<open>The invariant\<close>

text \<open>\<open>wait\<close> is held exactly while the note has not been fired.\<close>

definition note_ok :: "unlockNote \<Rightarrow> bool" where
  "note_ok un \<longleftrightarrow> un_wait un = (\<not> un_fired un)"

lemma note_ok_alloc [simp]: "note_ok allocUnlockNote"
  by (simp add: note_ok_def allocUnlockNote_def)

lemma note_ok_fire [simp]: "note_ok un \<Longrightarrow> note_ok (fireUnlockNote un)"
  by (simp add: note_ok_def fireUnlockNote_def)

lemma fired_fire [simp]: "un_fired (fireUnlockNote un)"
  by (simp add: fireUnlockNote_def)

lemma fire_idem [simp]: "fireUnlockNote (fireUnlockNote un) = fireUnlockNote un"
  by (simp add: fireUnlockNote_def)

lemma unlockNotifyCallback_apply:
  "unlockNotifyCallback ps h q = (if q \<in> set ps then fireUnlockNote (h q) else h q)"
  by (induction ps arbitrary: h) auto

lemma waitForUnlockNotify_ok:
  assumes "note_ok un"
  shows "waitForUnlockNotify K N un w =
    (case x_unlock_notify N w of (res, called, w1) \<Rightarrow>
       if res = ResultOK K \<and> \<not> called
       then map_option (\<lambda>w2. (res, \<lparr>un_wait = False, un_fired = True, \<dots> = unlockNote.more un\<rparr>, w2)) (un_block N w1)
       else Some (res, \<lparr>un_wait = \<not> called, un_fired = called, \<dots> = unlockNote.more un\<rparr>, w1))"
  using assms
  by (cases un) (auto simp: waitForUnlockNotify_def note_ok_def fireUnlockNote_def Let_def split: option.splits prod.splits)

lemma waitForUnlockNotify_note_ok:
  assumes "note_ok un" and "waitForUnlockNotify K N un w = Some (res, un', w')"
  shows "note_ok un'"
  using assms by (auto simp: waitForUnlockNotify_ok note_ok_def split: prod.splits if_splits)

text \<open>The blocking wait ends when SQLite refuses the registration, runs the callback at once or
  fires the note later: with the invariant, the note itself is never the reason to hang.\<close>

lemma waitForUnlockNotify_returns:
  assumes "note_ok un" and "\<And>w. un_block N w \<noteq> None"
  shows "\<exists>r. waitForUnlockNotify K N un w = Some r"
  using assms by (cases "x_unlock_notify N w") (auto simp: waitForUnlockNotify_ok)

end
