(* ===== verification/Stmt.thy ===== *)
theory Stmt
  imports UnlockNote Values "HOL-Library.Monad_Syntax"
begin

text \<open>
  Prepared statements (sqlite.go, from \<open>type Stmt\<close> on) and the part of \<open>Conn\<close> they touch.

  SQLite itself is the parameter \<open>sqlite_lib\<close>: functions on an opaque world \<open>'w\<close>, one per C function
  the code calls.  \<open>x_done\<close> is a poll of the channel given to \<open>SetInterrupt\<close>,
  \<open>x_timer_first\<close> a select between a timer and that channel, and \<open>range_order\<close> the order in which Go
  ranges over a map.  A \<open>*Stmt\<close> is a reference into the heap of the connection.

  An operation maps a connection to its result and the new connection.  Its value is \<open>None\<close> when the
  call does not return: it panics on the nil connection of a finalized statement, or it never ends.
\<close>

section \<open>SQLite as a parameter\<close>

text \<open>The arguments of the \<open>sqlite3_bind\<close> family; a text or blob carries the 32-bit length that is
  passed beside the pointer.\<close>

datatype bind_arg =
    B_int64 int
  | B_double uint64
  | B_text gostring int
  | B_blob gostring int
  | B_null
  | B_zeroblob uint64

record 'w sqlite_lib = "'w notify_lib" +
  x_step :: "nat \<Rightarrow> 'w \<Rightarrow> int \<times> 'w"
  x_reset :: "nat \<Rightarrow> 'w \<Rightarrow> int \<times> 'w"
  x_finalize :: "nat \<Rightarrow> 'w \<Rightarrow> int \<times> 'w"
  x_clear_bindings :: "nat \<Rightarrow> 'w \<Rightarrow> int \<times> 'w"
  x_bind :: "nat \<Rightarrow> int \<Rightarrow> bind_arg \<Rightarrow> 'w \<Rightarrow> int \<times> 'w"
  x_malloc :: "nat \<Rightarrow> 'w \<Rightarrow> bool \<times> 'w"
  x_cstring :: "gostring \<Rightarrow> 'w \<Rightarrow> error \<times> 'w"
  x_prepare_v3 :: "gostring \<Rightarrow> int \<Rightarrow> 'w \<Rightarrow> (int \<times> nat \<times> nat) \<times> 'w"
  x_bind_parameter_count :: "nat \<Rightarrow> 'w \<Rightarrow> nat"
  x_bind_parameter_name :: "nat \<Rightarrow> nat \<Rightarrow> 'w \<Rightarrow> gostring option"
  x_column_count :: "nat \<Rightarrow> 'w \<Rightarrow> nat"
  x_column_name :: "nat \<Rightarrow> nat \<Rightarrow> 'w \<Rightarrow> gostring option"
  x_data_count :: "nat \<Rightarrow> 'w \<Rightarrow> nat"
  x_column_int :: "nat \<Rightarrow> int \<Rightarrow> 'w \<Rightarrow> int"
  x_column_int64 :: "nat \<Rightarrow> int \<Rightarrow> 'w \<Rightarrow> int"
  x_column_double :: "nat \<Rightarrow> int \<Rightarrow> 'w \<Rightarrow> uint64"
  x_column_type :: "nat \<Rightarrow> int \<Rightarrow> 'w \<Rightarrow> int"
  x_column_bytes :: "nat \<Rightarrow> int \<Rightarrow> 'w \<Rightarrow> nat"
  x_column_blob :: "nat \<Rightarrow> int \<Rightarrow> 'w \<Rightarrow> gostring option"
  x_column_text :: "nat \<Rightarrow> int \<Rightarrow> 'w \<Rightarrow> gostring option"
  x_column_database_name :: "nat \<Rightarrow> int \<Rightarrow> 'w \<Rightarrow> gostring"
  x_column_table_name :: "nat \<Rightarrow> int \<Rightarrow> 'w \<Rightarrow> gostring"
  x_error_offset :: "'w \<Rightarrow> int"
  x_errmsg :: "'w \<Rightarrow> gostring"
  x_done :: "nat \<Rightarrow> 'w \<Rightarrow> bool \<times> 'w"
  x_close :: "'w \<Rightarrow> int \<times> 'w"
  x_busy_handler :: "bool \<Rightarrow> 'w \<Rightarrow> 'w"
  x_busy_timeout :: "int \<Rightarrow> 'w \<Rightarrow> 'w"
  x_timer_first :: "nat \<Rightarrow> nat \<Rightarrow> 'w \<Rightarrow> bool \<times> 'w"
  x_get_autocommit :: "'w \<Rightarrow> bool"
  range_order :: "(gostring \<times> nat) list \<Rightarrow> (gostring \<times> nat) list"

section \<open>State\<close>

text \<open>\<open>s_conn\<close>: whether the pointer to the connection is set.  Go maps are association lists with
  one entry for a key.\<close>

record Stmt =
  s_conn :: bool
  s_ptr :: nat
  s_query :: gostring
  s_bindNames :: "gostring list"
  s_colNames :: "(gostring \<times> nat) list"
  s_bindErr :: error
  s_prepInterrupt :: bool
  s_lastHasRow :: bool

text \<open>\<open>c_registered\<close>, \<open>c_busyHandler\<close> and \<open>c_authorizer\<close>: whether the connection has an entry in the global
  tables \<open>allConns\<close>, \<open>busyHandlers\<close> and \<open>authorizers\<close>.\<close>

record 'w Conn =
  c_stmts :: "(gostring \<times> nat) list"
  c_closed :: bool
  c_cancelCh :: bool
  c_doneCh :: "nat option"
  c_note :: unlockNote
  c_heap :: "nat \<Rightarrow> Stmt"
  c_next :: nat
  c_registered :: bool
  c_busyHandler :: bool
  c_authorizer :: bool
  c_world :: 'w

abbreviation stmt_at :: "'w Conn \<Rightarrow> nat \<Rightarrow> Stmt" where
  "stmt_at c s \<equiv> c_heap c s"

definition upd_stmt :: "nat \<Rightarrow> (Stmt \<Rightarrow> Stmt) \<Rightarrow> 'w Conn \<Rightarrow> 'w Conn" where
  "upd_stmt s f c = c\<lparr>c_heap := (c_heap c)(s := f (c_heap c s))\<rparr>"

text \<open>A call into SQLite: the world changes, the Go state does not.\<close>

definition lib_call :: "('w \<Rightarrow> 'a \<times> 'w) \<Rightarrow> 'w Conn \<Rightarrow> 'a \<times> 'w Conn" where
  "lib_call f c = (let (r, w) = f (c_world c) in (r, c\<lparr>c_world := w\<rparr>))"

section \<open>Errors\<close>

text \<open>\<open>fmt.Errorf\<close> with the verb \<open>%w\<close>: never nil, even when its argument is.\<close>

definition errorf_w :: "gostring \<Rightarrow> error \<Rightarrow> error" where
  "errorf_w fmt err = Some (case err of Some e \<Rightarrow> Errorf fmt e | None \<Rightarrow> ErrorString fmt)"

definition fmt_reset :: gostring where "fmt_reset = ''sqlite: reset: %w''"
definition fmt_step :: gostring where "fmt_step = ''sqlite: step: %w''"
definition fmt_finalize :: gostring where "fmt_finalize = ''sqlite: finalize: %w''"
definition fmt_clear :: gostring where "fmt_clear = ''sqlite: clear bindings: %w''"
definition err_nomem :: go_error where "err_nomem = ErrorString ''out of memory''"

definition conn_extreserr :: "lib_consts \<Rightarrow> ('w, 'm) sqlite_lib_scheme \<Rightarrow> int \<Rightarrow> 'w Conn \<Rightarrow> error" where
  "conn_extreserr K L res c = extreserr K res (x_error_offset L (c_world c)) (x_errmsg L (c_world c))"

section \<open>Interrupts and the unlock note\<close>

text \<open>A nil channel is never ready.\<close>

definition Conn_interrupted :: "lib_consts \<Rightarrow> ('w, 'm) sqlite_lib_scheme \<Rightarrow> 'w Conn \<Rightarrow> error \<times> 'w Conn" where
  "Conn_interrupted K L c = (case c_doneCh c of
     None \<Rightarrow> (None, c)
   | Some ch \<Rightarrow> (let (ready, c') = lib_call (x_done L ch) c
                 in (if ready then ToError K (ResultInterrupt K) else None, c')))"

definition Stmt_interrupted ::
  "lib_consts \<Rightarrow> ('w, 'm) sqlite_lib_scheme \<Rightarrow> nat \<Rightarrow> 'w Conn \<Rightarrow> (error \<times> 'w Conn) option" where
  "Stmt_interrupted K L s c =
     (if s_prepInterrupt (stmt_at c s) then Some (ToError K (ResultInterrupt K), c)
      else if s_conn (stmt_at c s) then Some (Conn_interrupted K L c)
      else None)"

definition Conn_wait :: "lib_consts \<Rightarrow> ('w, 'm) sqlite_lib_scheme \<Rightarrow> 'w Conn \<Rightarrow> (int \<times> 'w Conn) option" where
  "Conn_wait K L c = map_option (\<lambda>(res, un, w). (res, c\<lparr>c_note := un, c_world := w\<rparr>))
     (waitForUnlockNotify K L (c_note c) (c_world c))"

section \<open>Finalize, Reset, ClearBindings\<close>

definition map_delete :: "gostring \<Rightarrow> (gostring \<times> 'b) list \<Rightarrow> (gostring \<times> 'b) list" where
  "map_delete q m = filter (\<lambda>(k, _). k \<noteq> q) m"

definition Finalize ::
  "lib_consts \<Rightarrow> ('w, 'm) sqlite_lib_scheme \<Rightarrow> nat \<Rightarrow> 'w Conn \<Rightarrow> (error \<times> 'w Conn) option" where
  "Finalize K L s c =
     (if \<not> s_conn (stmt_at c s) then None
      else let q = s_query (stmt_at c s);
               c = (if map_of (c_stmts c) q = Some s then c\<lparr>c_stmts := map_delete q (c_stmts c)\<rparr> else c);
               (res, c) = lib_call (x_finalize L (s_ptr (stmt_at c s))) c;
               c = upd_stmt s (\<lambda>st. st\<lparr>s_conn := False\<rparr>) c
           in Some (wrap_error fmt_finalize (ToError K res), c))"

text \<open>The retry loop of \<open>Reset\<close>.\<close>

partial_function (option) Reset_loop ::
  "lib_consts \<Rightarrow> ('w, 'm) sqlite_lib_scheme \<Rightarrow> nat \<Rightarrow> 'w Conn \<Rightarrow> (error \<times> 'w Conn) option" where
  "Reset_loop K L p c =
     (case lib_call (x_reset L p) c of (res, c) \<Rightarrow>
        if res \<noteq> ResultLockedSharedCache K then Some (wrap_error fmt_reset (conn_extreserr K L res c), c)
        else do {
          (r, c) \<leftarrow> Conn_wait K L c;
          if r \<noteq> ResultOK K then Some (errorf_w fmt_reset (conn_extreserr K L r c), c)
          else Reset_loop K L p c
        })"

definition Reset ::
  "lib_consts \<Rightarrow> ('w, 'm) sqlite_lib_scheme \<Rightarrow> nat \<Rightarrow> 'w Conn \<Rightarrow> (error \<times> 'w Conn) option" where
  "Reset K L s c =
     (let c = upd_stmt s (\<lambda>st. st\<lparr>s_lastHasRow := False\<rparr>) c
      in if s_conn (stmt_at c s) then Reset_loop K L (s_ptr (stmt_at c s)) c else None)"

definition ClearBindings ::
  "lib_consts \<Rightarrow> ('w, 'm) sqlite_lib_scheme \<Rightarrow> nat \<Rightarrow> 'w Conn \<Rightarrow> (error \<times> 'w Conn) option" where
  "ClearBindings K L s c = do {
     (err, c) \<leftarrow> Stmt_interrupted K L s c;
     if err \<noteq> None then Some (wrap_error fmt_clear err, c)
     else if \<not> s_conn (stmt_at c s) then None
     else let (res, c) = lib_call (x_clear_bindings L (s_ptr (stmt_at c s))) c
          in Some (wrap_error fmt_clear (ToError K res), c)
   }"

section \<open>Step\<close>

text \<open>The loop of \<open>step\<close>: one turn polls for an interrupt, calls \<open>sqlite3_step\<close> and looks at the
  primary code.\<close>

partial_function (option) step_loop ::
  "lib_consts \<Rightarrow> ('w, 'm) sqlite_lib_scheme \<Rightarrow> nat \<Rightarrow> 'w Conn \<Rightarrow> ((bool \<times> error) \<times> 'w Conn) option" where
  "step_loop K L s c = do {
     (err, c) \<leftarrow> Stmt_interrupted K L s c;
     if err \<noteq> None then Some ((False, err), c)
     else if \<not> s_conn (stmt_at c s) then None
     else (case lib_call (x_step L (s_ptr (stmt_at c s))) c of (res, c) \<Rightarrow>
       if ToPrimary res = ResultLocked K then
         if res \<noteq> ResultLockedSharedCache K then Some ((False, conn_extreserr K L res c), c)
         else do {
           (r, c) \<leftarrow> Conn_wait K L c;
           if \<not> IsSuccess K r then Some ((False, conn_extreserr K L r c), c)
           else step_loop K L s (snd (lib_call (x_reset L (s_ptr (stmt_at c s))) c))
         }
       else if ToPrimary res = ResultRow K then Some ((True, None), c)
       else if ToPrimary res = ResultDone K then Some ((False, None), c)
       else if ToPrimary res = ResultInterrupt K then Some ((False, ToError K res), c)
       else Some ((False, conn_extreserr K L res c), c))
   }"

definition Step ::
  "lib_consts \<Rightarrow> ('w, 'm) sqlite_lib_scheme \<Rightarrow> nat \<Rightarrow> 'w Conn \<Rightarrow> ((bool \<times> error) \<times> 'w Conn) option" where
  "Step K L s c =
     (if s_bindErr (stmt_at c s) \<noteq> None then do {
        (_, c') \<leftarrow> Reset K L s (upd_stmt s (\<lambda>st. st\<lparr>s_bindErr := None\<rparr>) c);
        Some ((False, errorf_w fmt_step (s_bindErr (stmt_at c s))), c')
      }
      else do {
        ((row, err), c) \<leftarrow> step_loop K L s c;
        let c = upd_stmt s (\<lambda>st. st\<lparr>s_lastHasRow := row\<rparr>) c in
        if err \<noteq> None then
          if \<not> s_conn (stmt_at c s) then None
          else Some ((row, errorf_w fmt_step err), snd (lib_call (x_reset L (s_ptr (stmt_at c s))) c))
        else Some ((row, None), c)
      })"

section \<open>Binding parameters\<close>

definition handleBindErr :: "lib_consts \<Rightarrow> gostring \<Rightarrow> int \<Rightarrow> nat \<Rightarrow> 'w Conn \<Rightarrow> 'w Conn" where
  "handleBindErr K prefix res s c =
     (if s_bindErr (stmt_at c s) = None \<and> \<not> IsSuccess K res
      then upd_stmt s (\<lambda>st. st\<lparr>s_bindErr := errorf_w (prefix @ '': %w'') (ToError K res)\<rparr>) c
      else c)"

text \<open>The body the \<open>Bind\<close> methods share: nothing on a statement without a C object, else the C call
  with the parameter number converted to 32 bits.\<close>

definition bind_call ::
  "lib_consts \<Rightarrow> ('w, 'm) sqlite_lib_scheme \<Rightarrow> gostring \<Rightarrow> bind_arg \<Rightarrow> nat \<Rightarrow> int \<Rightarrow> 'w Conn \<Rightarrow> 'w Conn option" where
  "bind_call K L prefix arg s param c =
     (if \<not> s_conn (stmt_at c s) then None
      else let (res, c) = lib_call (x_bind L (s_ptr (stmt_at c s)) (wrap32 param) arg) c
           in Some (handleBindErr K prefix res s c))"

definition BindInt64 :: "lib_consts \<Rightarrow> ('w, 'm) sqlite_lib_scheme \<Rightarrow> nat \<Rightarrow> int \<Rightarrow> int \<Rightarrow> 'w Conn \<Rightarrow> 'w Conn option" where
  "BindInt64 K L s param v c =
     (if s_ptr (stmt_at c s) = 0 then Some c else bind_call K L ''bind int64'' (B_int64 v) s param c)"

definition BindBool :: "lib_consts \<Rightarrow> ('w, 'm) sqlite_lib_scheme \<Rightarrow> nat \<Rightarrow> int \<Rightarrow> bool \<Rightarrow> 'w Conn \<Rightarrow> 'w Conn option" where
  "BindBool K L s param v c =
     (if s_ptr (stmt_at c s) = 0 then Some c
      else bind_call K L ''bind bool'' (B_int64 (if v then 1 else 0)) s param c)"

text \<open>The copy of the value to C memory may fail.\<close>

definition with_malloc ::
  "('w, 'm) sqlite_lib_scheme \<Rightarrow> gostring \<Rightarrow> nat \<Rightarrow> nat \<Rightarrow> ('w Conn \<Rightarrow> 'w Conn option) \<Rightarrow> 'w Conn \<Rightarrow> 'w Conn option" where
  "with_malloc L prefix n s k c =
     (if \<not> s_conn (stmt_at c s) then None
      else let (ok, c) = lib_call (x_malloc L n) c
           in if ok then k c
              else Some (if s_bindErr (stmt_at c s) = None
                         then upd_stmt s (\<lambda>st. st\<lparr>s_bindErr := errorf_w (prefix @ '': %w'') (Some err_nomem)\<rparr>) c
                         else c))"

definition BindBytes :: "lib_consts \<Rightarrow> ('w, 'm) sqlite_lib_scheme \<Rightarrow> nat \<Rightarrow> int \<Rightarrow> gostring \<Rightarrow> 'w Conn \<Rightarrow> 'w Conn option" where
  "BindBytes K L s param v c =
     (if s_ptr (stmt_at c s) = 0 then Some c
      else if length v = 0 then bind_call K L ''bind bytes'' (B_blob '''' 0) s param c
      else with_malloc L ''bind bytes'' (length v) s
             (bind_call K L ''bind bytes'' (B_blob v (wrap32 (int (length v)))) s param) c)"

definition BindText :: "lib_consts \<Rightarrow> ('w, 'm) sqlite_lib_scheme \<Rightarrow> nat \<Rightarrow> int \<Rightarrow> gostring \<Rightarrow> 'w Conn \<Rightarrow> 'w Conn option" where
  "BindText K L s param v c =
     (if s_ptr (stmt_at c s) = 0 then Some c
      else with_malloc L ''bind text'' (if length v = 0 then 1 else length v) s
             (bind_call K L ''bind text'' (B_text v (wrap32 (int (length v)))) s param) c)"

definition BindFloat :: "lib_consts \<Rightarrow> ('w, 'm) sqlite_lib_scheme \<Rightarrow> nat \<Rightarrow> int \<Rightarrow> uint64 \<Rightarrow> 'w Conn \<Rightarrow> 'w Conn option" where
  "BindFloat K L s param v c =
     (if s_ptr (stmt_at c s) = 0 then Some c else bind_call K L ''bind float'' (B_double v) s param c)"

definition BindNull :: "lib_consts \<Rightarrow> ('w, 'm) sqlite_lib_scheme \<Rightarrow> nat \<Rightarrow> int \<Rightarrow> 'w Conn \<Rightarrow> 'w Conn option" where
  "BindNull K L s param c =
     (if s_ptr (stmt_at c s) = 0 then Some c else bind_call K L ''bind null'' B_null s param c)"

definition BindZeroBlob :: "lib_consts \<Rightarrow> ('w, 'm) sqlite_lib_scheme \<Rightarrow> nat \<Rightarrow> int \<Rightarrow> int \<Rightarrow> 'w Conn \<Rightarrow> 'w Conn option" where
  "BindZeroBlob K L s param len c =
     (if s_ptr (stmt_at c s) = 0 then Some c
      else bind_call K L ''bind zero blob'' (B_zeroblob (word_of_int len)) s param c)"

text \<open>The 1-based index of the first parameter of that name; 0 with an error if there is none.\<close>

fun bind_index :: "gostring list \<Rightarrow> gostring \<Rightarrow> nat option" where
  "bind_index [] param = None"
| "bind_index (name # names) param = (if name = param then Some 1 else map_option Suc (bind_index names param))"

definition findBindName :: "gostring \<Rightarrow> gostring \<Rightarrow> nat \<Rightarrow> 'w Conn \<Rightarrow> int \<times> 'w Conn" where
  "findBindName prefix param s c =
     (case bind_index (s_bindNames (stmt_at c s)) param of
        Some i \<Rightarrow> (int i, c)
      | None \<Rightarrow> (0, if s_bindErr (stmt_at c s) = None
                    then upd_stmt s (\<lambda>st. st\<lparr>s_bindErr := Some (ErrorString (prefix @ '': unknown parameter: '' @ param))\<rparr>) c
                    else c))"

definition SetInt64 :: "lib_consts \<Rightarrow> ('w, 'm) sqlite_lib_scheme \<Rightarrow> nat \<Rightarrow> gostring \<Rightarrow> int \<Rightarrow> 'w Conn \<Rightarrow> 'w Conn option" where
  "SetInt64 K L s param v c = (let (i, c) = findBindName ''SetInt64'' param s c in BindInt64 K L s i v c)"

definition SetBool :: "lib_consts \<Rightarrow> ('w, 'm) sqlite_lib_scheme \<Rightarrow> nat \<Rightarrow> gostring \<Rightarrow> bool \<Rightarrow> 'w Conn \<Rightarrow> 'w Conn option" where
  "SetBool K L s param v c = (let (i, c) = findBindName ''SetBool'' param s c in BindBool K L s i v c)"

definition SetBytes :: "lib_consts \<Rightarrow> ('w, 'm) sqlite_lib_scheme \<Rightarrow> nat \<Rightarrow> gostring \<Rightarrow> gostring \<Rightarrow> 'w Conn \<Rightarrow> 'w Conn option" where
  "SetBytes K L s param v c = (let (i, c) = findBindName ''SetBytes'' param s c in BindBytes K L s i v c)"

definition SetText :: "lib_consts \<Rightarrow> ('w, 'm) sqlite_lib_scheme \<Rightarrow> nat \<Rightarrow> gostring \<Rightarrow> gostring \<Rightarrow> 'w Conn \<Rightarrow> 'w Conn option" where
  "SetText K L s param v c = (let (i, c) = findBindName ''SetText'' param s c in BindText K L s i v c)"

definition SetFloat :: "lib_consts \<Rightarrow> ('w, 'm) sqlite_lib_scheme \<Rightarrow> nat \<Rightarrow> gostring \<Rightarrow> uint64 \<Rightarrow> 'w Conn \<Rightarrow> 'w Conn option" where
  "SetFloat K L s param v c = (let (i, c) = findBindName ''SetFloat'' param s c in BindFloat K L s i v c)"

definition SetNull :: "lib_consts \<Rightarrow> ('w, 'm) sqlite_lib_scheme \<Rightarrow> nat \<Rightarrow> gostring \<Rightarrow> 'w Conn \<Rightarrow> 'w Conn option" where
  "SetNull K L s param c = (let (i, c) = findBindName ''SetNull'' param s c in BindNull K L s i c)"

definition SetZeroBlob :: "lib_consts \<Rightarrow> ('w, 'm) sqlite_lib_scheme \<Rightarrow> nat \<Rightarrow> gostring \<Rightarrow> int \<Rightarrow> 'w Conn \<Rightarrow> 'w Conn option" where
  "SetZeroBlob K L s param len c = (let (i, c) = findBindName ''SetZeroBlob'' param s c in BindZeroBlob K L s i len c)"

definition BindParamCount :: "Stmt \<Rightarrow> nat" where
  "BindParamCount st = (if s_ptr st = 0 then 0 else length (s_bindNames st))"

definition BindParamName :: "Stmt \<Rightarrow> int \<Rightarrow> gostring" where
  "BindParamName st i =
     (let i = i - 1 in if i < 0 \<or> int (length (s_bindNames st)) \<le> i then '''' else s_bindNames st ! nat i)"

section \<open>Reading columns\<close>

text \<open>Every accessor converts the column number to 32 bits and reads the current row.\<close>

definition column_read :: "(nat \<Rightarrow> int \<Rightarrow> 'w \<Rightarrow> 'a) \<Rightarrow> nat \<Rightarrow> int \<Rightarrow> 'w Conn \<Rightarrow> 'a option" where
  "column_read f s col c =
     (if s_conn (stmt_at c s) then Some (f (s_ptr (stmt_at c s)) (wrap32 col) (c_world c)) else None)"

definition DataCount :: "('w, 'm) sqlite_lib_scheme \<Rightarrow> nat \<Rightarrow> 'w Conn \<Rightarrow> nat option" where
  "DataCount L s c = (if s_conn (stmt_at c s) then Some (x_data_count L (s_ptr (stmt_at c s)) (c_world c)) else None)"

definition ColumnCount :: "('w, 'm) sqlite_lib_scheme \<Rightarrow> nat \<Rightarrow> 'w Conn \<Rightarrow> nat option" where
  "ColumnCount L s c = (if s_conn (stmt_at c s) then Some (x_column_count L (s_ptr (stmt_at c s)) (c_world c)) else None)"

definition ColumnInt32 :: "('w, 'm) sqlite_lib_scheme \<Rightarrow> nat \<Rightarrow> int \<Rightarrow> 'w Conn \<Rightarrow> int option" where
  "ColumnInt32 L = column_read (x_column_int L)"

definition ColumnInt64 :: "('w, 'm) sqlite_lib_scheme \<Rightarrow> nat \<Rightarrow> int \<Rightarrow> 'w Conn \<Rightarrow> int option" where
  "ColumnInt64 L = column_read (x_column_int64 L)"

definition ColumnInt :: "('w, 'm) sqlite_lib_scheme \<Rightarrow> nat \<Rightarrow> int \<Rightarrow> 'w Conn \<Rightarrow> int option" where
  "ColumnInt L s col c = ColumnInt64 L s col c"

definition ColumnBool :: "('w, 'm) sqlite_lib_scheme \<Rightarrow> nat \<Rightarrow> int \<Rightarrow> 'w Conn \<Rightarrow> bool option" where
  "ColumnBool L s col c = map_option (\<lambda>v. v \<noteq> 0) (ColumnInt64 L s col c)"

definition ColumnLen :: "('w, 'm) sqlite_lib_scheme \<Rightarrow> nat \<Rightarrow> int \<Rightarrow> 'w Conn \<Rightarrow> nat option" where
  "ColumnLen L = column_read (x_column_bytes L)"

text \<open>\<open>libc.GoBytes\<close> copies as many bytes as SQLite reports.\<close>

definition columnBytes :: "('w, 'm) sqlite_lib_scheme \<Rightarrow> nat \<Rightarrow> int \<Rightarrow> 'w Conn \<Rightarrow> gostring option" where
  "columnBytes L s col c = do {
     p \<leftarrow> column_read (x_column_blob L) s col c;
     (case p of None \<Rightarrow> Some '''' | Some mem \<Rightarrow> map_option (\<lambda>n. take n mem) (ColumnLen L s col c))
   }"

text \<open>The number of bytes copied into the buffer and the buffer after the copy.\<close>

definition ColumnBytes :: "('w, 'm) sqlite_lib_scheme \<Rightarrow> nat \<Rightarrow> int \<Rightarrow> gostring \<Rightarrow> 'w Conn \<Rightarrow> (nat \<times> gostring) option" where
  "ColumnBytes L s col buf c =
     map_option (\<lambda>b. (min (length buf) (length b), splice buf 0 (take (length buf) b))) (columnBytes L s col c)"

definition ColumnReader :: "('w, 'm) sqlite_lib_scheme \<Rightarrow> nat \<Rightarrow> int \<Rightarrow> 'w Conn \<Rightarrow> gostring option" where
  "ColumnReader L s col c = columnBytes L s col c"

definition Stmt_ColumnType :: "('w, 'm) sqlite_lib_scheme \<Rightarrow> nat \<Rightarrow> int \<Rightarrow> 'w Conn \<Rightarrow> int option" where
  "Stmt_ColumnType L = column_read (x_column_type L)"

definition ColumnIsNull :: "lib_consts \<Rightarrow> ('w, 'm) sqlite_lib_scheme \<Rightarrow> nat \<Rightarrow> int \<Rightarrow> 'w Conn \<Rightarrow> bool option" where
  "ColumnIsNull K L s col c = map_option (\<lambda>t. t = TypeNull K) (Stmt_ColumnType L s col c)"

definition goStringN :: "gostring option \<Rightarrow> nat \<Rightarrow> gostring" where
  "goStringN p n = (case p of None \<Rightarrow> '''' | Some mem \<Rightarrow> take n mem)"

definition ColumnText :: "('w, 'm) sqlite_lib_scheme \<Rightarrow> nat \<Rightarrow> int \<Rightarrow> 'w Conn \<Rightarrow> gostring option" where
  "ColumnText L s col c = do {
     n \<leftarrow> ColumnLen L s col c;
     p \<leftarrow> column_read (x_column_text L) s col c;
     Some (goStringN p n)
   }"

definition ColumnFloat :: "('w, 'm) sqlite_lib_scheme \<Rightarrow> nat \<Rightarrow> int \<Rightarrow> 'w Conn \<Rightarrow> uint64 option" where
  "ColumnFloat L = column_read (x_column_double L)"

definition ColumnDatabaseName :: "('w, 'm) sqlite_lib_scheme \<Rightarrow> nat \<Rightarrow> int \<Rightarrow> 'w Conn \<Rightarrow> gostring option" where
  "ColumnDatabaseName L = column_read (x_column_database_name L)"

definition ColumnTableName :: "('w, 'm) sqlite_lib_scheme \<Rightarrow> nat \<Rightarrow> int \<Rightarrow> 'w Conn \<Rightarrow> gostring option" where
  "ColumnTableName L = column_read (x_column_table_name L)"

text \<open>The name of a column, found by ranging over the map from names to columns.\<close>

definition ColumnName :: "Stmt \<Rightarrow> int \<Rightarrow> gostring" where
  "ColumnName st col = (case find (\<lambda>(_, i). int i = col) (s_colNames st) of Some (name, _) \<Rightarrow> name | None \<Rightarrow> '''')"

definition ColumnIndex :: "Stmt \<Rightarrow> gostring \<Rightarrow> int" where
  "ColumnIndex st name = (case map_of (s_colNames st) name of None \<Rightarrow> - 1 | Some i \<Rightarrow> int i)"

text \<open>Access by column name: a default for an unknown name.\<close>

definition get_column :: "(nat \<Rightarrow> int \<Rightarrow> 'w Conn \<Rightarrow> 'a option) \<Rightarrow> 'a \<Rightarrow> nat \<Rightarrow> gostring \<Rightarrow> 'w Conn \<Rightarrow> 'a option" where
  "get_column f dflt s name c =
     (case map_of (s_colNames (stmt_at c s)) name of None \<Rightarrow> Some dflt | Some i \<Rightarrow> f s (int i) c)"

definition GetInt64 :: "('w, 'm) sqlite_lib_scheme \<Rightarrow> nat \<Rightarrow> gostring \<Rightarrow> 'w Conn \<Rightarrow> int option" where
  "GetInt64 L = get_column (ColumnInt64 L) 0"

definition GetBool :: "('w, 'm) sqlite_lib_scheme \<Rightarrow> nat \<Rightarrow> gostring \<Rightarrow> 'w Conn \<Rightarrow> bool option" where
  "GetBool L s name c = map_option (\<lambda>v. v \<noteq> 0) (GetInt64 L s name c)"

definition GetBytes :: "('w, 'm) sqlite_lib_scheme \<Rightarrow> nat \<Rightarrow> gostring \<Rightarrow> gostring \<Rightarrow> 'w Conn \<Rightarrow> (nat \<times> gostring) option" where
  "GetBytes L s name buf c = get_column (\<lambda>s col c. ColumnBytes L s col buf c) (0, buf) s name c"

definition GetReader :: "('w, 'm) sqlite_lib_scheme \<Rightarrow> nat \<Rightarrow> gostring \<Rightarrow> 'w Conn \<Rightarrow> gostring option" where
  "GetReader L = get_column (ColumnReader L) ''''"

definition GetText :: "('w, 'm) sqlite_lib_scheme \<Rightarrow> nat \<Rightarrow> gostring \<Rightarrow> 'w Conn \<Rightarrow> gostring option" where
  "GetText L = get_column (ColumnText L) ''''"

definition GetFloat :: "('w, 'm) sqlite_lib_scheme \<Rightarrow> nat \<Rightarrow> gostring \<Rightarrow> 'w Conn \<Rightarrow> uint64 option" where
  "GetFloat L = get_column (ColumnFloat L) 0"

definition GetLen :: "('w, 'm) sqlite_lib_scheme \<Rightarrow> nat \<Rightarrow> gostring \<Rightarrow> 'w Conn \<Rightarrow> nat option" where
  "GetLen L = get_column (ColumnLen L) 0"

definition Stmt_IsNull :: "lib_consts \<Rightarrow> ('w, 'm) sqlite_lib_scheme \<Rightarrow> nat \<Rightarrow> gostring \<Rightarrow> 'w Conn \<Rightarrow> bool option" where
  "Stmt_IsNull K L = get_column (ColumnIsNull K L) True"

section \<open>What SQLite promises\<close>

text \<open>
  The documented behaviour the proofs rely on.  A view gives, for a world, the prepared statements that
  exist and those that \<open>sqlite3_stmt_busy\<close> calls busy: stepped, and neither run to completion nor reset.
\<close>

record 'w lib_view =
  v_live :: "nat \<Rightarrow> 'w \<Rightarrow> bool"
  v_busy :: "nat \<Rightarrow> 'w \<Rightarrow> bool"

text \<open>\<open>touches V p w w'\<close>: the statements stay the same, and none but \<open>p\<close> became busy.\<close>

definition touches :: "('w, 'm) lib_view_scheme \<Rightarrow> nat \<Rightarrow> 'w \<Rightarrow> 'w \<Rightarrow> bool" where
  "touches V p w w' \<longleftrightarrow>
     (\<forall>q. v_live V q w' = v_live V q w) \<and> (\<forall>q. q \<noteq> p \<longrightarrow> v_busy V q w' \<longrightarrow> v_busy V q w)"

definition quiet :: "('w, 'm) lib_view_scheme \<Rightarrow> 'w \<Rightarrow> 'w \<Rightarrow> bool" where
  "quiet V w w' \<longleftrightarrow> (\<forall>q. v_live V q w' = v_live V q w) \<and> (\<forall>q. v_busy V q w' \<longrightarrow> v_busy V q w)"

text \<open>A success of \<open>sqlite3_step\<close> other than a row ends the execution, and so does \<open>sqlite3_reset\<close>
  whatever code it returns.  Nothing but \<open>sqlite3_step\<close> starts one.\<close>

definition step_finished :: "lib_consts \<Rightarrow> int \<Rightarrow> bool" where
  "step_finished K code \<longleftrightarrow> ToPrimary code \<noteq> ResultRow K \<and> (ToPrimary code = ResultDone K \<or> IsSuccess K code)"

definition lib_busy_ok :: "lib_consts \<Rightarrow> ('w, 'm) sqlite_lib_scheme \<Rightarrow> ('w, 'n) lib_view_scheme \<Rightarrow> bool" where
  "lib_busy_ok K L V \<longleftrightarrow>
     (\<forall>p w. touches V p w (snd (x_step L p w)) \<and>
        (step_finished K (fst (x_step L p w)) \<longrightarrow> \<not> v_busy V p (snd (x_step L p w)))) \<and>
     (\<forall>p w. quiet V w (snd (x_reset L p w)) \<and> \<not> v_busy V p (snd (x_reset L p w))) \<and>
     (\<forall>p w. quiet V w (snd (x_clear_bindings L p w))) \<and>
     (\<forall>p i a w. quiet V w (snd (x_bind L p i a w))) \<and>
     (\<forall>n w. quiet V w (snd (x_malloc L n w))) \<and> (\<forall>q w. quiet V w (snd (x_cstring L q w))) \<and>
     (\<forall>w. quiet V w (snd (snd (x_unlock_notify L w)))) \<and>
     (\<forall>w w'. un_block L w = Some w' \<longrightarrow> quiet V w w') \<and>
     (\<forall>ch w. quiet V w (snd (x_done L ch w))) \<and>
     (\<forall>b w. quiet V w (x_busy_handler L b w)) \<and> (\<forall>d w. quiet V w (x_busy_timeout L d w)) \<and>
     (\<forall>w. \<not> v_live V 0 w \<and> \<not> v_busy V 0 w) \<and>
     ResultLocked K \<noteq> ResultRow K"

text \<open>\<open>sqlite3_prepare_v3\<close> makes a statement that did not exist; \<open>sqlite3_finalize\<close> destroys it.\<close>

definition lib_alloc_ok :: "lib_consts \<Rightarrow> ('w, 'm) sqlite_lib_scheme \<Rightarrow> ('w, 'n) lib_view_scheme \<Rightarrow> bool" where
  "lib_alloc_ok K L V \<longleftrightarrow>
     (\<forall>q f w code p n w'. x_prepare_v3 L q f w = ((code, p, n), w') \<longrightarrow>
        (\<forall>r. v_live V r w' \<longleftrightarrow> v_live V r w \<or> (r = p \<and> p \<noteq> 0)) \<and> (\<forall>r. v_busy V r w' \<longrightarrow> v_busy V r w \<and> r \<noteq> p) \<and>
        (p \<noteq> 0 \<longrightarrow> \<not> v_live V p w) \<and> n \<le> length q) \<and>
     (\<forall>p w. let w' = snd (x_finalize L p w) in
        (\<forall>r. v_live V r w' \<longleftrightarrow> v_live V r w \<and> r \<noteq> p) \<and> (\<forall>r. v_busy V r w' \<longrightarrow> v_busy V r w \<and> r \<noteq> p))"

text \<open>Lock conflicts end: with every shared-cache lock seen a measure of the world decreases, nothing else
  increases it, and a note that was registered is fired some day.\<close>

definition lib_unlocks :: "lib_consts \<Rightarrow> ('w, 'm) sqlite_lib_scheme \<Rightarrow> ('w \<Rightarrow> nat) \<Rightarrow> bool" where
  "lib_unlocks K L \<mu> \<longleftrightarrow>
     (\<forall>p w. \<mu> (snd (x_step L p w)) \<le> \<mu> w \<and>
        (fst (x_step L p w) = ResultLockedSharedCache K \<longrightarrow> \<mu> (snd (x_step L p w)) < \<mu> w)) \<and>
     (\<forall>p w. \<mu> (snd (x_reset L p w)) \<le> \<mu> w \<and>
        (fst (x_reset L p w) = ResultLockedSharedCache K \<longrightarrow> \<mu> (snd (x_reset L p w)) < \<mu> w)) \<and>
     (\<forall>w. \<mu> (snd (snd (x_unlock_notify L w))) \<le> \<mu> w) \<and>
     (\<forall>w. \<exists>w'. un_block L w = Some w' \<and> \<mu> w' \<le> \<mu> w) \<and>
     (\<forall>ch w. \<mu> (snd (x_done L ch w)) \<le> \<mu> w)"

section \<open>Lemmas: the effect of calls on the world\<close>

lemma touches_refl [simp]: "touches V p w w"
  by (simp add: touches_def)

lemma touches_trans: "touches V p w1 w2 \<Longrightarrow> touches V p w2 w3 \<Longrightarrow> touches V p w1 w3"
  by (fastforce simp: touches_def)

lemma quiet_refl [simp]: "quiet V w w"
  by (simp add: quiet_def)

lemma quiet_trans: "quiet V w1 w2 \<Longrightarrow> quiet V w2 w3 \<Longrightarrow> quiet V w1 w3"
  by (simp add: quiet_def)

lemma quiet_touches: "quiet V w w' \<Longrightarrow> touches V p w w'"
  by (simp add: quiet_def touches_def)

lemma quiet_not_busy: "quiet V w w' \<Longrightarrow> \<not> v_busy V p w \<Longrightarrow> \<not> v_busy V p w'"
  by (auto simp: quiet_def)

text \<open>The calls that change only the world and the note, within a relation on worlds.\<close>

definition effect :: "('w \<Rightarrow> 'w \<Rightarrow> bool) \<Rightarrow> 'w Conn \<Rightarrow> 'w Conn \<Rightarrow> bool" where
  "effect R c c' \<longleftrightarrow>
     c_stmts c' = c_stmts c \<and> c_closed c' = c_closed c \<and> c_cancelCh c' = c_cancelCh c \<and>
     c_doneCh c' = c_doneCh c \<and> c_heap c' = c_heap c \<and> c_next c' = c_next c \<and>
     c_registered c' = c_registered c \<and> c_busyHandler c' = c_busyHandler c \<and> c_authorizer c' = c_authorizer c \<and>
     R (c_world c) (c_world c') \<and> (note_ok (c_note c) \<longrightarrow> note_ok (c_note c'))"

lemma effect_refl: "R (c_world c) (c_world c) \<Longrightarrow> effect R c c"
  by (simp add: effect_def)

lemma effect_trans:
  assumes "effect R c1 c2" and "effect R c2 c3"
    and "\<And>w1 w2 w3. R w1 w2 \<Longrightarrow> R w2 w3 \<Longrightarrow> R w1 w3"
  shows "effect R c1 c3"
  using assms unfolding effect_def by metis

lemma effect_touches_trans: "effect (touches V p) c1 c2 \<Longrightarrow> effect (touches V p) c2 c3 \<Longrightarrow> effect (touches V p) c1 c3"
  by (erule (1) effect_trans) (rule touches_trans)

lemma effect_quiet_trans: "effect (quiet V) c1 c2 \<Longrightarrow> effect (quiet V) c2 c3 \<Longrightarrow> effect (quiet V) c1 c3"
  by (erule (1) effect_trans) (rule quiet_trans)

lemma effect_quiet_touches: "effect (quiet V) c c' \<Longrightarrow> effect (touches V p) c c'"
  by (simp add: effect_def quiet_touches)

lemma effect_lib_call: "R (c_world c) (snd (f (c_world c))) \<Longrightarrow> effect R c (snd (lib_call f c))"
  by (simp add: effect_def lib_call_def case_prod_beta)

lemma lib_call_eq: "lib_call f c = (fst (f (c_world c)), c\<lparr>c_world := snd (f (c_world c))\<rparr>)"
  by (simp add: lib_call_def split: prod.splits)

lemma lib_busy_okD:
  assumes "lib_busy_ok K L V"
  shows "touches V p w (snd (x_step L p w))"
    and "step_finished K (fst (x_step L p w)) \<Longrightarrow> \<not> v_busy V p (snd (x_step L p w))"
    and "quiet V w (snd (x_reset L p w))" and "\<not> v_busy V p (snd (x_reset L p w))"
    and "quiet V w (snd (x_clear_bindings L p w))" and "quiet V w (snd (x_bind L p i a w))"
    and "quiet V w (snd (x_malloc L n w))" and "quiet V w (snd (snd (x_unlock_notify L w)))"
    and "un_block L w = Some w' \<Longrightarrow> quiet V w w'" and "quiet V w (snd (x_done L ch w))"
    and "\<not> v_live V 0 w" and "\<not> v_busy V 0 w" and "ResultLocked K \<noteq> ResultRow K"
    and "quiet V w (snd (x_cstring L q w))"
    and "quiet V w (x_busy_handler L b w)" and "quiet V w (x_busy_timeout L d w)"
  using assms unfolding lib_busy_ok_def by simp_all

lemma Conn_interrupted_effect:
  assumes "lib_busy_ok K L V"
  shows "effect (quiet V) c (snd (Conn_interrupted K L c))"
  using lib_busy_okD(10) [OF assms]
  by (auto simp: Conn_interrupted_def effect_def lib_call_eq split: option.splits)

lemma Stmt_interrupted_effect:
  assumes "lib_busy_ok K L V" and "Stmt_interrupted K L s c = Some (err, c')"
  shows "effect (quiet V) c c'"
  using assms(2) Conn_interrupted_effect [OF assms(1), of c]
  by (auto simp: Stmt_interrupted_def effect_refl split: if_splits)

lemma Conn_wait_effect:
  assumes "lib_busy_ok K L V" and "Conn_wait K L c = Some (r, c')"
  shows "effect (quiet V) c c'"
proof -
  obtain un w where w: "waitForUnlockNotify K L (c_note c) (c_world c) = Some (r, un, w)"
    and c': "c' = c\<lparr>c_note := un, c_world := w\<rparr>"
    using assms(2) by (auto simp: Conn_wait_def)
  obtain res called w1 where u: "x_unlock_notify L (c_world c) = (res, called, w1)" by (cases "x_unlock_notify L (c_world c)")
  then have "quiet V (c_world c) w1" using lib_busy_okD(8) [OF assms(1), of "c_world c"] by simp
  moreover have "w = w1 \<or> un_block L w1 = Some w"
    using w u by (auto simp: waitForUnlockNotify_def Let_def split: if_splits option.splits)
  ultimately have "quiet V (c_world c) w"
    using quiet_trans [of V "c_world c" w1 w] lib_busy_okD(9) [OF assms(1), of w1 w] by auto
  then show ?thesis
    using w by (auto simp: c' effect_def dest: waitForUnlockNotify_note_ok)
qed

lemma Reset_loop_effect:
  fixes L :: "('w, 'm) sqlite_lib_scheme"
  assumes "Reset_loop K L p c = Some r"
  shows "lib_busy_ok K L V \<longrightarrow> effect (quiet V) c (snd r) \<and> \<not> v_busy V p (c_world (snd r))"
proof (rule Reset_loop.raw_induct [where P = "\<lambda>K L p c r. lib_busy_ok K L V \<longrightarrow>
    effect (quiet V) c (snd r) \<and> \<not> v_busy V p (c_world (snd r))", OF _ assms])
  fix f :: "lib_consts \<Rightarrow> ('w, 'm) sqlite_lib_scheme \<Rightarrow> nat \<Rightarrow> 'w Conn \<Rightarrow> (error \<times> 'w Conn) option"
    and K and L :: "('w, 'm) sqlite_lib_scheme" and p c r
  assume IH: "\<And>K L p c r. f K L p c = Some r \<Longrightarrow> lib_busy_ok K L V \<longrightarrow>
      effect (quiet V) c (snd r) \<and> \<not> v_busy V p (c_world (snd r))"
    and eq: "(case lib_call (x_reset L p) c of (res, c) \<Rightarrow>
        if res \<noteq> ResultLockedSharedCache K then Some (wrap_error fmt_reset (conn_extreserr K L res c), c)
        else Conn_wait K L c \<bind> (\<lambda>(r, c).
          if r \<noteq> ResultOK K then Some (errorf_w fmt_reset (conn_extreserr K L r c), c) else f K L p c)) = Some r"
  show "lib_busy_ok K L V \<longrightarrow> effect (quiet V) c (snd r) \<and> \<not> v_busy V p (c_world (snd r))"
  proof
    assume ok: "lib_busy_ok K L V"
    let ?c1 = "c\<lparr>c_world := snd (x_reset L p (c_world c))\<rparr>"
    have e1: "effect (quiet V) c ?c1" "\<not> v_busy V p (c_world ?c1)"
      using lib_busy_okD(3,4) [OF ok] by (simp_all add: effect_def)
    show "effect (quiet V) c (snd r) \<and> \<not> v_busy V p (c_world (snd r))"
    proof (cases "fst (x_reset L p (c_world c)) = ResultLockedSharedCache K")
      case False
      then show ?thesis using eq e1 by (auto simp: lib_call_eq)
    next
      case True
      then obtain r2 c2 where w: "Conn_wait K L ?c1 = Some (r2, c2)"
        and rest: "snd r = c2 \<or> f K L p c2 = Some r"
        using eq by (auto simp: lib_call_eq bind_eq_Some_conv split: if_splits)
      have e2: "effect (quiet V) c c2" using effect_quiet_trans [OF e1(1) Conn_wait_effect [OF ok w]] .
      have "\<not> v_busy V p (c_world c2)"
        using Conn_wait_effect [OF ok w] e1(2) by (auto simp: effect_def quiet_def)
      with rest e2 ok IH show ?thesis by (metis effect_quiet_trans)
    qed
  qed
qed


definition step_result_ok :: "('w, 'n) lib_view_scheme \<Rightarrow> nat \<Rightarrow> 'w Conn \<Rightarrow> (bool \<times> error) \<times> 'w Conn \<Rightarrow> bool" where
  "step_result_ok V p c r \<longleftrightarrow> effect (touches V p) c (snd r) \<and> (fst (fst r) \<longrightarrow> snd (fst r) = None) \<and>
     (\<not> fst (fst r) \<and> snd (fst r) = None \<longrightarrow> \<not> v_busy V p (c_world (snd r)))"

lemma step_result_ok_trans:
  "effect (touches V p) c c' \<Longrightarrow> step_result_ok V p c' r \<Longrightarrow> step_result_ok V p c r"
  by (auto simp: step_result_ok_def intro: effect_touches_trans)

lemma step_result_err: "effect (touches V p) c c' \<Longrightarrow> err \<noteq> None \<Longrightarrow> step_result_ok V p c ((False, err), c')"
  by (auto simp: step_result_ok_def)

text \<open>One turn of the loop that does not repeat.\<close>

lemma step_turn:
  assumes ok: "lib_busy_ok K L V" and c1: "lib_call (x_step L p) c = (res, c1)"
  shows "effect (touches V p) c c1"
    and "ToPrimary res = ResultRow K \<Longrightarrow> step_result_ok V p c ((True, None), c1)"
    and "ToPrimary res = ResultDone K \<Longrightarrow> ToPrimary res \<noteq> ResultRow K \<Longrightarrow> step_result_ok V p c ((False, None), c1)"
    and "ToPrimary res \<noteq> ResultRow K \<Longrightarrow> step_result_ok V p c ((False, conn_extreserr K L res c1), c1)"
    and "ToPrimary res \<noteq> ResultRow K \<Longrightarrow> step_result_ok V p c ((False, ToError K res), c1)"
proof -
  have res: "res = fst (x_step L p (c_world c))" and w: "c_world c1 = snd (x_step L p (c_world c))"
    using c1 by (auto simp: lib_call_eq)
  show e: "effect (touches V p) c c1"
    using c1 lib_busy_okD(1) [OF ok] by (auto simp: lib_call_eq effect_def)
  have fin: "step_finished K res \<Longrightarrow> \<not> v_busy V p (c_world c1)"
    using lib_busy_okD(2) [OF ok, of p "c_world c"] by (simp add: res w)
  show "ToPrimary res = ResultRow K \<Longrightarrow> step_result_ok V p c ((True, None), c1)"
    using e by (simp add: step_result_ok_def)
  show "ToPrimary res = ResultDone K \<Longrightarrow> ToPrimary res \<noteq> ResultRow K \<Longrightarrow> step_result_ok V p c ((False, None), c1)"
    using e fin by (simp add: step_result_ok_def step_finished_def)
  show "ToPrimary res \<noteq> ResultRow K \<Longrightarrow> step_result_ok V p c ((False, conn_extreserr K L res c1), c1)"
    "ToPrimary res \<noteq> ResultRow K \<Longrightarrow> step_result_ok V p c ((False, ToError K res), c1)"
    using e fin by (simp_all add: step_result_ok_def step_finished_def conn_extreserr_def extreserr_None_iff ToError_None_iff)
qed

lemma step_loop_effect:
  fixes L :: "('w, 'm) sqlite_lib_scheme"
  assumes "step_loop K L s c = Some r"
  shows "lib_busy_ok K L V \<longrightarrow> step_result_ok V (s_ptr (stmt_at c s)) c r"
proof (rule step_loop.raw_induct [where P = "\<lambda>K L s c r. lib_busy_ok K L V \<longrightarrow>
    step_result_ok V (s_ptr (stmt_at c s)) c r", OF _ assms])
  fix f :: "lib_consts \<Rightarrow> ('w, 'm) sqlite_lib_scheme \<Rightarrow> nat \<Rightarrow> 'w Conn \<Rightarrow> ((bool \<times> error) \<times> 'w Conn) option"
    and K and L :: "('w, 'm) sqlite_lib_scheme" and s and c :: "'w Conn" and r
  let ?p = "s_ptr (stmt_at c s)"
  assume IH: "\<And>K L s c r. f K L s c = Some r \<Longrightarrow> lib_busy_ok K L V \<longrightarrow> step_result_ok V (s_ptr (stmt_at c s)) c r"
    and eq: "Stmt_interrupted K L s c \<bind> (\<lambda>(err, c).
      if err \<noteq> None then Some ((False, err), c)
      else if \<not> s_conn (stmt_at c s) then None
      else (case lib_call (x_step L (s_ptr (stmt_at c s))) c of (res, c) \<Rightarrow>
        if ToPrimary res = ResultLocked K then
          if res \<noteq> ResultLockedSharedCache K then Some ((False, conn_extreserr K L res c), c)
          else Conn_wait K L c \<bind> (\<lambda>(r, c).
            if \<not> IsSuccess K r then Some ((False, conn_extreserr K L r c), c)
            else f K L s (snd (lib_call (x_reset L (s_ptr (stmt_at c s))) c)))
        else if ToPrimary res = ResultRow K then Some ((True, None), c)
        else if ToPrimary res = ResultDone K then Some ((False, None), c)
        else if ToPrimary res = ResultInterrupt K then Some ((False, ToError K res), c)
        else Some ((False, conn_extreserr K L res c), c))) = Some r"
  show "lib_busy_ok K L V \<longrightarrow> step_result_ok V ?p c r"
  proof
    assume ok: "lib_busy_ok K L V"
    obtain err c0 where i: "Stmt_interrupted K L s c = Some (err, c0)"
      using eq by (auto simp: bind_eq_Some_conv)
    have e0: "effect (touches V ?p) c c0" and h0: "c_heap c0 = c_heap c"
      using Stmt_interrupted_effect [OF ok i] by (simp_all add: effect_quiet_touches) (simp add: effect_def)
    obtain res c1 where c1: "lib_call (x_step L ?p) c0 = (res, c1)" by fastforce
    note turn = step_turn [OF ok c1]
    have e1: "effect (touches V ?p) c c1" using effect_touches_trans [OF e0 turn(1)] .
    have h1: "c_heap c1 = c_heap c" using e1 by (simp add: effect_def)
    note trans = step_result_ok_trans [OF e0]
    show "step_result_ok V ?p c r"
    proof (cases "err = None \<and> ToPrimary res = ResultLocked K \<and> res = ResultLockedSharedCache K")
      case False
      then show ?thesis
        using eq i c1 h0 e0 turn(2-5) [THEN trans] lib_busy_okD(13) [OF ok]
        by (auto simp: step_result_err split: if_splits)
    next
      case True
      then obtain r2 c2 where w: "Conn_wait K L c1 = Some (r2, c2)"
        and rest: "(if \<not> IsSuccess K r2 then Some ((False, conn_extreserr K L r2 c2), c2)
          else f K L s (snd (lib_call (x_reset L (s_ptr (stmt_at c2 s))) c2))) = Some r"
        using eq i c1 h0 by (auto simp: bind_eq_Some_conv split: if_splits)
      have e2: "effect (touches V ?p) c c2"
        using effect_touches_trans [OF e1 effect_quiet_touches [OF Conn_wait_effect [OF ok w]]] .
      let ?c3 = "snd (lib_call (x_reset L (s_ptr (stmt_at c2 s))) c2)"
      have e3: "effect (touches V ?p) c ?c3"
        using effect_touches_trans [OF e2 effect_lib_call]
          quiet_touches [OF lib_busy_okD(3) [OF ok]] by blast
      have "stmt_at ?c3 s = stmt_at c s" using e3 by (simp add: effect_def)
      then show ?thesis
        using rest e2 e3 IH [of K L s ?c3 r] ok step_result_ok_trans [OF e3]
        by (auto simp: step_result_err conn_extreserr_def extreserr_None_iff split: if_splits)
    qed
  qed
qed

section \<open>The invariant of a connection\<close>

text \<open>
  The cache holds attached statements under their query; attached statements have their own C object;
  and a statement that SQLite calls busy is known to be busy: its last \<open>Step\<close> returned a row.
\<close>

definition attached :: "'w Conn \<Rightarrow> nat \<Rightarrow> bool" where
  "attached c s \<longleftrightarrow> s < c_next c \<and> s_conn (stmt_at c s)"

definition cache_ok :: "'w Conn \<Rightarrow> bool" where
  "cache_ok c \<longleftrightarrow> distinct (map fst (c_stmts c)) \<and>
     (\<forall>(q, s) \<in> set (c_stmts c). attached c s \<and> s_query (stmt_at c s) = q)"

definition conn_ok :: "('w, 'n) lib_view_scheme \<Rightarrow> 'w Conn \<Rightarrow> bool" where
  "conn_ok V c \<longleftrightarrow> note_ok (c_note c) \<and> cache_ok c \<and>
     (\<forall>s. attached c s \<and> s_ptr (stmt_at c s) \<noteq> 0 \<longrightarrow> v_live V (s_ptr (stmt_at c s)) (c_world c)) \<and>
     (\<forall>s t. attached c s \<and> attached c t \<and> s \<noteq> t \<and> s_ptr (stmt_at c s) = s_ptr (stmt_at c t) \<longrightarrow> s_ptr (stmt_at c s) = 0) \<and>
     (\<forall>s. attached c s \<and> v_busy V (s_ptr (stmt_at c s)) (c_world c) \<longrightarrow> s_lastHasRow (stmt_at c s))"

text \<open>A change of the heap that keeps what the invariant looks at.\<close>

lemma attached_upd [simp]: "s_conn (f (stmt_at c s)) = s_conn (stmt_at c s) \<Longrightarrow> attached (upd_stmt s f c) t = attached c t"
  by (simp add: attached_def upd_stmt_def)

lemma stmt_at_upd [simp]: "stmt_at (upd_stmt s f c) t = (if t = s then f (stmt_at c s) else stmt_at c t)"
  by (simp add: upd_stmt_def)

lemma upd_stmt_frame [simp]:
  "c_stmts (upd_stmt s f c) = c_stmts c" "c_closed (upd_stmt s f c) = c_closed c"
  "c_cancelCh (upd_stmt s f c) = c_cancelCh c" "c_doneCh (upd_stmt s f c) = c_doneCh c"
  "c_note (upd_stmt s f c) = c_note c" "c_next (upd_stmt s f c) = c_next c"
  "c_registered (upd_stmt s f c) = c_registered c" "c_busyHandler (upd_stmt s f c) = c_busyHandler c"
  "c_authorizer (upd_stmt s f c) = c_authorizer c" "c_world (upd_stmt s f c) = c_world c"
  by (simp_all add: upd_stmt_def)

lemma cache_ok_upd:
  assumes "s_conn (f (stmt_at c s)) = s_conn (stmt_at c s)" "s_query (f (stmt_at c s)) = s_query (stmt_at c s)"
  shows "cache_ok (upd_stmt s f c) = cache_ok c"
  using assms by (fastforce simp: cache_ok_def)

lemma conn_ok_upd:
  assumes "conn_ok V c" and "s_conn (f (stmt_at c s)) = s_conn (stmt_at c s)"
    and "s_query (f (stmt_at c s)) = s_query (stmt_at c s)" and "s_ptr (f (stmt_at c s)) = s_ptr (stmt_at c s)"
    and "s_lastHasRow (stmt_at c s) \<Longrightarrow> v_busy V (s_ptr (stmt_at c s)) (c_world c) \<Longrightarrow> s_lastHasRow (f (stmt_at c s))"
  shows "conn_ok V (upd_stmt s f c)"
  using assms unfolding conn_ok_def by (simp add: cache_ok_upd) metis

lemma attached_effect: "effect R c c' \<Longrightarrow> attached c' s = attached c s"
  by (simp add: attached_def effect_def)

lemma cache_ok_effect: "effect R c c' \<Longrightarrow> cache_ok c' = cache_ok c"
  by (simp add: cache_ok_def attached_def effect_def)

lemma conn_ok_quiet:
  assumes "conn_ok V c" and "effect (quiet V) c c'"
  shows "conn_ok V c'"
  using assms cache_ok_effect [OF assms(2)] attached_effect [OF assms(2)]
  unfolding conn_ok_def effect_def quiet_def by (auto; metis)

text \<open>After a call that stepped only \<open>s\<close>, the flag of \<open>s\<close> must cover it.\<close>

lemma conn_ok_touch:
  assumes "conn_ok V c" and e: "effect (touches V (s_ptr (stmt_at c s))) c c'" and s: "attached c s"
    and b: "\<not> row \<Longrightarrow> \<not> v_busy V (s_ptr (stmt_at c s)) (c_world c')" and z: "\<not> v_busy V 0 (c_world c')"
  shows "conn_ok V (upd_stmt s (\<lambda>st. st\<lparr>s_lastHasRow := row\<rparr>) c')"
proof -
  have h: "c_heap c' = c_heap c" using e by (simp add: effect_def)
  have a: "attached c' t = attached c t" for t using attached_effect [OF e] .
  have "cache_ok c'" using assms(1) cache_ok_effect [OF e] by (simp add: conn_ok_def)
  moreover have "note_ok (c_note c')" using assms(1) e by (simp add: conn_ok_def effect_def)
  moreover have "s_lastHasRow (stmt_at c t)"
    if "attached c t" "t \<noteq> s" "v_busy V (s_ptr (stmt_at c t)) (c_world c')" for t
  proof -
    have "s_ptr (stmt_at c t) \<noteq> 0" using that(3) z by metis
    then have "s_ptr (stmt_at c t) \<noteq> s_ptr (stmt_at c s)"
      using assms(1) that(1,2) s unfolding conn_ok_def by metis
    then show ?thesis using that assms(1) e by (auto simp: conn_ok_def effect_def touches_def)
  qed
  moreover have "v_live V (s_ptr (stmt_at c t)) (c_world c')" if "attached c t" "s_ptr (stmt_at c t) \<noteq> 0" for t
    using that assms(1) e by (auto simp: conn_ok_def effect_def touches_def)
  ultimately show ?thesis
    using assms(1) b unfolding conn_ok_def by (auto simp: cache_ok_upd h a)
qed

section \<open>Every statement operation keeps the invariant\<close>

lemma Reset_result:
  assumes "lib_busy_ok K L V" and "Reset K L s c = Some (err, c')"
  shows "attached c s \<Longrightarrow> attached c' s" and "\<not> v_busy V (s_ptr (stmt_at c s)) (c_world c')"
    and "effect (quiet V) (upd_stmt s (\<lambda>st. st\<lparr>s_lastHasRow := False\<rparr>) c) c'"
    and "stmt_at c' s = (stmt_at c s)\<lparr>s_lastHasRow := False\<rparr>"
proof -
  let ?c = "upd_stmt s (\<lambda>st. st\<lparr>s_lastHasRow := False\<rparr>) c"
  have "Reset_loop K L (s_ptr (stmt_at c s)) ?c = Some (err, c')"
    using assms(2) by (simp add: Reset_def Let_def split: if_splits)
  from Reset_loop_effect [OF this, of V] assms(1)
  show e: "effect (quiet V) ?c c'" and "\<not> v_busy V (s_ptr (stmt_at c s)) (c_world c')" by auto
  show "attached c s \<Longrightarrow> attached c' s" using attached_effect [OF e] by simp
  show "stmt_at c' s = (stmt_at c s)\<lparr>s_lastHasRow := False\<rparr>" using e by (simp add: effect_def)
qed

lemma Reset_conn_ok:
  assumes "lib_busy_ok K L V" and "conn_ok V c" and "attached c s" and "Reset K L s c = Some (err, c')"
  shows "conn_ok V c'"
proof -
  note e = Reset_result [OF assms(1,4)]
  have "effect (quiet V) c (c'\<lparr>c_heap := c_heap c\<rparr>)"
    using e(3) by (simp add: effect_def)
  then have e': "effect (touches V (s_ptr (stmt_at c s))) c (c'\<lparr>c_heap := c_heap c\<rparr>)"
    by (rule effect_quiet_touches)
  have h: "c_heap c' = (c_heap c)(s := (stmt_at c s)\<lparr>s_lastHasRow := False\<rparr>)"
    using e(3) by (simp add: effect_def upd_stmt_def)
  have "conn_ok V (upd_stmt s (\<lambda>st. st\<lparr>s_lastHasRow := False\<rparr>) (c'\<lparr>c_heap := c_heap c\<rparr>))"
    using e(2) lib_busy_okD(12) [OF assms(1)] by (intro conn_ok_touch [OF assms(2) e' assms(3)]) simp_all
  moreover have "upd_stmt s (\<lambda>st. st\<lparr>s_lastHasRow := False\<rparr>) (c'\<lparr>c_heap := c_heap c\<rparr>) = c'"
    using h by (simp add: upd_stmt_def)
  ultimately show ?thesis by simp
qed

lemma Step_run_result:
  assumes "lib_busy_ok K L V" and "attached c s" and "s_bindErr (stmt_at c s) = None"
    and "Step K L s c = Some ((row, err), c')"
  obtains c1 err1 where "step_loop K L s c = Some ((row, err1), c1)"
    and "step_result_ok V (s_ptr (stmt_at c s)) c ((row, err1), c1)"
    and "err = None \<longleftrightarrow> err1 = None"
    and "c' = (if err1 = None then upd_stmt s (\<lambda>st. st\<lparr>s_lastHasRow := row\<rparr>) c1
               else snd (lib_call (x_reset L (s_ptr (stmt_at c s))) (upd_stmt s (\<lambda>st. st\<lparr>s_lastHasRow := row\<rparr>) c1)))"
proof -
  obtain row1 err1 c1 where l: "step_loop K L s c = Some ((row1, err1), c1)"
    using assms(3,4) by (auto simp: Step_def bind_eq_Some_conv)
  have r: "step_result_ok V (s_ptr (stmt_at c s)) c ((row1, err1), c1)"
    using step_loop_effect [OF l] assms(1) by blast
  have h: "c_heap c1 = c_heap c" using r by (simp add: step_result_ok_def effect_def)
  show thesis
    using that [of err1 c1] assms(3,4) l r h by (auto simp: Step_def Let_def errorf_w_def split: if_splits)
qed

lemma Step_result:
  assumes "lib_busy_ok K L V" and "conn_ok V c" and "attached c s" and "Step K L s c = Some ((row, err), c')"
  shows "conn_ok V c' \<and> attached c' s \<and> s_lastHasRow (stmt_at c' s) = row \<and>
    (err \<noteq> None \<or> \<not> row \<longrightarrow> \<not> v_busy V (s_ptr (stmt_at c s)) (c_world c')) \<and> (err \<noteq> None \<longrightarrow> \<not> row)"
proof (cases "s_bindErr (stmt_at c s) = None")
  case False
  let ?c = "upd_stmt s (\<lambda>st. st\<lparr>s_bindErr := None\<rparr>) c"
  obtain e where r: "Reset K L s ?c = Some (e, c')" and "\<not> row" "err \<noteq> None"
    using False assms(4) by (auto simp: Step_def bind_eq_Some_conv errorf_w_def)
  moreover have "conn_ok V ?c" using assms(2) by (rule conn_ok_upd) simp_all
  moreover have "attached ?c s" using assms(3) by simp
  ultimately show ?thesis
    using Reset_conn_ok [OF assms(1)] Reset_result [OF assms(1) r] by auto
next
  case True
  let ?p = "s_ptr (stmt_at c s)"
  obtain c1 err1 where r: "step_result_ok V ?p c ((row, err1), c1)" and er: "err = None \<longleftrightarrow> err1 = None"
    and c': "c' = (if err1 = None then upd_stmt s (\<lambda>st. st\<lparr>s_lastHasRow := row\<rparr>) c1
               else snd (lib_call (x_reset L ?p) (upd_stmt s (\<lambda>st. st\<lparr>s_lastHasRow := row\<rparr>) c1)))"
    using Step_run_result [OF assms(1,3) True assms(4)] .
  have e: "effect (touches V ?p) c c1" using r by (simp add: step_result_ok_def)
  note z = lib_busy_okD(12) [OF assms(1)]
  have a1: "attached c1 s" using assms(3) attached_effect [OF e] by simp
  show ?thesis
  proof (cases "err1 = None")
    case True
    then show ?thesis
      using conn_ok_touch [OF assms(2) e assms(3), of row] r z a1 er by (auto simp: c' step_result_ok_def)
  next
    case False
    let ?c2 = "snd (lib_call (x_reset L ?p) c1)"
    have q: "effect (quiet V) c1 ?c2" using effect_lib_call lib_busy_okD(3) [OF assms(1)] by blast
    have e2: "effect (touches V ?p) c ?c2" using effect_touches_trans [OF e effect_quiet_touches [OF q]] .
    have b: "\<not> v_busy V ?p (c_world ?c2)" using lib_busy_okD(4) [OF assms(1)] by (simp add: lib_call_eq)
    have c2: "c' = upd_stmt s (\<lambda>st. st\<lparr>s_lastHasRow := row\<rparr>) ?c2"
      using False by (auto simp: c' lib_call_eq upd_stmt_def)
    have "\<not> row" using r False by (auto simp: step_result_ok_def)
    then show ?thesis
      using conn_ok_touch [OF assms(2) e2 assms(3), of row] b z a1 attached_effect [OF q] er False
      by (auto simp: c2)
  qed
qed

lemma ClearBindings_effect:
  assumes "lib_busy_ok K L V" and "ClearBindings K L s c = Some (err, c')"
  shows "effect (quiet V) c c'"
proof -
  obtain e c1 where i: "Stmt_interrupted K L s c = Some (e, c1)"
    and c': "c' = c1 \<or> c' = snd (lib_call (x_clear_bindings L (s_ptr (stmt_at c1 s))) c1)"
    using assms(2) by (auto simp: ClearBindings_def bind_eq_Some_conv Let_def case_prod_beta split: if_splits)
  have "effect (quiet V) c1 (snd (lib_call (x_clear_bindings L (s_ptr (stmt_at c1 s))) c1))"
    using effect_lib_call lib_busy_okD(5) [OF assms(1)] by blast
  then show ?thesis
    using c' Stmt_interrupted_effect [OF assms(1) i] effect_quiet_trans by blast
qed

section \<open>Step and Reset return\<close>

lemma lib_unlocksD:
  assumes "lib_unlocks K L \<mu>"
  shows "\<mu> (snd (x_step L p w)) \<le> \<mu> w"
    and "fst (x_step L p w) = ResultLockedSharedCache K \<Longrightarrow> \<mu> (snd (x_step L p w)) < \<mu> w"
    and "\<mu> (snd (x_reset L p w)) \<le> \<mu> w"
    and "fst (x_reset L p w) = ResultLockedSharedCache K \<Longrightarrow> \<mu> (snd (x_reset L p w)) < \<mu> w"
    and "\<mu> (snd (snd (x_unlock_notify L w))) \<le> \<mu> w"
    and "\<exists>w'. un_block L w = Some w' \<and> \<mu> w' \<le> \<mu> w"
    and "\<mu> (snd (x_done L ch w)) \<le> \<mu> w"
  using assms unfolding lib_unlocks_def by blast+

lemma Conn_wait_returns:
  assumes "lib_unlocks K L \<mu>" and "note_ok (c_note c)"
  shows "\<exists>r c'. Conn_wait K L c = Some (r, c') \<and> \<mu> (c_world c') \<le> \<mu> (c_world c) \<and>
    note_ok (c_note c') \<and> c_heap c' = c_heap c"
proof -
  obtain res called w1 where u: "x_unlock_notify L (c_world c) = (res, called, w1)" by (cases "x_unlock_notify L (c_world c)")
  have m1: "\<mu> w1 \<le> \<mu> (c_world c)" using lib_unlocksD(5) [OF assms(1), of "c_world c"] u by simp
  obtain w2 where b: "un_block L w1 = Some w2" and m2: "\<mu> w2 \<le> \<mu> w1"
    using lib_unlocksD(6) [OF assms(1)] by blast
  obtain un w where w: "waitForUnlockNotify K L (c_note c) (c_world c) = Some (res, un, w)" and "w = w1 \<or> w = w2"
    using assms(2) u b by (cases "res = ResultOK K \<and> \<not> called") (auto simp: waitForUnlockNotify_ok)
  then show ?thesis
    using m1 m2 waitForUnlockNotify_note_ok [OF assms(2) w] by (auto simp: Conn_wait_def)
qed

lemma Reset_loop_returns:
  assumes "lib_unlocks K L \<mu>" and "note_ok (c_note c)"
  shows "\<exists>r. Reset_loop K L p c = Some r"
  using assms(2)
proof (induction "\<mu> (c_world c)" arbitrary: c rule: less_induct)
  case less
  let ?c1 = "c\<lparr>c_world := snd (x_reset L p (c_world c))\<rparr>"
  show ?case
  proof (cases "fst (x_reset L p (c_world c)) = ResultLockedSharedCache K")
    case True
    then have m: "\<mu> (c_world ?c1) < \<mu> (c_world c)" using lib_unlocksD(4) [OF assms(1)] by simp
    obtain r c2 where w: "Conn_wait K L ?c1 = Some (r, c2)" and m2: "\<mu> (c_world c2) \<le> \<mu> (c_world ?c1)"
      and n: "note_ok (c_note c2)"
      using Conn_wait_returns [OF assms(1), of ?c1] less.prems by (auto simp del: Conn.update_convs)
    have "\<exists>r. Reset_loop K L p c2 = Some r" using less.hyps [OF _ n] m m2 by simp
    then show ?thesis using True w by (subst Reset_loop.simps) (simp add: lib_call_eq)
  next
    case False
    then show ?thesis by (subst Reset_loop.simps) (simp add: lib_call_eq)
  qed
qed

lemma Reset_returns:
  assumes "lib_unlocks K L \<mu>" and "note_ok (c_note c)" and "s_conn (stmt_at c s)"
  shows "\<exists>r. Reset K L s c = Some r"
  using Reset_loop_returns [OF assms(1)] assms(2,3) by (simp add: Reset_def Let_def)

lemma Stmt_interrupted_returns:
  assumes "lib_unlocks K L \<mu>" and "s_conn (stmt_at c s)" and "note_ok (c_note c)"
  obtains err c' where "Stmt_interrupted K L s c = Some (err, c')" and "\<mu> (c_world c') \<le> \<mu> (c_world c)"
    and "c_heap c' = c_heap c" and "note_ok (c_note c')"
proof -
  obtain err c' where i: "Stmt_interrupted K L s c = Some (err, c')"
    using assms(2)
    by (cases "Conn_interrupted K L c"; cases "s_prepInterrupt (stmt_at c s)") (auto simp: Stmt_interrupted_def)
  have "c' = c \<or> (\<exists>ch. c' = snd (lib_call (x_done L ch) c))"
    using i by (auto simp: Stmt_interrupted_def Conn_interrupted_def case_prod_beta split: if_splits option.splits)
  then show thesis using that [OF i] lib_unlocksD(7) [OF assms(1)] assms(3) by (auto simp: lib_call_eq)
qed

lemma step_loop_returns:
  assumes "lib_unlocks K L \<mu>" and "note_ok (c_note c)" and "s_conn (stmt_at c s)"
  shows "\<exists>r. step_loop K L s c = Some r"
  using assms(2,3)
proof (induction "\<mu> (c_world c)" arbitrary: c rule: less_induct)
  case less
  obtain err c0 where i: "Stmt_interrupted K L s c = Some (err, c0)" and m0: "\<mu> (c_world c0) \<le> \<mu> (c_world c)"
    and h0: "c_heap c0 = c_heap c" and n0: "note_ok (c_note c0)"
    using Stmt_interrupted_returns [OF assms(1) less.prems(2,1)] .
  let ?p = "s_ptr (stmt_at c s)"
  let ?c1 = "c0\<lparr>c_world := snd (x_step L ?p (c_world c0))\<rparr>" and ?res = "fst (x_step L ?p (c_world c0))"
  obtain r c2 where w: "Conn_wait K L ?c1 = Some (r, c2)" and m2: "\<mu> (c_world c2) \<le> \<mu> (c_world ?c1)"
    and n2: "note_ok (c_note c2)" and h2: "c_heap c2 = c_heap c"
    using Conn_wait_returns [OF assms(1), of ?c1] n0 h0 by auto
  let ?c3 = "c2\<lparr>c_world := snd (x_reset L ?p (c_world c2))\<rparr>"
  have "\<exists>r. step_loop K L s ?c3 = Some r" if "?res = ResultLockedSharedCache K"
  proof (rule less.hyps)
    show "\<mu> (c_world ?c3) < \<mu> (c_world c)"
      using lib_unlocksD(2) [OF assms(1) that] lib_unlocksD(3) [OF assms(1), of ?p "c_world c2"] m0 m2 by simp
  qed (use n2 h2 less.prems in simp_all)
  then show ?case
    using i w h0 h2 less.prems(2) by (subst step_loop.simps) (auto simp: lib_call_eq)
qed

lemma Step_returns_aux:
  assumes "lib_unlocks K L \<mu>" and "note_ok (c_note c)" and "s_conn (stmt_at c s)"
    and "lib_busy_ok K L V"
  shows "\<exists>r. Step K L s c = Some r"
proof (cases "s_bindErr (stmt_at c s) = None")
  case True
  obtain row err c1 where l: "step_loop K L s c = Some ((row, err), c1)"
    using step_loop_returns [OF assms(1-3)] by auto
  moreover have "c_heap c1 = c_heap c"
    using step_loop_effect [OF l, of V] assms(4) by (simp add: step_result_ok_def effect_def)
  ultimately show ?thesis using True assms(3) by (simp add: Step_def Let_def)
next
  case False
  then show ?thesis
    using Reset_returns [OF assms(1), of "upd_stmt s (\<lambda>st. st\<lparr>s_bindErr := None\<rparr>) c" s] assms(2,3)
    by (auto simp: Step_def)
qed

section \<open>Binding keeps the first error\<close>

text \<open>A bind changes the world quietly and at most the pending error of its statement, and only
  when there was none.\<close>

definition bind_effect :: "('w, 'n) lib_view_scheme \<Rightarrow> nat \<Rightarrow> 'w Conn \<Rightarrow> 'w Conn \<Rightarrow> bool" where
  "bind_effect V s c c' \<longleftrightarrow>
     (\<exists>e w. c' = (upd_stmt s (\<lambda>st. st\<lparr>s_bindErr := e\<rparr>) c)\<lparr>c_world := w\<rparr> \<and> quiet V (c_world c) w \<and>
        (s_bindErr (stmt_at c s) \<noteq> None \<longrightarrow> e = s_bindErr (stmt_at c s)))"

lemma bind_effect_refl [simp]: "bind_effect V s c c"
  by (auto simp: bind_effect_def upd_stmt_def intro!: exI [of _ "s_bindErr (stmt_at c s)"] exI [of _ "c_world c"])

lemma bind_effect_trans:
  assumes "bind_effect V s c1 c2" and "bind_effect V s c2 c3"
  shows "bind_effect V s c1 c3"
proof -
  obtain e2 w2 where 2: "c2 = (upd_stmt s (\<lambda>st. st\<lparr>s_bindErr := e2\<rparr>) c1)\<lparr>c_world := w2\<rparr>" "quiet V (c_world c1) w2"
    "s_bindErr (stmt_at c1 s) \<noteq> None \<longrightarrow> e2 = s_bindErr (stmt_at c1 s)"
    using assms(1) by (auto simp: bind_effect_def)
  obtain e3 w3 where 3: "c3 = (upd_stmt s (\<lambda>st. st\<lparr>s_bindErr := e3\<rparr>) c2)\<lparr>c_world := w3\<rparr>" "quiet V (c_world c2) w3"
    "s_bindErr (stmt_at c2 s) \<noteq> None \<longrightarrow> e3 = s_bindErr (stmt_at c2 s)"
    using assms(2) by (auto simp: bind_effect_def)
  have "c3 = (upd_stmt s (\<lambda>st. st\<lparr>s_bindErr := e3\<rparr>) c1)\<lparr>c_world := w3\<rparr>"
    using 2(1) 3(1) by (simp add: upd_stmt_def)
  moreover have "quiet V (c_world c1) w3" using quiet_trans [OF 2(2), of w3] 3(2) 2(1) by simp
  moreover have "s_bindErr (stmt_at c1 s) \<noteq> None \<longrightarrow> e3 = s_bindErr (stmt_at c1 s)"
    using 2(1,3) 3(3) by simp
  ultimately show ?thesis by (auto simp: bind_effect_def)
qed

lemma bind_effect_world: "quiet V (c_world c) w \<Longrightarrow> bind_effect V s c (c\<lparr>c_world := w\<rparr>)"
  by (auto simp: bind_effect_def upd_stmt_def intro!: exI [of _ "s_bindErr (stmt_at c s)"])

lemma bind_effect_err:
  "s_bindErr (stmt_at c s) = None \<Longrightarrow> bind_effect V s c (upd_stmt s (\<lambda>st. st\<lparr>s_bindErr := e\<rparr>) c)"
  by (auto simp: bind_effect_def intro!: exI [of _ e] exI [of _ "c_world c"])

lemma handleBindErr_effect: "bind_effect V s c (handleBindErr K prefix res s c)"
  by (simp add: handleBindErr_def bind_effect_err)

lemma bind_call_effect:
  assumes "lib_busy_ok K L V" and "bind_call K L prefix arg s param c = Some c'"
  shows "bind_effect V s c c'"
proof -
  let ?c1 = "c\<lparr>c_world := snd (x_bind L (s_ptr (stmt_at c s)) (wrap32 param) arg (c_world c))\<rparr>"
  have "bind_effect V s c ?c1" by (rule bind_effect_world) (rule lib_busy_okD(6) [OF assms(1)])
  moreover obtain res where "c' = handleBindErr K prefix res s ?c1"
    using assms(2) by (auto simp: bind_call_def lib_call_eq split: if_splits)
  ultimately show ?thesis using bind_effect_trans handleBindErr_effect by metis
qed

lemma with_malloc_effect:
  assumes "lib_busy_ok K L V" and "with_malloc L prefix n s k c = Some c'"
    and k: "\<And>c c'. k c = Some c' \<Longrightarrow> bind_effect V s c c'"
  shows "bind_effect V s c c'"
proof -
  let ?c1 = "c\<lparr>c_world := snd (x_malloc L n (c_world c))\<rparr>"
  have "bind_effect V s c ?c1" by (rule bind_effect_world) (rule lib_busy_okD(7) [OF assms(1)])
  moreover have "bind_effect V s ?c1 c'"
    using assms(2) k by (auto simp: with_malloc_def lib_call_eq bind_effect_err split: if_splits)
  ultimately show ?thesis by (rule bind_effect_trans)
qed

lemma Bind_effects:
  assumes "lib_busy_ok K L V"
  shows "BindInt64 K L s i v c = Some c' \<Longrightarrow> bind_effect V s c c'"
    and "BindBool K L s i b c = Some c' \<Longrightarrow> bind_effect V s c c'"
    and "BindFloat K L s i x c = Some c' \<Longrightarrow> bind_effect V s c c'"
    and "BindNull K L s i c = Some c' \<Longrightarrow> bind_effect V s c c'"
    and "BindZeroBlob K L s i v c = Some c' \<Longrightarrow> bind_effect V s c c'"
    and "BindBytes K L s i t c = Some c' \<Longrightarrow> bind_effect V s c c'"
    and "BindText K L s i t c = Some c' \<Longrightarrow> bind_effect V s c c'"
  using bind_call_effect [OF assms] with_malloc_effect [OF assms]
  by (auto simp: BindInt64_def BindBool_def BindFloat_def BindNull_def BindZeroBlob_def BindBytes_def BindText_def
      split: if_splits)

lemma findBindName_effect: "bind_effect V s c (snd (findBindName prefix param s c))"
  by (simp add: findBindName_def bind_effect_err split: option.splits)

lemma Set_effects:
  assumes "lib_busy_ok K L V"
  shows "SetInt64 K L s n v c = Some c' \<Longrightarrow> bind_effect V s c c'"
    and "SetBool K L s n b c = Some c' \<Longrightarrow> bind_effect V s c c'"
    and "SetFloat K L s n x c = Some c' \<Longrightarrow> bind_effect V s c c'"
    and "SetNull K L s n c = Some c' \<Longrightarrow> bind_effect V s c c'"
    and "SetZeroBlob K L s n v c = Some c' \<Longrightarrow> bind_effect V s c c'"
    and "SetBytes K L s n t c = Some c' \<Longrightarrow> bind_effect V s c c'"
    and "SetText K L s n t c = Some c' \<Longrightarrow> bind_effect V s c c'"
  using bind_effect_trans [OF findBindName_effect [of V s c]] Bind_effects [OF assms]
  by (fastforce simp: SetInt64_def SetBool_def SetFloat_def SetNull_def SetZeroBlob_def SetBytes_def SetText_def
      Let_def case_prod_beta)+

lemma bind_effect_conn_ok:
  assumes "conn_ok V c" and "bind_effect V s c c'"
  shows "conn_ok V c'"
proof -
  obtain e w where c': "c' = (upd_stmt s (\<lambda>st. st\<lparr>s_bindErr := e\<rparr>) c)\<lparr>c_world := w\<rparr>" and q: "quiet V (c_world c) w"
    using assms(2) by (auto simp: bind_effect_def)
  have "conn_ok V (upd_stmt s (\<lambda>st. st\<lparr>s_bindErr := e\<rparr>) c)" using assms(1) by (rule conn_ok_upd) simp_all
  moreover have "effect (quiet V) (upd_stmt s (\<lambda>st. st\<lparr>s_bindErr := e\<rparr>) c) c'" using q by (simp add: c' effect_def)
  ultimately show ?thesis by (rule conn_ok_quiet)
qed

lemma bind_effect_attached: "bind_effect V s c c' \<Longrightarrow> attached c' t = attached c t"
  by (auto simp: bind_effect_def attached_def split: if_splits)

text \<open>\<open>bind_index\<close> finds the first parameter of a name.\<close>

lemma bind_index_Some:
  "bind_index names param = Some i \<longleftrightarrow>
     1 \<le> i \<and> i \<le> length names \<and> names ! (i - 1) = param \<and> (\<forall>j < i - 1. names ! j \<noteq> param)"
proof (induction names arbitrary: i)
  case (Cons n names)
  show ?case
  proof (cases i)
    case (Suc k)
    then show ?thesis
      using Cons.IH [of k] by (cases k) (auto simp: nth_Cons All_less_Suc2 split: nat.splits)
  qed auto
qed auto

lemma bind_index_None: "bind_index names param = None \<longleftrightarrow> param \<notin> set names"
  by (induction names) auto

end
