(* ===== verification/LineCol.thy ===== *)
theory LineCol
  imports GoLib
begin

text \<open>
  The line and column that an SQL error is reported at (\<open>linecol\<close>, sqlite.go).  Go's \<open>range\<close> over a
  string steps through UTF-8 sequences; \<open>rune_width\<close> is the number of bytes it consumes, 1 for a byte
  that does not start a valid sequence.
\<close>

section \<open>UTF-8 sequences\<close>

definition byte_in :: "nat \<Rightarrow> nat \<Rightarrow> char \<Rightarrow> bool" where
  "byte_in lo hi c \<longleftrightarrow> lo \<le> (of_char c :: nat) \<and> (of_char c :: nat) \<le> hi"

text \<open>The bytes accepted after the first one: the range of the second, and how many more follow.\<close>

definition utf8_lead :: "char \<Rightarrow> (nat \<times> nat \<times> nat) option" where
  "utf8_lead c =
     (if byte_in 0xC2 0xDF c then Some (0x80, 0xBF, 0)
      else if byte_in 0xE0 0xE0 c then Some (0xA0, 0xBF, 1)
      else if byte_in 0xED 0xED c then Some (0x80, 0x9F, 1)
      else if byte_in 0xE1 0xEF c then Some (0x80, 0xBF, 1)
      else if byte_in 0xF0 0xF0 c then Some (0x90, 0xBF, 2)
      else if byte_in 0xF1 0xF3 c then Some (0x80, 0xBF, 2)
      else if byte_in 0xF4 0xF4 c then Some (0x80, 0x8F, 2)
      else None)"

definition rune_width :: "gostring \<Rightarrow> nat" where
  "rune_width s = (case s of
     [] \<Rightarrow> 0
   | [c] \<Rightarrow> 1
   | c # d # s' \<Rightarrow> (case utf8_lead c of
       None \<Rightarrow> 1
     | Some (lo, hi, n) \<Rightarrow>
         if byte_in lo hi d \<and> n \<le> length s' \<and> list_all (byte_in 0x80 0xBF) (take n s') then n + 2 else 1))"

lemma rune_width_pos: "s \<noteq> [] \<Longrightarrow> 0 < rune_width s"
  by (auto simp: rune_width_def neq_Nil_conv split: list.splits option.splits)

lemma rune_width_le: "rune_width s \<le> length s"
  by (auto simp: rune_width_def split: list.splits option.splits)

section \<open>linecol\<close>

text \<open>What one character does to the position; only the two control characters matter, and they are
  sequences of one byte.\<close>

abbreviation newline :: char where "newline \<equiv> CHR 0x0A"
abbreviation tab :: char where "tab \<equiv> CHR 0x09"

definition advance :: "char \<Rightarrow> nat \<times> nat \<Rightarrow> nat \<times> nat" where
  "advance ch pos = (case pos of (line, col) \<Rightarrow>
     if ch = newline then (line + 1, 1)
     else if ch = tab then (let tabWidth = 8; locationInTab = (col - 1) mod tabWidth in (line, col + (tabWidth - locationInTab)))
     else (line, col + 1))"

function linecol_from :: "gostring \<Rightarrow> nat \<times> nat \<Rightarrow> nat \<times> nat" where
  "linecol_from s pos = (if s = [] then pos else linecol_from (drop (rune_width s) s) (advance (hd s) pos))"
  by auto
termination
  by (relation "measure (\<lambda>(s, _). length s)") (use rune_width_pos in auto)

declare linecol_from.simps [simp del]

definition linecol :: "gostring \<Rightarrow> nat \<times> nat" where
  "linecol s = linecol_from s (1, 1)"

section \<open>Lemmas\<close>

lemma linecol_from_Nil [simp]: "linecol_from [] pos = pos"
  by (subst linecol_from.simps) simp

lemma linecol_from_step: "s \<noteq> [] \<Longrightarrow> linecol_from s pos = linecol_from (drop (rune_width s) s) (advance (hd s) pos)"
  by (subst linecol_from.simps) simp

text \<open>A sequence of more than one byte holds no newline, and ends before one.\<close>

lemma byte_in_not_newline: "0x80 \<le> lo \<Longrightarrow> byte_in lo hi c \<Longrightarrow> c \<noteq> newline"
  by (auto simp: byte_in_def)

lemma utf8_lead_bounds: "utf8_lead c = Some (lo, hi, n) \<Longrightarrow> 0x80 \<le> lo \<and> 0x80 \<le> (of_char c :: nat)"
  by (auto simp: utf8_lead_def byte_in_def split: if_splits)

lemma rune_width_newline_tail:
  assumes "s \<noteq> []"
  shows "newline \<notin> set (tl (take (rune_width s) s))"
proof (cases s)
  case (Cons c s1)
  show ?thesis
  proof (cases s1)
    case (Cons d s')
    have "newline \<notin> set (tl (take (n + 2) (c # d # s')))"
      if "utf8_lead c = Some (lo, hi, n)" "byte_in lo hi d" "list_all (byte_in 0x80 0xBF) (take n s')" for lo hi n
      using that utf8_lead_bounds [OF that(1)] byte_in_not_newline
      by (force simp: list_all_iff)
    then show ?thesis
      using \<open>s = c # s1\<close> Cons by (auto simp: rune_width_def split: option.splits)
  qed (use \<open>s = c # s1\<close> in \<open>simp add: rune_width_def\<close>)
qed (use assms in simp)

lemma hd_newline_width: "s \<noteq> [] \<Longrightarrow> (of_char (hd s) :: nat) < 0x80 \<Longrightarrow> rune_width s = 1"
  by (cases s) (auto simp: rune_width_def split: list.splits option.splits dest: utf8_lead_bounds)

lemma fst_advance: "fst (advance ch pos) = fst pos + (if ch = newline then 1 else 0)"
  by (simp add: advance_def Let_def split: prod.splits)

lemma count_tl: "xs \<noteq> [] \<Longrightarrow> x \<notin> set (tl xs) \<Longrightarrow> count_list xs x = (if hd xs = x then 1 else 0)"
  by (cases xs) auto

lemma count_take_drop:
  assumes "p \<noteq> []" and "0 < w" and "x \<notin> set (tl (take w p))"
  shows "count_list p x = (if hd p = x then 1 else 0) + count_list (drop w p) x"
proof -
  have "count_list p x = count_list (take w p) x + count_list (drop w p) x"
    by (metis append_take_drop_id count_list_append)
  moreover have "take w p \<noteq> []" "hd (take w p) = hd p" using assms(1,2) by (simp_all add: hd_take)
  ultimately show ?thesis using count_tl [of "take w p" x] assms(3) by simp
qed

lemma linecol_from_line: "fst (linecol_from s pos) = fst pos + count_list s newline"
proof (induction s pos rule: linecol_from.induct)
  case (1 s pos)
  show ?case
  proof (cases "s = []")
    case False
    then show ?thesis
      using 1 count_take_drop [OF False rune_width_pos [OF False] rune_width_newline_tail [OF False]]
      by (simp add: linecol_from_step [OF False] fst_advance)
  qed simp
qed

lemma advance_newline [simp]: "advance newline pos = (fst pos + 1, 1)"
  by (simp add: advance_def split: prod.splits)

text \<open>The width of the first sequence does not reach past a newline.\<close>

lemma rune_width_append_newline:
  assumes "p \<noteq> []"
  shows "rune_width (p @ newline # l) \<le> length p"
proof (rule ccontr)
  let ?s = "p @ newline # l"
  assume "\<not> ?thesis"
  then obtain k where "rune_width ?s = Suc (length p + k)" by (metis add_Suc less_iff_Suc_add not_le)
  then have "newline \<in> set (tl (take (rune_width ?s) ?s))"
    using assms by (cases p) auto
  then show False using rune_width_newline_tail [of ?s] by simp
qed

lemma linecol_from_append:
  "linecol_from (p @ newline # l) pos = linecol_from l (fst pos + count_list p newline + 1, 1)"
proof (induction "length p" arbitrary: p pos rule: less_induct)
  case less
  show ?case
  proof (cases p)
    case Nil
    then show ?thesis by (subst linecol_from_step) (simp_all add: hd_newline_width)
  next
    case (Cons c p')
    let ?s = "p @ newline # l" and ?w = "rune_width (p @ newline # l)"
    have w: "0 < ?w" "?w \<le> length p" using rune_width_pos [of ?s] rune_width_append_newline [of p l] Cons by auto
    have t: "take ?w ?s = take ?w p" "hd ?s = hd p"
      using w(2) by (simp only: take_append diff_is_0_eq [THEN iffD2] take_0 append_Nil2) (simp add: Cons)
    have "newline \<notin> set (tl (take ?w p))" using rune_width_newline_tail [of ?s] t Cons by simp
    then have n: "count_list p newline = (if hd p = newline then 1 else 0) + count_list (drop ?w p) newline"
      using w(1) Cons by (intro count_take_drop) auto
    have "linecol_from ?s pos = linecol_from (drop ?w p @ newline # l) (advance (hd p) pos)"
      using w(2) t(2) linecol_from_step [of ?s pos] by simp
    also have "\<dots> = linecol_from l (fst (advance (hd p) pos) + count_list (drop ?w p) newline + 1, 1)"
      using less [of "drop ?w p"] w by simp
    finally show ?thesis using n by (simp add: fst_advance)
  qed
qed

lemma linecol_from_ascii:
  assumes "\<forall>ch \<in> set s. (of_char ch :: nat) < 0x80 \<and> ch \<noteq> newline \<and> ch \<noteq> tab"
  shows "linecol_from s (line, col) = (line, col + length s)"
  using assms
proof (induction s arbitrary: col)
  case (Cons ch s)
  then show ?case by (subst linecol_from_step) (auto simp: hd_newline_width advance_def)
qed simp



end
