(* ===== verification/Conn.thy ===== *)
theory Conn
  imports Stmt LineCol
begin

text \<open>
  Connections (sqlite.go, \<open>type Conn\<close>): preparing statements and the cache of persistent ones, closing,
  interrupts and the busy handler.
\<close>

section \<open>Preparing\<close>

definition fmt_prepare :: gostring where "fmt_prepare = ''sqlite: prepare: %w''"
definition fmt_prepare_q :: gostring where "fmt_prepare_q = ''sqlite: prepare %q: %w''"
definition err_trailing :: go_error where "err_trailing = ErrorString ''sqlite: prepare %q: statement has trailing bytes''"

definition PREPARE_PERSISTENT :: "lib_consts \<Rightarrow> int" where
  "PREPARE_PERSISTENT K = K ''SQLITE_PREPARE_PERSISTENT''"

definition map_insert :: "gostring \<Rightarrow> 'b \<Rightarrow> (gostring \<times> 'b) list \<Rightarrow> (gostring \<times> 'b) list" where
  "map_insert k v m = (k, v) # map_delete k m"

text \<open>An error with an offset into the query gets the line and the column in front.\<close>

definition locate_error :: "gostring \<Rightarrow> error \<Rightarrow> error" where
  "locate_error query err =
     (case ErrorOffset err of (offset, ok) \<Rightarrow>
        if ok \<and> offset \<le> int (length query)
        then (case linecol (take (nat offset) query) of (line, col) \<Rightarrow>
               errorf_w (FormatInt (int line) @ '':'' @ FormatInt (int col) @ '': %w'') err)
        else err)"

definition bind_names :: "('w, 'm) sqlite_lib_scheme \<Rightarrow> nat \<Rightarrow> 'w \<Rightarrow> gostring list" where
  "bind_names L p w =
     map (\<lambda>i. case x_bind_parameter_name L p (i + 1) w of None \<Rightarrow> '''' | Some name \<Rightarrow> name)
       [0..<x_bind_parameter_count L p w]"

definition col_names :: "('w, 'm) sqlite_lib_scheme \<Rightarrow> nat \<Rightarrow> 'w \<Rightarrow> (gostring \<times> nat) list" where
  "col_names L p w =
     fold (\<lambda>i m. case x_column_name L p i w of None \<Rightarrow> m | Some name \<Rightarrow> map_insert name i m)
       [0..<x_column_count L p w] []"

definition new_Stmt :: "('w, 'm) sqlite_lib_scheme \<Rightarrow> gostring \<Rightarrow> nat \<Rightarrow> 'w \<Rightarrow> Stmt" where
  "new_Stmt L query p w = \<lparr>s_conn = True, s_ptr = p, s_query = query, s_bindNames = bind_names L p w,
     s_colNames = col_names L p w, s_bindErr = None, s_prepInterrupt = False, s_lastHasRow = False\<rparr>"

text \<open>A new object on the heap.\<close>

definition alloc_Stmt :: "Stmt \<Rightarrow> 'w Conn \<Rightarrow> nat \<times> 'w Conn" where
  "alloc_Stmt st c = (c_next c, c\<lparr>c_heap := (c_heap c)(c_next c := st), c_next := Suc (c_next c)\<rparr>)"

text \<open>\<open>ptrSize\<close> is 8 bytes.\<close>

definition conn_prepare ::
  "lib_consts \<Rightarrow> ('w, 'm) sqlite_lib_scheme \<Rightarrow> gostring \<Rightarrow> int \<Rightarrow> 'w Conn \<Rightarrow> (nat option \<times> int \<times> error) \<times> 'w Conn" where
  "conn_prepare K L query flags c =
     (case Conn_interrupted K L c of (err, c) \<Rightarrow>
      if err \<noteq> None then ((None, 0, err), c) else
      (case lib_call (x_cstring L query) c of (err, c) \<Rightarrow>
       if err \<noteq> None then ((None, 0, err), c) else
       (case lib_call (x_malloc L 8) c of (ok, c) \<Rightarrow>
        if \<not> ok then ((None, 0, Some err_nomem), c) else
        (case lib_call (x_malloc L 8) c of (ok, c) \<Rightarrow>
         if \<not> ok then ((None, 0, Some err_nomem), c) else
         (case lib_call (x_prepare_v3 L query flags) c of ((res, p, consumed), c) \<Rightarrow>
          let err = conn_extreserr K L res c in
          if err \<noteq> None then ((None, 0, locate_error query err), c)
          else (case alloc_Stmt (new_Stmt L query p (c_world c)) c of (s, c) \<Rightarrow>
                 ((Some s, int (length query) - int consumed, None), c)))))))"

definition PrepareTransient ::
  "lib_consts \<Rightarrow> ('w, 'm) sqlite_lib_scheme \<Rightarrow> gostring \<Rightarrow> 'w Conn \<Rightarrow> (nat option \<times> int \<times> error) \<times> 'w Conn" where
  "PrepareTransient K L query c =
     (case conn_prepare K L query 0 c of ((s, trailing, err), c) \<Rightarrow> ((s, trailing, wrap_error fmt_prepare err), c))"

definition Prepare ::
  "lib_consts \<Rightarrow> ('w, 'm) sqlite_lib_scheme \<Rightarrow> gostring \<Rightarrow> 'w Conn \<Rightarrow> ((nat option \<times> error) \<times> 'w Conn) option" where
  "Prepare K L query c =
     (case map_of (c_stmts c) query of
        Some s \<Rightarrow> do {
          (err, c) \<leftarrow> Reset K L s c;
          if err \<noteq> None then Some ((None, err), c)
          else do {
            (err, c) \<leftarrow> ClearBindings K L s c;
            if err \<noteq> None then Some ((None, err), c) else Some ((Some s, None), c)
          }
        }
      | None \<Rightarrow>
          (case conn_prepare K L query (PREPARE_PERSISTENT K) c of
             ((Some s, trailing, None), c) \<Rightarrow>
               if trailing \<noteq> 0 then do {
                 (_, c) \<leftarrow> Finalize K L s c;
                 Some ((None, Some err_trailing), c)
               }
               else Some ((Some s, None), c\<lparr>c_stmts := map_insert query s (c_stmts c)\<rparr>)
           | ((_, _, err), c) \<Rightarrow> Some ((None, errorf_w fmt_prepare_q err), c)))"

text \<open>\<open>Prep\<close> panics (\<open>Inl\<close>) with the error of \<open>Prepare\<close>, unless it is an interrupt.\<close>

definition Prep ::
  "lib_consts \<Rightarrow> ('w, 'm) sqlite_lib_scheme \<Rightarrow> gostring \<Rightarrow> 'w Conn \<Rightarrow> ((error + nat option) \<times> 'w Conn) option" where
  "Prep K L query c = do {
     ((s, err), c) \<leftarrow> Prepare K L query c;
     if err \<noteq> None then
       if ErrCode K err = ResultInterrupt K
       then (case alloc_Stmt \<lparr>s_conn = True, s_ptr = 0, s_query = query, s_bindNames = [], s_colNames = [],
               s_bindErr = None, s_prepInterrupt = True, s_lastHasRow = False\<rparr> c of (s, c) \<Rightarrow> Some (Inr (Some s), c))
       else Some (Inl err, c)
     else Some (Inr s, c)
   }"

section \<open>Interrupts\<close>

text \<open>The two handshakes with the goroutine that watches the channel.\<close>

definition cancelInterrupt :: "'w Conn \<Rightarrow> 'w Conn" where
  "cancelInterrupt c = (if c_cancelCh c then c\<lparr>c_cancelCh := False\<rparr> else c)"

text \<open>The loop that resets the statements that are at a row.\<close>

fun reset_busy :: "lib_consts \<Rightarrow> ('w, 'm) sqlite_lib_scheme \<Rightarrow> (gostring \<times> nat) list \<Rightarrow> 'w Conn \<Rightarrow> 'w Conn option" where
  "reset_busy K L [] c = Some c"
| "reset_busy K L ((q, s) # m) c =
     (if s_lastHasRow (stmt_at c s) then do { (_, c) \<leftarrow> Reset K L s c; reset_busy K L m c } else reset_busy K L m c)"

text \<open>\<open>None\<close> also on a closed connection, where the source panics.\<close>

definition SetInterrupt ::
  "lib_consts \<Rightarrow> ('w, 'm) sqlite_lib_scheme \<Rightarrow> nat option \<Rightarrow> 'w Conn \<Rightarrow> (nat option \<times> 'w Conn) option" where
  "SetInterrupt K L doneCh c =
     (if c_closed c then None
      else let oldDoneCh = c_doneCh c;
               c = (cancelInterrupt c)\<lparr>c_doneCh := doneCh\<rparr>
           in do {
             c \<leftarrow> reset_busy K L (range_order L (c_stmts c)) c;
             if doneCh = None then Some (oldDoneCh, c) else Some (oldDoneCh, c\<lparr>c_cancelCh := True\<rparr>)
           })"

definition CheckReset :: "('w, 'm) sqlite_lib_scheme \<Rightarrow> 'w Conn \<Rightarrow> gostring" where
  "CheckReset L c =
     (case find (\<lambda>(_, s). s_lastHasRow (stmt_at c s)) (range_order L (c_stmts c)) of
        Some (_, s) \<Rightarrow> s_query (stmt_at c s)
      | None \<Rightarrow> '''')"

definition AutocommitEnabled :: "('w, 'm) sqlite_lib_scheme \<Rightarrow> 'w Conn \<Rightarrow> bool" where
  "AutocommitEnabled L c = x_get_autocommit L (c_world c)"

section \<open>Closing\<close>

definition fmt_close :: gostring where "fmt_close = ''sqlite: close: %w''"
definition err_closed :: go_error where "err_closed = ErrorString ''sqlite: close: already closed''"

fun finalize_all :: "lib_consts \<Rightarrow> ('w, 'm) sqlite_lib_scheme \<Rightarrow> (gostring \<times> nat) list \<Rightarrow> 'w Conn \<Rightarrow> 'w Conn option" where
  "finalize_all K L [] c = Some c"
| "finalize_all K L ((q, s) # m) c = do { (_, c) \<leftarrow> Finalize K L s c; finalize_all K L m c }"

definition Close :: "lib_consts \<Rightarrow> ('w, 'm) sqlite_lib_scheme \<Rightarrow> 'w Conn \<Rightarrow> (error \<times> 'w Conn) option" where
  "Close K L c =
     (if c_closed c then Some (Some err_closed, c)
      else do {
        c \<leftarrow> finalize_all K L (range_order L (c_stmts c)) ((cancelInterrupt c)\<lparr>c_closed := True\<rparr>);
        let (res, c) = lib_call (x_close L) c;
            c = c\<lparr>c_authorizer := False, c_busyHandler := False, c_registered := False\<rparr>
        in Some (if \<not> IsSuccess K res then wrap_error fmt_close (ToError K res) else None, c)
      })"

section \<open>The busy handler\<close>

definition busyDelays :: "nat list" where
  "busyDelays = [1, 2, 5, 10, 15, 20, 25, 25, 25, 50, 50, 100]"

definition setBusyHandler :: "('w, 'm) sqlite_lib_scheme \<Rightarrow> bool \<Rightarrow> 'w Conn \<Rightarrow> 'w Conn" where
  "setBusyHandler L handler c = c\<lparr>c_world := x_busy_handler L handler (c_world c), c_busyHandler := handler\<rparr>"

definition SetBlockOnBusy :: "('w, 'm) sqlite_lib_scheme \<Rightarrow> 'w Conn \<Rightarrow> 'w Conn" where
  "SetBlockOnBusy L c = setBusyHandler L True c"

definition SetBusyTimeout :: "('w, 'm) sqlite_lib_scheme \<Rightarrow> int \<Rightarrow> 'w Conn \<Rightarrow> 'w Conn" where
  "SetBusyTimeout L ms c = c\<lparr>c_world := x_busy_timeout L (wrap32 ms) (c_world c), c_busyHandler := False\<rparr>"

text \<open>The handler of \<open>SetBlockOnBusy\<close>: whether the delay passed before the channel was closed.\<close>

definition blockOnBusy :: "('w, 'm) sqlite_lib_scheme \<Rightarrow> nat \<Rightarrow> 'w Conn \<Rightarrow> bool \<times> 'w Conn" where
  "blockOnBusy L count c =
     (let count = (if length busyDelays \<le> count then length busyDelays - 1 else count)
      in case c_doneCh c of
           None \<Rightarrow> (True, c)
         | Some ch \<Rightarrow> lib_call (x_timer_first L (busyDelays ! count) ch) c)"

definition busyHandlerCallback :: "('w, 'm) sqlite_lib_scheme \<Rightarrow> nat \<Rightarrow> 'w Conn \<Rightarrow> int \<times> 'w Conn" where
  "busyHandlerCallback L count c =
     (if \<not> c_busyHandler c then (0, c)
      else case blockOnBusy L count c of (again, c) \<Rightarrow> (if again then 1 else 0, c))"

section \<open>Lemmas: the cache as a map\<close>

lemma map_of_delete: "map_of (map_delete k m) q = (if q = k then None else map_of m q)"
  by (induction m) (auto simp: map_delete_def)

lemma map_of_insert: "map_of (map_insert k v m) q = (if q = k then Some v else map_of m q)"
  by (simp add: map_insert_def map_of_delete)

lemma set_map_delete: "set (map_delete k m) = {e \<in> set m. fst e \<noteq> k}"
  by (auto simp: map_delete_def)

lemma distinct_map_delete: "distinct (map fst m) \<Longrightarrow> distinct (map fst (map_delete k m))"
  by (induction m) (auto simp: map_delete_def)

lemma distinct_map_insert: "distinct (map fst m) \<Longrightarrow> distinct (map fst (map_insert k v m))"
  by (auto simp: map_insert_def distinct_map_delete set_map_delete)

lemma cache_okD:
  assumes "cache_ok c" and "(q, s) \<in> set (c_stmts c)"
  shows "attached c s" and "s_query (stmt_at c s) = q"
  using assms bspec [of "set (c_stmts c)" _ "(q, s)"] unfolding cache_ok_def by auto

lemma cache_lookup:
  assumes "cache_ok c" and "map_of (c_stmts c) q = Some s"
  shows "attached c s" and "s_query (stmt_at c s) = q"
  using assms by (fastforce simp: cache_ok_def dest: map_of_SomeD)+

section \<open>Lemmas: preparing keeps the invariant\<close>

text \<open>No statement disappears and none becomes busy.\<close>

definition grows :: "('w, 'n) lib_view_scheme \<Rightarrow> 'w \<Rightarrow> 'w \<Rightarrow> bool" where
  "grows V w w' \<longleftrightarrow> (\<forall>q. v_live V q w \<longrightarrow> v_live V q w') \<and> (\<forall>q. v_busy V q w' \<longrightarrow> v_busy V q w)"

lemma quiet_grows: "quiet V w w' \<Longrightarrow> grows V w w'"
  by (simp add: quiet_def grows_def)

lemma conn_ok_grows:
  assumes "conn_ok V c" and "effect (grows V) c c'"
  shows "conn_ok V c'"
  using assms cache_ok_effect [OF assms(2)] attached_effect [OF assms(2)]
  unfolding conn_ok_def effect_def grows_def by (auto; metis)

lemma conn_ok_alloc:
  assumes "conn_ok V c" and "s_conn st"
    and "s_ptr st \<noteq> 0 \<Longrightarrow> v_live V (s_ptr st) (c_world c) \<and> (\<forall>s. attached c s \<longrightarrow> s_ptr (stmt_at c s) \<noteq> s_ptr st)"
    and "\<not> v_busy V (s_ptr st) (c_world c)"
  shows "conn_ok V (snd (alloc_Stmt st c))"
proof -
  let ?c = "snd (alloc_Stmt st c)"
  have a: "attached ?c s \<longleftrightarrow> attached c s \<or> s = c_next c" for s
    using assms(2) by (auto simp: attached_def alloc_Stmt_def)
  have h: "stmt_at ?c s = (if s = c_next c then st else stmt_at c s)" for s by (simp add: alloc_Stmt_def)
  have n: "\<not> attached c (c_next c)" by (simp add: attached_def)
  have f: "c_stmts ?c = c_stmts c" "c_note ?c = c_note c" "c_world ?c = c_world c" by (simp_all add: alloc_Stmt_def)
  have "cache_ok ?c" using assms(1) n unfolding conn_ok_def cache_ok_def f a h by fastforce
  moreover have "s_ptr st = 0" if "attached c s" "s_ptr (stmt_at c s) = s_ptr st" for s
    using assms(3) that by blast
  ultimately show ?thesis
    using assms n unfolding conn_ok_def f a h by (auto; metis)
qed

text \<open>A call with its result, for calls that are quiet.\<close>

lemma quiet_call:
  assumes "lib_call f c = (r, c')" and "\<And>w. quiet V w (snd (f w))" and "effect (quiet V) c0 c"
  shows "effect (quiet V) c0 c'"
  using effect_quiet_trans [OF assms(3) effect_lib_call [of "quiet V" c f]] assms(1,2) by simp

lemma alloc_ok_prepare:
  assumes "lib_alloc_ok K L V" and "x_prepare_v3 L q f w = ((code, p, n), w')"
  shows "grows V w w'" and "p \<noteq> 0 \<Longrightarrow> v_live V p w' \<and> \<not> v_live V p w" and "\<not> v_busy V p w'" and "n \<le> length q"
  using assms unfolding lib_alloc_ok_def grows_def by blast+

lemma conn_prepare_result:
  assumes "lib_busy_ok K L V" and "lib_alloc_ok K L V" and "conn_ok V c"
    and r: "conn_prepare K L query flags c = ((so, trailing, err), c')"
  shows "conn_ok V c' \<and> c_stmts c' = c_stmts c \<and>
    (case so of
       None \<Rightarrow> effect (grows V) c c'
     | Some s \<Rightarrow> err = None \<and> s = c_next c \<and> c_next c' = Suc (c_next c) \<and>
         (\<exists>p w. stmt_at c' s = new_Stmt L query p w) \<and> (\<forall>t < c_next c. stmt_at c' t = stmt_at c t))"
proof -
  obtain e0 c0 where c0: "Conn_interrupted K L c = (e0, c0)" by fastforce
  have q0: "effect (quiet V) c c0" using Conn_interrupted_effect [OF assms(1), of c] c0 by simp
  obtain e1 c1 where c1: "lib_call (x_cstring L query) c0 = (e1, c1)" by fastforce
  have q1: "effect (quiet V) c c1" using quiet_call [OF c1 lib_busy_okD(14) [OF assms(1)] q0] .
  obtain ok2 c2 where c2: "lib_call (x_malloc L 8) c1 = (ok2, c2)" by fastforce
  have q2: "effect (quiet V) c c2" using quiet_call [OF c2 lib_busy_okD(7) [OF assms(1)] q1] .
  obtain ok3 c3 where c3: "lib_call (x_malloc L 8) c2 = (ok3, c3)" by fastforce
  have q3: "effect (quiet V) c c3" using quiet_call [OF c3 lib_busy_okD(7) [OF assms(1)] q2] .
  obtain res p n c4 where c4: "lib_call (x_prepare_v3 L query flags) c3 = ((res, p, n), c4)"
    by (metis surj_pair)
  have x: "x_prepare_v3 L query flags (c_world c3) = ((res, p, n), c_world c4)" and f4: "c4 = c3\<lparr>c_world := c_world c4\<rparr>"
    using c4 by (auto simp: lib_call_def split: prod.splits)
  have g: "grows V (c_world c) (c_world c4)"
    using alloc_ok_prepare(1) [OF assms(2) x] q3 by (auto simp: effect_def quiet_def grows_def)
  have e4: "effect (grows V) c c4"
    using q3 g by (subst f4) (simp add: effect_def)
  have ok4: "conn_ok V c4" using conn_ok_grows [OF assms(3) e4] .
  have early: "effect (quiet V) c c' \<Longrightarrow> so = None \<Longrightarrow> ?thesis"
    using conn_ok_quiet [OF assms(3), of c'] by (simp add: effect_def quiet_grows)
  let ?a = "alloc_Stmt (new_Stmt L query p (c_world c4)) c4"
  have eq: "conn_prepare K L query flags c =
     (if e0 \<noteq> None then ((None, 0, e0), c0) else if e1 \<noteq> None then ((None, 0, e1), c1)
      else if \<not> ok2 then ((None, 0, Some err_nomem), c2) else if \<not> ok3 then ((None, 0, Some err_nomem), c3)
      else if conn_extreserr K L res c4 \<noteq> None then ((None, 0, locate_error query (conn_extreserr K L res c4)), c4)
      else ((Some (fst ?a), int (length query) - int n, None), snd ?a))"
    by (simp add: conn_prepare_def c0 c1 c2 c3 c4 Let_def case_prod_beta)
  consider (quiet) "so = None" "effect (quiet V) c c'"
    | (failed) "so = None" "c' = c4"
    | (made) "so = Some (fst ?a)" "err = None" "c' = snd ?a"
  proof -
    have "so = None \<and> c' \<in> {c0, c1, c2, c3, c4} \<or> so = Some (fst ?a) \<and> err = None \<and> c' = snd ?a"
      using r unfolding eq by (simp split: if_splits)
    then show thesis using that q0 q1 q2 q3 by blast
  qed
  then show ?thesis
  proof cases
    case quiet
    then show ?thesis using early by blast
  next
    case failed
    then show ?thesis using ok4 e4 by (simp add: effect_def)
  next
    case made
    have fresh: "s_ptr (stmt_at c4 s) \<noteq> p" if "attached c4 s" "p \<noteq> 0" for s
    proof -
      have "attached c s" "stmt_at c4 s = stmt_at c s"
        using that e4 attached_effect [OF e4] by (simp_all add: effect_def)
      then have "s_ptr (stmt_at c s) = 0 \<or> v_live V (s_ptr (stmt_at c s)) (c_world c3)"
        using assms(3) q3 by (auto simp: conn_ok_def effect_def quiet_def)
      then show ?thesis
        using alloc_ok_prepare(2) [OF assms(2) x that(2)] \<open>stmt_at c4 s = stmt_at c s\<close> that(2) by auto
    qed
    have "conn_ok V c'"
      using alloc_ok_prepare(2,3) [OF assms(2) x] fresh made(3)
      by (auto intro!: conn_ok_alloc [OF ok4] simp: new_Stmt_def)
    then show ?thesis using made e4 by (auto simp: alloc_Stmt_def effect_def)
  qed
qed

section \<open>Lemmas: finalizing\<close>

lemma alloc_ok_finalize:
  assumes "lib_alloc_ok K L V"
  shows "v_live V r (snd (x_finalize L p w)) \<longleftrightarrow> v_live V r w \<and> r \<noteq> p"
    and "v_busy V r (snd (x_finalize L p w)) \<Longrightarrow> v_busy V r w \<and> r \<noteq> p"
  using assms unfolding lib_alloc_ok_def Let_def by blast+

lemma Finalize_result:
  assumes "Finalize K L s c = Some (err, c')"
  shows "c_heap c' = (c_heap c)(s := (stmt_at c s)\<lparr>s_conn := False\<rparr>)" "c_next c' = c_next c" "c_note c' = c_note c"
    "c_world c' = snd (x_finalize L (s_ptr (stmt_at c s)) (c_world c))"
    "c_stmts c' = (if map_of (c_stmts c) (s_query (stmt_at c s)) = Some s
                   then map_delete (s_query (stmt_at c s)) (c_stmts c) else c_stmts c)"
    "c_closed c' = c_closed c" "c_cancelCh c' = c_cancelCh c" "c_doneCh c' = c_doneCh c" "s_conn (stmt_at c s)"
  using assms by (auto simp: Finalize_def Let_def lib_call_eq upd_stmt_def split: if_splits)

lemma Finalize_attached:
  assumes "Finalize K L s c = Some (err, c')"
  shows "attached c' t \<longleftrightarrow> attached c t \<and> t \<noteq> s" and "t \<noteq> s \<Longrightarrow> stmt_at c' t = stmt_at c t"
  using Finalize_result [OF assms] by (auto simp: attached_def)

lemma Finalize_cache:
  assumes "cache_ok c" and "attached c s" and "Finalize K L s c = Some (err, c')"
  shows "cache_ok c'" and "set (c_stmts c') = {(q, t) \<in> set (c_stmts c). t \<noteq> s}"
proof -
  note f = Finalize_result [OF assms(3)]
  let ?q = "s_query (stmt_at c s)"
  have d: "distinct (map fst (c_stmts c))" using assms(1) by (simp add: cache_ok_def)
  have k: "(q, t) \<in> set (c_stmts c) \<Longrightarrow> map_of (c_stmts c) q = Some t" for q t
    using d by simp
  have q: "(q, s) \<in> set (c_stmts c) \<Longrightarrow> q = ?q" for q using assms(1) by (auto simp: cache_ok_def)
  show set: "set (c_stmts c') = {(q, t) \<in> set (c_stmts c). t \<noteq> s}"
  proof (cases "map_of (c_stmts c) ?q = Some s")
    case True
    then have "(q, t) \<in> set (c_stmts c) \<Longrightarrow> q = ?q \<longleftrightarrow> t = s" for q t using k [of q t] q [of q] by auto
    then show ?thesis using True f(5) by (auto simp: set_map_delete)
  next
    case False
    then have "(q, s) \<notin> set (c_stmts c)" for q using k [of q s] q [of q] by auto
    then show ?thesis using False f(5) by auto
  qed
  have "distinct (map fst (c_stmts c'))" using d by (simp add: f(5) distinct_map_delete)
  then show "cache_ok c'"
    using assms(1) Finalize_attached [OF assms(3)] unfolding cache_ok_def set by auto
qed

lemma Finalize_conn_ok:
  assumes "lib_busy_ok K L V" and "lib_alloc_ok K L V" and "conn_ok V c" and "attached c s"
    and "Finalize K L s c = Some (err, c')"
  shows "conn_ok V c'"
proof -
  note f = Finalize_result [OF assms(5)] Finalize_attached [OF assms(5)]
  have p: "s_ptr (stmt_at c t) = 0 \<or> s_ptr (stmt_at c t) \<noteq> s_ptr (stmt_at c s)" if "attached c t" "t \<noteq> s" for t
    using assms(3,4) that unfolding conn_ok_def by metis
  have "v_live V (s_ptr (stmt_at c t)) (c_world c')" if "attached c t" "t \<noteq> s" "s_ptr (stmt_at c t) \<noteq> 0" for t
    using that p [OF that(1,2)] assms(3) alloc_ok_finalize(1) [OF assms(2)] by (auto simp: f(4) conn_ok_def)
  moreover have "s_lastHasRow (stmt_at c t)" if "attached c t" "t \<noteq> s" "v_busy V (s_ptr (stmt_at c t)) (c_world c')" for t
    using that assms(3) alloc_ok_finalize(2) [OF assms(2)] by (auto simp: f(4) conn_ok_def)
  moreover have "cache_ok c'" using Finalize_cache [OF _ assms(4,5)] assms(3) by (simp add: conn_ok_def)
  ultimately show ?thesis
    using assms(3) f(10,11) unfolding conn_ok_def f(3) by (auto; metis)
qed

lemma Finalize_attached_returns: "attached c s \<Longrightarrow> \<exists>err c'. Finalize K L s c = Some (err, c')"
  by (simp add: Finalize_def Let_def attached_def lib_call_eq)

section \<open>Lemmas: Prepare\<close>

lemma Prepare_conn_ok:
  assumes "lib_busy_ok K L V" and "lib_alloc_ok K L V" and "conn_ok V c"
    and "Prepare K L query c = Some ((so, err), c')"
  shows "conn_ok V c' \<and> (case so of None \<Rightarrow> err \<noteq> None
     | Some s \<Rightarrow> err = None \<and> attached c' s \<and> map_of (c_stmts c') query = Some s \<and> \<not> s_lastHasRow (stmt_at c' s))"
proof (cases "map_of (c_stmts c) query")
  case (Some s)
  have a: "attached c s" using cache_lookup(1) [OF _ Some] assms(3) by (simp add: conn_ok_def)
  obtain e1 c1 where r: "Reset K L s c = Some (e1, c1)"
    using assms(4) Some by (auto simp: Prepare_def bind_eq_Some_conv)
  note r1 = Reset_result [OF assms(1) r]
  have ok1: "conn_ok V c1" using Reset_conn_ok [OF assms(1,3) a r] .
  have st1: "c_stmts c1 = c_stmts c" using r1(3) by (simp add: effect_def)
  show ?thesis
  proof (cases "e1 = None")
    case False
    then show ?thesis using assms(4) Some r ok1 by (auto simp: Prepare_def)
  next
    case True
    then obtain e2 c2 where cl: "ClearBindings K L s c1 = Some (e2, c2)"
      and res: "c' = c2" "e2 = None \<Longrightarrow> so = Some s" "e2 \<noteq> None \<Longrightarrow> so = None" "err = e2"
      using assms(4) Some r by (auto simp: Prepare_def bind_eq_Some_conv split: if_splits)
    have q: "effect (quiet V) c1 c2" using ClearBindings_effect [OF assms(1) cl] .
    have "attached c2 s" using r1(1) [OF a] attached_effect [OF q] by simp
    then show ?thesis
      using res conn_ok_quiet [OF ok1 q] q st1 Some r1(4) by (cases e2) (auto simp: effect_def)
  qed
next
  case None
  obtain so1 tr e1 c1 where p: "conn_prepare K L query (PREPARE_PERSISTENT K) c = ((so1, tr, e1), c1)"
    by (metis surj_pair)
  note r1 = conn_prepare_result [OF assms(1-3) p]
  show ?thesis
  proof (cases so1)
    case none: None
    then show ?thesis using assms(4) None p r1 by (auto simp: Prepare_def errorf_w_def)
  next
    case (Some s)
    then have e1: "e1 = None" and a: "attached c1 s" and q: "s_query (stmt_at c1 s) = query" "\<not> s_lastHasRow (stmt_at c1 s)"
      using r1 by (auto simp: attached_def new_Stmt_def)
    show ?thesis
    proof (cases "tr = 0")
      case False
      then obtain e2 where "Finalize K L s c1 = Some (e2, c')" and "so = None" "err \<noteq> None"
        using assms(4) None p Some e1 by (auto simp: Prepare_def bind_eq_Some_conv)
      then show ?thesis using Finalize_conn_ok [OF assms(1,2) _ a] r1 by auto
    next
      case True
      then have c': "c' = c1\<lparr>c_stmts := map_insert query s (c_stmts c1)\<rparr>" "so = Some s" "err = None"
        using assms(4) None p Some e1 by (auto simp: Prepare_def)
      have at: "attached c' t = attached c1 t" for t by (simp add: c' attached_def)
      have cache: "cache_ok c'"
        using r1 a q at unfolding conn_ok_def cache_ok_def
        by (auto simp: c' distinct_map_insert) (auto simp: map_insert_def set_map_delete)
      have "conn_ok V c1" using r1 by blast
      with cache at have "conn_ok V c'" unfolding conn_ok_def by (auto simp: c')
      then show ?thesis using c' a q at by (simp add: map_of_insert)
    qed
  qed
qed

section \<open>Lemmas: interrupts and closing\<close>

text \<open>Go promises nothing about the order of a range over a map, only that it visits every entry once.\<close>

definition range_ok :: "('w, 'm) sqlite_lib_scheme \<Rightarrow> bool" where
  "range_ok L \<longleftrightarrow> (\<forall>m. set (range_order L m) = set m \<and> (distinct (map fst m) \<longrightarrow> distinct (map fst (range_order L m))))"

lemma range_set: "range_ok L \<Longrightarrow> set (range_order L m) = set m"
  by (simp add: range_ok_def)

lemma conn_ok_go_fields:
  assumes "conn_ok V c"
  shows "conn_ok V (c\<lparr>c_cancelCh := b\<rparr>)" "conn_ok V (c\<lparr>c_doneCh := d\<rparr>)" "conn_ok V (c\<lparr>c_closed := a\<rparr>)"
    "conn_ok V (cancelInterrupt c)"
  using assms by (auto simp: conn_ok_def cache_ok_def attached_def cancelInterrupt_def)

lemma CheckReset_empty:
  assumes "range_ok L" and "cache_ok c" and "map_of (c_stmts c) '''' = None"
  shows "CheckReset L c = '''' \<longleftrightarrow> (\<forall>(q, s) \<in> set (c_stmts c). \<not> s_lastHasRow (stmt_at c s))"
proof (cases "find (\<lambda>(_, s). s_lastHasRow (stmt_at c s)) (range_order L (c_stmts c))")
  case None
  then have "CheckReset L c = []" by (simp add: CheckReset_def)
  moreover have "\<forall>(q, s) \<in> set (c_stmts c). \<not> s_lastHasRow (stmt_at c s)"
    using None range_set [OF assms(1)] by (auto simp: find_None_iff)
  ultimately show ?thesis by blast
next
  case (Some qs)
  obtain q s where qs: "qs = (q, s)" by (cases qs)
  then have m: "(q, s) \<in> set (c_stmts c)" and b: "s_lastHasRow (stmt_at c s)"
    using Some range_set [OF assms(1)] find_SomeD by fastforce+
  then have "q \<noteq> ''''" using assms(3) by (auto simp: map_of_eq_None_iff image_iff)
  moreover have "CheckReset L c = q" using assms(2) m Some qs by (auto simp: cache_ok_def CheckReset_def)
  ultimately show ?thesis using m b by auto
qed

text \<open>The loops over the cache.\<close>

lemma reset_busy_result:
  assumes "lib_busy_ok K L V" and "conn_ok V c" and "\<forall>(q, s) \<in> set m. attached c s"
    and "reset_busy K L m c = Some c'"
  shows "conn_ok V c' \<and> c_stmts c' = c_stmts c \<and> (\<forall>s. attached c' s = attached c s) \<and>
    c_closed c' = c_closed c \<and> c_doneCh c' = c_doneCh c \<and>
    (\<forall>s. s_lastHasRow (stmt_at c' s) \<longrightarrow> s_lastHasRow (stmt_at c s) \<and> s \<notin> snd ` set m)"
  using assms(2-4)
proof (induction m arbitrary: c)
  case (Cons qs m)
  obtain q s where qs: "qs = (q, s)" by (cases qs)
  show ?case
  proof (cases "s_lastHasRow (stmt_at c s)")
    case False
    then show ?thesis using Cons.IH [of c] Cons.prems qs by auto
  next
    case True
    then obtain e c1 where r: "Reset K L s c = Some (e, c1)" and rest: "reset_busy K L m c1 = Some c'"
      using Cons.prems(3) qs by (auto simp: bind_eq_Some_conv)
    have a: "attached c s" using Cons.prems(2) qs by simp
    have ok: "conn_ok V c1" using Reset_conn_ok [OF assms(1) Cons.prems(1) a r] .
    note e = Reset_result(3) [OF assms(1) r]
    have at: "attached c1 t = attached c t" for t using attached_effect [OF e] by simp
    have h: "stmt_at c1 t = (if t = s then (stmt_at c s)\<lparr>s_lastHasRow := False\<rparr> else stmt_at c t)" for t
      using e by (simp add: effect_def)
    have f: "c_stmts c1 = c_stmts c" "c_closed c1 = c_closed c" "c_doneCh c1 = c_doneCh c"
      using e by (simp_all add: effect_def)
    show ?thesis
      using Cons.IH [OF ok _ rest] Cons.prems(2) at h f by (auto simp: qs split: if_splits)
  qed
qed auto

lemma reset_busy_returns:
  assumes "lib_unlocks K L \<mu>" and "lib_busy_ok K L V" and "conn_ok V c" and "\<forall>(q, s) \<in> set m. attached c s"
  shows "\<exists>c'. reset_busy K L m c = Some c'"
  using assms(3,4)
proof (induction m arbitrary: c)
  case (Cons qs m)
  obtain q s where qs: "qs = (q, s)" by (cases qs)
  show ?case
  proof (cases "s_lastHasRow (stmt_at c s)")
    case False
    then show ?thesis using Cons.IH [of c] Cons.prems qs by auto
  next
    case True
    have a: "attached c s" using Cons.prems(2) qs by simp
    obtain e c1 where r: "Reset K L s c = Some (e, c1)"
      using Reset_returns [OF assms(1), of c s] Cons.prems(1) a by (auto simp: conn_ok_def attached_def)
    have "conn_ok V c1" using Reset_conn_ok [OF assms(2) Cons.prems(1) a r] .
    moreover have "\<forall>(q, s) \<in> set m. attached c1 s"
      using Cons.prems(2) attached_effect [OF Reset_result(3) [OF assms(2) r]] by auto
    ultimately show ?thesis using Cons.IH [of c1] True r qs by auto
  qed
qed auto

lemma finalize_all_result:
  assumes "lib_busy_ok K L V" and "lib_alloc_ok K L V" and "conn_ok V c"
    and "\<forall>(q, s) \<in> set m. attached c s" and "distinct (map snd m)"
  shows "\<exists>c'. finalize_all K L m c = Some c' \<and> conn_ok V c' \<and> c_closed c' = c_closed c \<and>
    set (c_stmts c') = {(q, t) \<in> set (c_stmts c). t \<notin> snd ` set m} \<and>
    (\<forall>t. attached c' t \<longleftrightarrow> attached c t \<and> t \<notin> snd ` set m)"
  using assms(3-5)
proof (induction m arbitrary: c)
  case (Cons qs m)
  obtain q s where qs: "qs = (q, s)" by (cases qs)
  have a: "attached c s" using Cons.prems(2) qs by simp
  obtain e c1 where f: "Finalize K L s c = Some (e, c1)" using Finalize_attached_returns [OF a] by blast
  have ok: "conn_ok V c1" using Finalize_conn_ok [OF assms(1,2) Cons.prems(1) a f] .
  have set: "set (c_stmts c1) = {(q, t) \<in> set (c_stmts c). t \<noteq> s}"
    using Finalize_cache(2) [OF _ a f] Cons.prems(1) by (simp add: conn_ok_def)
  note at = Finalize_attached(1) [OF f]
  have "\<forall>(q, s) \<in> set m. attached c1 s" using Cons.prems(2,3) at qs by force
  from Cons.IH [OF ok this] Cons.prems(3) qs
  show ?case using f set at Finalize_result(6) [OF f] by auto
qed auto

text \<open>No cached statement is at a row.\<close>

definition all_idle :: "'w Conn \<Rightarrow> bool" where
  "all_idle c \<longleftrightarrow> (\<forall>(q, s) \<in> set (c_stmts c). \<not> s_lastHasRow (stmt_at c s))"

lemma all_idleD: "all_idle c \<Longrightarrow> (q, s) \<in> set (c_stmts c) \<Longrightarrow> \<not> s_lastHasRow (stmt_at c s)"
  unfolding all_idle_def by blast

lemma all_idleI: "(\<And>q s. (q, s) \<in> set (c_stmts c) \<Longrightarrow> \<not> s_lastHasRow (stmt_at c s)) \<Longrightarrow> all_idle c"
  unfolding all_idle_def by blast

end
