(* ===== verification/StmtSpec.thy ===== *)
theory StmtSpec
  imports Stmt
begin

text \<open>
  The properties of prepared statements, with a small concrete SQLite on which their hypotheses hold: a
  world of statements that yield a fixed number of rows, and a number of shared-cache locks still to be met.
\<close>

section \<open>A small SQLite\<close>

definition demo_K :: lib_consts where
  "demo_K c =
     (if c = ''SQLITE_OK'' then 0 else if c = ''SQLITE_ERROR'' then 1 else if c = ''SQLITE_LOCKED'' then 6
      else if c = ''SQLITE_INTERRUPT'' then 9 else if c = ''SQLITE_CONSTRAINT'' then 19
      else if c = ''SQLITE_RANGE'' then 25 else if c = ''SQLITE_ROW'' then 100 else if c = ''SQLITE_DONE'' then 101
      else if c = ''SQLITE_LOCKED_SHAREDCACHE'' then 262 else documented_types c)"

lemma demo_consts [simp]:
  "ResultOK demo_K = 0" "ResultError demo_K = 1" "ResultLocked demo_K = 6" "ResultInterrupt demo_K = 9"
  "ResultConstraint demo_K = 19" "ResultRange demo_K = 25" "ResultRow demo_K = 100" "ResultDone demo_K = 101"
  "ResultLockedSharedCache demo_K = 262"
  by (simp_all add: result_consts demo_K_def)

lemma demo_types: "column_types_ok demo_K"
  by (simp add: column_types_ok_def type_consts demo_K_def documented_types_def)

record demo_stmt =
  d_live :: bool
  d_busy :: bool
  d_rows :: nat

record demo =
  d_stmt :: "nat \<Rightarrow> demo_stmt"
  d_next :: nat
  d_locks :: nat

definition demo_step :: "nat \<Rightarrow> demo \<Rightarrow> int \<times> demo" where
  "demo_step p w =
     (if \<not> d_live (d_stmt w p) then (1, w)
      else if 0 < d_locks w then (262, w\<lparr>d_locks := d_locks w - 1\<rparr>)
      else if 0 < d_rows (d_stmt w p)
        then (100, w\<lparr>d_stmt := (d_stmt w)(p := (d_stmt w p)\<lparr>d_busy := True, d_rows := d_rows (d_stmt w p) - 1\<rparr>)\<rparr>)
      else (101, w\<lparr>d_stmt := (d_stmt w)(p := (d_stmt w p)\<lparr>d_busy := False\<rparr>)\<rparr>))"

definition demo_reset :: "nat \<Rightarrow> demo \<Rightarrow> int \<times> demo" where
  "demo_reset p w = (0, w\<lparr>d_stmt := (d_stmt w)(p := (d_stmt w p)\<lparr>d_busy := False, d_rows := 2\<rparr>)\<rparr>)"

definition demo_finalize :: "nat \<Rightarrow> demo \<Rightarrow> int \<times> demo" where
  "demo_finalize p w = (0, w\<lparr>d_stmt := (d_stmt w)(p := \<lparr>d_live = False, d_busy = False, d_rows = 0\<rparr>)\<rparr>)"

definition demo_prepare :: "gostring \<Rightarrow> int \<Rightarrow> demo \<Rightarrow> (int \<times> nat \<times> nat) \<times> demo" where
  "demo_prepare q f w =
     (if d_next w = 0 \<or> d_live (d_stmt w (d_next w)) \<or> d_busy (d_stmt w (d_next w)) then ((1, 0, 0), w)
      else ((0, d_next w, length q),
        w\<lparr>d_stmt := (d_stmt w)(d_next w := \<lparr>d_live = True, d_busy = False, d_rows = 2\<rparr>), d_next := Suc (d_next w)\<rparr>))"

definition demo_bind :: "nat \<Rightarrow> int \<Rightarrow> bind_arg \<Rightarrow> demo \<Rightarrow> int \<times> demo" where
  "demo_bind p i a w = (if i = 1 then 0 else 25, w)"

definition demo_lib :: "demo sqlite_lib" where
  "demo_lib = \<lparr>x_unlock_notify = (\<lambda>w. (0, False, w)), un_block = Some, x_step = demo_step, x_reset = demo_reset,
     x_finalize = demo_finalize, x_clear_bindings = (\<lambda>p w. (0, w)), x_bind = demo_bind, x_malloc = (\<lambda>n w. (True, w)), x_cstring = (\<lambda>q w. (None, w)),
     x_prepare_v3 = demo_prepare, x_bind_parameter_count = (\<lambda>p w. 1), x_bind_parameter_name = (\<lambda>p i w. Some '':x''),
     x_column_count = (\<lambda>p w. 1), x_column_name = (\<lambda>p i w. Some ''c''), x_data_count = (\<lambda>p w. 1),
     x_column_int = (\<lambda>p i w. 7), x_column_int64 = (\<lambda>p i w. 7), x_column_double = (\<lambda>p i w. 0),
     x_column_type = (\<lambda>p i w. 1), x_column_bytes = (\<lambda>p i w. 1), x_column_blob = (\<lambda>p i w. Some ''7''),
     x_column_text = (\<lambda>p i w. Some ''7''), x_column_database_name = (\<lambda>p i w. ''main''),
     x_column_table_name = (\<lambda>p i w. ''t''), x_error_offset = (\<lambda>w. - 1), x_errmsg = (\<lambda>w. ''e''),
     x_done = (\<lambda>ch w. (False, w)), x_close = (\<lambda>w. (0, w)), x_busy_handler = (\<lambda>b w. w), x_busy_timeout = (\<lambda>d w. w),
     x_timer_first = (\<lambda>d ch w. (True, w)), x_get_autocommit = (\<lambda>w. True), range_order = id\<rparr>"

definition demo_view :: "demo lib_view" where
  "demo_view = \<lparr>v_live = (\<lambda>p w. p \<noteq> 0 \<and> d_live (d_stmt w p)), v_busy = (\<lambda>p w. p \<noteq> 0 \<and> d_busy (d_stmt w p))\<rparr>"

lemma demo_ToPrimary [simp]: "ToPrimary 1 = 1" "ToPrimary 262 = 6" "ToPrimary 100 = 100" "ToPrimary 101 = 101"
  by (simp_all add: ToPrimary_def)

lemmas demo_defs = demo_lib_def demo_step_def demo_reset_def demo_finalize_def demo_prepare_def demo_bind_def

lemma demo_busy_ok: "lib_busy_ok demo_K demo_lib demo_view"
  by (auto simp: lib_busy_ok_def demo_defs demo_view_def touches_def quiet_def step_finished_def IsSuccess_def
      split: if_splits)

lemma demo_alloc_ok: "lib_alloc_ok demo_K demo_lib demo_view"
  by (auto simp: lib_alloc_ok_def demo_defs demo_view_def Let_def split: if_splits)

lemma demo_unlocks: "lib_unlocks demo_K demo_lib d_locks"
  by (auto simp: lib_unlocks_def demo_defs split: if_splits)

text \<open>A connection with one prepared statement, and one lock to be met.\<close>

definition demo_world :: demo where
  "demo_world = \<lparr>d_stmt = (\<lambda>p. \<lparr>d_live = (p = 1), d_busy = False, d_rows = 2\<rparr>), d_next = 2, d_locks = 1\<rparr>"

definition demo_Stmt :: Stmt where
  "demo_Stmt = \<lparr>s_conn = True, s_ptr = 1, s_query = ''Q'', s_bindNames = ['':x''], s_colNames = [(''c'', 0)],
     s_bindErr = None, s_prepInterrupt = False, s_lastHasRow = False\<rparr>"

definition demo_conn :: "demo Conn" where
  "demo_conn = \<lparr>c_stmts = [(''Q'', 0)], c_closed = False, c_cancelCh = False, c_doneCh = None,
     c_note = allocUnlockNote, c_heap = (\<lambda>_. demo_Stmt), c_next = 1,
     c_registered = True, c_busyHandler = True, c_authorizer = False, c_world = demo_world\<rparr>"

lemma demo_conn_ok: "conn_ok demo_view demo_conn" "attached demo_conn 0"
  by (auto simp: conn_ok_def cache_ok_def attached_def demo_conn_def demo_Stmt_def demo_view_def demo_world_def)

section \<open>Properties\<close>

text \<open>C11: \<open>Step\<close> keeps the invariant of the connection and records whether the statement is at a row.  In
  particular a statement that returned an error, or has no more rows, is not busy in SQLite any more: it has
  been reset.\<close>

theorem Step_tracks_busy:
  assumes "lib_busy_ok K L V" and "conn_ok V c" and "attached c s" and "Step K L s c = Some ((row, err), c')"
  shows "conn_ok V c' \<and> attached c' s \<and> s_lastHasRow (stmt_at c' s) = row \<and>
    (err \<noteq> None \<or> \<not> row \<longrightarrow> \<not> v_busy V (s_ptr (stmt_at c s)) (c_world c')) \<and> (err \<noteq> None \<longrightarrow> \<not> row)"
  using assms by (rule Step_result)

theorem Step_tracks_busy_witness:
  "\<exists>row err c'. Step demo_K demo_lib 0 demo_conn = Some ((row, err), c') \<and>
     conn_ok demo_view c' \<and> s_lastHasRow (stmt_at c' 0) = row"
proof -
  obtain row err c' where "Step demo_K demo_lib 0 demo_conn = Some ((row, err), c')"
    using Step_returns_aux [OF demo_unlocks _ _ demo_busy_ok, of demo_conn 0]
    by (auto simp: demo_conn_def demo_Stmt_def)
  then show ?thesis
    using Step_tracks_busy [OF demo_busy_ok demo_conn_ok] by blast
qed

text \<open>C28: \<open>Step\<close> returns on every attached statement, whatever happened before, when lock conflicts end: the
  retry loops of \<open>Step\<close> and \<open>Reset\<close> and the wait for the unlock note all come to an end.\<close>

theorem Step_returns:
  assumes "lib_unlocks K L \<mu>" and "lib_busy_ok K L V" and "conn_ok V c" and "attached c s"
  shows "\<exists>row err c'. Step K L s c = Some ((row, err), c')"
  using Step_returns_aux [OF assms(1) _ _ assms(2), of c s] assms(3,4)
  by (auto simp: conn_ok_def attached_def)

theorem Step_returns_witness:
  "lib_unlocks demo_K demo_lib d_locks \<and> d_locks (c_world demo_conn) = 1 \<and>
   (\<exists>row err c'. Step demo_K demo_lib 0 demo_conn = Some ((row, err), c'))"
  using Step_returns [OF demo_unlocks demo_busy_ok demo_conn_ok] demo_unlocks
  by (simp add: demo_conn_def demo_world_def)

section \<open>Sequences of binds\<close>

text \<open>Any number of calls of the \<open>Bind\<close> and \<open>Set\<close> methods on one statement.\<close>

inductive binds :: "lib_consts \<Rightarrow> ('w, 'm) sqlite_lib_scheme \<Rightarrow> nat \<Rightarrow> 'w Conn \<Rightarrow> 'w Conn \<Rightarrow> bool"
  for K L s c where
  none: "binds K L s c c"
| int64: "binds K L s c c1 \<Longrightarrow> BindInt64 K L s i v c1 = Some c2 \<Longrightarrow> binds K L s c c2"
| bool: "binds K L s c c1 \<Longrightarrow> BindBool K L s i b c1 = Some c2 \<Longrightarrow> binds K L s c c2"
| float: "binds K L s c c1 \<Longrightarrow> BindFloat K L s i x c1 = Some c2 \<Longrightarrow> binds K L s c c2"
| null: "binds K L s c c1 \<Longrightarrow> BindNull K L s i c1 = Some c2 \<Longrightarrow> binds K L s c c2"
| zeroblob: "binds K L s c c1 \<Longrightarrow> BindZeroBlob K L s i v c1 = Some c2 \<Longrightarrow> binds K L s c c2"
| bytes: "binds K L s c c1 \<Longrightarrow> BindBytes K L s i t c1 = Some c2 \<Longrightarrow> binds K L s c c2"
| txt_arg: "binds K L s c c1 \<Longrightarrow> BindText K L s i t c1 = Some c2 \<Longrightarrow> binds K L s c c2"
| set_int64: "binds K L s c c1 \<Longrightarrow> SetInt64 K L s n v c1 = Some c2 \<Longrightarrow> binds K L s c c2"
| set_bool: "binds K L s c c1 \<Longrightarrow> SetBool K L s n b c1 = Some c2 \<Longrightarrow> binds K L s c c2"
| set_float: "binds K L s c c1 \<Longrightarrow> SetFloat K L s n x c1 = Some c2 \<Longrightarrow> binds K L s c c2"
| set_null: "binds K L s c c1 \<Longrightarrow> SetNull K L s n c1 = Some c2 \<Longrightarrow> binds K L s c c2"
| set_zeroblob: "binds K L s c c1 \<Longrightarrow> SetZeroBlob K L s n v c1 = Some c2 \<Longrightarrow> binds K L s c c2"
| set_bytes: "binds K L s c c1 \<Longrightarrow> SetBytes K L s n t c1 = Some c2 \<Longrightarrow> binds K L s c c2"
| set_text: "binds K L s c c1 \<Longrightarrow> SetText K L s n t c1 = Some c2 \<Longrightarrow> binds K L s c c2"

lemma binds_effect:
  assumes "binds K L s c c'" and "lib_busy_ok K L V"
  shows "bind_effect V s c c'"
  using assms(1)
  by (induction rule: binds.induct)
    (auto elim: bind_effect_trans dest: Bind_effects [OF assms(2)] Set_effects [OF assms(2)])

lemma bind_effect_err_kept:
  "bind_effect V s c c' \<Longrightarrow> s_bindErr (stmt_at c s) = Some e \<Longrightarrow> s_bindErr (stmt_at c' s) = Some e"
  by (auto simp: bind_effect_def)



text \<open>Binding by name.  \<open>findBindName\<close> returns the number of the first parameter of that name and changes
  nothing; for an unknown name it returns 0 and leaves an error pending, so that the next \<open>Step\<close> fails.\<close>

lemma findBindName_spec:
  "let i = fst (findBindName prefix param s c); c' = snd (findBindName prefix param s c);
       names = s_bindNames (stmt_at c s)
   in if param \<in> set names
      then c' = c \<and> 1 \<le> i \<and> i \<le> int (length names) \<and> names ! nat (i - 1) = param \<and> param \<notin> set (take (nat (i - 1)) names)
      else i = 0 \<and> s_bindErr (stmt_at c' s) =
             Some (case s_bindErr (stmt_at c s) of
                     None \<Rightarrow> ErrorString (prefix @ '': unknown parameter: '' @ param) | Some e \<Rightarrow> e)"
proof (cases "bind_index (s_bindNames (stmt_at c s)) param")
  case None
  then have "param \<notin> set (s_bindNames (stmt_at c s))" by (simp add: bind_index_None)
  with None show ?thesis by (simp add: findBindName_def Let_def split: option.splits)
next
  case (Some i)
  then have "1 \<le> i \<and> i \<le> length (s_bindNames (stmt_at c s)) \<and> s_bindNames (stmt_at c s) ! (i - 1) = param \<and>
    (\<forall>j < i - 1. s_bindNames (stmt_at c s) ! j \<noteq> param)" by (simp add: bind_index_Some)
  moreover have "param \<in> set (s_bindNames (stmt_at c s))"
    using Some bind_index_None [of "s_bindNames (stmt_at c s)" param] by auto
  ultimately show ?thesis
    using Some by (auto simp: findBindName_def Let_def nat_diff_distrib in_set_conv_nth)
qed

end
