(* ===== verification/Open.thy ===== *)
theory Open
  imports Conn StmtSpec
begin

text \<open>
  Opening a connection (\<open>OpenConn\<close> and \<open>openConn\<close>, sqlite.go), and the properties of connections: the
  invariant of every state that a sequence of calls can reach, the statement cache, interrupts and closing.
\<close>

section \<open>Opening\<close>

record 'w open_lib = "'w sqlite_lib" +
  x_calloc :: "'w \<Rightarrow> bool \<times> 'w"
  x_valist :: "'w \<Rightarrow> bool \<times> 'w"
  x_open_v2 :: "gostring \<Rightarrow> int \<Rightarrow> 'w \<Rightarrow> (int \<times> nat) \<times> 'w"
  x_extended_errcode :: "'w \<Rightarrow> int"
  x_close_v2 :: "'w \<Rightarrow> 'w"
  x_extended_result_codes :: "'w \<Rightarrow> 'w"
  x_db_config :: "gostring \<Rightarrow> int \<Rightarrow> 'w \<Rightarrow> int \<times> 'w"

definition fmt_open :: gostring where "fmt_open = ''sqlite: open %q: %w''"
definition fmt_wal :: gostring where "fmt_wal = ''sqlite: open %q: enable wal: %w''"
definition err_note :: go_error where "err_note = ErrorString ''out of memory for unlockNote''"
definition err_valist :: go_error where "err_valist = ErrorString ''sqlite: open %q: cannot allocate memory''"
definition err_dqs :: go_error where
  "err_dqs = ErrorString ''sqlite: open %q: disable double-quoted string literals: %v''"
definition wal_query :: gostring where "wal_query = ''PRAGMA journal_mode=wal;''"

definition no_Stmt :: Stmt where
  "no_Stmt = \<lparr>s_conn = False, s_ptr = 0, s_query = '''', s_bindNames = [], s_colNames = [], s_bindErr = None,
     s_prepInterrupt = False, s_lastHasRow = False\<rparr>"

definition new_Conn :: "'w \<Rightarrow> 'w Conn" where
  "new_Conn w = \<lparr>c_stmts = [], c_closed = False, c_cancelCh = False, c_doneCh = None, c_note = allocUnlockNote,
     c_heap = (\<lambda>_. no_Stmt), c_next = 0, c_registered = True, c_busyHandler = False, c_authorizer = False, c_world = w\<rparr>"

text \<open>\<open>Inl\<close>: the error, and the world in which everything allocated has been given back.\<close>

definition openConn ::
  "lib_consts \<Rightarrow> ('w, 'm) open_lib_scheme \<Rightarrow> gostring \<Rightarrow> uint64 \<Rightarrow> 'w \<Rightarrow> (error \<times> 'w) + 'w Conn" where
  "openConn K L path openFlags w =
     (case x_calloc L w of (ok, w) \<Rightarrow>
      if \<not> ok then Inl (errorf_w fmt_open (Some err_note), w) else
      (case x_cstring L path w of (err, w) \<Rightarrow>
       if err \<noteq> None then Inl (errorf_w fmt_open err, w) else
       (case x_malloc L 8 w of (ok, w) \<Rightarrow>
        if \<not> ok then Inl (errorf_w fmt_open (Some err_nomem), w) else
        (case x_open_v2 L path (wrap32 (uint openFlags)) w of ((res, conn), w) \<Rightarrow>
         if conn = 0 then Inl (errorf_w fmt_open (ToError K res), w)
         else if res \<noteq> ResultOK K then
           (let extres = x_extended_errcode L w
            in Inl (errorf_w fmt_open (ToError K (if extres \<noteq> 0 then extres else res)), x_close_v2 L w))
         else Inr (new_Conn (x_extended_result_codes L w))))))"

definition default_flags :: "lib_consts \<Rightarrow> uint64" where
  "default_flags K = flag_mask K ''SQLITE_OPEN_READWRITE'' OR flag_mask K ''SQLITE_OPEN_CREATE'' OR
     flag_mask K ''SQLITE_OPEN_WAL'' OR flag_mask K ''SQLITE_OPEN_URI''"

text \<open>The flags given to \<open>OpenConn\<close>, and those passed to SQLite.\<close>

definition open_flags :: "lib_consts \<Rightarrow> uint64 list \<Rightarrow> uint64" where
  "open_flags K flags = (let f = fold (\<lambda>f acc. acc OR f) flags 0 in if f = 0 then default_flags K else f)"

definition c_open_flags :: "lib_consts \<Rightarrow> uint64 \<Rightarrow> uint64" where
  "c_open_flags K f =
     (f AND NOT (flag_mask K ''SQLITE_OPEN_WAL'' OR flag_mask K ''SQLITE_OPEN_FULLMUTEX'')) OR
     flag_mask K ''SQLITE_OPEN_NOMUTEX''"

text \<open>Giving up: the connection is closed, and only the error is returned.\<close>

definition close_with ::
  "lib_consts \<Rightarrow> ('w, 'm) open_lib_scheme \<Rightarrow> error \<Rightarrow> 'w Conn \<Rightarrow> ((error \<times> 'w) + 'w Conn) option" where
  "close_with K L err c = do { (_, c) \<leftarrow> Close K L c; Some (Inl (err, c_world c)) }"

definition enable_wal ::
  "lib_consts \<Rightarrow> ('w, 'm) open_lib_scheme \<Rightarrow> 'w Conn \<Rightarrow> (error \<times> 'w Conn) option" where
  "enable_wal K L c =
     (case PrepareTransient K L wal_query (SetBusyTimeout L 10000 c) of
        ((Some s, _, None), c) \<Rightarrow> do {
          ((_, err), c) \<leftarrow> Step K L s c;
          (_, c) \<leftarrow> Finalize K L s c;
          Some (wrap_error fmt_wal err, c)
        }
      | ((_, _, err), c) \<Rightarrow> Some (errorf_w fmt_open err, c))"

definition OpenConn ::
  "lib_consts \<Rightarrow> ('w, 'm) open_lib_scheme \<Rightarrow> gostring \<Rightarrow> uint64 list \<Rightarrow> 'w \<Rightarrow> ((error \<times> 'w) + 'w Conn) option" where
  "OpenConn K L path flags w =
     (let openFlags = open_flags K flags in
      case openConn K L path (c_open_flags K openFlags) w of
        Inl e \<Rightarrow> Some (Inl e)
      | Inr c \<Rightarrow>
          (case lib_call (x_valist L) c of (ok, c) \<Rightarrow>
           if \<not> ok then close_with K L (Some err_valist) c else
           (case lib_call (x_db_config L ''SQLITE_DBCONFIG_DQS_DDL'' 0) c of (res, c) \<Rightarrow>
            if ToError K res \<noteq> None then close_with K L (Some err_dqs) c else
            (case lib_call (x_db_config L ''SQLITE_DBCONFIG_DQS_DML'' 0) c of (res, c) \<Rightarrow>
             if ToError K res \<noteq> None then close_with K L (Some err_dqs) c
             else if openFlags AND flag_mask K ''SQLITE_OPEN_WAL'' \<noteq> 0 then do {
               (err, c) \<leftarrow> enable_wal K L c;
               if err \<noteq> None then close_with K L err c else Some (Inr (SetBlockOnBusy L c))
             }
             else Some (Inr (SetBlockOnBusy L c))))))"

section \<open>Lemmas\<close>

lemma conn_ok_new [simp]: "conn_ok V (new_Conn w)"
  by (simp add: conn_ok_def cache_ok_def attached_def new_Conn_def)

lemma PrepareTransient_conn_ok:
  assumes "lib_busy_ok K L V" and "lib_alloc_ok K L V" and "conn_ok V c"
    and "PrepareTransient K L query c = ((so, trailing, err), c')"
  shows "conn_ok V c' \<and> c_stmts c' = c_stmts c \<and> (case so of None \<Rightarrow> True | Some s \<Rightarrow> err = None \<and> attached c' s)"
proof -
  obtain so1 tr e1 where p: "conn_prepare K L query 0 c = ((so1, tr, e1), c')" and "so = so1" "err = wrap_error fmt_prepare e1"
    using assms(4) by (auto simp: PrepareTransient_def split: prod.splits)
  with conn_prepare_result [OF assms(1-3) p] show ?thesis
    by (auto simp: attached_def new_Stmt_def wrap_error_def split: option.splits)
qed

lemma SetBusy_conn_ok:
  assumes "lib_busy_ok K L V" and "conn_ok V c"
  shows "conn_ok V (SetBusyTimeout L ms c)" and "conn_ok V (SetBlockOnBusy L c)"
proof -
  have "conn_ok V (c\<lparr>c_world := w, c_busyHandler := b\<rparr>)" if "quiet V (c_world c) w" for w b
    using assms(2) that by (auto simp: conn_ok_def cache_ok_def attached_def quiet_def)
  then show "conn_ok V (SetBusyTimeout L ms c)" "conn_ok V (SetBlockOnBusy L c)"
    using lib_busy_okD(15,16) [OF assms(1)] by (simp_all add: SetBusyTimeout_def SetBlockOnBusy_def setBusyHandler_def)
qed

lemma enable_wal_conn_ok:
  assumes "lib_busy_ok K L V" and "lib_alloc_ok K L V" and "conn_ok V c" and "enable_wal K L c = Some (err, c')"
  shows "conn_ok V c'"
proof -
  let ?c = "SetBusyTimeout L 10000 c"
  obtain so tr e1 c1 where p: "PrepareTransient K L wal_query ?c = ((so, tr, e1), c1)" by (metis surj_pair)
  note r = PrepareTransient_conn_ok [OF assms(1,2) SetBusy_conn_ok(1) [OF assms(1,3)] p]
  show ?thesis
  proof (cases so)
    case None
    then show ?thesis using assms(4) p r by (auto simp: enable_wal_def)
  next
    case (Some s)
    with r have "e1 = None" and a: "attached c1 s" and ok: "conn_ok V c1" by auto
    with assms(4) p Some obtain row e c2 f where st: "Step K L s c1 = Some ((row, e), c2)"
      and fin: "Finalize K L s c2 = Some (f, c')"
      by (auto simp: enable_wal_def bind_eq_Some_conv)
    from Step_result [OF assms(1) ok a st] fin show ?thesis
      using Finalize_conn_ok [OF assms(1,2)] by blast
  qed
qed

text \<open>The other errors of \<open>OpenConn\<close> close the connection, so that only this remains.\<close>

lemma close_with_Inl: "close_with K L err c = Some r \<Longrightarrow> \<exists>w. r = Inl (err, w)"
  by (auto simp: close_with_def bind_eq_Some_conv)

lemma openConn_Inr: "openConn K L path f w = Inr c \<Longrightarrow> \<exists>w'. c = new_Conn w'"
  by (auto simp: openConn_def Let_def split: prod.splits if_splits)

lemma conn_prepare_closed: "conn_prepare K L query flags c = (r, c') \<Longrightarrow> c_closed c' = c_closed c"
  by (auto simp: conn_prepare_def Conn_interrupted_def lib_call_eq alloc_Stmt_def Let_def split: if_splits option.splits prod.splits)

lemma Step_closed:
  assumes "lib_busy_ok K L V" and "attached c s" and "Step K L s c = Some ((row, err), c')"
  shows "c_closed c' = c_closed c"
proof (cases "s_bindErr (stmt_at c s) = None")
  case False
  then obtain e where r: "Reset K L s (upd_stmt s (\<lambda>st. st\<lparr>s_bindErr := None\<rparr>) c) = Some (e, c')"
    using assms(3) by (auto simp: Step_def bind_eq_Some_conv)
  show ?thesis using Reset_result(3) [OF assms(1) r] by (simp add: effect_def)
next
  case True
  obtain c1 err1 where r: "step_result_ok V (s_ptr (stmt_at c s)) c ((row, err1), c1)"
    and c': "c' = (if err1 = None then upd_stmt s (\<lambda>st. st\<lparr>s_lastHasRow := row\<rparr>) c1
               else snd (lib_call (x_reset L (s_ptr (stmt_at c s))) (upd_stmt s (\<lambda>st. st\<lparr>s_lastHasRow := row\<rparr>) c1)))"
    using Step_run_result [OF assms(1,2) True assms(3)] .
  then show ?thesis by (simp add: step_result_ok_def effect_def lib_call_eq)
qed

lemma enable_wal_closed:
  assumes "lib_busy_ok K L V" and "lib_alloc_ok K L V" and "conn_ok V c" and "enable_wal K L c = Some (err, c')"
  shows "c_closed c' = c_closed c"
proof -
  let ?c = "SetBusyTimeout L 10000 c"
  obtain so tr e1 c1 where p: "PrepareTransient K L wal_query ?c = ((so, tr, e1), c1)" by (metis surj_pair)
  note r = PrepareTransient_conn_ok [OF assms(1,2) SetBusy_conn_ok(1) [OF assms(1,3)] p]
  have f: "c_closed c1 = c_closed c"
    using p conn_prepare_closed [of K L wal_query 0 ?c] by (auto simp: PrepareTransient_def SetBusyTimeout_def split: prod.splits)
  show ?thesis
  proof (cases so)
    case None
    then show ?thesis using assms(4) p f by (auto simp: enable_wal_def)
  next
    case (Some s)
    with r have "e1 = None" and a: "attached c1 s" by auto
    with assms(4) p Some obtain row e c2 fi where st: "Step K L s c1 = Some ((row, e), c2)" and fin: "Finalize K L s c2 = Some (fi, c')"
      by (auto simp: enable_wal_def bind_eq_Some_conv)
    show ?thesis using Step_closed [OF assms(1) a st] Finalize_result(6) [OF fin] f by simp
  qed
qed

lemma OpenConn_run:
  assumes "OpenConn K L path flags w = Some (Inr c)"
  obtains w3 where "c = SetBlockOnBusy L (new_Conn w3)"
  | w3 c4 where "enable_wal K L (new_Conn w3) = Some (None, c4)" and "c = SetBlockOnBusy L c4"
proof -
  obtain c0 where o: "openConn K L path (c_open_flags K (open_flags K flags)) w = Inr c0"
    using assms by (auto simp: OpenConn_def Let_def split: sum.splits)
  then obtain w0 where c0: "c0 = new_Conn w0" using openConn_Inr [OF o] by blast
  obtain ok c1 where c1: "lib_call (x_valist L) c0 = (ok, c1)" by fastforce
  obtain res c2 where c2: "lib_call (x_db_config L ''SQLITE_DBCONFIG_DQS_DDL'' 0) c1 = (res, c2)" by fastforce
  obtain res3 c3 where c3: "lib_call (x_db_config L ''SQLITE_DBCONFIG_DQS_DML'' 0) c2 = (res3, c3)" by fastforce
  obtain w3 where "c3 = new_Conn w3" using c0 c1 c2 c3 by (auto simp: lib_call_eq new_Conn_def)
  moreover have "(\<exists>c4. enable_wal K L c3 = Some (None, c4) \<and> c = SetBlockOnBusy L c4) \<or> c = SetBlockOnBusy L c3"
    using assms o c1 c2 c3
    by (auto simp: OpenConn_def Let_def bind_eq_Some_conv split: if_splits dest: close_with_Inl)
  ultimately show thesis using that by blast
qed

lemma OpenConn_conn_ok:
  assumes "lib_busy_ok K L V" and "lib_alloc_ok K L V" and "OpenConn K L path flags w = Some (Inr c)"
  shows "conn_ok V c" and "\<not> c_closed c"
proof -
  have new: "\<not> c_closed (new_Conn w)" for w :: 'a by (simp add: new_Conn_def)
  have cl: "c_closed (SetBlockOnBusy L c) = c_closed c" for c by (simp add: SetBlockOnBusy_def setBusyHandler_def)
  show "conn_ok V c"
    using assms(3) enable_wal_conn_ok [OF assms(1,2) conn_ok_new] SetBusy_conn_ok(2) [OF assms(1)]
    by (cases rule: OpenConn_run) simp_all
  show "\<not> c_closed c"
    using assms(3) enable_wal_closed [OF assms(1,2) conn_ok_new] new cl by (cases rule: OpenConn_run) simp_all
qed

section \<open>Reachable connections\<close>

text \<open>Every sequence of calls on a connection that was opened; statements are used while attached.\<close>

inductive conn_reach :: "lib_consts \<Rightarrow> ('w, 'm) open_lib_scheme \<Rightarrow> 'w Conn \<Rightarrow> bool" for K L where
  opened: "OpenConn K L path flags w = Some (Inr c) \<Longrightarrow> conn_reach K L c"
| prepare: "conn_reach K L c \<Longrightarrow> Prepare K L q c = Some (r, c') \<Longrightarrow> conn_reach K L c'"
| prep: "conn_reach K L c \<Longrightarrow> Prep K L q c = Some (r', c') \<Longrightarrow> conn_reach K L c'"
| transient: "conn_reach K L c \<Longrightarrow> PrepareTransient K L q c = (r'', c') \<Longrightarrow> conn_reach K L c'"
| step: "conn_reach K L c \<Longrightarrow> attached c s \<Longrightarrow> Step K L s c = Some (st, c') \<Longrightarrow> conn_reach K L c'"
| reset: "conn_reach K L c \<Longrightarrow> attached c s \<Longrightarrow> Reset K L s c = Some (e, c') \<Longrightarrow> conn_reach K L c'"
| clear: "conn_reach K L c \<Longrightarrow> attached c s \<Longrightarrow> ClearBindings K L s c = Some (e, c') \<Longrightarrow> conn_reach K L c'"
| bind: "conn_reach K L c \<Longrightarrow> attached c s \<Longrightarrow> binds K L s c c' \<Longrightarrow> conn_reach K L c'"
| finalize: "conn_reach K L c \<Longrightarrow> attached c s \<Longrightarrow> Finalize K L s c = Some (e, c') \<Longrightarrow> conn_reach K L c'"
| interrupt: "conn_reach K L c \<Longrightarrow> SetInterrupt K L ch c = Some (old, c') \<Longrightarrow> conn_reach K L c'"
| timeout: "conn_reach K L c \<Longrightarrow> conn_reach K L (SetBusyTimeout L ms c)"
| block: "conn_reach K L c \<Longrightarrow> conn_reach K L (SetBlockOnBusy L c)"

lemma Prep_conn_ok:
  assumes "lib_busy_ok K L V" and "lib_alloc_ok K L V" and "conn_ok V c" and "Prep K L q c = Some (r, c')"
  shows "conn_ok V c'"
proof -
  obtain so err c1 where p: "Prepare K L q c = Some ((so, err), c1)"
    using assms(4) by (auto simp: Prep_def bind_eq_Some_conv)
  have ok: "conn_ok V c1" using Prepare_conn_ok [OF assms(1-3) p] by blast
  let ?st = "\<lparr>s_conn = True, s_ptr = 0, s_query = q, s_bindNames = [], s_colNames = [],
    s_bindErr = None, s_prepInterrupt = True, s_lastHasRow = False\<rparr>"
  have "conn_ok V (snd (alloc_Stmt ?st c1))"
    using conn_ok_alloc [OF ok, of ?st] lib_busy_okD(12) [OF assms(1)] by simp
  moreover have "c' = c1 \<or> c' = snd (alloc_Stmt ?st c1)"
    using assms(4) p by (auto simp: Prep_def case_prod_beta split: if_splits)
  ultimately show ?thesis using ok by auto
qed

lemma cache_inj:
  assumes "cache_ok c"
  shows "inj_on snd (set (c_stmts c))"
proof (rule inj_onI)
  fix x y assume "x \<in> set (c_stmts c)" "y \<in> set (c_stmts c)" and e: "snd x = snd y"
  then have "s_query (stmt_at c (snd x)) = fst x" "s_query (stmt_at c (snd y)) = fst y"
    using cache_okD(2) [OF assms] by (metis prod.collapse)+
  with e show "x = y" by (simp add: prod_eq_iff)
qed

lemma cache_attached: "cache_ok c \<Longrightarrow> range_ok L \<Longrightarrow> \<forall>(q, s) \<in> set (range_order L (c_stmts c)). attached c s"
  by (auto simp: range_set cache_ok_def)

lemma SetInterrupt_run:
  assumes "SetInterrupt K L ch c = Some (old, c')"
  obtains c1 where "reset_busy K L (range_order L (c_stmts c)) ((cancelInterrupt c)\<lparr>c_doneCh := ch\<rparr>) = Some c1"
    and "c' = (if ch = None then c1 else c1\<lparr>c_cancelCh := True\<rparr>)" and "old = c_doneCh c" and "\<not> c_closed c"
  using assms
  by (cases ch) (auto simp: SetInterrupt_def Let_def cancelInterrupt_def bind_eq_Some_conv split: if_splits)

lemma SetInterrupt_result:
  assumes "lib_busy_ok K L V" and "conn_ok V c" and "range_ok L" and "SetInterrupt K L ch c = Some (old, c')"
  shows "conn_ok V c' \<and> old = c_doneCh c \<and> c_doneCh c' = ch \<and> c_stmts c' = c_stmts c \<and> \<not> c_closed c' \<and>
    (\<forall>(q, s) \<in> set (c_stmts c'). \<not> s_lastHasRow (stmt_at c' s))"
proof -
  let ?c = "(cancelInterrupt c)\<lparr>c_doneCh := ch\<rparr>"
  obtain c1 where r: "reset_busy K L (range_order L (c_stmts c)) ?c = Some c1"
    and c': "c' = (if ch = None then c1 else c1\<lparr>c_cancelCh := True\<rparr>)" and old: "old = c_doneCh c" and op: "\<not> c_closed c"
    using SetInterrupt_run [OF assms(4)] .
  have f: "c_stmts ?c = c_stmts c" "c_closed ?c = c_closed c" by (simp_all add: cancelInterrupt_def)
  have ok: "conn_ok V ?c" using assms(2) conn_ok_go_fields by metis
  have at: "\<forall>(q, s) \<in> set (range_order L (c_stmts c)). attached ?c s"
    using cache_attached [OF _ assms(3), of ?c] ok f by (simp add: conn_ok_def)
  from reset_busy_result [OF assms(1) ok at r]
  have r1: "conn_ok V c1" "c_stmts c1 = c_stmts c" "c_doneCh c1 = ch" "\<not> c_closed c1"
    and b: "\<And>s. s_lastHasRow (stmt_at c1 s) \<Longrightarrow> s \<notin> snd ` set (c_stmts c)"
    using range_set [OF assms(3)] f op by auto
  have "conn_ok V c'" using r1(1) conn_ok_go_fields(1) [of V c1 True] by (simp add: c')
  moreover have "\<forall>(q, s) \<in> set (c_stmts c). \<not> s_lastHasRow (stmt_at c1 s)" using b by (force simp: image_iff)
  ultimately show ?thesis using r1 old by (simp add: c')
qed

lemma conn_reach_ok:
  assumes "conn_reach K L c" and "lib_busy_ok K L V" and "lib_alloc_ok K L V" and "range_ok L"
  shows "conn_ok V c"
  using assms(1)
proof (induction rule: conn_reach.induct)
  case opened
  then show ?case using OpenConn_conn_ok [OF assms(2,3)] by blast
next
  case (prepare c q r c')
  then show ?case using Prepare_conn_ok [OF assms(2,3)] by (cases r) blast
next
  case (transient c q r c')
  then show ?case using PrepareTransient_conn_ok [OF assms(2,3)] by (cases r) blast
next
  case (step c s st c')
  then show ?case using Step_result [OF assms(2)] by (cases st) blast
next
  case (bind c s c')
  then show ?case using bind_effect_conn_ok binds_effect assms(2) by blast
next
  case (clear c s e c')
  then show ?case using conn_ok_quiet ClearBindings_effect [OF assms(2)] by blast
next
  case (interrupt c ch old c')
  then show ?case using SetInterrupt_result [OF assms(2) _ assms(4)] by blast
next
  case (prep c q r c')
  then show ?case using Prep_conn_ok [OF assms(2,3)] by simp
next
  case (reset c s e c')
  then show ?case using Reset_conn_ok [OF assms(2)] by simp
next
  case (finalize c s e c')
  then show ?case using Finalize_conn_ok [OF assms(2,3)] by simp
next
  case (timeout c ms)
  then show ?case using SetBusy_conn_ok(1) [OF assms(2)] by simp
next
  case (block c)
  then show ?case using SetBusy_conn_ok(2) [OF assms(2)] by simp
qed

lemma SetInterrupt_returns:
  assumes "lib_busy_ok K L V" and "lib_unlocks K L \<mu>" and "range_ok L" and "conn_ok V c" and "\<not> c_closed c"
  shows "\<exists>c'. SetInterrupt K L ch c = Some (c_doneCh c, c')"
proof -
  let ?c = "(cancelInterrupt c)\<lparr>c_doneCh := ch\<rparr>"
  have ok: "conn_ok V ?c" using assms(4) conn_ok_go_fields by metis
  have f: "c_stmts ?c = c_stmts c" "c_closed ?c = c_closed c" by (simp_all add: cancelInterrupt_def)
  have "\<forall>(q, s) \<in> set (range_order L (c_stmts c)). attached ?c s"
    using cache_attached [OF _ assms(3), of ?c] ok f by (simp add: conn_ok_def)
  then obtain c1 where "reset_busy K L (range_order L (c_stmts ?c)) ?c = Some c1"
    using reset_busy_returns [OF assms(2,1) ok] f by auto
  then show ?thesis
    using assms(5) by (cases ch) (auto simp: SetInterrupt_def Let_def)
qed

lemma Close_run:
  assumes "lib_busy_ok K L V" and "lib_alloc_ok K L V" and "range_ok L" and "conn_ok V c" and "\<not> c_closed c"
  obtains c1 err where "c_closed c1" "c_stmts c1 = []" "\<forall>(q, s) \<in> set (c_stmts c). \<not> attached c1 s"
    and "Close K L c = Some (err, (snd (lib_call (x_close L) c1))\<lparr>c_authorizer := False, c_busyHandler := False, c_registered := False\<rparr>)"
proof -
  let ?m = "range_order L (c_stmts c)" and ?c = "(cancelInterrupt c)\<lparr>c_closed := True\<rparr>"
  have ok: "conn_ok V ?c" using assms(4) conn_ok_go_fields by metis
  have f: "c_stmts ?c = c_stmts c" by (simp add: cancelInterrupt_def)
  have at: "\<forall>(q, s) \<in> set ?m. attached ?c s" and sm: "set ?m = set (c_stmts c)"
    using cache_attached [OF _ assms(3), of ?c] ok f range_set [OF assms(3)] by (simp_all add: conn_ok_def)
  have "distinct (map fst ?m)" using ok f assms(3) by (simp add: conn_ok_def cache_ok_def range_ok_def)
  moreover have "inj_on snd (set ?m)" using ok f sm cache_inj [of ?c] by (simp add: conn_ok_def)
  ultimately have "distinct (map snd ?m)" by (simp add: distinct_map)
  from finalize_all_result [OF assms(1,2) ok at this] f sm obtain c1 where
    c1: "finalize_all K L ?m ?c = Some c1" "c_closed c1" "set (c_stmts c1) = {(q, t) \<in> set (c_stmts c). t \<notin> snd ` set (c_stmts c)}"
    and det: "\<forall>t. attached c1 t \<longleftrightarrow> attached ?c t \<and> t \<notin> snd ` set (c_stmts c)" by auto
  have "set (c_stmts c1) = {}" unfolding c1(3) by (auto intro: rev_image_eqI)
  then have e: "c_stmts c1 = []" by simp
  have "\<forall>(q, s) \<in> set (c_stmts c). \<not> attached c1 s"
    using det by (auto intro: rev_image_eqI)
  moreover obtain err where "Close K L c = Some (err, (snd (lib_call (x_close L) c1))\<lparr>c_authorizer := False, c_busyHandler := False, c_registered := False\<rparr>)"
    using assms(5) c1(1) by (auto simp: Close_def case_prod_beta)
  ultimately show thesis using that c1(2) e by blast
qed

lemma Close_closes:
  assumes "lib_busy_ok K L V" and "lib_alloc_ok K L V" and "range_ok L" and "conn_ok V c"
  obtains err c' where "Close K L c = Some (err, c')" and "c_closed c'"
proof (cases "c_closed c")
  case True
  then show ?thesis using that [of "Some err_closed" c] by (simp add: Close_def)
next
  case False
  obtain c1 err where "c_closed c1"
    and "Close K L c = Some (err, (snd (lib_call (x_close L) c1))\<lparr>c_authorizer := False, c_busyHandler := False, c_registered := False\<rparr>)"
    using Close_run [OF assms False] .
  then show ?thesis using that by (simp add: lib_call_eq)
qed

section \<open>Properties\<close>

text \<open>C4: \<open>CheckReset\<close> can be trusted.  Whatever calls were made on the connection since it was opened, when
  \<open>CheckReset\<close> reports nothing, no statement of the cache is busy in SQLite.  (A pool relies on it to decide
  whether a connection may be handed to someone else.)\<close>

theorem CheckReset_sound:
  assumes "conn_reach K L c" and "lib_busy_ok K L V" and "lib_alloc_ok K L V" and "range_ok L"
    and "map_of (c_stmts c) '''' = None" and "CheckReset L c = ''''" and "(q, s) \<in> set (c_stmts c)"
  shows "\<not> v_busy V (s_ptr (stmt_at c s)) (c_world c)"
proof -
  have ok: "conn_ok V c" using conn_reach_ok [OF assms(1-4)] .
  then have "\<not> s_lastHasRow (stmt_at c s)" and "attached c s"
    using CheckReset_empty [OF assms(4) _ assms(5)] assms(6,7) by (auto simp: conn_ok_def cache_ok_def)
  then show ?thesis using ok by (auto simp: conn_ok_def)
qed

text \<open>C26: the cache of statements.  After a successful \<open>Prepare\<close>, a second \<open>Prepare\<close> of the same query makes no
  new statement: it returns the same one, reset.\<close>

theorem Prepare_cached:
  assumes "lib_busy_ok K L V" and "lib_alloc_ok K L V" and "conn_ok V c"
    and "Prepare K L q c = Some ((Some s, e1), c1)" and "Prepare K L q c1 = Some ((so, err), c2)"
  shows "c_next c2 = c_next c1 \<and> map_of (c_stmts c2) q = Some s \<and> \<not> s_lastHasRow (stmt_at c2 s) \<and>
    (if err = None then so = Some s else so = None)"
proof -
  have m: "map_of (c_stmts c1) q = Some s" and ok: "conn_ok V c1"
    using Prepare_conn_ok [OF assms(1-4)] by auto
  obtain e3 c3 where r: "Reset K L s c1 = Some (e3, c3)"
    using assms(5) m by (auto simp: Prepare_def bind_eq_Some_conv)
  note q3 = Reset_result(3,4) [OF assms(1) r]
  have f3: "c_next c3 = c_next c1" "c_stmts c3 = c_stmts c1" using q3(1) by (simp_all add: effect_def)
  show ?thesis
  proof (cases e3)
    case (Some e)
    then show ?thesis using assms(5) m r f3 q3(2) by (auto simp: Prepare_def)
  next
    case None
    then obtain e4 where cl: "ClearBindings K L s c3 = Some (e4, c2)" and "err = e4" "so = (case e4 of None \<Rightarrow> Some s | Some _ \<Rightarrow> None)"
      using assms(5) m r by (auto simp: Prepare_def bind_eq_Some_conv split: if_splits)
    then show ?thesis
      using ClearBindings_effect [OF assms(1) cl] f3 m q3(2) by (auto simp: effect_def split: option.splits)
  qed
qed

text \<open>C24: \<open>SetInterrupt\<close> returns, gives back the old channel, installs the new one, and leaves no statement of
  the cache at a row: every busy statement has been reset.\<close>

theorem SetInterrupt_resets:
  assumes "lib_busy_ok K L V" and "lib_unlocks K L \<mu>" and "range_ok L" and "conn_ok V c" and "\<not> c_closed c"
    and "map_of (c_stmts c) '''' = None"
  shows "\<exists>c'. SetInterrupt K L ch c = Some (c_doneCh c, c') \<and> c_doneCh c' = ch \<and> conn_ok V c' \<and> CheckReset L c' = ''''"
proof -
  obtain c' where s: "SetInterrupt K L ch c = Some (c_doneCh c, c')" using SetInterrupt_returns [OF assms(1-5)] by blast
  note r = SetInterrupt_result [OF assms(1,4,3) s]
  then have "cache_ok c'" and "map_of (c_stmts c') '''' = None" using assms(6) by (auto simp: conn_ok_def)
  with CheckReset_empty [OF assms(3)] r s show ?thesis by blast
qed


section \<open>Witnesses\<close>

text \<open>The small SQLite, able to open a connection.\<close>

definition demo_open :: "demo open_lib" where
  "demo_open = sqlite_lib.extend demo_lib \<lparr>x_calloc = (\<lambda>w. (True, w)), x_valist = (\<lambda>w. (True, w)),
     x_open_v2 = (\<lambda>path f w. ((0, 1), w)), x_extended_errcode = (\<lambda>w. 0), x_close_v2 = (\<lambda>w. w),
     x_extended_result_codes = (\<lambda>w. w), x_db_config = (\<lambda>op v w. (0, w))\<rparr>"

lemma demo_open_ok:
  "lib_busy_ok demo_K demo_open demo_view" "lib_alloc_ok demo_K demo_open demo_view"
  "lib_unlocks demo_K demo_open d_locks" "range_ok demo_open"
  using demo_busy_ok demo_alloc_ok demo_unlocks
  by (simp_all add: demo_open_def sqlite_lib.defs lib_busy_ok_def lib_alloc_ok_def lib_unlocks_def range_ok_def)
    (simp add: demo_lib_def)

text \<open>A connection opened without the WAL mode, and a statement prepared and stepped to its first row.\<close>

definition demo_opened :: "demo Conn" where
  "demo_opened = SetBlockOnBusy demo_open (new_Conn demo_world)"

lemma demo_K_flags [simp]: "flag_mask demo_K ''SQLITE_OPEN_WAL'' = 5"
  by (simp add: flag_mask_def demo_K_def documented_types_def)

lemma demo_OpenConn: "OpenConn demo_K demo_open ''x'' [2] demo_world = Some (Inr demo_opened)"
  by (simp add: OpenConn_def open_flags_def openConn_def demo_open_def sqlite_lib.defs demo_lib_def lib_call_def
      ToError_def IsSuccess_def demo_opened_def new_Conn_def)

lemma demo_range_ok: "range_ok demo_lib"
  by (simp add: range_ok_def demo_lib_def)

text \<open>Preparing a first statement on the opened connection.\<close>

lemma demo_Prepare:
  "\<exists>c. Prepare demo_K demo_open ''Q'' demo_opened = Some ((Some 0, None), c) \<and> c_stmts c = [(''Q'', 0)] \<and>
     s_query (stmt_at c 0) = ''Q'' \<and> \<not> s_lastHasRow (stmt_at c 0)"
  by (simp add: Prepare_def conn_prepare_def Conn_interrupted_def demo_opened_def SetBlockOnBusy_def setBusyHandler_def
      new_Conn_def demo_open_def sqlite_lib.defs demo_lib_def demo_prepare_def demo_world_def lib_call_def
      conn_extreserr_def extreserr_def IsSuccess_def Let_def alloc_Stmt_def new_Stmt_def map_insert_def map_delete_def)

theorem CheckReset_sound_witness:
  "\<exists>c. Prepare demo_K demo_open ''Q'' demo_opened = Some ((Some 0, None), c) \<and>
     conn_reach demo_K demo_open c \<and> CheckReset demo_open c = '''' \<and>
     \<not> v_busy demo_view (s_ptr (stmt_at c 0)) (c_world c)"
proof -
  obtain c where p: "Prepare demo_K demo_open ''Q'' demo_opened = Some ((Some 0, None), c)"
    and st: "c_stmts c = [(''Q'', 0)]" "\<not> s_lastHasRow (stmt_at c 0)"
    using demo_Prepare by blast
  have reach: "conn_reach demo_K demo_open c" using conn_reach.prepare [OF conn_reach.opened [OF demo_OpenConn] p] .
  have "range_order demo_open = id" by (simp add: demo_open_def sqlite_lib.defs demo_lib_def)
  then have cr: "CheckReset demo_open c = ''''" using st by (simp add: CheckReset_def)
  have "\<not> v_busy demo_view (s_ptr (stmt_at c 0)) (c_world c)"
    using CheckReset_sound [OF reach demo_open_ok(1,2,4) _ cr, of "''Q''" 0] st by simp
  with p reach cr show ?thesis by blast
qed

lemma demo_Prepare_again:
  "\<exists>c1. Prepare demo_K demo_lib ''Q'' demo_conn = Some ((Some 0, None), c1) \<and>
    (\<exists>c2. Prepare demo_K demo_lib ''Q'' c1 = Some ((Some 0, None), c2))"
  by (simp add: Prepare_def demo_conn_def demo_Stmt_def Reset_def Reset_loop.simps upd_stmt_def lib_call_def demo_lib_def
      demo_reset_def conn_extreserr_def extreserr_def wrap_error_def ClearBindings_def Stmt_interrupted_def
      Conn_interrupted_def ToError_def IsSuccess_def Let_def)

theorem Prepare_cached_witness:
  "\<exists>c1 c2. Prepare demo_K demo_lib ''Q'' demo_conn = Some ((Some 0, None), c1) \<and>
     Prepare demo_K demo_lib ''Q'' c1 = Some ((Some 0, None), c2) \<and> c_next c2 = c_next c1"
proof -
  obtain c1 c2 where p: "Prepare demo_K demo_lib ''Q'' demo_conn = Some ((Some 0, None), c1)"
    "Prepare demo_K demo_lib ''Q'' c1 = Some ((Some 0, None), c2)"
    using demo_Prepare_again by blast
  with Prepare_cached [OF demo_busy_ok demo_alloc_ok demo_conn_ok(1) p] show ?thesis by blast
qed

theorem SetInterrupt_resets_witness:
  "\<exists>c'. SetInterrupt demo_K demo_lib (Some 7) demo_conn = Some (None, c') \<and> c_doneCh c' = Some 7 \<and>
     CheckReset demo_lib c' = ''''"
proof -
  have "\<not> c_closed demo_conn" "map_of (c_stmts demo_conn) '''' = None" "c_doneCh demo_conn = None"
    by (simp_all add: demo_conn_def)
  with SetInterrupt_resets [OF demo_busy_ok demo_unlocks demo_range_ok demo_conn_ok(1), of "Some 7"]
  show ?thesis by auto
qed


end
