(* ===== verification/Bitset.thy ===== *)
theory Bitset
  imports Prelude
begin

text \<open>
  The bit set that \<open>exec\<close> (sqlitex/exec.go) uses to remember which parameters have an argument, behind the
  interface \<open>index_set\<close>: what a client may assume of a set of small numbers that can tell whether it holds all
  numbers below a bound, and which number is the first one missing.
\<close>

section \<open>The interface\<close>

text \<open>Marking a list of numbers, one after the other.\<close>

fun mark_all :: "('b \<Rightarrow> nat \<Rightarrow> 'b option) \<Rightarrow> nat list \<Rightarrow> 'b \<Rightarrow> 'b option" where
  "mark_all mark [] b = Some b"
| "mark_all mark (i # is) b = (case mark b i of None \<Rightarrow> None | Some b' \<Rightarrow> mark_all mark is b')"

locale index_set =
  fixes new :: "nat \<Rightarrow> 'b" and mark :: "'b \<Rightarrow> nat \<Rightarrow> 'b option" and mem :: "'b \<Rightarrow> nat \<Rightarrow> bool" and cap :: "'b \<Rightarrow> nat"
    and full :: "'b \<Rightarrow> nat \<Rightarrow> bool" and missing :: "'b \<Rightarrow> nat"
  assumes new_empty: "\<not> mem (new n) i"
    and new_cap: "n \<le> cap (new n)"
    and mark_some: "i < cap b \<Longrightarrow> \<exists>b'. mark b i = Some b' \<and> cap b' = cap b \<and> (\<forall>j. mem b' j \<longleftrightarrow> mem b j \<or> j = i)"
    and full_iff: "full b n \<longleftrightarrow> (\<forall>i < n. mem b i)"
    and missing_least: "\<not> mem b (missing b) \<and> (\<forall>i < missing b. mem b i)"
begin

lemma mark_all_spec:
  assumes "\<forall>i \<in> set is. i < cap b"
  shows "\<exists>b'. mark_all mark is b = Some b' \<and> cap b' = cap b \<and> (\<forall>j. mem b' j \<longleftrightarrow> mem b j \<or> j \<in> set is)"
  using assms
proof (induction "is" arbitrary: b)
  case (Cons i "is")
  then obtain b1 where "mark b i = Some b1" "cap b1 = cap b" "\<forall>j. mem b1 j \<longleftrightarrow> mem b j \<or> j = i"
    using mark_some [of i b] by auto
  with Cons.IH [of b1] Cons.prems show ?case by auto
qed simp

lemma missing_eq: "missing b = (LEAST i. \<not> mem b i)"
proof (rule Least_equality [symmetric])
  show "\<not> mem b (missing b)" using missing_least by blast
next
  fix i assume "\<not> mem b i"
  then show "missing b \<le> i" using missing_least [of b] by (metis not_le)
qed

lemma not_full_missing:
  assumes "\<not> full b n"
  shows "missing b < n"
proof -
  obtain i where "i < n" "\<not> mem b i" using assms by (auto simp: full_iff)
  then have "missing b \<le> i" using missing_least [of b] by (metis not_le)
  with \<open>i < n\<close> show ?thesis by simp
qed

text \<open>What a client gets: after marking numbers below \<open>n\<close>, the set is full exactly if they cover all of them, and
  otherwise the first number that was not marked is reported.\<close>

lemma mark_new:
  assumes "\<forall>i \<in> set is. i < n"
  shows "\<exists>b. mark_all mark is (new n) = Some b \<and> (full b n \<longleftrightarrow> {..<n} \<subseteq> set is) \<and>
    missing b = (LEAST i. i \<notin> set is)"
proof -
  have "\<forall>i \<in> set is. i < cap (new n)" using assms new_cap [of n] by auto
  from mark_all_spec [OF this] obtain b where "mark_all mark is (new n) = Some b" "\<forall>j. mem b j \<longleftrightarrow> j \<in> set is"
    using new_empty by auto
  then show ?thesis by (auto simp: full_iff missing_eq)
qed

end

section \<open>The implementation\<close>

type_synonym bitset = "uint64 list"

definition newBitset :: "nat \<Rightarrow> bitset" where
  "newBitset n = replicate ((n + 63) div 64) 0"

definition hasAll :: "bitset \<Rightarrow> nat \<Rightarrow> bool" where
  "hasAll bs n =
     (let nbytes = (n + 63) div 64 in
      if length bs < nbytes then False
      else let fullBytes = n div 64 in
           if \<not> list_all (\<lambda>b. b = - 1) (take fullBytes bs) then False
           else if fullBytes = nbytes then True
           else let mask = push_bit (n mod 64) 1 - 1 in bs ! (nbytes - 1) AND mask = mask)"

text \<open>The inner loop over the bits of a word; 64 if all of them are set.\<close>

fun first_clear :: "uint64 \<Rightarrow> nat \<Rightarrow> nat \<Rightarrow> nat option" where
  "first_clear b j 0 = None"
| "first_clear b j (Suc k) = (if b AND push_bit j 1 = 0 then Some j else first_clear b (Suc j) k)"

fun firstMissing_from :: "nat \<Rightarrow> bitset \<Rightarrow> nat" where
  "firstMissing_from i [] = i * 64"
| "firstMissing_from i (b # bs) =
     (if b = - 1 then firstMissing_from (Suc i) bs
      else case first_clear b 0 64 of Some j \<Rightarrow> i * 64 + j | None \<Rightarrow> firstMissing_from (Suc i) bs)"

definition firstMissing :: "bitset \<Rightarrow> nat" where
  "firstMissing bs = firstMissing_from 0 bs"

text \<open>\<open>None\<close>: the index is out of range, and the source panics.\<close>

definition bitset_set :: "bitset \<Rightarrow> nat \<Rightarrow> bitset option" where
  "bitset_set bs n =
     (if n div 64 < length bs then Some (bs[n div 64 := bs ! (n div 64) OR push_bit (n mod 64) 1]) else None)"

section \<open>The implementation has the interface\<close>

lemma bitset_set_bits:
  assumes "i < 64 * length bs"
  shows "\<exists>bs'. bitset_set bs i = Some bs' \<and> length bs' = length bs \<and> (\<forall>j. word_bit bs' j \<longleftrightarrow> word_bit bs j \<or> j = i)"
proof -
  have k: "i div 64 < length bs" using assms by (simp add: div_less_iff_less_mult mult.commute)
  have e: "j = i" if "j div 64 = i div 64" "j mod 64 = i mod 64" for j
    using that div_mult_mod_eq [of i 64] div_mult_mod_eq [of j 64] by presburger
  let ?bs = "bs[i div 64 := bs ! (i div 64) OR push_bit (i mod 64) 1]"
  have "word_bit ?bs j \<longleftrightarrow> word_bit bs j \<or> j = i" for j
    using k e [of j] unfolding word_bit_list_update [OF k] push_bit_of_1 bit_or_exp
    by (auto simp: word_bit_def)
  then show ?thesis using k by (simp add: bitset_set_def)
qed

lemma word_bit_full_prefix:
  assumes "k \<le> length bs"
  shows "list_all (\<lambda>b. b = - 1) (take k bs) \<longleftrightarrow> (\<forall>i < 64 * k. word_bit bs i)"
proof
  assume "list_all (\<lambda>b. b = - 1) (take k bs)"
  then have "bs ! (i div 64) = - 1" if "i < 64 * k" for i
    using that assms by (auto simp: list_all_length div_less_iff_less_mult mult.commute)
  then show "\<forall>i < 64 * k. word_bit bs i"
    using assms by (auto simp: word_bit_def div_less_iff_less_mult mult.commute)
next
  assume *: "\<forall>i < 64 * k. word_bit bs i"
  have "bs ! m = - 1" if "m < k" for m
    unfolding word_eq_full_iff
  proof (intro allI impI)
    fix i :: nat assume "i < 64"
    then show "bit (bs ! m) i" using * [rule_format, of "64 * m + i"] that by (simp add: word_bit_def)
  qed
  then show "list_all (\<lambda>b. b = - 1) (take k bs)" using assms by (simp add: list_all_length)
qed

lemma mask_and_iff:
  assumes "r < 64"
  shows "(w :: uint64) AND (push_bit r 1 - 1) = push_bit r 1 - 1 \<longleftrightarrow> (\<forall>i < r. bit w i)"
proof -
  have m: "push_bit r 1 - 1 = (mask r :: uint64)" by (simp add: mask_eq_exp_minus_1)
  have "i < r \<Longrightarrow> i < 64" for i using assms by simp
  then show ?thesis unfolding m by (auto simp: bit_eq_iff bit_simps)
qed

lemma all_less_add: "(\<forall>i < a + b. P i) \<longleftrightarrow> (\<forall>i < a. P i) \<and> (\<forall>i < b. P (a + i))" for a b :: nat
  by (induction b) (auto simp: less_Suc_eq)

lemma hasAll_iff: "hasAll bs n \<longleftrightarrow> (\<forall>i < n. word_bit bs i)"
proof -
  let ?k = "n div 64" and ?nb = "(n + 63) div 64"
  have n: "n = 64 * ?k + n mod 64" by simp
  have nb: "?nb = (if n mod 64 = 0 then ?k else Suc ?k)"
  proof -
    have "n + 63 = (n mod 64 + 63) + ?k * 64" by simp
    then have "?nb = (n mod 64 + 63) div 64 + ?k" by (metis div_mult_self3 zero_neq_numeral add.commute)
    moreover have "(r + 63) div 64 = (if r = 0 then 0 else 1)" if "r < 64" for r :: nat
      using that by (auto simp: div_nat_eqI)
    ultimately show ?thesis by simp
  qed
  show ?thesis
  proof (cases "length bs < ?nb")
    case True
    then have "64 * length bs < n" using nb n by (auto split: if_splits)
    moreover have "\<not> word_bit bs (64 * length bs)" by (auto dest: word_bit_bound)
    ultimately show ?thesis using True by (auto simp: hasAll_def Let_def)
  next
    case False
    then have k: "?k \<le> length bs" using nb by (auto split: if_splits)
    have split: "(\<forall>i < n. P i) \<longleftrightarrow> (\<forall>i < 64 * ?k. P i) \<and> (\<forall>i < n mod 64. P (64 * ?k + i))" for P
      using all_less_add [of "64 * ?k" "n mod 64" P] by simp
    have "word_bit bs (64 * ?k + i) \<longleftrightarrow> bit (bs ! ?k) i" if "i < n mod 64" for i
      using False nb that by (simp add: word_bit_def split: if_splits)
    then have "(\<forall>i < n. word_bit bs i) \<longleftrightarrow> (\<forall>i < 64 * ?k. word_bit bs i) \<and> (\<forall>i < n mod 64. bit (bs ! ?k) i)"
      by (simp add: split [of "word_bit bs"])
    then show ?thesis
      using False nb k by (simp add: hasAll_def Let_def word_bit_full_prefix mask_and_iff del: push_bit_of_1)
  qed
qed

lemma first_clear_spec:
  "case first_clear b j k of
     None \<Rightarrow> \<forall>i. j \<le> i \<and> i < j + k \<longrightarrow> bit b i
   | Some i \<Rightarrow> j \<le> i \<and> i < j + k \<and> \<not> bit b i \<and> (\<forall>i'. j \<le> i' \<and> i' < i \<longrightarrow> bit b i')"
proof (induction b j k rule: first_clear.induct)
  case (2 b j k)
  have c: "b AND push_bit j 1 = 0 \<longleftrightarrow> \<not> bit b j" using and_exp_eq_0_iff_not_bit [of b j] by simp
  show ?case
  proof (cases "bit b j")
    case True
    have "j \<le> i \<longleftrightarrow> i = j \<or> Suc j \<le> i" for i by auto
    with True 2 c show ?thesis by (auto split: option.splits simp del: push_bit_of_1)
  qed (use c in \<open>auto simp del: push_bit_of_1\<close>)
qed auto

lemma firstMissing_from_spec:
  "\<exists>k. firstMissing_from i bs = i * 64 + k \<and> \<not> word_bit bs k \<and> (\<forall>j < k. word_bit bs j)"
proof (induction i bs rule: firstMissing_from.induct)
  case (2 i b bs)
  show ?case
  proof (cases "b = - 1")
    case True
    then obtain k where "firstMissing_from (Suc i) bs = Suc i * 64 + k" "\<not> word_bit bs k" "\<forall>j < k. word_bit bs j"
      using 2(1) by blast
    then show ?thesis using True by (auto simp: word_bit_Cons intro!: exI [of _ "64 + k"])
  next
    case False
    then obtain i0 where "i0 < 64" "\<not> bit b i0" by (rule word_not_full_obtains)
    then obtain j where j: "first_clear b 0 64 = Some j"
      using first_clear_spec [where b = b and j = 0 and k = 64] by (auto split: option.splits)
    then show ?thesis
      using False first_clear_spec [where b = b and j = 0 and k = 64] by (auto simp: word_bit_Cons intro!: exI [of _ j])
  qed
qed (simp add: word_bit_Nil)

lemma firstMissing_spec: "\<not> word_bit bs (firstMissing bs) \<and> (\<forall>i < firstMissing bs. word_bit bs i)"
  using firstMissing_from_spec [of 0 bs] by (auto simp: firstMissing_def)

interpretation bitset: index_set newBitset bitset_set word_bit "\<lambda>bs. 64 * length bs" hasAll firstMissing
proof
  show "\<not> word_bit (newBitset n) i" for n i by (simp add: newBitset_def word_bit_replicate_0)
  show "n \<le> 64 * length (newBitset n)" for n by (simp add: newBitset_def)
  show "i < 64 * length b \<Longrightarrow> \<exists>b'. bitset_set b i = Some b' \<and> 64 * length b' = 64 * length b \<and>
      (\<forall>j. word_bit b' j \<longleftrightarrow> word_bit b j \<or> j = i)" for i b
    using bitset_set_bits by fastforce
qed (simp_all add: hasAll_iff firstMissing_spec)

text \<open>C34: the bookkeeping of arguments.  Marking positions below \<open>n\<close> in a new bit set never fails; \<open>hasAll n\<close> then
  says whether they are all of \<open>0, ..., n - 1\<close>, and \<open>firstMissing\<close> is the smallest position that was not marked.\<close>

theorem bitset_marks:
  assumes "\<forall>i \<in> set is. i < n"
  shows "\<exists>bs. mark_all bitset_set is (newBitset n) = Some bs \<and> (hasAll bs n \<longleftrightarrow> {..<n} \<subseteq> set is) \<and>
    firstMissing bs = (LEAST i. i \<notin> set is)"
  using assms by (rule bitset.mark_new)

theorem bitset_marks_witness:
  "\<exists>bs. mark_all bitset_set [0, 65, 2] (newBitset 66) = Some bs \<and> firstMissing bs = (LEAST i. i \<notin> {0, 65, 2 :: nat})"
proof -
  have "\<forall>i \<in> set [0, 65, 2]. i < (66 :: nat)" by simp
  from bitset_marks [OF this] show ?thesis by auto
qed

end
