(* ===== verification/Exec.thy ===== *)
theory Exec
  imports Open Bitset
begin

text \<open>
  Executing statements with arguments (sqlitex/exec.go): the checks of positional and named arguments, the
  conversion of a Go value to a bind call, and the loop over the rows.  The Go value of an argument is what
  reflection tells of it; the text of a value of another kind is what \<open>fmt.Sprint\<close> prints.
\<close>

section \<open>Arguments\<close>

datatype go_value =
    GInt int
  | GUint uint64
  | GFloat uint64
  | GString gostring
  | GBool bool
  | GNil
  | GBytes gostring
  | GOther gostring

type_synonym 'w result_fn = "nat \<Rightarrow> 'w Conn \<Rightarrow> (error \<times> 'w Conn) option"

record 'w ExecOptions =
  o_Args :: "go_value list"
  o_Named :: "(gostring \<times> go_value) list"
  o_ResultFunc :: "'w result_fn option"

definition setArg :: "lib_consts \<Rightarrow> ('w, 'm) sqlite_lib_scheme \<Rightarrow> nat \<Rightarrow> int \<Rightarrow> go_value \<Rightarrow> 'w Conn \<Rightarrow> 'w Conn option" where
  "setArg K L s i v c = (case v of
     GInt n \<Rightarrow> BindInt64 K L s i n c
   | GUint u \<Rightarrow> BindInt64 K L s i (sint u) c
   | GFloat f \<Rightarrow> BindFloat K L s i f c
   | GString t \<Rightarrow> BindText K L s i t c
   | GBool b \<Rightarrow> BindBool K L s i b c
   | GNil \<Rightarrow> BindNull K L s i c
   | GBytes b \<Rightarrow> BindBytes K L s i b c
   | GOther t \<Rightarrow> BindText K L s i t c)"

definition forbidMissing :: int where "forbidMissing = 1"
definition forbidExtra :: int where "forbidExtra = 2"

text \<open>Go compares strings byte by byte.\<close>

fun str_less :: "gostring \<Rightarrow> gostring \<Rightarrow> bool" where
  "str_less s [] = False"
| "str_less [] (d # t) = True"
| "str_less (c # s) (d # t) = ((of_char c :: nat) < of_char d \<or> (c = d \<and> str_less s t))"

definition minStringInSet :: "gostring list \<Rightarrow> gostring" where
  "minStringInSet ks = fold (\<lambda>k min. if min = '''' \<or> str_less k min then k else min) ks ''''"

definition err_unknown :: "lib_consts \<Rightarrow> gostring \<Rightarrow> error" where
  "err_unknown K name = errorf_w (''%w: unknown argument '' @ name) (ToError K (ResultRange K))"

definition err_missing_named :: "gostring \<Rightarrow> error" where
  "err_missing_named name = Some (ErrorString (''missing parameter '' @ name))"

definition err_missing :: "gostring \<Rightarrow> error" where
  "err_missing name = Some (ErrorString (''sqlitex: missing argument for '' @ name))"

definition err_too_many :: "lib_consts \<Rightarrow> nat \<Rightarrow> nat \<Rightarrow> error" where
  "err_too_many K n m = errorf_w (''sqlitex: %w (len(Args) > BindParamCount(); '' @ FormatInt (int n) @ '' > '' @
     FormatInt (int m) @ '')'') (ToError K (ResultRange K))"

text \<open>The loop over the positional arguments: argument \<open>i\<close> is marked and bound to parameter \<open>i + 1\<close>.\<close>

fun set_args :: "lib_consts \<Rightarrow> ('w, 'm) sqlite_lib_scheme \<Rightarrow> nat \<Rightarrow> nat \<Rightarrow> go_value list \<Rightarrow> bitset \<Rightarrow> 'w Conn \<Rightarrow>
    (bitset \<times> 'w Conn) option" where
  "set_args K L s i [] provided c = Some (provided, c)"
| "set_args K L s i (arg # args) provided c = do {
     provided \<leftarrow> bitset_set provided i;
     c \<leftarrow> setArg K L s (int i + 1) arg c;
     set_args K L s (Suc i) args provided c
   }"

text \<open>The loop over the parameters in \<open>setNamed\<close>, from parameter \<open>i + 1\<close> on; \<open>unused\<close> are the names not met yet.\<close>

fun set_named_loop :: "lib_consts \<Rightarrow> ('w, 'm) sqlite_lib_scheme \<Rightarrow> nat \<Rightarrow> int \<Rightarrow> (gostring \<times> go_value) list \<Rightarrow>
    nat list \<Rightarrow> bitset \<Rightarrow> gostring list \<Rightarrow> 'w Conn \<Rightarrow> ((error \<times> bitset \<times> gostring list) \<times> 'w Conn) option" where
  "set_named_loop K L s flags args [] provided unused c = Some ((None, provided, unused), c)"
| "set_named_loop K L s flags args (i # is) provided unused c =
     (let name = BindParamName (stmt_at c s) (int i) in
      if name = '''' then set_named_loop K L s flags args is provided unused c
      else case map_of args name of
             None \<Rightarrow>
               if flags AND forbidMissing \<noteq> 0 then Some ((err_missing_named name, provided, unused), c)
               else set_named_loop K L s flags args is provided unused c
           | Some arg \<Rightarrow> do {
               provided \<leftarrow> bitset_set provided (i - 1);
               c \<leftarrow> setArg K L s (int i) arg c;
               set_named_loop K L s flags args is provided (filter (\<lambda>k. k \<noteq> name) unused) c
             })"

definition setNamed :: "lib_consts \<Rightarrow> ('w, 'm) sqlite_lib_scheme \<Rightarrow> nat \<Rightarrow> int \<Rightarrow> (gostring \<times> go_value) list \<Rightarrow>
    bitset \<Rightarrow> 'w Conn \<Rightarrow> ((error \<times> bitset) \<times> 'w Conn) option" where
  "setNamed K L s flags args provided c =
     (if length args = 0 then Some ((None, provided), c)
      else do {
        ((err, provided, unused), c) \<leftarrow> set_named_loop K L s flags args [1..<BindParamCount (stmt_at c s) + 1] provided
           (if flags AND forbidExtra \<noteq> 0 then map fst args else []) c;
        if err \<noteq> None then Some ((err, provided), c)
        else if 0 < length unused then Some ((err_unknown K (minStringInSet unused), provided), c)
        else Some ((None, provided), c)
      })"

section \<open>The loop over the rows\<close>

text \<open>It is written over any step function, so that what it does with the rows can be stated for the interface
  of a statement.  \<open>fn\<close> is the \<open>ResultFunc\<close> option.\<close>

partial_function (option) row_loop ::
  "('c \<Rightarrow> ((bool \<times> error) \<times> 'c) option) \<Rightarrow> ('c \<Rightarrow> (error \<times> 'c) option) option \<Rightarrow> 'c \<Rightarrow> (error \<times> 'c) option" where
  "row_loop step fn c = do {
     ((hasRow, err), c) \<leftarrow> step c;
     if err \<noteq> None then Some (err, c)
     else if \<not> hasRow then Some (None, c)
     else (case fn of
             None \<Rightarrow> row_loop step fn c
           | Some f \<Rightarrow> do {
               (err, c) \<leftarrow> f c;
               if err \<noteq> None then Some (err, c) else row_loop step fn c
             })
   }"

section \<open>exec and its callers\<close>

text \<open>The arguments of the options are checked and bound; nil options have none.\<close>

definition exec_bind :: "lib_consts \<Rightarrow> ('w, 'm) sqlite_lib_scheme \<Rightarrow> nat \<Rightarrow> int \<Rightarrow> 'w ExecOptions option \<Rightarrow> bitset \<Rightarrow>
    'w Conn \<Rightarrow> ((error \<times> bitset) \<times> 'w Conn) option" where
  "exec_bind K L s flags opts provided c = (case opts of
     None \<Rightarrow> Some ((None, provided), c)
   | Some o' \<Rightarrow>
       if BindParamCount (stmt_at c s) < length (o_Args o')
       then Some ((err_too_many K (length (o_Args o')) (BindParamCount (stmt_at c s)), provided), c)
       else do {
         (provided, c) \<leftarrow> set_args K L s 0 (o_Args o') provided c;
         setNamed K L s flags (o_Named o') provided c
       })"

definition exec :: "lib_consts \<Rightarrow> ('w, 'm) sqlite_lib_scheme \<Rightarrow> nat \<Rightarrow> int \<Rightarrow> 'w ExecOptions option \<Rightarrow> 'w Conn \<Rightarrow>
    (error \<times> 'w Conn) option" where
  "exec K L s flags opts c =
     (let paramCount = BindParamCount (stmt_at c s); provided = newBitset paramCount in do {
        ((err, provided), c) \<leftarrow> exec_bind K L s flags opts provided c;
        if err \<noteq> None then Some (err, c)
        else if flags AND forbidMissing \<noteq> 0 \<and> \<not> hasAll provided paramCount then
          (let i = firstMissing provided + 1;
               name = BindParamName (stmt_at c s) (int i);
               name = (if name = '''' then ''?'' @ FormatInt (int i) else name)
           in Some (err_missing name, c))
        else row_loop (Step K L s) (case opts of None \<Rightarrow> None | Some o' \<Rightarrow> map_option (\<lambda>f. f s) (o_ResultFunc o')) c
      })"

text \<open>The common body of \<open>Exec\<close> and \<open>Execute\<close>: a cached statement, executed and reset.\<close>

definition exec_cached :: "lib_consts \<Rightarrow> ('w, 'm) sqlite_lib_scheme \<Rightarrow> int \<Rightarrow> gostring \<Rightarrow> 'w ExecOptions option \<Rightarrow> 'w Conn \<Rightarrow>
    (error \<times> 'w Conn) option" where
  "exec_cached K L flags query opts c = do {
     ((so, err), c) \<leftarrow> Prepare K L query c;
     (case so of
        None \<Rightarrow> Some (err, c)
      | Some s \<Rightarrow> do {
          (err, c) \<leftarrow> exec K L s flags opts c;
          (resetErr, c) \<leftarrow> Reset K L s c;
          Some (if err = None then resetErr else err, c)
        })
   }"

definition Exec :: "lib_consts \<Rightarrow> ('w, 'm) sqlite_lib_scheme \<Rightarrow> gostring \<Rightarrow> 'w result_fn option \<Rightarrow> go_value list \<Rightarrow> 'w Conn \<Rightarrow>
    (error \<times> 'w Conn) option" where
  "Exec K L query resultFn args c =
     exec_cached K L 0 query (Some \<lparr>o_Args = args, o_Named = [], o_ResultFunc = resultFn\<rparr>) c"

definition Execute :: "lib_consts \<Rightarrow> ('w, 'm) sqlite_lib_scheme \<Rightarrow> gostring \<Rightarrow> 'w ExecOptions option \<Rightarrow> 'w Conn \<Rightarrow>
    (error \<times> 'w Conn) option" where
  "Execute K L query opts c = exec_cached K L (forbidMissing OR forbidExtra) query opts c"

text \<open>The common body of \<open>ExecTransient\<close> and \<open>ExecuteTransient\<close>, with the deferred \<open>Finalize\<close>.\<close>

definition err_query_trailing :: go_error where
  "err_query_trailing = ErrorString ''sqlitex: execute: query %q has trailing bytes''"

definition exec_transient :: "lib_consts \<Rightarrow> ('w, 'm) sqlite_lib_scheme \<Rightarrow> int \<Rightarrow> gostring \<Rightarrow> 'w ExecOptions option \<Rightarrow> 'w Conn \<Rightarrow>
    (error \<times> 'w Conn) option" where
  "exec_transient K L flags query opts c =
     (case PrepareTransient K L query c of
        ((Some s, trailing, None), c) \<Rightarrow> do {
          (err, c) \<leftarrow> (if trailing \<noteq> 0 then Some (Some err_query_trailing, c) else exec K L s flags opts c);
          (ferr, c) \<leftarrow> Finalize K L s c;
          Some (if err = None then ferr else err, c)
        }
      | ((_, _, err), c) \<Rightarrow> Some (err, c))"

definition ExecTransient :: "lib_consts \<Rightarrow> ('w, 'm) sqlite_lib_scheme \<Rightarrow> gostring \<Rightarrow> 'w result_fn option \<Rightarrow> go_value list \<Rightarrow> 'w Conn \<Rightarrow>
    (error \<times> 'w Conn) option" where
  "ExecTransient K L query resultFn args c =
     exec_transient K L 0 query (Some \<lparr>o_Args = args, o_Named = [], o_ResultFunc = resultFn\<rparr>) c"

definition ExecuteTransient :: "lib_consts \<Rightarrow> ('w, 'm) sqlite_lib_scheme \<Rightarrow> gostring \<Rightarrow> 'w ExecOptions option \<Rightarrow> 'w Conn \<Rightarrow>
    (error \<times> 'w Conn) option" where
  "ExecuteTransient K L query opts c = exec_transient K L (forbidMissing OR forbidExtra) query opts c"

section \<open>What the argument checks are meant to decide\<close>

text \<open>A parameter that has a name, and the arguments that name it.\<close>

definition named_in :: "(gostring \<times> go_value) list \<Rightarrow> gostring \<Rightarrow> bool" where
  "named_in args name \<longleftrightarrow> name \<noteq> '''' \<and> map_of args name \<noteq> None"

definition name_lacking :: "(gostring \<times> go_value) list \<Rightarrow> gostring \<Rightarrow> bool" where
  "name_lacking args name \<longleftrightarrow> name \<noteq> '''' \<and> map_of args name = None"

text \<open>The verdict on named arguments: the first named parameter without an argument, then the smallest argument
  that names no parameter.\<close>

definition named_error :: "lib_consts \<Rightarrow> int \<Rightarrow> gostring list \<Rightarrow> (gostring \<times> go_value) list \<Rightarrow> error" where
  "named_error K flags names args =
     (if args = [] then None
      else case (if flags AND forbidMissing \<noteq> 0 then find (name_lacking args) names else None) of
        Some name \<Rightarrow> err_missing_named name
      | None \<Rightarrow>
          (let unused = (if flags AND forbidExtra \<noteq> 0 then filter (\<lambda>k. k = '''' \<or> k \<notin> set names) (map fst args) else [])
           in if unused = [] then None else err_unknown K (minStringInSet unused)))"

text \<open>The parameters that got an argument, by position or by name.\<close>

definition provided_by :: "gostring list \<Rightarrow> 'w ExecOptions \<Rightarrow> nat \<Rightarrow> bool" where
  "provided_by names o' i \<longleftrightarrow> i < length (o_Args o') \<or> (i < length names \<and> named_in (o_Named o') (names ! i))"

definition args_error :: "lib_consts \<Rightarrow> int \<Rightarrow> gostring list \<Rightarrow> 'w ExecOptions option \<Rightarrow> error" where
  "args_error K flags names opts =
     (let o' = (case opts of None \<Rightarrow> \<lparr>o_Args = [], o_Named = [], o_ResultFunc = None\<rparr> | Some o' \<Rightarrow> o') in
      if length names < length (o_Args o') then err_too_many K (length (o_Args o')) (length names)
      else case named_error K flags names (o_Named o') of
        Some e \<Rightarrow> Some e
      | None \<Rightarrow>
          (case (if flags AND forbidMissing \<noteq> 0 then find (\<lambda>i. \<not> provided_by names o' i) [0..<length names] else None) of
             None \<Rightarrow> None
           | Some i \<Rightarrow> err_missing (if names ! i = '''' then ''?'' @ FormatInt (int i + 1) else names ! i)))"

section \<open>Lemmas: the checks\<close>

lemma setArg_effect:
  assumes "lib_busy_ok K L V" and "setArg K L s i v c = Some c'"
  shows "bind_effect V s c c'"
  using assms(2) Bind_effects [OF assms(1)] by (auto simp: setArg_def split: go_value.splits)

lemma bind_call_returns: "s_conn (stmt_at c s) \<Longrightarrow> \<exists>c'. bind_call K L prefix arg s i c = Some c'"
  by (simp add: bind_call_def lib_call_eq)

lemma with_malloc_returns:
  assumes "s_conn (stmt_at c s)" and "\<And>c. s_conn (stmt_at c s) \<Longrightarrow> \<exists>c'. k c = Some c'"
  shows "\<exists>c'. with_malloc L prefix n s k c = Some c'"
  using assms by (simp add: with_malloc_def lib_call_eq)

lemma setArg_returns: "s_conn (stmt_at c s) \<Longrightarrow> \<exists>c'. setArg K L s i v c = Some c'"
  using bind_call_returns [of c s K L] with_malloc_returns [of c s _ L] bind_call_returns [of _ s K L]
  by (auto simp: setArg_def BindInt64_def BindFloat_def BindText_def BindBool_def BindNull_def BindBytes_def
      split: go_value.splits)

lemma bind_effect_names:
  assumes "bind_effect V s c c'"
  shows "s_bindNames (stmt_at c' s) = s_bindNames (stmt_at c s)" "s_ptr (stmt_at c' s) = s_ptr (stmt_at c s)"
    "s_conn (stmt_at c' s) = s_conn (stmt_at c s)"
  using assms by (auto simp: bind_effect_def)

lemma set_args_spec:
  assumes "lib_busy_ok K L V" and "s_conn (stmt_at c s)" and "i + length args \<le> 64 * length provided"
  shows "\<exists>provided' c'. set_args K L s i args provided c = Some (provided', c') \<and> bind_effect V s c c' \<and>
    length provided' = length provided \<and>
    (\<forall>j. word_bit provided' j \<longleftrightarrow> word_bit provided j \<or> (i \<le> j \<and> j < i + length args))"
  using assms(2,3)
proof (induction args arbitrary: i provided c)
  case (Cons arg args)
  obtain p1 where p1: "bitset_set provided i = Some p1" "length p1 = length provided"
    "\<forall>j. word_bit p1 j \<longleftrightarrow> word_bit provided j \<or> j = i"
    using bitset_set_bits [of i provided] Cons.prems(2) by auto
  obtain c1 where c1: "setArg K L s (int i + 1) arg c = Some c1" using setArg_returns [OF Cons.prems(1)] by blast
  note e1 = setArg_effect [OF assms(1) c1]
  from Cons.IH [of c1 "Suc i" p1] obtain p2 c2 where "set_args K L s (Suc i) args p1 c1 = Some (p2, c2)"
    "bind_effect V s c1 c2" "length p2 = length p1"
    "\<forall>j. word_bit p2 j \<longleftrightarrow> word_bit p1 j \<or> (Suc i \<le> j \<and> j < Suc i + length args)"
    using Cons.prems p1(2) bind_effect_names(3) [OF e1] by auto
  moreover have "i \<le> j \<and> j < i + length (arg # args) \<longleftrightarrow> j = i \<or> (Suc i \<le> j \<and> j < Suc i + length args)" for j by auto
  ultimately show ?case using p1 c1 bind_effect_trans [OF e1] by auto
qed auto

lemma BindParamName_nth: "1 \<le> i \<Longrightarrow> i \<le> length (s_bindNames st) \<Longrightarrow> BindParamName st (int i) = s_bindNames st ! (i - 1)"
  by (simp add: BindParamName_def Let_def nat_diff_distrib)

text \<open>The loop of \<open>setNamed\<close> on any list of parameter numbers.\<close>

lemma set_named_loop_spec:
  assumes "lib_busy_ok K L V" and "s_conn (stmt_at c s)" and "names = s_bindNames (stmt_at c s)"
    and "\<forall>i \<in> set is. 1 \<le> i \<and> i \<le> length names \<and> i \<le> 64 * length provided"
  shows "\<exists>err provided' unused' c'. set_named_loop K L s flags args is provided unused c = Some ((err, provided', unused'), c') \<and>
    bind_effect V s c c' \<and>
    (case (if flags AND forbidMissing \<noteq> 0 then find (\<lambda>i. name_lacking args (names ! (i - 1))) is else None) of
       Some i \<Rightarrow> err = err_missing_named (names ! (i - 1))
     | None \<Rightarrow> err = None \<and> length provided' = length provided \<and>
         (\<forall>j. word_bit provided' j \<longleftrightarrow> word_bit provided j \<or> (\<exists>i \<in> set is. j = i - 1 \<and> named_in args (names ! (i - 1)))) \<and>
         unused' = filter (\<lambda>k. \<not> (named_in args k \<and> k \<in> (\<lambda>i. names ! (i - 1)) ` set is)) unused)"
  using assms(2-4)
proof (induction "is" arbitrary: provided unused c)
  case (Cons i "is")
  let ?name = "names ! (i - 1)"
  have nm: "BindParamName (stmt_at c s) (int i) = ?name" using Cons.prems(2,3) by (simp add: BindParamName_nth)
  show ?case
  proof (cases "named_in args ?name")
    case True
    then obtain arg where arg: "map_of args ?name = Some arg" "?name \<noteq> ''''" by (auto simp: named_in_def)
    obtain p1 where p1: "bitset_set provided (i - 1) = Some p1" "length p1 = length provided"
      "\<forall>j. word_bit p1 j \<longleftrightarrow> word_bit provided j \<or> j = i - 1"
      using bitset_set_bits [of "i - 1" provided] Cons.prems(3) by fastforce
    obtain c1 where c1: "setArg K L s (int i) arg c = Some c1" using setArg_returns [OF Cons.prems(1)] by blast
    note e1 = setArg_effect [OF assms(1) c1]
    have lack: "\<not> name_lacking args ?name" using arg by (simp add: name_lacking_def)
    have n1: "names = s_bindNames (stmt_at c1 s)" "s_conn (stmt_at c1 s)"
      using bind_effect_names [OF e1] Cons.prems(1,2) by simp_all
    have bnd: "\<forall>i \<in> set is. 1 \<le> i \<and> i \<le> length names \<and> i \<le> 64 * length p1" using Cons.prems(3) p1(2) by simp
    have step: "set_named_loop K L s flags args (i # is) provided unused c =
        set_named_loop K L s flags args is p1 (filter (\<lambda>k. k \<noteq> ?name) unused) c1"
      using arg p1(1) c1 nm by simp
    have f: "find (\<lambda>i. name_lacking args (names ! (i - 1))) (i # is) = find (\<lambda>i. name_lacking args (names ! (i - 1))) is"
      using lack by simp
    have u: "filter (\<lambda>k. \<not> (named_in args k \<and> k \<in> (\<lambda>i. names ! (i - 1)) ` set is)) (filter (\<lambda>k. k \<noteq> ?name) unused) =
        filter (\<lambda>k. \<not> (named_in args k \<and> k \<in> (\<lambda>i. names ! (i - 1)) ` set (i # is))) unused"
      using True by (auto intro!: filter_cong)
    have w: "(word_bit p1 j \<or> (\<exists>i \<in> set is. j = i - 1 \<and> named_in args (names ! (i - 1)))) \<longleftrightarrow>
        word_bit provided j \<or> (\<exists>i \<in> set (i # is). j = i - 1 \<and> named_in args (names ! (i - 1)))" for j
      using p1(3) True by auto
    show ?thesis
      using Cons.IH [OF n1(2,1) bnd, of "filter (\<lambda>k. k \<noteq> ?name) unused"] bind_effect_trans [OF e1]
      unfolding step f u w p1(2) by blast
  next
    case False
    show ?thesis
    proof (cases "name_lacking args ?name \<and> flags AND forbidMissing \<noteq> 0")
      case True
      then show ?thesis using nm by (auto simp: name_lacking_def)
    next
      case lack: False
      have step: "set_named_loop K L s flags args (i # is) provided unused c = set_named_loop K L s flags args is provided unused c"
        using nm False lack by (auto simp: named_in_def name_lacking_def Let_def split: option.splits)
      have f: "(if flags AND forbidMissing \<noteq> 0 then find (\<lambda>i. name_lacking args (names ! (i - 1))) (i # is) else None) =
          (if flags AND forbidMissing \<noteq> 0 then find (\<lambda>i. name_lacking args (names ! (i - 1))) is else None)"
        using lack by simp
      have u: "(named_in args k \<and> k \<in> (\<lambda>i. names ! (i - 1)) ` set (i # is)) = (named_in args k \<and> k \<in> (\<lambda>i. names ! (i - 1)) ` set is)" for k
        using False by auto
      have w: "(\<exists>i \<in> set (i # is). j = i - 1 \<and> named_in args (names ! (i - 1))) = (\<exists>i \<in> set is. j = i - 1 \<and> named_in args (names ! (i - 1)))" for j
        using False by auto
      have bnd: "\<forall>i \<in> set is. 1 \<le> i \<and> i \<le> length names \<and> i \<le> 64 * length provided" using Cons.prems(3) by simp
      show ?thesis using Cons.IH [OF Cons.prems(1,2) bnd, of unused] unfolding step f u w .
    qed
  qed
qed auto

lemma find_map: "find P (map g xs) = map_option g (find (\<lambda>x. P (g x)) xs)"
  by (induction xs) auto

lemma map_nth_shift: "map (\<lambda>i. names ! (i - 1)) [1..<length names + 1] = names"
  by (rule nth_equalityI) (simp_all del: upt_Suc)

lemma find_names:
  "find P names = map_option (\<lambda>i. names ! (i - 1)) (find (\<lambda>i. P (names ! (i - 1))) [1..<length names + 1])"
  using find_map [of P "\<lambda>i. names ! (i - 1)" "[1..<length names + 1]"] by (simp only: map_nth_shift)

lemma set_upt_Suc: "set [1..<n + 1] = Suc ` {..<n}"
  by (simp add: image_Suc_lessThan atLeastLessThanSuc_atLeastAtMost del: upt_Suc)

lemma find_upt_first:
  assumes "\<not> P k" and "\<forall>i < k. P i" and "k < n"
  shows "find (\<lambda>i. \<not> P i) [0..<n] = Some k"
  using assms unfolding find_Some_iff by (intro exI [of _ k]) simp

text \<open>The names of the parameters that \<open>BindParamCount\<close> admits to.\<close>

definition param_names :: "Stmt \<Rightarrow> gostring list" where
  "param_names st = (if s_ptr st = 0 then [] else s_bindNames st)"

lemma length_param_names [simp]: "length (param_names st) = BindParamCount st"
  by (simp add: param_names_def BindParamCount_def)

lemma newBitset_cap: "n \<le> 64 * length (newBitset n)"
  by (rule bitset.new_cap)

lemma setNamed_spec:
  assumes "lib_busy_ok K L V" and "s_conn (stmt_at c s)"
    and "BindParamCount (stmt_at c s) \<le> 64 * length provided"
  shows "\<exists>provided' c'. setNamed K L s flags args provided c =
      Some ((named_error K flags (param_names (stmt_at c s)) args, provided'), c') \<and> bind_effect V s c c' \<and>
      (named_error K flags (param_names (stmt_at c s)) args = None \<longrightarrow>
        (\<forall>j. word_bit provided' j \<longleftrightarrow> word_bit provided j \<or>
           (j < length (param_names (stmt_at c s)) \<and> named_in args (param_names (stmt_at c s) ! j))))"
proof (cases "args = []")
  case True
  then show ?thesis by (auto simp: setNamed_def named_error_def named_in_def)
next
  case False
  let ?st = "stmt_at c s" and ?n = "BindParamCount (stmt_at c s)" and ?names = "param_names (stmt_at c s)"
  let ?is = "[1..<?n + 1]" and ?un = "if flags AND forbidExtra \<noteq> 0 then map fst args else []"
  have bnd: "\<forall>i \<in> set ?is. 1 \<le> i \<and> i \<le> length (s_bindNames ?st) \<and> i \<le> 64 * length provided"
    using assms(3) by (auto simp: BindParamCount_def split: if_splits)
  have nth: "i \<in> set ?is \<Longrightarrow> s_bindNames ?st ! (i - 1) = ?names ! (i - 1)" for i
    by (auto simp: param_names_def BindParamCount_def split: if_splits)
  have fnd: "map_option (\<lambda>i. s_bindNames ?st ! (i - 1)) (find (\<lambda>i. name_lacking args (s_bindNames ?st ! (i - 1))) ?is) =
      find (name_lacking args) ?names"
    using find_names [of "name_lacking args" ?names] by (auto simp: param_names_def BindParamCount_def split: if_splits)
  have img: "k \<in> (\<lambda>i. s_bindNames ?st ! (i - 1)) ` set ?is \<longleftrightarrow> k \<in> set ?names" for k
  proof -
    have "(\<lambda>i. s_bindNames ?st ! (i - 1)) ` set ?is = (\<lambda>i. ?names ! (i - 1)) ` set ?is" using nth by (rule image_cong [OF refl])
    also have "\<dots> = set ?names" using map_nth_shift [of ?names] by (metis length_param_names list.set_map)
    finally show ?thesis by simp
  qed
  have idx: "(\<exists>i \<in> set ?is. j = i - 1 \<and> named_in args (s_bindNames ?st ! (i - 1))) \<longleftrightarrow> j < length ?names \<and> named_in args (?names ! j)" for j
  proof -
    have "(\<exists>i \<in> set ?is. j = i - 1 \<and> named_in args (s_bindNames ?st ! (i - 1))) \<longleftrightarrow>
        (\<exists>i \<in> set ?is. j = i - 1 \<and> named_in args (?names ! (i - 1)))"
      using nth by (intro bex_cong [OF refl]) metis
    then show ?thesis unfolding set_upt_Suc by auto
  qed
  obtain err p' u' c' where l: "set_named_loop K L s flags args ?is provided ?un c = Some ((err, p', u'), c')"
    and e: "bind_effect V s c c'"
    and r: "case (if flags AND forbidMissing \<noteq> 0 then find (\<lambda>i. name_lacking args (s_bindNames ?st ! (i - 1))) ?is else None) of
       Some i \<Rightarrow> err = err_missing_named (s_bindNames ?st ! (i - 1))
     | None \<Rightarrow> err = None \<and> length p' = length provided \<and>
         (\<forall>j. word_bit p' j \<longleftrightarrow> word_bit provided j \<or> (\<exists>i \<in> set ?is. j = i - 1 \<and> named_in args (s_bindNames ?st ! (i - 1)))) \<and>
         u' = filter (\<lambda>k. \<not> (named_in args k \<and> k \<in> (\<lambda>i. s_bindNames ?st ! (i - 1)) ` set ?is)) ?un"
    using set_named_loop_spec [OF assms(1,2) refl bnd, of flags args ?un] by blast
  let ?bad = "if flags AND forbidMissing \<noteq> 0 then find (name_lacking args) ?names else None"
  have "filter (\<lambda>k. \<not> (named_in args k \<and> k \<in> set ?names)) (map fst args) =
      filter (\<lambda>k. k = '''' \<or> k \<notin> set ?names) (map fst args)"
    by (rule filter_cong [OF refl]) (auto simp: named_in_def map_of_eq_None_iff)
  then have un: "filter (\<lambda>k. \<not> (named_in args k \<and> k \<in> set ?names)) ?un =
      (if flags AND forbidExtra \<noteq> 0 then filter (\<lambda>k. k = '''' \<or> k \<notin> set ?names) (map fst args) else [])" by simp
  have r': "case ?bad of Some name \<Rightarrow> err = err_missing_named name
     | None \<Rightarrow> err = None \<and> (\<forall>j. word_bit p' j \<longleftrightarrow> word_bit provided j \<or> j < length ?names \<and> named_in args (?names ! j)) \<and>
         u' = (if flags AND forbidExtra \<noteq> 0 then filter (\<lambda>k. k = '''' \<or> k \<notin> set ?names) (map fst args) else [])"
    using r unfolding img idx un fnd [symmetric] by (auto split: option.splits if_splits)
  show ?thesis
  proof (cases ?bad)
    case None
    then show ?thesis
      using r' l e False by (auto simp: setNamed_def named_error_def Let_def)
  next
    case (Some name)
    then show ?thesis
      using r' l e False by (auto simp: setNamed_def named_error_def err_missing_named_def)
  qed
qed

text \<open>The options as the loop sees them.\<close>

definition result_fn_of :: "nat \<Rightarrow> 'w ExecOptions option \<Rightarrow> ('w Conn \<Rightarrow> (error \<times> 'w Conn) option) option" where
  "result_fn_of s opts = (case opts of None \<Rightarrow> None | Some o' \<Rightarrow> map_option (\<lambda>f. f s) (o_ResultFunc o'))"

definition opts_or_empty :: "'w ExecOptions option \<Rightarrow> 'w ExecOptions" where
  "opts_or_empty opts = (case opts of None \<Rightarrow> \<lparr>o_Args = [], o_Named = [], o_ResultFunc = None\<rparr> | Some o' \<Rightarrow> o')"

lemma exec_bind_spec:
  assumes "lib_busy_ok K L V" and "s_conn (stmt_at c s)"
  shows "\<exists>err provided c'. exec_bind K L s flags opts (newBitset (BindParamCount (stmt_at c s))) c = Some ((err, provided), c') \<and>
    bind_effect V s c c' \<and>
    (let names = param_names (stmt_at c s); o' = opts_or_empty opts in
     if length names < length (o_Args o') then err = err_too_many K (length (o_Args o')) (length names)
     else err = named_error K flags names (o_Named o') \<and>
          (err = None \<longrightarrow> (\<forall>j. word_bit provided j \<longleftrightarrow> provided_by names o' j)))"
proof (cases opts)
  case None
  then show ?thesis
    using bitset.new_empty by (auto simp: exec_bind_def opts_or_empty_def named_error_def provided_by_def named_in_def)
next
  case (Some o')
  let ?st = "stmt_at c s" and ?n = "BindParamCount (stmt_at c s)"
  show ?thesis
  proof (cases "?n < length (o_Args o')")
    case True
    then show ?thesis using Some by (auto simp: exec_bind_def opts_or_empty_def)
  next
    case False
    then obtain p1 c1 where 1: "set_args K L s 0 (o_Args o') (newBitset ?n) c = Some (p1, c1)" "bind_effect V s c c1"
      "length p1 = length (newBitset ?n)" "\<forall>j. word_bit p1 j \<longleftrightarrow> j < length (o_Args o')"
      using set_args_spec [OF assms, of 0 "o_Args o'" "newBitset ?n"] newBitset_cap [of ?n] bitset.new_empty by fastforce
    note n1 = bind_effect_names [OF 1(2)]
    have same: "BindParamCount (stmt_at c1 s) = ?n" "param_names (stmt_at c1 s) = param_names ?st"
      using n1 by (simp_all add: BindParamCount_def param_names_def)
    obtain p2 c2 where 2: "setNamed K L s flags (o_Named o') p1 c1 =
        Some ((named_error K flags (param_names ?st) (o_Named o'), p2), c2)" "bind_effect V s c1 c2"
      "named_error K flags (param_names ?st) (o_Named o') = None \<longrightarrow>
        (\<forall>j. word_bit p2 j \<longleftrightarrow> word_bit p1 j \<or> (j < length (param_names ?st) \<and> named_in (o_Named o') (param_names ?st ! j)))"
      using setNamed_spec [OF assms(1), of c1 s p1 flags "o_Named o'"] n1(3) assms(2) same 1(3) newBitset_cap [of ?n] by auto
    show ?thesis
      using False Some 1 2 bind_effect_trans [OF 1(2) 2(2)]
      by (auto simp: exec_bind_def opts_or_empty_def provided_by_def Let_def)
  qed
qed

lemma args_error_cases:
  assumes "\<forall>j. word_bit provided j \<longleftrightarrow> provided_by names o' j"
  shows "(if flags AND forbidMissing \<noteq> 0 then find (\<lambda>i. \<not> provided_by names o' i) [0..<length names] else None) =
    (if flags AND forbidMissing \<noteq> 0 \<and> \<not> hasAll provided (length names) then Some (firstMissing provided) else None)"
proof (cases "hasAll provided (length names)")
  case True
  then have "find (\<lambda>i. \<not> provided_by names o' i) [0..<length names] = None"
    using assms by (simp add: find_None_iff hasAll_iff)
  with True show ?thesis by simp
next
  case False
  then show ?thesis
    using find_upt_first [of "provided_by names o'" "firstMissing provided" "length names"] firstMissing_spec [of provided]
      bitset.not_full_missing [OF False] assms by simp
qed

lemma exec_args:
  assumes "lib_busy_ok K L V" and "s_conn (stmt_at c s)"
  shows "\<exists>c'. bind_effect V s c c' \<and> exec K L s flags opts c =
    (case args_error K flags (param_names (stmt_at c s)) opts of
       Some e \<Rightarrow> Some (Some e, c')
     | None \<Rightarrow> row_loop (Step K L s) (result_fn_of s opts) c')"
proof -
  let ?names = "param_names (stmt_at c s)" and ?n = "BindParamCount (stmt_at c s)" and ?o = "opts_or_empty opts"
  obtain err p c' where b: "exec_bind K L s flags opts (newBitset ?n) c = Some ((err, p), c')" and e: "bind_effect V s c c'"
    and r: "if length ?names < length (o_Args ?o) then err = err_too_many K (length (o_Args ?o)) (length ?names)
      else err = named_error K flags ?names (o_Named ?o) \<and> (err = None \<longrightarrow> (\<forall>j. word_bit p j \<longleftrightarrow> provided_by ?names ?o j))"
    using exec_bind_spec [OF assms, of flags opts] by (auto simp: Let_def)
  have nm: "BindParamName (stmt_at c' s) (int (firstMissing p + 1)) = ?names ! firstMissing p"
    if "\<not> hasAll p (length ?names)"
    using bitset.not_full_missing [OF that] bind_effect_names [OF e]
    by (auto simp: BindParamName_def param_names_def BindParamCount_def split: if_splits)
  show ?thesis
  proof (intro exI conjI)
    show "exec K L s flags opts c =
      (case args_error K flags ?names opts of Some e \<Rightarrow> Some (Some e, c')
       | None \<Rightarrow> row_loop (Step K L s) (result_fn_of s opts) c')"
    proof (cases err)
      case (Some x)
      then have "args_error K flags ?names opts = Some x"
        using r by (auto simp: args_error_def opts_or_empty_def Let_def split: if_splits option.splits)
      with Some b show ?thesis by (simp add: exec_def Let_def)
    next
      case None
      then have p: "\<forall>j. word_bit p j \<longleftrightarrow> provided_by ?names ?o j" and ne: "named_error K flags ?names (o_Named ?o) = None"
        and len: "\<not> length ?names < length (o_Args ?o)"
        using r by (auto simp: err_too_many_def errorf_w_def split: if_splits)
      have "args_error K flags ?names opts =
          (if flags AND forbidMissing \<noteq> 0 \<and> \<not> hasAll p (length ?names)
           then err_missing (if ?names ! firstMissing p = '''' then ''?'' @ FormatInt (int (firstMissing p) + 1) else ?names ! firstMissing p)
           else None)"
        using ne len args_error_cases [OF p, of flags] by (simp add: args_error_def opts_or_empty_def [symmetric] Let_def)
      then show ?thesis
        using None b nm by (auto simp: exec_def Let_def result_fn_of_def err_missing_def add.commute)
    qed
  qed (rule e)
qed

end
