(* ===== verification/ExecSpec.thy ===== *)
theory ExecSpec
  imports Exec
begin

text \<open>
  Properties of \<open>exec\<close>.  What its loop over the rows does follows from a small interface, \<open>row_source\<close>: something
  that can be stepped and reset, and knows whether it is at a row.  Prepared statements have that interface.
\<close>

section \<open>The interface of a source of rows\<close>

locale row_source =
  fixes inv :: "'c \<Rightarrow> bool" and at_row :: "'c \<Rightarrow> bool"
    and step :: "'c \<Rightarrow> ((bool \<times> error) \<times> 'c) option" and reset :: "'c \<Rightarrow> (error \<times> 'c) option"
  assumes step_inv: "inv c \<Longrightarrow> step c = Some ((row, err), c') \<Longrightarrow> inv c' \<and> at_row c' = row \<and> (err \<noteq> None \<longrightarrow> \<not> row)"
    and reset_inv: "inv c \<Longrightarrow> reset c = Some (err, c') \<Longrightarrow> inv c' \<and> \<not> at_row c'"
begin

text \<open>The loop keeps the invariant if the function given for the rows does.  When it returns an error of the source,
  or none, the source is not at a row.\<close>

lemma row_loop_inv:
  assumes "row_loop step fn c = Some r" and "inv c"
    and fn: "\<And>f c e c'. fn = Some f \<Longrightarrow> inv c \<Longrightarrow> f c = Some (e, c') \<Longrightarrow> inv c'"
  shows "inv (snd r) \<and> (fst r = None \<longrightarrow> \<not> at_row (snd r))"
proof -
  have "step' = step \<longrightarrow> fn' = fn \<longrightarrow> inv c \<longrightarrow> inv (snd r) \<and> (fst r = None \<longrightarrow> \<not> at_row (snd r))"
    if "row_loop step' fn' c = Some r" for step' fn' c r
  proof (rule row_loop.raw_induct [where P = "\<lambda>step' fn' c r. step' = step \<longrightarrow> fn' = fn \<longrightarrow> inv c \<longrightarrow>
      inv (snd r) \<and> (fst r = None \<longrightarrow> \<not> at_row (snd r))", OF _ that])
    fix loop :: "('c \<Rightarrow> ((bool \<times> error) \<times> 'c) option) \<Rightarrow> ('c \<Rightarrow> (error \<times> 'c) option) option \<Rightarrow> 'c \<Rightarrow> (error \<times> 'c) option"
      and step' fn' c r
    assume IH: "\<And>step' fn' c r. loop step' fn' c = Some r \<Longrightarrow> step' = step \<longrightarrow> fn' = fn \<longrightarrow> inv c \<longrightarrow>
        inv (snd r) \<and> (fst r = None \<longrightarrow> \<not> at_row (snd r))"
      and eq: "step' c \<bind> (\<lambda>((hasRow, err), c). if err \<noteq> None then Some (err, c) else if \<not> hasRow then Some (None, c)
        else (case fn' of None \<Rightarrow> loop step' fn' c
              | Some f \<Rightarrow> f c \<bind> (\<lambda>(err, c). if err \<noteq> None then Some (err, c) else loop step' fn' c))) = Some r"
    show "step' = step \<longrightarrow> fn' = fn \<longrightarrow> inv c \<longrightarrow> inv (snd r) \<and> (fst r = None \<longrightarrow> \<not> at_row (snd r))"
    proof (intro impI)
      assume s: "step' = step" and f: "fn' = fn" and i: "inv c"
      obtain row err c1 where st: "step c = Some ((row, err), c1)" using eq s by (auto simp: bind_eq_Some_conv)
      note c1 = step_inv [OF i st]
      show "inv (snd r) \<and> (fst r = None \<longrightarrow> \<not> at_row (snd r))"
      proof (cases "err = None \<and> row")
        case False
        then show ?thesis using eq s st c1 by (auto split: if_splits)
      next
        case True
        show ?thesis
        proof (cases fn)
          case None
          then show ?thesis using eq s f st c1 True IH [of step fn c1 r] by simp
        next
          case (Some g)
          then obtain e c2 where g: "g c1 = Some (e, c2)" using eq s f st True by (auto simp: bind_eq_Some_conv)
          then have "e \<noteq> None \<and> r = (e, c2) \<or> e = None \<and> loop step fn c2 = Some r"
            using eq s f st True Some by (cases e) auto
          then show ?thesis using fn [OF Some _ g] c1 IH [of step fn c2 r] by auto
        qed
      qed
    qed
  qed
  then show ?thesis using assms(1,2) by blast
qed

text \<open>Execution followed by a reset, as \<open>Execute\<close> has it.\<close>

lemma loop_reset_idle:
  assumes "inv c" and "row_loop step fn c = Some (e, c1)" and "reset c1 = Some (e', c2)"
    and "\<And>f c e c'. fn = Some f \<Longrightarrow> inv c \<Longrightarrow> f c = Some (e, c') \<Longrightarrow> inv c'"
  shows "inv c2 \<and> \<not> at_row c2"
  using row_loop_inv [OF assms(2,1,4)] reset_inv [OF _ assms(3)] by auto

end

text \<open>A source that runs out of rows: the loop returns.\<close>

locale finite_rows = row_source inv at_row step reset
  for inv :: "'c \<Rightarrow> bool" and at_row and step and reset +
  fixes left :: "'c \<Rightarrow> nat"
  assumes step_returns: "inv c \<Longrightarrow> \<exists>r. step c = Some r"
    and row_left: "inv c \<Longrightarrow> step c = Some ((True, err), c') \<Longrightarrow> left c' < left c"
begin

lemma row_loop_returns:
  assumes "inv c"
    and fn: "\<And>f c. fn = Some f \<Longrightarrow> inv c \<Longrightarrow> \<exists>e c'. f c = Some (e, c') \<and> inv c' \<and> left c' \<le> left c"
  shows "\<exists>r. row_loop step fn c = Some r"
  using assms(1)
proof (induction "left c" arbitrary: c rule: less_induct)
  case less
  obtain row err c1 where st: "step c = Some ((row, err), c1)" using step_returns [OF less.prems] by auto
  note c1 = step_inv [OF less.prems st]
  show ?case
  proof (cases "err = None \<and> row")
    case False
    then show ?thesis using st by (subst row_loop.simps) auto
  next
    case True
    then have l: "left c1 < left c" using row_left [OF less.prems, of err c1] st by simp
    show ?thesis
    proof (cases fn)
      case None
      then show ?thesis using True st c1 l less.hyps [of c1] by (subst row_loop.simps) simp
    next
      case (Some f)
      then obtain e c2 where f: "f c1 = Some (e, c2)" "inv c2" "left c2 \<le> left c1" using fn [OF Some] c1 by blast
      then obtain r where "row_loop step fn c2 = Some r" using less.hyps [of c2] l by auto
      then show ?thesis using True st Some f(1) by (subst row_loop.simps) simp
    qed
  qed
qed

end

section \<open>Prepared statements have the interface\<close>

interpretation stmt_rows: row_source "\<lambda>c. lib_busy_ok K L V \<and> conn_ok V c \<and> attached c s" "\<lambda>c. s_lastHasRow (stmt_at c s)"
    "Step K L s" "Reset K L s"
  for K :: lib_consts and L :: "('w, 'm) sqlite_lib_scheme" and V :: "('w, 'n) lib_view_scheme" and s
proof
  fix c row err c'
  assume i: "lib_busy_ok K L V \<and> conn_ok V c \<and> attached c s" and st: "Step K L s c = Some ((row, err), c')"
  then show "(lib_busy_ok K L V \<and> conn_ok V c' \<and> attached c' s) \<and> s_lastHasRow (stmt_at c' s) = row \<and> (err \<noteq> None \<longrightarrow> \<not> row)"
    using Step_result [of K L V c s row err c'] by blast
next
  fix c err c'
  assume i: "lib_busy_ok K L V \<and> conn_ok V c \<and> attached c s" and r: "Reset K L s c = Some (err, c')"
  then show "(lib_busy_ok K L V \<and> conn_ok V c' \<and> attached c' s) \<and> \<not> s_lastHasRow (stmt_at c' s)"
    using Reset_conn_ok [of K L V c s err c'] Reset_result [of K L V s c err c'] by auto
qed

text \<open>A statement with finitely many rows: each row that \<open>Step\<close> returns makes a measure of the connection smaller.\<close>

definition rows_bounded :: "lib_consts \<Rightarrow> ('w, 'm) sqlite_lib_scheme \<Rightarrow> nat \<Rightarrow> ('w Conn \<Rightarrow> nat) \<Rightarrow> bool" where
  "rows_bounded K L s \<rho> \<longleftrightarrow> (\<forall>c err c'. Step K L s c = Some ((True, err), c') \<longrightarrow> \<rho> c' < \<rho> c)"

interpretation stmt_finite: finite_rows
    "\<lambda>c. lib_busy_ok K L V \<and> conn_ok V c \<and> attached c s \<and> lib_unlocks K L \<mu> \<and> rows_bounded K L s \<rho>"
    "\<lambda>c. s_lastHasRow (stmt_at c s)" "Step K L s" "Reset K L s" \<rho>
  for K :: lib_consts and L :: "('w, 'm) sqlite_lib_scheme" and V :: "('w, 'n) lib_view_scheme" and s \<mu> \<rho>
proof
  fix c row err c'
  assume i: "lib_busy_ok K L V \<and> conn_ok V c \<and> attached c s \<and> lib_unlocks K L \<mu> \<and> rows_bounded K L s \<rho>"
    and st: "Step K L s c = Some ((row, err), c')"
  then show "(lib_busy_ok K L V \<and> conn_ok V c' \<and> attached c' s \<and> lib_unlocks K L \<mu> \<and> rows_bounded K L s \<rho>) \<and>
      s_lastHasRow (stmt_at c' s) = row \<and> (err \<noteq> None \<longrightarrow> \<not> row)"
    using stmt_rows.step_inv [of K L V c s row err c'] by blast
next
  fix c err c'
  assume i: "lib_busy_ok K L V \<and> conn_ok V c \<and> attached c s \<and> lib_unlocks K L \<mu> \<and> rows_bounded K L s \<rho>"
    and r: "Reset K L s c = Some (err, c')"
  then show "(lib_busy_ok K L V \<and> conn_ok V c' \<and> attached c' s \<and> lib_unlocks K L \<mu> \<and> rows_bounded K L s \<rho>) \<and>
      \<not> s_lastHasRow (stmt_at c' s)"
    using stmt_rows.reset_inv [of K L V c s err c'] by blast
next
  fix c
  assume "lib_busy_ok K L V \<and> conn_ok V c \<and> attached c s \<and> lib_unlocks K L \<mu> \<and> rows_bounded K L s \<rho>"
  then show "\<exists>r. Step K L s c = Some r"
    using Step_returns_aux [of K L \<mu> c s V] by (auto simp: conn_ok_def attached_def)
next
  fix c err c'
  assume "lib_busy_ok K L V \<and> conn_ok V c \<and> attached c s \<and> lib_unlocks K L \<mu> \<and> rows_bounded K L s \<rho>"
    and "Step K L s c = Some ((True, err), c')"
  then show "\<rho> c' < \<rho> c" by (auto simp: rows_bounded_def)
qed

section \<open>Properties\<close>

text \<open>C14: the argument checks of \<open>exec\<close>.  Whatever is bound, \<open>exec\<close> fails with exactly the error that the arguments,
  the names of the parameters and the flags determine: too many positional arguments, then the first named parameter
  without an argument, then the smallest argument that names no parameter, then the first parameter without any
  argument.  It executes the statement only if there is none of these, and a failed check never steps it.\<close>

theorem exec_checks_arguments:
  assumes "lib_busy_ok K L V" and "s_conn (stmt_at c s)"
  shows "\<exists>c'. bind_effect V s c c' \<and> exec K L s flags opts c =
    (case args_error K flags (param_names (stmt_at c s)) opts of
       Some e \<Rightarrow> Some (Some e, c')
     | None \<Rightarrow> row_loop (Step K L s) (result_fn_of s opts) c')"
  using assms by (rule exec_args)

definition demo_opts :: "go_value list \<Rightarrow> (gostring \<times> go_value) list \<Rightarrow> demo ExecOptions option" where
  "demo_opts args named = Some \<lparr>o_Args = args, o_Named = named, o_ResultFunc = None\<rparr>"

text \<open>The parameter \<open>:x\<close> without an argument.\<close>

theorem exec_checks_arguments_witness:
  "\<exists>c'. exec demo_K demo_lib 0 3 (demo_opts [] []) demo_conn =
     Some (Some (ErrorString ''sqlitex: missing argument for :x''), c')"
proof -
  have "s_conn (stmt_at demo_conn 0)" and n: "param_names (stmt_at demo_conn 0) = ['':x'']"
    by (simp_all add: demo_conn_def demo_Stmt_def param_names_def)
  moreover have "args_error demo_K 3 ['':x''] (demo_opts [] []) = Some (ErrorString ''sqlitex: missing argument for :x'')"
    by (simp add: args_error_def demo_opts_def named_error_def provided_by_def named_in_def err_missing_def
        forbidMissing_def)
  ultimately show ?thesis
    using exec_checks_arguments [OF demo_busy_ok, of demo_conn 0 3 "demo_opts [] []"] by (auto simp del: One_nat_def)
qed

text \<open>The functions given for the rows may use the connection, but must leave it in order.\<close>

definition fn_keeps :: "('w, 'n) lib_view_scheme \<Rightarrow> 'w ExecOptions option \<Rightarrow> bool" where
  "fn_keeps V opts \<longleftrightarrow> (\<forall>s f c e c'. result_fn_of s opts = Some f \<longrightarrow> conn_ok V c \<longrightarrow> attached c s \<longrightarrow> f c = Some (e, c') \<longrightarrow>
     conn_ok V c' \<and> attached c' s)"

lemma exec_inv:
  assumes "lib_busy_ok K L V" and "conn_ok V c" and "attached c s" and "fn_keeps V opts"
    and "exec K L s flags opts c = Some (err, c')"
  shows "conn_ok V c' \<and> attached c' s"
proof -
  have sc: "s_conn (stmt_at c s)" using assms(3) by (simp add: attached_def)
  obtain c1 where e: "bind_effect V s c c1" and x: "exec K L s flags opts c =
      (case args_error K flags (param_names (stmt_at c s)) opts of Some e \<Rightarrow> Some (Some e, c1)
       | None \<Rightarrow> row_loop (Step K L s) (result_fn_of s opts) c1)"
    using exec_args [OF assms(1) sc] by blast
  have ok: "conn_ok V c1" "attached c1 s" using bind_effect_conn_ok [OF assms(2) e] bind_effect_attached [OF e] assms(3) by auto
  show ?thesis
  proof (cases "args_error K flags (param_names (stmt_at c s)) opts")
    case None
    then have l: "row_loop (Step K L s) (result_fn_of s opts) c1 = Some (err, c')" using x assms(5) by simp
    have f: "lib_busy_ok K L V \<and> conn_ok V c' \<and> attached c' s"
      if "result_fn_of s opts = Some f" and "lib_busy_ok K L V \<and> conn_ok V c \<and> attached c s" and "f c = Some (e, c')" for f c e c'
      using assms(4) that unfolding fn_keeps_def by blast
    have i: "lib_busy_ok K L V \<and> conn_ok V c1 \<and> attached c1 s" using ok assms(1) by blast
    have "(lib_busy_ok K L V \<and> conn_ok V (snd (err, c')) \<and> attached (snd (err, c')) s) \<and>
        (fst (err, c') = None \<longrightarrow> \<not> s_lastHasRow (stmt_at (snd (err, c')) s))"
      by (rule stmt_rows.row_loop_inv [OF l i]) (rule f)
    then show ?thesis by simp
  qed (use x assms(5) ok in auto)
qed

text \<open>C9: \<open>Exec\<close> and \<open>Execute\<close> leave their statement idle.  However the execution ends, by an error of the arguments, of
  SQLite or of the function given for the rows, the statement they used has been reset: it is not at a row and not busy
  in SQLite, and the connection is in order.\<close>

theorem Execute_leaves_idle:
  assumes "lib_busy_ok K L V" and "lib_alloc_ok K L V" and "conn_ok V c" and "fn_keeps V opts"
    and "Prepare K L query c = Some ((Some s, e), c1)" and "exec_cached K L flags query opts c = Some (err, c')"
  shows "conn_ok V c' \<and> attached c' s \<and> \<not> s_lastHasRow (stmt_at c' s) \<and> \<not> v_busy V (s_ptr (stmt_at c' s)) (c_world c')"
proof -
  have p: "conn_ok V c1" "attached c1 s" using Prepare_conn_ok [OF assms(1-3,5)] by auto
  obtain e1 c2 e2 where x: "exec K L s flags opts c1 = Some (e1, c2)" and r: "Reset K L s c2 = Some (e2, c')"
    using assms(5,6) by (auto simp: exec_cached_def bind_eq_Some_conv)
  note i = exec_inv [OF assms(1) p assms(4) x]
  then have "conn_ok V c' \<and> attached c' s \<and> \<not> s_lastHasRow (stmt_at c' s)"
    using stmt_rows.reset_inv [OF _ r, of V] assms(1) by blast
  then show ?thesis by (auto simp: conn_ok_def)
qed

lemma exec_returns_aux:
  assumes "lib_busy_ok K L V" and "lib_unlocks K L \<mu>" and "rows_bounded K L s \<rho>" and "conn_ok V c" and "attached c s"
    and "\<And>f c. result_fn_of s opts = Some f \<Longrightarrow> conn_ok V c \<Longrightarrow> attached c s \<Longrightarrow>
      \<exists>e c'. f c = Some (e, c') \<and> conn_ok V c' \<and> attached c' s \<and> \<rho> c' \<le> \<rho> c"
  shows "\<exists>err c'. exec K L s flags opts c = Some (err, c')"
proof -
  have sc: "s_conn (stmt_at c s)" using assms(5) by (simp add: attached_def)
  obtain c1 where e: "bind_effect V s c c1" and x: "exec K L s flags opts c =
      (case args_error K flags (param_names (stmt_at c s)) opts of Some e \<Rightarrow> Some (Some e, c1)
       | None \<Rightarrow> row_loop (Step K L s) (result_fn_of s opts) c1)"
    using exec_args [OF assms(1) sc] by blast
  have ok: "conn_ok V c1" "attached c1 s" using bind_effect_conn_ok [OF assms(4) e] bind_effect_attached [OF e] assms(5) by auto
  have "\<exists>r. row_loop (Step K L s) (result_fn_of s opts) c1 = Some r"
    using stmt_finite.row_loop_returns [of K L V c1 s \<mu> \<rho> "result_fn_of s opts"] ok assms(1-3,6) by blast
  then show ?thesis using x by (auto split: option.splits)
qed

text \<open>C27: execution returns.  When lock conflicts end and the statement yields finitely many rows, \<open>exec\<close> returns; the
  function given for the rows must return as well and must not give the statement new rows.\<close>

theorem exec_returns:
  assumes "lib_busy_ok K L V" and "lib_unlocks K L \<mu>" and "rows_bounded K L s \<rho>" and "conn_ok V c" and "attached c s"
    and "\<And>f c. result_fn_of s opts = Some f \<Longrightarrow> conn_ok V c \<Longrightarrow> attached c s \<Longrightarrow>
      \<exists>e c'. f c = Some (e, c') \<and> conn_ok V c' \<and> attached c' s \<and> \<rho> c' \<le> \<rho> c"
  shows "\<exists>err c'. exec K L s flags opts c = Some (err, c')"
  using assms by (rule exec_returns_aux)

text \<open>The small SQLite: two rows after each reset, and a reset only after a lock was met.\<close>

definition demo_rows :: "nat \<Rightarrow> demo Conn \<Rightarrow> nat" where
  "demo_rows s c = d_rows (d_stmt (c_world c) (s_ptr (stmt_at c s))) + 3 * d_locks (c_world c)"

lemma demo_wait_world: "Conn_wait demo_K demo_lib c = Some (r, c') \<Longrightarrow> c_world c' = c_world c \<and> c_heap c' = c_heap c"
  by (auto simp: Conn_wait_def waitForUnlockNotify_def demo_lib_def fireUnlockNote_def split: if_splits)

lemma demo_interrupted_world: "Stmt_interrupted demo_K demo_lib s c = Some (e, c') \<Longrightarrow> c_world c' = c_world c \<and> c_heap c' = c_heap c"
  by (auto simp: Stmt_interrupted_def Conn_interrupted_def lib_call_eq demo_lib_def split: if_splits option.splits)

lemma demo_step_loop_rows:
  "step_loop demo_K demo_lib s c = Some ((True, e), c') \<Longrightarrow> demo_rows s c' < demo_rows s c"
proof (induction "d_locks (c_world c)" arbitrary: c rule: less_induct)
  case less
  let ?p = "s_ptr (stmt_at c s)" and ?w = "c_world c"
  obtain e0 c0 where i: "Stmt_interrupted demo_K demo_lib s c = Some (e0, c0)" and n: "e0 = None"
    using less.prems by (subst (asm) step_loop.simps) (auto simp: bind_eq_Some_conv split: if_splits)
  note w0 = demo_interrupted_world [OF i]
  have st: "x_step demo_lib = demo_step" "x_reset demo_lib = demo_reset" by (simp_all add: demo_lib_def)
  show ?case
  proof (cases "d_live (d_stmt ?w ?p) \<and> 0 < d_locks ?w")
    case False
    then show ?thesis using less.prems i n w0
      by (subst (asm) step_loop.simps) (auto simp: st lib_call_eq demo_step_def demo_rows_def split: if_splits)
  next
    case True
    let ?c1 = "c0\<lparr>c_world := ?w\<lparr>d_locks := d_locks ?w - 1\<rparr>\<rparr>"
    obtain r c2 where w: "Conn_wait demo_K demo_lib ?c1 = Some (r, c2)"
      and l: "step_loop demo_K demo_lib s (c2\<lparr>c_world := snd (demo_reset ?p (c_world c2))\<rparr>) = Some ((True, e), c')"
      using less.prems i n w0 True
      by (subst (asm) step_loop.simps)
        (auto simp: st lib_call_eq demo_step_def bind_eq_Some_conv dest: demo_wait_world split: if_splits)
    note w2 = demo_wait_world [OF w]
    then show ?thesis
      using less.hyps [OF _ l] True w0 by (auto simp: demo_rows_def demo_reset_def)
  qed
qed

lemma demo_rows_bounded: "rows_bounded demo_K demo_lib s (demo_rows s)"
  unfolding rows_bounded_def
proof (intro allI impI)
  fix c err c'
  assume st: "Step demo_K demo_lib s c = Some ((True, err), c')"
  then have n: "s_bindErr (stmt_at c s) = None" by (cases "s_bindErr (stmt_at c s)") (auto simp: Step_def bind_eq_Some_conv)
  obtain row e1 c1 where l: "step_loop demo_K demo_lib s c = Some ((row, e1), c1)"
    using st n by (cases "step_loop demo_K demo_lib s c") (auto simp: Step_def)
  then have "row" using st n by (auto simp: Step_def Let_def split: if_splits)
  moreover have "row \<longrightarrow> e1 = None" using step_loop_effect [OF l, of demo_view] demo_busy_ok by (auto simp: step_result_ok_def)
  ultimately have "c' = upd_stmt s (\<lambda>st. st\<lparr>s_lastHasRow := row\<rparr>) c1" using st n l by (simp add: Step_def Let_def)
  with l \<open>row\<close> show "demo_rows s c' < demo_rows s c" using demo_step_loop_rows [of s c e1 c1] by (auto simp: demo_rows_def)
qed

theorem exec_returns_witness:
  "\<exists>err c'. exec demo_K demo_lib 0 3 (demo_opts [GInt 7] []) demo_conn = Some (err, c')"
  using exec_returns [OF demo_busy_ok demo_unlocks demo_rows_bounded demo_conn_ok, of "demo_opts [GInt 7] []" 3]
  by (simp add: result_fn_of_def demo_opts_def)

text \<open>The statement of the small connection, executed without the argument that it needs.\<close>

theorem Execute_leaves_idle_witness:
  "\<exists>err c'. exec_cached demo_K demo_lib 3 ''Q'' (demo_opts [] []) demo_conn = Some (err, c') \<and>
     conn_ok demo_view c' \<and> \<not> s_lastHasRow (stmt_at c' 0)"
proof -
  have f: "fn_keeps demo_view (demo_opts [] [])" by (simp add: fn_keeps_def result_fn_of_def demo_opts_def)
  obtain c1 where p: "Prepare demo_K demo_lib ''Q'' demo_conn = Some ((Some 0, None), c1)" using demo_Prepare_again by blast
  note ok = Prepare_conn_ok [OF demo_busy_ok demo_alloc_ok demo_conn_ok(1) p]
  then have c1: "conn_ok demo_view c1" "attached c1 0" by auto
  then have "s_conn (stmt_at c1 0)" by (simp add: attached_def)
  then obtain e2 c2 where x: "exec demo_K demo_lib 0 3 (demo_opts [] []) c1 = Some (e2, c2)"
    using exec_returns_aux [OF demo_busy_ok demo_unlocks demo_rows_bounded c1, of "demo_opts [] []" 3]
    by (auto simp: result_fn_of_def demo_opts_def)
  then obtain e3 c3 where r: "Reset demo_K demo_lib 0 c2 = Some (e3, c3)"
    using exec_inv [OF demo_busy_ok c1 f x] Reset_returns [OF demo_unlocks, of c2 0]
    by (auto simp: conn_ok_def attached_def)
  then obtain err where e: "exec_cached demo_K demo_lib 3 ''Q'' (demo_opts [] []) demo_conn = Some (err, c3)"
    using p x by (auto simp: exec_cached_def)
  from Execute_leaves_idle [OF demo_busy_ok demo_alloc_ok demo_conn_ok(1) f p e] e show ?thesis by blast
qed

end
