(* ===== verification/Query.thy ===== *)
theory Query
  imports ExecSpec
begin

text \<open>
  Single results (sqlitex/query.go) and rows with random keys (sqlitex/rand_id.go).  The value of the first column is
  read between \<open>resultSetup\<close>, which wants a row, and \<open>resultTeardown\<close>, which wants no other one.
\<close>

section \<open>Operations\<close>

definition errNoResults :: go_error where "errNoResults = ErrorString ''sqlite: statement has no results''"
definition errMultipleResults :: go_error where "errMultipleResults = ErrorString ''sqlite: statement has multiple result rows''"

definition resultSetup :: "lib_consts \<Rightarrow> ('w, 'm) sqlite_lib_scheme \<Rightarrow> nat \<Rightarrow> 'w Conn \<Rightarrow> (error \<times> 'w Conn) option" where
  "resultSetup K L s c = do {
     ((hasRow, err), c) \<leftarrow> Step K L s c;
     if err \<noteq> None then do { (_, c) \<leftarrow> Reset K L s c; Some (err, c) }
     else if \<not> hasRow then do { (_, c) \<leftarrow> Reset K L s c; Some (Some errNoResults, c) }
     else Some (None, c)
   }"

definition resultTeardown :: "lib_consts \<Rightarrow> ('w, 'm) sqlite_lib_scheme \<Rightarrow> nat \<Rightarrow> 'w Conn \<Rightarrow> (error \<times> 'w Conn) option" where
  "resultTeardown K L s c = do {
     ((hasRow, err), c) \<leftarrow> Step K L s c;
     if err \<noteq> None then do { (_, c) \<leftarrow> Reset K L s c; Some (err, c) }
     else if hasRow then do { (_, c) \<leftarrow> Reset K L s c; Some (Some errMultipleResults, c) }
     else Reset K L s c
   }"

text \<open>The body of \<open>ResultInt64\<close>, \<open>ResultText\<close>, \<open>ResultFloat\<close> and \<open>ResultBytes\<close>: they differ in the accessor and in the value
  returned beside an error.\<close>

definition result_value :: "lib_consts \<Rightarrow> ('w, 'm) sqlite_lib_scheme \<Rightarrow> ('w Conn \<Rightarrow> 'a option) \<Rightarrow> ('a \<Rightarrow> 'a) \<Rightarrow> 'a \<Rightarrow> nat \<Rightarrow> 'w Conn \<Rightarrow>
    (('a \<times> error) \<times> 'w Conn) option" where
  "result_value K L column fail zero s c = do {
     (err, c) \<leftarrow> resultSetup K L s c;
     if err \<noteq> None then Some ((zero, err), c)
     else do {
       res \<leftarrow> column c;
       (err, c) \<leftarrow> resultTeardown K L s c;
       if err \<noteq> None then Some ((fail res, err), c) else Some ((res, None), c)
     }
   }"

definition ResultInt64 :: "lib_consts \<Rightarrow> ('w, 'm) sqlite_lib_scheme \<Rightarrow> nat \<Rightarrow> 'w Conn \<Rightarrow> ((int \<times> error) \<times> 'w Conn) option" where
  "ResultInt64 K L s c = result_value K L (ColumnInt64 L s 0) (\<lambda>_. 0) 0 s c"

definition ResultInt :: "lib_consts \<Rightarrow> ('w, 'm) sqlite_lib_scheme \<Rightarrow> nat \<Rightarrow> 'w Conn \<Rightarrow> ((int \<times> error) \<times> 'w Conn) option" where
  "ResultInt K L s c = ResultInt64 K L s c"

definition ResultBool :: "lib_consts \<Rightarrow> ('w, 'm) sqlite_lib_scheme \<Rightarrow> nat \<Rightarrow> 'w Conn \<Rightarrow> ((bool \<times> error) \<times> 'w Conn) option" where
  "ResultBool K L s c = map_option (\<lambda>((res, err), c). ((res \<noteq> 0, err), c)) (ResultInt64 K L s c)"

definition ResultText :: "lib_consts \<Rightarrow> ('w, 'm) sqlite_lib_scheme \<Rightarrow> nat \<Rightarrow> 'w Conn \<Rightarrow> ((gostring \<times> error) \<times> 'w Conn) option" where
  "ResultText K L s c = result_value K L (ColumnText L s 0) (\<lambda>_. '''') '''' s c"

definition ResultFloat :: "lib_consts \<Rightarrow> ('w, 'm) sqlite_lib_scheme \<Rightarrow> nat \<Rightarrow> 'w Conn \<Rightarrow> ((uint64 \<times> error) \<times> 'w Conn) option" where
  "ResultFloat K L s c = result_value K L (ColumnFloat L s 0) (\<lambda>_. 0) 0 s c"

text \<open>The count, and the caller's buffer, which keeps what was copied into it.\<close>

definition ResultBytes :: "lib_consts \<Rightarrow> ('w, 'm) sqlite_lib_scheme \<Rightarrow> nat \<Rightarrow> gostring \<Rightarrow> 'w Conn \<Rightarrow>
    (((nat \<times> gostring) \<times> error) \<times> 'w Conn) option" where
  "ResultBytes K L s buf c = result_value K L (ColumnBytes L s 0 buf) (\<lambda>(_, buf). (0, buf)) (0, buf) s c"

section \<open>Random keys\<close>

text \<open>\<open>rnd n\<close> is \<open>rand.Int (rand.Reader, n)\<close> on the world: an error, or a number.  It panics unless \<open>n\<close> is positive.  The
  loop counts its turns from \<open>i\<close>.\<close>

definition fmt_rand :: gostring where "fmt_rand = ''sqlitex.InsertRandID: %w''"
definition ResultConstraintPrimaryKey :: "lib_consts \<Rightarrow> int" where
  "ResultConstraintPrimaryKey K = K ''SQLITE_CONSTRAINT_PRIMARYKEY''"

definition rand_try :: "lib_consts \<Rightarrow> ('w, 'm) sqlite_lib_scheme \<Rightarrow> (int \<Rightarrow> 'w \<Rightarrow> (go_error + int) \<times> 'w) \<Rightarrow> nat \<Rightarrow> gostring \<Rightarrow> int \<Rightarrow> int \<Rightarrow>
    'w Conn \<Rightarrow> (((int \<times> error) \<times> bool) \<times> 'w Conn) option" where
  "rand_try K L rnd s param mn mx c =
     (let n = wrap64 (mx - mn) in
      if n \<le> 0 then None
      else case lib_call (rnd n) c of
        (Inl e, c) \<Rightarrow> Some (((0, Some (Errorf fmt_rand e)), True), c)
      | (Inr v, c) \<Rightarrow> (let ident = wrap64 (v + mn) in do {
          (_, c) \<leftarrow> Reset K L s c;
          c \<leftarrow> SetInt64 K L s param ident c;
          ((_, err), c) \<leftarrow> Step K L s c;
          Some (((ident, err), err = None), c)
        }))"

function InsertRandID_loop :: "lib_consts \<Rightarrow> ('w, 'm) sqlite_lib_scheme \<Rightarrow> (int \<Rightarrow> 'w \<Rightarrow> (go_error + int) \<times> 'w) \<Rightarrow> nat \<Rightarrow> gostring \<Rightarrow>
    int \<Rightarrow> int \<Rightarrow> nat \<Rightarrow> 'w Conn \<Rightarrow> ((int \<times> error) \<times> 'w Conn) option" where
  "InsertRandID_loop K L rnd s param mn mx i c = do {
     (((ident, err), stop), c) \<leftarrow> rand_try K L rnd s param mn mx c;
     if stop then Some ((ident, err), c)
     else if 100 \<le> i \<or> ErrCode K err \<noteq> ResultConstraintPrimaryKey K then Some ((0, errorf_w fmt_rand err), c)
     else InsertRandID_loop K L rnd s param mn mx (i + 1) c
   }"
  by pat_completeness auto
termination
  by (relation "measure (\<lambda>(K, L, rnd, s, param, mn, mx, i, c). 101 - i)") auto

declare InsertRandID_loop.simps [simp del]

definition InsertRandID :: "lib_consts \<Rightarrow> ('w, 'm) sqlite_lib_scheme \<Rightarrow> (int \<Rightarrow> 'w \<Rightarrow> (go_error + int) \<times> 'w) \<Rightarrow> nat \<Rightarrow> gostring \<Rightarrow> int \<Rightarrow> int \<Rightarrow>
    'w Conn \<Rightarrow> ((int \<times> error) \<times> 'w Conn) option" where
  "InsertRandID K L rnd s param mn mx c =
     (if mn < 0 then Some ((0, Some (ErrorString (''sqlitex.InsertRandID: min ('' @ FormatInt mn @ '') is negative''))), c)
      else InsertRandID_loop K L rnd s param mn mx 0 c)"

section \<open>Lemmas: one result\<close>

text \<open>What both ends of a single result do with a statement: whatever they return, an error leaves it reset.\<close>

abbreviation stmt_fit :: "lib_consts \<Rightarrow> ('w, 'm) sqlite_lib_scheme \<Rightarrow> ('w, 'n) lib_view_scheme \<Rightarrow> nat \<Rightarrow> 'w Conn \<Rightarrow> bool" where
  "stmt_fit K L V s c \<equiv> lib_busy_ok K L V \<and> conn_ok V c \<and> attached c s"

lemma resultSetup_result:
  assumes "stmt_fit K L V s c" and "resultSetup K L s c = Some (err, c')"
  shows "stmt_fit K L V s c' \<and> (if err = None then Step K L s c = Some ((True, None), c') else \<not> s_lastHasRow (stmt_at c' s))"
proof -
  obtain row e c1 where st: "Step K L s c = Some ((row, e), c1)" using assms(2) by (auto simp: resultSetup_def bind_eq_Some_conv)
  note c1 = stmt_rows.step_inv [OF assms(1) st]
  show ?thesis
  proof (cases "row \<and> e = None")
    case True
    then show ?thesis using assms(2) st c1 by (auto simp: resultSetup_def)
  next
    case False
    then obtain e' where "Reset K L s c1 = Some (e', c')" "err \<noteq> None"
      using assms(2) st by (auto simp: resultSetup_def bind_eq_Some_conv split: if_splits)
    then show ?thesis using stmt_rows.reset_inv [OF conjunct1 [OF c1], of e' c'] by auto
  qed
qed

lemma resultTeardown_result:
  assumes "stmt_fit K L V s c" and "resultTeardown K L s c = Some (err, c')"
  shows "stmt_fit K L V s c' \<and> \<not> s_lastHasRow (stmt_at c' s) \<and>
    (err = None \<longrightarrow> (\<exists>c2. Step K L s c = Some ((False, None), c2) \<and> Reset K L s c2 = Some (None, c')))"
proof -
  obtain row e c1 where st: "Step K L s c = Some ((row, e), c1)" using assms(2) by (auto simp: resultTeardown_def bind_eq_Some_conv)
  note c1 = stmt_rows.step_inv [OF assms(1) st]
  obtain e' where r: "Reset K L s c1 = Some (e', c')" and e: "err = None \<longrightarrow> e = None \<and> \<not> row \<and> e' = None"
    using assms(2) st by (cases "e = None"; cases row) (auto simp: resultTeardown_def bind_eq_Some_conv)
  then show ?thesis using stmt_rows.reset_inv [OF conjunct1 [OF c1] r] st by auto
qed

lemma result_value_result:
  assumes "stmt_fit K L V s c" and "result_value K L column fail zero s c = Some ((v, err), c')"
  shows "stmt_fit K L V s c' \<and> \<not> s_lastHasRow (stmt_at c' s) \<and>
    (if err = None then \<exists>c1 c2. Step K L s c = Some ((True, None), c1) \<and> column c1 = Some v \<and> Step K L s c1 = Some ((False, None), c2)
     else v = zero \<or> v \<in> range fail)"
proof -
  obtain e c1 where su: "resultSetup K L s c = Some (e, c1)" using assms(2) by (auto simp: result_value_def bind_eq_Some_conv)
  note c1 = resultSetup_result [OF assms(1) su]
  show ?thesis
  proof (cases e)
    case None
    then obtain r e' where r: "column c1 = Some r" and td: "resultTeardown K L s c1 = Some (e', c')" and ve: "err = e'" "v = (if err = None then r else fail r)"
      using assms(2) su by (auto simp: result_value_def bind_eq_Some_conv split: if_splits)
    then show ?thesis using resultTeardown_result [OF conjunct1 [OF c1] td] c1 None by auto
  next
    case (Some a)
    then show ?thesis using assms(2) su c1 by (auto simp: result_value_def)
  qed
qed

lemma stmt_fit_returns:
  assumes "stmt_fit K L V s c" and "lib_unlocks K L \<mu>"
  shows "\<exists>row err c'. Step K L s c = Some ((row, err), c')" and "\<exists>err c'. Reset K L s c = Some (err, c')"
  using Step_returns_aux [OF assms(2), of c s V] Reset_returns [OF assms(2), of c s] assms(1)
  by (auto simp: conn_ok_def attached_def)

lemma resultSetup_returns:
  assumes "stmt_fit K L V s c" and "lib_unlocks K L \<mu>"
  shows "\<exists>err c'. resultSetup K L s c = Some (err, c')"
proof -
  obtain row e c1 where st: "Step K L s c = Some ((row, e), c1)" using stmt_fit_returns(1) [OF assms] by blast
  obtain e' c2 where "Reset K L s c1 = Some (e', c2)"
    using stmt_fit_returns(2) [OF conjunct1 [OF stmt_rows.step_inv [OF assms(1) st]] assms(2)] by blast
  then show ?thesis using st by (auto simp: resultSetup_def)
qed

lemma resultTeardown_returns:
  assumes "stmt_fit K L V s c" and "lib_unlocks K L \<mu>"
  shows "\<exists>err c'. resultTeardown K L s c = Some (err, c')"
proof -
  obtain row e c1 where st: "Step K L s c = Some ((row, e), c1)" using stmt_fit_returns(1) [OF assms] by blast
  obtain e' c2 where "Reset K L s c1 = Some (e', c2)"
    using stmt_fit_returns(2) [OF conjunct1 [OF stmt_rows.step_inv [OF assms(1) st]] assms(2)] by blast
  then show ?thesis using st by (auto simp: resultTeardown_def)
qed

lemma result_value_returns:
  assumes "stmt_fit K L V s c" and "lib_unlocks K L \<mu>" and "\<And>c. s_conn (stmt_at c s) \<Longrightarrow> \<exists>v. column c = Some v"
  shows "\<exists>v err c'. result_value K L column fail zero s c = Some ((v, err), c')"
proof -
  obtain e c1 where su: "resultSetup K L s c = Some (e, c1)" using resultSetup_returns [OF assms(1,2)] by blast
  note c1 = conjunct1 [OF resultSetup_result [OF assms(1) su]]
  obtain v where "column c1 = Some v" using assms(3) c1 by (auto simp: attached_def)
  moreover obtain e' c2 where "resultTeardown K L s c1 = Some (e', c2)" using resultTeardown_returns [OF c1 assms(2)] by blast
  ultimately show ?thesis using su by (auto simp: result_value_def)
qed

section \<open>Lemmas: random keys\<close>

text \<open>What \<open>rand.Int\<close> promises, and that it does not touch the database.\<close>

definition rand_ok :: "('w, 'n) lib_view_scheme \<Rightarrow> ('w \<Rightarrow> nat) \<Rightarrow> (int \<Rightarrow> 'w \<Rightarrow> (go_error + int) \<times> 'w) \<Rightarrow> bool" where
  "rand_ok V \<mu> rnd \<longleftrightarrow> (\<forall>n w. quiet V w (snd (rnd n w)) \<and> \<mu> (snd (rnd n w)) \<le> \<mu> w \<and>
     (0 < n \<longrightarrow> (\<forall>v. fst (rnd n w) = Inr v \<longrightarrow> 0 \<le> v \<and> v < n)))"

lemma rand_ident:
  assumes "0 \<le> mn" and "mn \<le> mx" and "in_int64 mx" and "0 \<le> v" and "v < wrap64 (mx - mn)"
  shows "mn \<le> wrap64 (v + mn) \<and> wrap64 (v + mn) < mx"
proof -
  have "in_int64 (mx - mn)" using assms(1-3) by (auto simp: in_int64_def)
  then have v: "v < mx - mn" using assms(5) by simp
  then have "in_int64 (v + mn)" using assms by (auto simp: in_int64_def)
  then show ?thesis using v assms(4) by simp
qed

lemma SetInt64_fit:
  assumes "stmt_fit K L V s c"
  shows "\<exists>c'. SetInt64 K L s param v c = Some c' \<and> stmt_fit K L V s c'"
proof -
  let ?c = "snd (findBindName ''SetInt64'' param s c)"
  have e: "bind_effect V s c ?c" by (rule findBindName_effect)
  then have "s_conn (stmt_at ?c s)" using bind_effect_attached [OF e, of s] assms by (auto simp: attached_def)
  then obtain c' where c': "SetInt64 K L s param v c = Some c'"
    using bind_call_returns [of ?c s K L "''bind int64''" "B_int64 v"]
    by (cases "s_ptr (stmt_at ?c s) = 0") (auto simp: SetInt64_def BindInt64_def case_prod_beta)
  then have "bind_effect V s c c'" using Set_effects [of K L V] assms by blast
  then show ?thesis using c' bind_effect_conn_ok [of V c s c'] bind_effect_attached [of V s c c' s] assms by auto
qed

lemma rnd_fit:
  assumes "stmt_fit K L V s c" and "rand_ok V \<mu> rnd"
  shows "stmt_fit K L V s (snd (lib_call (rnd n) c))"
proof -
  have q: "effect (quiet V) c (snd (lib_call (rnd n) c))" using effect_lib_call [of "quiet V" c "rnd n"] assms(2) by (auto simp: rand_ok_def)
  then show ?thesis using conn_ok_quiet [OF _ q] attached_effect [OF q] assms(1) by auto
qed

text \<open>The effect of a turn that the loop relies on: what was inserted, and in which state the statement is left.\<close>

definition inserted :: "lib_consts \<Rightarrow> ('w, 'm) sqlite_lib_scheme \<Rightarrow> nat \<Rightarrow> gostring \<Rightarrow> int \<Rightarrow> 'w Conn \<Rightarrow> bool" where
  "inserted K L s param ident c' \<longleftrightarrow>
     (\<exists>c1 c2 row. SetInt64 K L s param ident c1 = Some c2 \<and> Step K L s c2 = Some ((row, None), c'))"

lemma rand_try_result:
  assumes "stmt_fit K L V s c" and "rand_ok V \<mu> rnd" and "lib_unlocks K L \<mu>"
    and "0 \<le> mn" and "mn < mx" and "in_int64 mx"
  shows "\<exists>ident err stop c'. rand_try K L rnd s param mn mx c = Some (((ident, err), stop), c') \<and> stmt_fit K L V s c' \<and>
    (if err = None then stop \<and> mn \<le> ident \<and> ident < mx \<and> inserted K L s param ident c' else stop \<longrightarrow> ident = 0)"
proof -
  let ?n = "wrap64 (mx - mn)"
  have "in_int64 (mx - mn)" using assms(4-6) by (auto simp: in_int64_def)
  then have n: "0 < ?n" using assms(5) by simp
  obtain r c1 where l: "lib_call (rnd ?n) c = (r, c1)" by (cases "lib_call (rnd ?n) c")
  have c1: "stmt_fit K L V s c1" using rnd_fit [OF assms(1,2), of ?n] l by simp
  show ?thesis
  proof (cases r)
    case (Inl e)
    then show ?thesis using l c1 n by (auto simp: rand_try_def)
  next
    case (Inr v)
    then have "0 \<le> v \<and> v < ?n" using assms(2) n l by (auto simp: rand_ok_def lib_call_eq)
    then have b: "mn \<le> wrap64 (v + mn) \<and> wrap64 (v + mn) < mx" using rand_ident [of mn mx v] assms(4-6) by simp
    obtain e2 c2 where r2: "Reset K L s c1 = Some (e2, c2)" using stmt_fit_returns(2) [OF c1 assms(3)] by blast
    obtain c3 where s3: "SetInt64 K L s param (wrap64 (v + mn)) c2 = Some c3" and c3: "stmt_fit K L V s c3"
      using SetInt64_fit [OF conjunct1 [OF stmt_rows.reset_inv [OF c1 r2]]] by blast
    obtain row e4 c4 where s4: "Step K L s c3 = Some ((row, e4), c4)" using stmt_fit_returns(1) [OF c3 assms(3)] by blast
    have "rand_try K L rnd s param mn mx c = Some (((wrap64 (v + mn), e4), e4 = None), c4)"
      using l n Inr r2 s3 s4 by (simp add: rand_try_def Let_def)
    then show ?thesis using stmt_rows.step_inv [OF c3 s4] b s3 s4 by (auto simp: inserted_def)
  qed
qed

lemma InsertRandID_loop_result:
  assumes "stmt_fit K L V s c" and "rand_ok V \<mu> rnd" and "lib_unlocks K L \<mu>"
    and "0 \<le> mn" and "mn < mx" and "in_int64 mx"
  shows "\<exists>ident err c'. InsertRandID_loop K L rnd s param mn mx i c = Some ((ident, err), c') \<and> stmt_fit K L V s c' \<and>
    (if err = None then mn \<le> ident \<and> ident < mx \<and> inserted K L s param ident c' else ident = 0)"
  using assms(1)
proof (induction "101 - i" arbitrary: i c rule: less_induct)
  case less
  from rand_try_result [OF less.prems assms(2-6)]
  obtain ident err stop c1 where t: "rand_try K L rnd s param mn mx c = Some (((ident, err), stop), c1)"
    and c1: "stmt_fit K L V s c1"
    and e: "if err = None then stop \<and> mn \<le> ident \<and> ident < mx \<and> inserted K L s param ident c1 else stop \<longrightarrow> ident = 0"
    by blast
  show ?case
  proof (cases "stop \<or> 100 \<le> i \<or> ErrCode K err \<noteq> ResultConstraintPrimaryKey K")
    case True
    then show ?thesis using t c1 e
      by (cases stop; subst InsertRandID_loop.simps) (auto simp: errorf_w_def)
  next
    case False
    then have eq: "InsertRandID_loop K L rnd s param mn mx i c = InsertRandID_loop K L rnd s param mn mx (i + 1) c1"
      using t by (subst InsertRandID_loop.simps) simp
    have "101 - (i + 1) < 101 - i" using False by linarith
    from less.hyps [OF this c1] show ?thesis unfolding eq .
  qed
qed

section \<open>Properties\<close>

text \<open>C31: exactly one row.  \<open>ResultInt64\<close> always returns; it succeeds only if the statement yields a row and no second one, and then
  gives the first column of that row.  Whatever happens the statement is left idle, and beside an error the value is 0.\<close>

theorem ResultInt64_exactly_one:
  assumes "lib_busy_ok K L V" and "lib_unlocks K L \<mu>" and "conn_ok V c" and "attached c s"
  shows "\<exists>v err c'. ResultInt64 K L s c = Some ((v, err), c') \<and> conn_ok V c' \<and>
    \<not> s_lastHasRow (stmt_at c' s) \<and> \<not> v_busy V (s_ptr (stmt_at c' s)) (c_world c') \<and>
    (if err = None then \<exists>c1 c2. Step K L s c = Some ((True, None), c1) \<and> ColumnInt64 L s 0 c1 = Some v \<and>
       Step K L s c1 = Some ((False, None), c2) else v = 0)"
proof -
  have f: "stmt_fit K L V s c" using assms(1,3,4) by blast
  obtain v err c' where r: "result_value K L (ColumnInt64 L s 0) (\<lambda>_. 0) 0 s c = Some ((v, err), c')"
    using result_value_returns [OF f assms(2), of "ColumnInt64 L s 0" "\<lambda>_. 0" 0] by (auto simp: ColumnInt64_def column_read_def)
  note p = result_value_result [OF f r]
  then have "\<not> v_busy V (s_ptr (stmt_at c' s)) (c_world c')" by (auto simp: conn_ok_def)
  then show ?thesis using r p by (auto simp: ResultInt64_def)
qed

text \<open>A statement with two rows.\<close>

theorem ResultInt64_exactly_one_witness:
  "\<exists>v err c'. ResultInt64 demo_K demo_lib 0 demo_conn = Some ((v, err), c') \<and> conn_ok demo_view c' \<and>
     \<not> s_lastHasRow (stmt_at c' 0)"
  using ResultInt64_exactly_one [OF demo_busy_ok demo_unlocks demo_conn_ok] by blast


definition demo_rand :: "int \<Rightarrow> demo \<Rightarrow> (go_error + int) \<times> demo" where
  "demo_rand n w = (Inr (n - 1), w)"


end
