(* ===== verification/Pool.thy ===== *)
theory Pool
  imports Open
begin

text \<open>
  Pools of connections (sqlitex/pool.go).  A pool is used by many goroutines at once, so that its methods are cut into their atomic sections: an operation
  on the channel of free connections, a section under the mutex, or work on a connection that the goroutine owns.  Each section is a function; a step relation
  interleaves them, one program counter for a goroutine.
\<close>

section \<open>State\<close>

text \<open>Connections are numbered.  \<open>p_all\<close>: for each connection of the pool the context whose cancel function is stored, or none where the function does
  nothing.  \<open>p_ctx\<close> numbers the contexts that \<open>Take\<close> makes; \<open>p_cancelled\<close> are those that have been cancelled.\<close>

record 'w pool =
  p_cap :: nat
  p_free :: "nat list"
  p_closed :: bool
  p_prepare :: bool
  p_all :: "(nat \<times> nat option) list"
  p_inited :: "nat list"
  p_conns :: "nat \<Rightarrow> 'w Conn"
  p_ctx :: nat
  p_cancelled :: "nat list"

text \<open>Where a goroutine is.  \<open>Stuck\<close>: it has panicked.\<close>

datatype gor =
    Idle
  | T_lock nat nat
  | T_prepare nat
  | T_mark nat
  | Holding nat
  | P_lock nat
  | P_reset nat "nat option"
  | P_send nat
  | C_lock
  | C_cancel "nat list" nat
  | C_drain nat nat error
  | C_done error
  | Stuck

definition all_put :: "nat \<Rightarrow> nat option \<Rightarrow> (nat \<times> nat option) list \<Rightarrow> (nat \<times> nat option) list" where
  "all_put conn cancel m = (if conn \<in> fst ` set m then map (\<lambda>(k, v). (k, if k = conn then cancel else v)) m else (conn, cancel) # m)"

section \<open>Taking\<close>

text \<open>The receive of \<open>Take\<close>; the connection is now its own, and gets the context.  \<open>None\<close>: not ready.\<close>

definition take_recv :: "lib_consts \<Rightarrow> ('w, 'm) sqlite_lib_scheme \<Rightarrow> 'w pool \<Rightarrow> ('w pool \<times> gor) option" where
  "take_recv K L p = (case p_free p of
     [] \<Rightarrow> None
   | conn # rest \<Rightarrow>
       (case SetInterrupt K L (Some (p_ctx p)) (p_conns p conn) of
          None \<Rightarrow> Some (p\<lparr>p_free := rest, p_ctx := Suc (p_ctx p)\<rparr>, Stuck)
        | Some (_, c) \<Rightarrow> Some (p\<lparr>p_free := rest, p_ctx := Suc (p_ctx p), p_conns := (p_conns p)(conn := c)\<rparr>, T_lock conn (p_ctx p))))"

definition take_lock :: "nat \<Rightarrow> nat \<Rightarrow> 'w pool \<Rightarrow> 'w pool \<times> gor" where
  "take_lock conn ctx p =
     (p\<lparr>p_all := all_put conn (Some ctx) (p_all p)\<rparr>,
      let inited = (if p_prepare p then conn \<in> set (p_inited p) else True) in if \<not> inited then T_prepare conn else Holding conn)"

definition take_prepare :: "('w Conn \<Rightarrow> (error \<times> 'w Conn) option) \<Rightarrow> nat \<Rightarrow> 'w pool \<Rightarrow> 'w pool \<times> gor" where
  "take_prepare prep conn p = (case prep (p_conns p conn) of
     None \<Rightarrow> (p, Stuck)
   | Some (err, c) \<Rightarrow> (p\<lparr>p_conns := (p_conns p)(conn := c)\<rparr>, if err \<noteq> None then P_lock conn else T_mark conn))"

definition take_mark :: "nat \<Rightarrow> 'w pool \<Rightarrow> 'w pool \<times> gor" where
  "take_mark conn p = (p\<lparr>p_inited := (if conn \<in> set (p_inited p) then p_inited p else conn # p_inited p)\<rparr>, Holding conn)"

section \<open>Putting back\<close>

definition pool_Put :: "('w, 'm) sqlite_lib_scheme \<Rightarrow> nat \<Rightarrow> 'w pool \<Rightarrow> 'w pool \<times> gor" where
  "pool_Put L conn p = (p, if CheckReset L (p_conns p conn) \<noteq> '''' then Stuck else P_lock conn)"

definition put_lock :: "nat \<Rightarrow> 'w pool \<Rightarrow> 'w pool \<times> gor" where
  "put_lock conn p = (case map_of (p_all p) conn of
     None \<Rightarrow> (p, Stuck)
   | Some cancel \<Rightarrow> (p\<lparr>p_all := all_put conn None (p_all p)\<rparr>, P_reset conn cancel))"

definition put_reset :: "lib_consts \<Rightarrow> ('w, 'm) sqlite_lib_scheme \<Rightarrow> nat \<Rightarrow> nat option \<Rightarrow> 'w pool \<Rightarrow> 'w pool \<times> gor" where
  "put_reset K L conn cancel p = (case SetInterrupt K L None (p_conns p conn) of
     None \<Rightarrow> (p, Stuck)
   | Some (_, c) \<Rightarrow> (p\<lparr>p_conns := (p_conns p)(conn := c), p_cancelled := (case cancel of None \<Rightarrow> [] | Some k \<Rightarrow> [k]) @ p_cancelled p\<rparr>, P_send conn))"

text \<open>The send, which blocks while the channel is full.\<close>

definition put_send :: "nat \<Rightarrow> 'w pool \<Rightarrow> ('w pool \<times> gor) option" where
  "put_send conn p = (if length (p_free p) < p_cap p then Some (p\<lparr>p_free := p_free p @ [conn]\<rparr>, Idle) else None)"

section \<open>Closing\<close>

text \<open>Closing a closed channel panics.\<close>

definition close_begin :: "'w pool \<Rightarrow> 'w pool \<times> gor" where
  "close_begin p = (if p_closed p then (p, Stuck) else (p\<lparr>p_closed := True\<rparr>, C_lock))"

definition close_lock :: "'w pool \<Rightarrow> 'w pool \<times> gor" where
  "close_lock p = (p\<lparr>p_all := map (\<lambda>(conn, _). (conn, None)) (p_all p)\<rparr>, C_cancel (List.map_filter snd (p_all p)) (length (p_all p)))"

definition close_cancel :: "nat list \<Rightarrow> nat \<Rightarrow> 'w pool \<Rightarrow> 'w pool \<times> gor" where
  "close_cancel cancelList n p = (p\<lparr>p_cancelled := cancelList @ p_cancelled p\<rparr>, C_drain n 0 None)"

text \<open>One turn of the loop; it ends when \<open>n\<close> connections were closed.  \<open>None\<close>: blocked on the channel.\<close>

definition close_turn :: "lib_consts \<Rightarrow> ('w, 'm) sqlite_lib_scheme \<Rightarrow> nat \<Rightarrow> nat \<Rightarrow> error \<Rightarrow> 'w pool \<Rightarrow> ('w pool \<times> gor) option" where
  "close_turn K L n closed err p =
     (if \<not> closed < n then Some (p, C_done err)
      else case p_free p of
        [] \<Rightarrow> None
      | conn # rest \<Rightarrow>
          (case Close K L (p_conns p conn) of
             None \<Rightarrow> Some (p\<lparr>p_free := rest\<rparr>, Stuck)
           | Some (err2, c) \<Rightarrow> Some (p\<lparr>p_free := rest, p_conns := (p_conns p)(conn := c)\<rparr>, C_drain n (Suc closed) (if err = None then err2 else err))))"

section \<open>Opening\<close>

definition err_memory :: go_error where
  "err_memory = ErrorString ''sqlite: \":memory:\" does not work with multiple connections, use \"file::memory:?mode=memory&cache=shared\"''"

definition empty_pool :: "nat \<Rightarrow> bool \<Rightarrow> (nat \<Rightarrow> 'w Conn) \<Rightarrow> 'w pool" where
  "empty_pool n prepare conns = \<lparr>p_cap = n, p_free = [], p_closed = False, p_prepare = prepare, p_all = [], p_inited = [], p_conns = conns, p_ctx = 0,
     p_cancelled = []\<rparr>"

text \<open>\<open>ws i\<close> is the world in which the \<open>i\<close>-th connection is opened.\<close>

fun open_all :: "lib_consts \<Rightarrow> ('w, 'm) open_lib_scheme \<Rightarrow> gostring \<Rightarrow> uint64 \<Rightarrow> (nat \<Rightarrow> 'w) \<Rightarrow> nat list \<Rightarrow> 'w pool \<Rightarrow> (error \<times> 'w pool) option" where
  "open_all K L uri flags ws [] p = Some (None, p)"
| "open_all K L uri flags ws (i # is) p = do {
     r \<leftarrow> OpenConn K L uri [flags] (ws i);
     (case r of
        Inl (err, _) \<Rightarrow> Some (err, p)
      | Inr c \<Rightarrow> open_all K L uri flags ws is
          (p\<lparr>p_free := p_free p @ [i], p_all := all_put i None (p_all p), p_conns := (p_conns p)(i := c)\<rparr>))
   }"

text \<open>\<open>Close\<close> without other goroutines, as \<open>NewPool\<close> calls it on an error.\<close>

fun drain :: "lib_consts \<Rightarrow> ('w, 'm) sqlite_lib_scheme \<Rightarrow> nat \<Rightarrow> error \<Rightarrow> 'w pool \<Rightarrow> (error \<times> 'w pool) option" where
  "drain K L 0 err p = Some (err, p)"
| "drain K L (Suc n) err p = (case p_free p of
     [] \<Rightarrow> None
   | conn # rest \<Rightarrow> do {
       (err2, c) \<leftarrow> Close K L (p_conns p conn);
       drain K L n (if err = None then err2 else err) (p\<lparr>p_free := rest, p_conns := (p_conns p)(conn := c)\<rparr>)
     })"

definition pool_Close :: "lib_consts \<Rightarrow> ('w, 'm) sqlite_lib_scheme \<Rightarrow> 'w pool \<Rightarrow> (error \<times> 'w pool) option" where
  "pool_Close K L p =
     (if p_closed p then None
      else let p = p\<lparr>p_closed := True\<rparr>;
               cancelList = List.map_filter snd (p_all p);
               p = p\<lparr>p_all := map (\<lambda>(conn, _). (conn, None)) (p_all p), p_cancelled := cancelList @ p_cancelled p\<rparr>
           in drain K L (length (p_all p)) None p)"

text \<open>Only the flags 0 stand for the default.\<close>

definition NewPool :: "lib_consts \<Rightarrow> ('w, 'm) open_lib_scheme \<Rightarrow> gostring \<Rightarrow> uint64 \<Rightarrow> int \<Rightarrow> bool \<Rightarrow> (nat \<Rightarrow> 'w) \<Rightarrow> (error + 'w pool) option" where
  "NewPool K L uri flags PoolSize prepare ws =
     (if uri = '':memory:'' then Some (Inl (Some err_memory))
      else let poolSize = (if PoolSize < 1 then 10 else nat PoolSize);
               flags = (if flags = 0 then default_flags K else flags)
           in do {
             (err, p) \<leftarrow> open_all K L uri flags ws [0..<poolSize] (empty_pool poolSize prepare (\<lambda>i. new_Conn (ws i)));
             if err \<noteq> None then map_option (\<lambda>_. Inl err) (pool_Close K L p) else Some (Inr p)
           })"

section \<open>Interleaving\<close>

text \<open>A goroutine may start \<open>Take\<close> or \<open>Close\<close> at any time, uses a connection it holds in any way that keeps it in order, and puts back what it holds.  \<open>Take\<close>
  may return an error instead of receiving, when its context is done or the pool is closed.\<close>

inductive pool_step :: "lib_consts \<Rightarrow> ('w, 'm) sqlite_lib_scheme \<Rightarrow> ('w, 'n) lib_view_scheme \<Rightarrow> ('w Conn \<Rightarrow> (error \<times> 'w Conn) option) \<Rightarrow>
    'w pool \<times> (nat \<Rightarrow> gor) \<Rightarrow> 'w pool \<times> (nat \<Rightarrow> gor) \<Rightarrow> bool"
  for K L V prep where
  recv: "gs i = Idle \<Longrightarrow> take_recv K L p = Some (p', g) \<Longrightarrow> pool_step K L V prep (p, gs) (p', gs(i := g))"
| tlock: "gs i = T_lock conn ctx \<Longrightarrow> take_lock conn ctx p = (p', g) \<Longrightarrow> pool_step K L V prep (p, gs) (p', gs(i := g))"
| prepare: "gs i = T_prepare conn \<Longrightarrow> take_prepare prep conn p = (p', g) \<Longrightarrow> pool_step K L V prep (p, gs) (p', gs(i := g))"
| mark: "gs i = T_mark conn \<Longrightarrow> take_mark conn p = (p', g) \<Longrightarrow> pool_step K L V prep (p, gs) (p', gs(i := g))"
| use: "gs i = Holding conn \<Longrightarrow> conn_ok V c \<Longrightarrow> \<not> c_closed c \<Longrightarrow> pool_step K L V prep (p, gs) (p\<lparr>p_conns := (p_conns p)(conn := c)\<rparr>, gs)"
| put: "gs i = Holding conn \<Longrightarrow> pool_Put L conn p = (p', g) \<Longrightarrow> pool_step K L V prep (p, gs) (p', gs(i := g))"
| plock: "gs i = P_lock conn \<Longrightarrow> put_lock conn p = (p', g) \<Longrightarrow> pool_step K L V prep (p, gs) (p', gs(i := g))"
| reset: "gs i = P_reset conn cancel \<Longrightarrow> put_reset K L conn cancel p = (p', g) \<Longrightarrow> pool_step K L V prep (p, gs) (p', gs(i := g))"
| send: "gs i = P_send conn \<Longrightarrow> put_send conn p = Some (p', g) \<Longrightarrow> pool_step K L V prep (p, gs) (p', gs(i := g))"
| close: "gs i = Idle \<Longrightarrow> close_begin p = (p', g) \<Longrightarrow> pool_step K L V prep (p, gs) (p', gs(i := g))"
| clock: "gs i = C_lock \<Longrightarrow> close_lock p = (p', g) \<Longrightarrow> pool_step K L V prep (p, gs) (p', gs(i := g))"
| cancel: "gs i = C_cancel ks n \<Longrightarrow> close_cancel ks n p = (p', g) \<Longrightarrow> pool_step K L V prep (p, gs) (p', gs(i := g))"
| turn: "gs i = C_drain n k err \<Longrightarrow> close_turn K L n k err p = Some (p', g) \<Longrightarrow> pool_step K L V prep (p, gs) (p', gs(i := g))"

inductive pool_reach :: "lib_consts \<Rightarrow> ('w, 'm) open_lib_scheme \<Rightarrow> ('w, 'n) lib_view_scheme \<Rightarrow> ('w Conn \<Rightarrow> (error \<times> 'w Conn) option) \<Rightarrow>
    'w pool \<times> (nat \<Rightarrow> gor) \<Rightarrow> bool"
  for K L V prep where
  new: "NewPool K L uri flags PoolSize has_prepare ws = Some (Inr p) \<Longrightarrow> pool_reach K L V prep (p, \<lambda>_. Idle)"
| step: "pool_reach K L V prep s \<Longrightarrow> pool_step K L V prep s s' \<Longrightarrow> pool_reach K L V prep s'"

section \<open>The invariant\<close>

text \<open>The connection that a goroutine has taken out of the channel.\<close>

fun owns :: "gor \<Rightarrow> nat option" where
  "owns (T_lock conn ctx) = Some conn"
| "owns (T_prepare conn) = Some conn"
| "owns (T_mark conn) = Some conn"
| "owns (Holding conn) = Some conn"
| "owns (P_lock conn) = Some conn"
| "owns (P_reset conn cancel) = Some conn"
| "owns (P_send conn) = Some conn"
| "owns _ = None"

abbreviation p_keys :: "'w pool \<Rightarrow> nat list" where
  "p_keys p \<equiv> map fst (p_all p)"

text \<open>Who has which connection: each is free, owned by one goroutine, closed, or was lost in a panic.\<close>

definition own_inv :: "('w, 'n) lib_view_scheme \<Rightarrow> 'w pool \<Rightarrow> (nat \<Rightarrow> nat option) \<Rightarrow> bool" where
  "own_inv V p own \<longleftrightarrow>
     distinct (p_keys p) \<and> p_cap p = length (p_all p) \<and> distinct (p_free p) \<and> set (p_free p) \<subseteq> set (p_keys p) \<and>
     (\<forall>i x. own i = Some x \<longrightarrow> x \<in> set (p_keys p) \<and> x \<notin> set (p_free p)) \<and>
     (\<forall>i j x. own i = Some x \<and> own j = Some x \<longrightarrow> i = j) \<and>
     (\<forall>x. x \<in> set (p_free p) \<or> (\<exists>i. own i = Some x) \<longrightarrow> conn_ok V (p_conns p x) \<and> \<not> c_closed (p_conns p x))"

lemma own_invD:
  assumes "own_inv V p own"
  shows "distinct (p_keys p)" "p_cap p = length (p_all p)" "distinct (p_free p)" "set (p_free p) \<subseteq> set (p_keys p)"
    and "own i = Some x \<Longrightarrow> x \<in> set (p_keys p) \<and> x \<notin> set (p_free p)"
    and "own i = Some x \<Longrightarrow> own j = Some x \<Longrightarrow> i = j"
    and "x \<in> set (p_free p) \<or> own i = Some x \<Longrightarrow> conn_ok V (p_conns p x) \<and> \<not> c_closed (p_conns p x)"
  using assms unfolding own_inv_def by blast+

lemma own_inv_receive:
  assumes "own_inv V p own" and "p_free p = x # rest" and "own i = None"
    and "conn_ok V c" and "\<not> c_closed c"
    and "p_keys p' = p_keys p" "p_cap p' = p_cap p" "p_free p' = rest" "p_conns p' = (p_conns p)(x := c)"
  shows "own_inv V p' (own(i := Some x))"
proof -
  have "length (p_all p') = length (p_all p)" using map_eq_imp_length_eq [OF assms(6)] by simp
  then show ?thesis using assms unfolding own_inv_def by auto
qed

lemma own_inv_drop:
  assumes "own_inv V p own" and "p_keys p' = p_keys p" "p_cap p' = p_cap p" "p_free p' = p_free p" "p_conns p' = p_conns p"
  shows "own_inv V p' (own(i := None))"
proof -
  have "length (p_all p') = length (p_all p)" using map_eq_imp_length_eq [OF assms(2)] by simp
  then show ?thesis using assms unfolding own_inv_def by (auto split: if_splits)
qed

lemma own_inv_update:
  assumes "own_inv V p own" and "own i = Some x" and "conn_ok V c" and "\<not> c_closed c"
    and "p_keys p' = p_keys p" "p_cap p' = p_cap p" "p_free p' = p_free p" "p_conns p' = (p_conns p)(x := c)"
  shows "own_inv V p' own"
proof -
  have "length (p_all p') = length (p_all p)" using map_eq_imp_length_eq [OF assms(5)] by simp
  then show ?thesis using assms unfolding own_inv_def by auto
qed

text \<open>Where nothing changes but the values of \<open>p_all\<close> and fields that the invariant does not look at.\<close>

lemma own_inv_same:
  assumes "own_inv V p own" and "p_keys p' = p_keys p" "p_cap p' = p_cap p" "p_free p' = p_free p" "p_conns p' = p_conns p"
  shows "own_inv V p' own"
proof -
  have "length (p_all p') = length (p_all p)" using map_eq_imp_length_eq [OF assms(2)] by simp
  then show ?thesis using assms unfolding own_inv_def by auto
qed

lemma own_inv_send:
  assumes "own_inv V p own" and "own i = Some x"
    and "p_keys p' = p_keys p" "p_cap p' = p_cap p" "p_free p' = p_free p @ [x]" "p_conns p' = p_conns p"
  shows "own_inv V p' (own(i := None))"
proof -
  have "length (p_all p') = length (p_all p)" using map_eq_imp_length_eq [OF assms(3)] by simp
  moreover note own_invD [OF assms(1)]
  ultimately show ?thesis using assms(2-6) unfolding own_inv_def by (auto split: if_splits)
qed

text \<open>\<open>Close\<close> takes a connection out for good.\<close>

lemma own_inv_remove:
  assumes "own_inv V p own" and "p_free p = x # rest"
    and "p_keys p' = p_keys p" "p_cap p' = p_cap p" "p_free p' = rest" "\<forall>y. y \<noteq> x \<longrightarrow> p_conns p' y = p_conns p y"
  shows "own_inv V p' own"
proof -
  have len: "length (p_all p') = length (p_all p)" using map_eq_imp_length_eq [OF assms(3)] by simp
  have "x \<notin> set rest" "own i \<noteq> Some x" for i
    using own_invD(3) [OF assms(1)] own_invD(5) [OF assms(1), of i x] assms(2) by auto
  then have "y \<noteq> x" if "y \<in> set rest \<or> own i = Some y" for y i using that by metis
  then show ?thesis using assms len unfolding own_inv_def by auto
qed

text \<open>The channel has room for whatever a goroutine owns.\<close>

lemma own_inv_room:
  assumes "own_inv V p own" and "own i = Some x"
  shows "length (p_free p) < p_cap p"
proof -
  have "set (p_free p) \<subset> set (p_keys p)" using own_invD(4,5) [OF assms(1)] assms(2) by blast
  then have "card (set (p_free p)) < card (set (p_keys p))" by (intro psubset_card_mono) simp_all
  then show ?thesis
    using distinct_card [OF own_invD(1) [OF assms(1)]] distinct_card [OF own_invD(3) [OF assms(1)]] own_invD(2) [OF assms(1)] by simp
qed

text \<open>How far a \<open>Close\<close> has come: the connections that it has closed so far, and all of them at the end.\<close>

definition closed_conns :: "'w pool \<Rightarrow> nat set" where
  "closed_conns p = {x \<in> set (p_keys p). c_closed (p_conns p x)}"

fun closer :: "gor \<Rightarrow> bool" where
  "closer C_lock = True"
| "closer (C_cancel ks n) = True"
| "closer (C_drain n k err) = True"
| "closer (C_done err) = True"
| "closer _ = False"

fun closer_ok :: "'w pool \<Rightarrow> gor \<Rightarrow> bool" where
  "closer_ok p C_lock = (closed_conns p = {})"
| "closer_ok p (C_cancel ks n) = (closed_conns p = {} \<and> n = length (p_all p))"
| "closer_ok p (C_drain n k err) = (n = length (p_all p) \<and> card (closed_conns p) = k)"
| "closer_ok p (C_done err) = (closed_conns p = set (p_keys p))"
| "closer_ok p _ = True"

definition close_inv :: "'w pool \<Rightarrow> (nat \<Rightarrow> gor) \<Rightarrow> bool" where
  "close_inv p gs \<longleftrightarrow>
     (\<forall>i j. closer (gs i) \<and> closer (gs j) \<longrightarrow> i = j) \<and> (\<forall>i. closer (gs i) \<longrightarrow> p_closed p \<and> closer_ok p (gs i)) \<and>
     (\<not> p_closed p \<longrightarrow> closed_conns p = {})"

text \<open>A step of a goroutine that is not closing.\<close>

lemma close_inv_other:
  assumes "close_inv p gs" and "\<not> closer g"
    and "p_closed p' = p_closed p" "p_keys p' = p_keys p" "closed_conns p' = closed_conns p"
  shows "close_inv p' (gs(i := g))"
proof -
  have len: "length (p_all p') = length (p_all p)" using map_eq_imp_length_eq [OF assms(4)] by simp
  have "closer_ok p' h = closer_ok p h" for h
    using assms(5) len arg_cong [OF assms(4), of set] by (cases h) simp_all
  then show ?thesis using assms unfolding close_inv_def by auto
qed

text \<open>A step of the goroutine that closes.\<close>

lemma close_inv_closer:
  assumes "close_inv p gs" and "closer (gs i)" and "p_closed p'" and "closer_ok p' g"
  shows "close_inv p' (gs(i := g))"
proof -
  have "\<not> closer (gs j)" if "j \<noteq> i" for j using assms(1,2) that unfolding close_inv_def by blast
  then show ?thesis using assms(3,4) unfolding close_inv_def by (auto split: if_splits)
qed

text \<open>A connection that is open before and after is not counted.\<close>

lemma closed_conns_update:
  assumes "\<not> c_closed (p_conns p x)" and "\<not> c_closed c" and "p_keys p' = p_keys p" and "p_conns p' = (p_conns p)(x := c)"
  shows "closed_conns p' = closed_conns p"
  using assms by (auto simp: closed_conns_def)

lemma closed_conns_same:
  assumes "p_keys p' = p_keys p" and "p_conns p' = p_conns p"
  shows "closed_conns p' = closed_conns p"
  using assms by (simp add: closed_conns_def)

lemma closed_conns_close:
  assumes "x \<in> set (p_keys p)" and "\<not> c_closed (p_conns p x)" and "c_closed c"
    and "p_keys p' = p_keys p" and "p_conns p' = (p_conns p)(x := c)"
  shows "card (closed_conns p') = Suc (card (closed_conns p))"
proof -
  have "closed_conns p' = insert x (closed_conns p)" using assms by (auto simp: closed_conns_def)
  moreover have "x \<notin> closed_conns p" "finite (closed_conns p)" using assms(2) by (simp_all add: closed_conns_def)
  ultimately show ?thesis by simp
qed

lemma closed_conns_all:
  assumes "distinct (p_keys p)" and "length (p_all p) \<le> card (closed_conns p)"
  shows "closed_conns p = set (p_keys p)"
proof -
  have "card (set (p_keys p)) = length (p_all p)" using distinct_card [OF assms(1)] by simp
  then show ?thesis using assms(2) by (intro card_seteq) (auto simp: closed_conns_def)
qed

definition pool_inv :: "('w, 'n) lib_view_scheme \<Rightarrow> 'w pool \<times> (nat \<Rightarrow> gor) \<Rightarrow> bool" where
  "pool_inv V = (\<lambda>(p, gs). own_inv V p (\<lambda>i. owns (gs i)) \<and> close_inv p gs \<and>
     (\<forall>i x. gs i = Holding x \<and> p_prepare p \<longrightarrow> x \<in> set (p_inited p)))"

lemma owns_upd: "(\<lambda>j. owns ((gs(i := g)) j)) = (\<lambda>j. owns (gs j))(i := owns g)"
  by auto

lemma all_put_keys: "conn \<in> set (map fst m) \<Longrightarrow> map fst (all_put conn v m) = map fst m"
  by (auto simp: all_put_def)

text \<open>What one step changes, for the steps that are not those of \<open>Close\<close>.\<close>

lemma pool_inv_step:
  assumes "pool_inv V (p, gs)" and "own_inv V p' ((\<lambda>j. owns (gs j))(i := owns g))" and "\<not> closer g"
    and "p_closed p' = p_closed p" "p_keys p' = p_keys p" "closed_conns p' = closed_conns p"
    and "p_prepare p' = p_prepare p" "set (p_inited p) \<subseteq> set (p_inited p')"
    and "\<And>x. g = Holding x \<Longrightarrow> p_prepare p \<Longrightarrow> x \<in> set (p_inited p')"
  shows "pool_inv V (p', gs(i := g))"
  using assms(1,2,7-9) close_inv_other [OF _ assms(3-6), of gs i] unfolding pool_inv_def prod.case owns_upd by auto

text \<open>The steps of \<open>Close\<close>.\<close>

lemma pool_inv_close:
  assumes "pool_inv V (p, gs)" and "own_inv V p' (\<lambda>j. owns (gs j))" and "owns (gs i) = None" and "owns g = None"
    and "close_inv p' (gs(i := g))" and "p_prepare p' = p_prepare p" "p_inited p' = p_inited p"
  shows "pool_inv V (p', gs(i := g))"
proof -
  have "(\<lambda>j. owns (gs j))(i := owns g) = (\<lambda>j. owns (gs j))" using assms(3,4) by auto
  then show ?thesis using assms unfolding pool_inv_def prod.case owns_upd by auto
qed

section \<open>Every step keeps the invariant\<close>

text \<open>What \<open>PrepareConn\<close> may do with a connection: not close it.\<close>

definition prep_ok :: "('w, 'n) lib_view_scheme \<Rightarrow> ('w Conn \<Rightarrow> (error \<times> 'w Conn) option) \<Rightarrow> bool" where
  "prep_ok V prep \<longleftrightarrow>
     (\<forall>c err c'. conn_ok V c \<and> \<not> c_closed c \<and> prep c = Some (err, c') \<longrightarrow> conn_ok V c' \<and> \<not> c_closed c')"

lemma pool_invD:
  assumes "pool_inv V (p, gs)"
  shows "own_inv V p (\<lambda>i. owns (gs i))" and "close_inv p gs" and "gs i = Holding x \<Longrightarrow> p_prepare p \<Longrightarrow> x \<in> set (p_inited p)"
  using assms unfolding pool_inv_def prod.case by blast+

text \<open>A goroutine that works on the connection it owns.\<close>

lemma pool_inv_work:
  assumes "pool_inv V (p, gs)" and "owns (gs i) = Some x" and "owns g = Some x \<or> owns g = None"
    and "conn_ok V c" and "\<not> c_closed c" and "p_conns p' = (p_conns p)(x := c)"
    and "p_keys p' = p_keys p" "p_cap p' = p_cap p" "p_free p' = p_free p" "p_closed p' = p_closed p"
    and "\<not> closer g" and "p_prepare p' = p_prepare p" "set (p_inited p) \<subseteq> set (p_inited p')"
    and "\<And>x. g = Holding x \<Longrightarrow> p_prepare p \<Longrightarrow> x \<in> set (p_inited p')"
  shows "pool_inv V (p', gs(i := g))"
proof (rule pool_inv_step [OF assms(1) _ assms(11,10,7) _ assms(12-14)])
  let ?own = "\<lambda>j. owns (gs j)"
  note o = pool_invD(1) [OF assms(1)]
  have own: "?own i = Some x" using assms(2) .
  show "closed_conns p' = closed_conns p"
    using closed_conns_update [OF _ assms(5,7,6)] own_invD(7) [OF o, of x i] assms(2) by blast
  have u: "own_inv V p' ?own" using own_inv_update [OF o own assms(4,5,7-9,6)] .
  have "?own(i := Some x) = ?own" using own by (rule fun_upd_idem)
  then show "own_inv V p' (?own(i := owns g))" using u own_inv_drop [OF u, of p' i] assms(3) by auto
qed

text \<open>\<dots> and where the connection stays as it is.\<close>

lemma pool_inv_move:
  assumes "pool_inv V (p, gs)" and "owns (gs i) = Some x" and "owns g = Some x \<or> owns g = None"
    and "p_conns p' = p_conns p" "p_keys p' = p_keys p" "p_cap p' = p_cap p" "p_free p' = p_free p" "p_closed p' = p_closed p"
    and "\<not> closer g" and "p_prepare p' = p_prepare p" "set (p_inited p) \<subseteq> set (p_inited p')"
    and "\<And>x. g = Holding x \<Longrightarrow> p_prepare p \<Longrightarrow> x \<in> set (p_inited p')"
  shows "pool_inv V (p', gs(i := g))"
proof -
  have "conn_ok V (p_conns p x)" "\<not> c_closed (p_conns p x)"
    using own_invD(7) [OF pool_invD(1) [OF assms(1)], of x i] assms(2) by blast+
  then show ?thesis using pool_inv_work [OF assms(1-3), of "p_conns p x" p'] assms(4-12) by simp
qed

lemma recv_inv:
  assumes "lib_busy_ok K L V" and "range_ok L" and "pool_inv V (p, gs)" and "gs i = Idle" and "take_recv K L p = Some (p', g)"
  shows "pool_inv V (p', gs(i := g))"
proof -
  let ?own = "\<lambda>j. owns (gs j)"
  note o = pool_invD(1) [OF assms(3)]
  have i: "?own i = None" using assms(4) by simp
  obtain x rest where f: "p_free p = x # rest" using assms(5) by (auto simp: take_recv_def split: list.splits)
  then have x: "conn_ok V (p_conns p x)" "\<not> c_closed (p_conns p x)" using own_invD(7) [OF o, of x] by auto
  show ?thesis
  proof (cases "SetInterrupt K L (Some (p_ctx p)) (p_conns p x)")
    case None
    then have r: "g = Stuck" "p' = p\<lparr>p_free := rest, p_ctx := Suc (p_ctx p)\<rparr>" using assms(5) f by (simp_all add: take_recv_def)
    have "own_inv V p' ?own" by (rule own_inv_remove [OF o f]) (simp_all add: r)
    moreover have "?own(i := None) = ?own" using i by (rule fun_upd_idem)
    ultimately show ?thesis
      by (intro pool_inv_step [OF assms(3)]) (simp_all add: r closed_conns_def)
  next
    case (Some oc)
    then obtain old c where s: "SetInterrupt K L (Some (p_ctx p)) (p_conns p x) = Some (old, c)" by (cases oc) simp
    have c: "conn_ok V c" "\<not> c_closed c" using SetInterrupt_result [OF assms(1) x(1) assms(2) s] by blast+
    have r: "g = T_lock x (p_ctx p)" "p' = p\<lparr>p_free := rest, p_ctx := Suc (p_ctx p), p_conns := (p_conns p)(x := c)\<rparr>"
      using assms(5) f s by (simp_all add: take_recv_def)
    have "own_inv V p' (?own(i := Some x))" by (rule own_inv_receive [OF o f i c]) (simp_all add: r)
    moreover have "closed_conns p' = closed_conns p" by (rule closed_conns_update [OF x(2) c(2)]) (simp_all add: r)
    ultimately show ?thesis by (intro pool_inv_step [OF assms(3)]) (simp_all add: r)
  qed
qed

lemma owned_key:
  assumes "pool_inv V (p, gs)" and "owns (gs i) = Some x"
  shows "x \<in> set (p_keys p)" and "conn_ok V (p_conns p x)" and "\<not> c_closed (p_conns p x)"
  using own_invD(5,7) [OF pool_invD(1) [OF assms(1)]] assms(2) by blast+

lemma tlock_inv:
  assumes "pool_inv V (p, gs)" and "gs i = T_lock x ctx" and "take_lock x ctx p = (p', g)"
  shows "pool_inv V (p', gs(i := g))"
proof -
  have o: "owns (gs i) = Some x" using assms(2) by simp
  show ?thesis
    using assms(3)
    by (intro pool_inv_move [OF assms(1) o]) (auto simp: all_put_keys [OF owned_key(1) [OF assms(1) o]] take_lock_def split: if_splits)
qed

lemma prepare_inv:
  assumes "prep_ok V prep" and "pool_inv V (p, gs)" and "gs i = T_prepare x" and "take_prepare prep x p = (p', g)"
  shows "pool_inv V (p', gs(i := g))"
proof -
  have o: "owns (gs i) = Some x" using assms(3) by simp
  note x = owned_key [OF assms(2) o]
  show ?thesis
  proof (cases "prep (p_conns p x)")
    case None
    then show ?thesis using assms(4) by (intro pool_inv_move [OF assms(2) o]) (auto simp: take_prepare_def)
  next
    case (Some ec)
    then obtain err c where s: "prep (p_conns p x) = Some (err, c)" by (cases ec) simp
    then have "conn_ok V c" "\<not> c_closed c" using assms(1) x unfolding prep_ok_def by blast+
    then show ?thesis
      using assms(4) s by (intro pool_inv_work [OF assms(2) o, of _ c]) (auto simp: take_prepare_def split: if_splits)
  qed
qed

lemma mark_inv:
  assumes "pool_inv V (p, gs)" and "gs i = T_mark x" and "take_mark x p = (p', g)"
  shows "pool_inv V (p', gs(i := g))"
proof -
  have o: "owns (gs i) = Some x" using assms(2) by simp
  show ?thesis using assms(3) by (intro pool_inv_move [OF assms(1) o]) (auto simp: take_mark_def split: if_splits)
qed

lemma use_inv:
  assumes "pool_inv V (p, gs)" and "gs i = Holding x" and "conn_ok V c" and "\<not> c_closed c"
  shows "pool_inv V (p\<lparr>p_conns := (p_conns p)(x := c)\<rparr>, gs)"
proof -
  have o: "owns (gs i) = Some x" using assms(2) by simp
  have "pool_inv V (p\<lparr>p_conns := (p_conns p)(x := c)\<rparr>, gs(i := Holding x))"
    using assms(3,4) pool_invD(3) [OF assms(1,2)] by (intro pool_inv_work [OF assms(1) o, of _ c]) simp_all
  moreover have "gs(i := Holding x) = gs" using assms(2) by auto
  ultimately show ?thesis by simp
qed

lemma put_inv:
  assumes "pool_inv V (p, gs)" and "gs i = Holding x" and "pool_Put L x p = (p', g)"
  shows "pool_inv V (p', gs(i := g))"
proof -
  have o: "owns (gs i) = Some x" using assms(2) by simp
  show ?thesis using assms(3) by (intro pool_inv_move [OF assms(1) o]) (auto simp: pool_Put_def split: if_splits)
qed

lemma plock_inv:
  assumes "pool_inv V (p, gs)" and "gs i = P_lock x" and "put_lock x p = (p', g)"
  shows "pool_inv V (p', gs(i := g))"
proof -
  have o: "owns (gs i) = Some x" using assms(2) by simp
  show ?thesis
    using assms(3)
    by (intro pool_inv_move [OF assms(1) o]) (auto simp: all_put_keys [OF owned_key(1) [OF assms(1) o]] put_lock_def split: option.splits)
qed

lemma reset_inv:
  assumes "lib_busy_ok K L V" and "range_ok L" and "pool_inv V (p, gs)" and "gs i = P_reset x cancel" and "put_reset K L x cancel p = (p', g)"
  shows "pool_inv V (p', gs(i := g))"
proof -
  have o: "owns (gs i) = Some x" using assms(4) by simp
  show ?thesis
  proof (cases "SetInterrupt K L None (p_conns p x)")
    case None
    then show ?thesis using assms(5) by (intro pool_inv_move [OF assms(3) o]) (auto simp: put_reset_def)
  next
    case (Some oc)
    then obtain old c where s: "SetInterrupt K L None (p_conns p x) = Some (old, c)" by (cases oc) simp
    have "conn_ok V c" "\<not> c_closed c" using SetInterrupt_result [OF assms(1) owned_key(2) [OF assms(3) o] assms(2) s] by blast+
    then show ?thesis using assms(5) s by (intro pool_inv_work [OF assms(3) o, of _ c]) (auto simp: put_reset_def)
  qed
qed

lemma send_inv:
  assumes "pool_inv V (p, gs)" and "gs i = P_send x" and "put_send x p = Some (p', g)"
  shows "pool_inv V (p', gs(i := g))"
proof -
  have o: "owns (gs i) = Some x" using assms(2) by simp
  have r: "g = Idle" "p' = p\<lparr>p_free := p_free p @ [x]\<rparr>" using assms(3) by (simp_all add: put_send_def split: if_splits)
  have "own_inv V p' ((\<lambda>j. owns (gs j))(i := None))"
    by (rule own_inv_send [OF pool_invD(1) [OF assms(1)] o]) (simp_all add: r)
  then show ?thesis by (intro pool_inv_step [OF assms(1)]) (simp_all add: r closed_conns_def)
qed

text \<open>The steps of \<open>Close\<close>.\<close>

lemma begin_inv:
  assumes "pool_inv V (p, gs)" and "gs i = Idle" and "close_begin p = (p', g)"
  shows "pool_inv V (p', gs(i := g))"
proof (cases "p_closed p")
  case True
  then have "g = Stuck" "p' = p" using assms(3) by (simp_all add: close_begin_def)
  then show ?thesis
    using assms(2) close_inv_other [OF pool_invD(2) [OF assms(1)], of Stuck p i] pool_invD(1) [OF assms(1)]
    by (intro pool_inv_close [OF assms(1)]) simp_all
next
  case False
  then have r: "g = C_lock" "p' = p\<lparr>p_closed := True\<rparr>" using assms(3) by (simp_all add: close_begin_def)
  have "own_inv V p' (\<lambda>j. owns (gs j))" by (rule own_inv_same [OF pool_invD(1) [OF assms(1)]]) (simp_all add: r)
  moreover have "close_inv p' (gs(i := g))"
    using False pool_invD(2) [OF assms(1)] by (auto simp: r close_inv_def closed_conns_def)
  ultimately show ?thesis using assms(2) by (intro pool_inv_close [OF assms(1)]) (simp_all add: r)
qed

lemma closer_own: "closer g \<Longrightarrow> owns g = None"
  by (cases g) simp_all

text \<open>Within \<open>Close\<close>, from one of its sections to the next.\<close>

lemma pool_inv_next:
  assumes "pool_inv V (p, gs)" and "closer (gs i)" and "own_inv V p' (\<lambda>j. owns (gs j))" and "owns g = None"
    and "closer_ok p' g" and "p_closed p' = p_closed p" "p_prepare p' = p_prepare p" "p_inited p' = p_inited p"
  shows "pool_inv V (p', gs(i := g))"
proof -
  note c = pool_invD(2) [OF assms(1)]
  have "p_closed p" using c assms(2) unfolding close_inv_def by blast
  then have "close_inv p' (gs(i := g))" using close_inv_closer [OF c assms(2) _ assms(5)] assms(6) by simp
  then show ?thesis using assms closer_own by (intro pool_inv_close [OF assms(1)]) simp_all
qed

lemma closer_okD: "pool_inv V (p, gs) \<Longrightarrow> closer (gs i) \<Longrightarrow> closer_ok p (gs i)"
  using pool_invD(2) unfolding close_inv_def by blast

lemma clock_inv:
  assumes "pool_inv V (p, gs)" and "gs i = C_lock" and "close_lock p = (p', g)"
  shows "pool_inv V (p', gs(i := g))"
proof -
  define m where "m = map (\<lambda>(conn, _ :: nat option). (conn, None :: nat option)) (p_all p)"
  have m: "map fst m = p_keys p" by (simp add: m_def case_prod_beta)
  have r: "g = C_cancel (List.map_filter snd (p_all p)) (length (p_all p))" "p' = p\<lparr>p_all := m\<rparr>"
    using assms(3) by (simp_all add: close_lock_def m_def)
  have cl: "closer (gs i)" using assms(2) by simp
  have "closed_conns p = {}" using closer_okD [OF assms(1) cl] assms(2) by simp
  then have "closer_ok p' g" using map_eq_imp_length_eq [OF m] arg_cong [OF m, of set] by (simp add: r closed_conns_def)
  moreover have "own_inv V p' (\<lambda>j. owns (gs j))" by (rule own_inv_same [OF pool_invD(1) [OF assms(1)]]) (simp_all add: r m)
  ultimately show ?thesis by (intro pool_inv_next [OF assms(1) cl]) (simp_all add: r)
qed

lemma cancel_inv:
  assumes "pool_inv V (p, gs)" and "gs i = C_cancel ks n" and "close_cancel ks n p = (p', g)"
  shows "pool_inv V (p', gs(i := g))"
proof -
  have r: "g = C_drain n 0 None" "p' = p\<lparr>p_cancelled := ks @ p_cancelled p\<rparr>" using assms(3) by (simp_all add: close_cancel_def)
  have cl: "closer (gs i)" using assms(2) by simp
  have "closer_ok p' g" using closer_okD [OF assms(1) cl] assms(2) by (simp add: r closed_conns_def)
  moreover have "own_inv V p' (\<lambda>j. owns (gs j))" by (rule own_inv_same [OF pool_invD(1) [OF assms(1)]]) (simp_all add: r)
  ultimately show ?thesis by (intro pool_inv_next [OF assms(1) cl]) (simp_all add: r)
qed

lemma turn_inv:
  assumes "lib_busy_ok K L V" and "lib_alloc_ok K L V" and "range_ok L"
    and "pool_inv V (p, gs)" and "gs i = C_drain n k err" and "close_turn K L n k err p = Some (p', g)"
  shows "pool_inv V (p', gs(i := g))"
proof -
  note o = pool_invD(1) [OF assms(4)]
  have cl: "closer (gs i)" using assms(5) by simp
  have nk: "n = length (p_all p)" "card (closed_conns p) = k" using closer_okD [OF assms(4) cl] assms(5) by simp_all
  show ?thesis
  proof (cases "k < n")
    case False
    then have r: "g = C_done err" "p' = p" using assms(6) by (simp_all add: close_turn_def)
    have "closed_conns p = set (p_keys p)" using closed_conns_all [OF own_invD(1) [OF o]] False nk by simp
    then show ?thesis using o by (intro pool_inv_next [OF assms(4) cl]) (simp_all add: r)
  next
    case True
    then obtain x rest where f: "p_free p = x # rest" using assms(6) by (auto simp: close_turn_def split: list.splits)
    have x: "x \<in> set (p_keys p)" "conn_ok V (p_conns p x)" "\<not> c_closed (p_conns p x)"
      using own_invD(4) [OF o] own_invD(7) [OF o, of x] f by auto
    obtain err2 c where c: "Close K L (p_conns p x) = Some (err2, c)" "c_closed c" using Close_closes [OF assms(1-3) x(2)] .
    define e' where "e' = (if err = None then err2 else err)"
    have r: "g = C_drain n (Suc k) e'" "p' = p\<lparr>p_free := rest, p_conns := (p_conns p)(x := c)\<rparr>"
      using True f c assms(6) by (simp_all add: close_turn_def e'_def)
    have "card (closed_conns p') = Suc (card (closed_conns p))"
      by (rule closed_conns_close [OF x(1,3) c(2)]) (simp_all add: r)
    moreover have "own_inv V p' (\<lambda>j. owns (gs j))" by (rule own_inv_remove [OF o f]) (simp_all add: r)
    ultimately show ?thesis using nk by (intro pool_inv_next [OF assms(4) cl]) (simp_all add: r)
  qed
qed

section \<open>New pools\<close>

lemma openConn_Inl: "openConn K L path f w = Inl (err, w') \<Longrightarrow> err \<noteq> None"
  by (auto simp: openConn_def errorf_w_def Let_def split: prod.splits if_splits)

lemma OpenConn_Inl: "OpenConn K L path flags w = Some (Inl (err, w')) \<Longrightarrow> err \<noteq> None"
  by (auto simp: OpenConn_def Let_def bind_eq_Some_conv split: if_splits sum.splits prod.splits dest: close_with_Inl openConn_Inl)

lemma open_all_inv:
  assumes "lib_busy_ok K L V" and "lib_alloc_ok K L V" and "open_all K L uri flags ws is p = Some (None, p')"
    and "distinct (p_free p @ is)" and "p_keys p = rev (p_free p)"
    and "\<forall>x \<in> set (p_free p). conn_ok V (p_conns p x) \<and> \<not> c_closed (p_conns p x)"
  shows "p_free p' = p_free p @ is \<and> p_keys p' = rev (p_free p') \<and> p_cap p' = p_cap p \<and> p_closed p' = p_closed p \<and>
    (\<forall>x \<in> set (p_free p'). conn_ok V (p_conns p' x) \<and> \<not> c_closed (p_conns p' x))"
  using assms(3-6)
proof (induction "is" arbitrary: p)
  case (Cons i "is")
  obtain r where r: "OpenConn K L uri [flags] (ws i) = Some r" using Cons.prems(1) by (auto simp: bind_eq_Some_conv)
  have "\<exists>c. r = Inr c" using Cons.prems(1) r OpenConn_Inl [of K L uri "[flags]" "ws i"] by (cases r) (auto split: prod.splits)
  then obtain c where c: "OpenConn K L uri [flags] (ws i) = Some (Inr c)" using r by blast
  then have rest: "open_all K L uri flags ws is (p\<lparr>p_free := p_free p @ [i], p_all := all_put i None (p_all p), p_conns := (p_conns p)(i := c)\<rparr>)
      = Some (None, p')"
    using Cons.prems(1) by simp
  have "i \<notin> set (p_keys p)" using Cons.prems(2,3) by simp
  then have k: "map fst (all_put i None (p_all p)) = i # p_keys p" by (simp add: all_put_def)
  show ?case
    using Cons.IH [OF rest] Cons.prems(2-4) OpenConn_conn_ok [OF assms(1,2) c] k by auto
qed auto

lemma NewPool_inv:
  assumes "lib_busy_ok K L V" and "lib_alloc_ok K L V" and "NewPool K L uri flags PoolSize has_prepare ws = Some (Inr p)"
  shows "pool_inv V (p, \<lambda>_. Idle)"
proof -
  define n where "n = (if PoolSize < 1 then 10 else nat PoolSize)"
  define f where "f = (if flags = 0 then default_flags K else flags)"
  let ?p0 = "empty_pool n has_prepare (\<lambda>i. new_Conn (ws i))"
  have o: "open_all K L uri f ws [0..<n] ?p0 = Some (None, p)"
    using assms(3) by (auto simp: NewPool_def Let_def bind_eq_Some_conv n_def [symmetric] f_def [symmetric] split: if_splits)
  have r: "p_free p = [0..<n]" "p_keys p = rev [0..<n]" "p_cap p = n" "\<not> p_closed p"
    and ok: "\<And>x. x < n \<Longrightarrow> conn_ok V (p_conns p x) \<and> \<not> c_closed (p_conns p x)"
    using open_all_inv [OF assms(1,2) o] by (simp_all add: empty_pool_def)
  have len: "length (p_all p) = n" using r(2) by (metis length_map length_rev length_upt diff_zero)
  have d: "distinct (p_keys p)" unfolding r(2) by simp
  have k: "set (p_keys p) = {0..<n}" unfolding r(2) by simp
  have "own_inv V p (\<lambda>_. None)" using d k r ok len unfolding own_inv_def by simp
  moreover have "close_inv p (\<lambda>_. Idle)" using k ok r(4) unfolding close_inv_def closed_conns_def by auto
  ultimately show ?thesis unfolding pool_inv_def by simp
qed

lemma pool_reach_inv:
  assumes "lib_busy_ok K L V" and "lib_alloc_ok K L V" and "range_ok L" and "prep_ok V prep" and "pool_reach K L V prep s"
  shows "pool_inv V s"
  using assms(5)
proof (induction rule: pool_reach.induct)
  case new
  then show ?case using NewPool_inv [OF assms(1,2)] by blast
next
  case (step s s')
  from step(2) step(3) show ?case
  proof (cases rule: pool_step.cases)
    case recv
    then show ?thesis using recv_inv [OF assms(1,3)] step(3) by simp
  next
    case tlock
    then show ?thesis using tlock_inv step(3) by simp
  next
    case prepare
    then show ?thesis using prepare_inv [OF assms(4)] step(3) by simp
  next
    case mark
    then show ?thesis using mark_inv step(3) by simp
  next
    case use
    then show ?thesis using use_inv step(3) by simp
  next
    case put
    then show ?thesis using put_inv step(3) by simp
  next
    case plock
    then show ?thesis using plock_inv step(3) by simp
  next
    case reset
    then show ?thesis using reset_inv [OF assms(1,3)] step(3) by simp
  next
    case send
    then show ?thesis using send_inv step(3) by simp
  next
    case close
    then show ?thesis using begin_inv step(3) by simp
  next
    case clock
    then show ?thesis using clock_inv step(3) by simp
  next
    case cancel
    then show ?thesis using cancel_inv step(3) by simp
  next
    case turn
    then show ?thesis using turn_inv [OF assms(1-3)] step(3) by simp
  qed
qed

section \<open>Properties\<close>

text \<open>C2: connections of a pool are handed out exclusively.  However \<open>Take\<close>, \<open>Put\<close> and \<open>Close\<close> of any number of goroutines interleave, no two goroutines
  have the same connection; one that a goroutine has is not in the channel of free ones, is open and in order, and if the pool has a \<open>PrepareConn\<close>,
  it has been called with success on every connection that \<open>Take\<close> has returned.\<close>

theorem pool_exclusive:
  assumes "lib_busy_ok K L V" and "lib_alloc_ok K L V" and "range_ok L" and "prep_ok V prep"
    and "pool_reach K L V prep (p, gs)" and "owns (gs i) = Some x"
  shows "(owns (gs j) = Some x \<longrightarrow> j = i) \<and> x \<notin> set (p_free p) \<and> conn_ok V (p_conns p x) \<and> \<not> c_closed (p_conns p x) \<and>
    (gs i = Holding x \<and> p_prepare p \<longrightarrow> x \<in> set (p_inited p))"
proof -
  have inv: "pool_inv V (p, gs)" using pool_reach_inv [OF assms(1-5)] .
  note o = pool_invD(1) [OF inv]
  show ?thesis
    using own_invD(5,6,7) [OF o] assms(6) pool_invD(3) [OF inv] by blast
qed

text \<open>\<open>put\<close> finds the connection in the map, and \<open>SetInterrupt\<close> returns.\<close>

lemma put_steps:
  assumes "lib_busy_ok K L V" and "lib_unlocks K L \<mu>" and "range_ok L" and "pool_inv V (p, gs)" and "gs i = P_lock x"
  shows "\<exists>p'. (pool_step K L V prep)\<^sup>*\<^sup>* (p, gs) (p', gs(i := Idle)) \<and> p_free p' = p_free p @ [x] \<and> c_doneCh (p_conns p' x) = None \<and>
    all_idle (p_conns p' x)"
proof -
  have o: "owns (gs i) = Some x" using assms(5) by simp
  note x = owned_key [OF assms(4) o]
  obtain cancel where cancel: "map_of (p_all p) x = Some cancel" using x(1) by (force simp: map_of_eq_None_iff dest: not_None_eq [THEN iffD1])
  let ?p1 = "p\<lparr>p_all := all_put x None (p_all p)\<rparr>" and ?g1 = "gs(i := P_reset x cancel)"
  have l: "put_lock x p = (?p1, P_reset x cancel)" using cancel by (simp add: put_lock_def)
  have s1: "pool_step K L V prep (p, gs) (?p1, ?g1)" using pool_step.plock [where gs = gs and i = i, OF assms(5) l] .
  have inv1: "pool_inv V (?p1, ?g1)" using plock_inv [OF assms(4,5) l] .
  obtain c where c: "SetInterrupt K L None (p_conns p x) = Some (c_doneCh (p_conns p x), c)"
    using SetInterrupt_returns [OF assms(1-3) x(2,3)] by blast
  define p2 where "p2 = (?p1\<lparr>p_conns := (p_conns p)(x := c), p_cancelled := (case cancel of None \<Rightarrow> [] | Some k \<Rightarrow> [k]) @ p_cancelled p\<rparr>)"
  let ?g2 = "?g1(i := P_send x)"
  have r: "put_reset K L x cancel ?p1 = (p2, P_send x)" using c by (simp add: put_reset_def p2_def)
  have g1: "?g1 i = P_reset x cancel" by simp
  have s2: "pool_step K L V prep (?p1, ?g1) (p2, ?g2)" using pool_step.reset [where gs = ?g1 and i = i, OF g1 r] .
  have inv2: "pool_inv V (p2, ?g2)" using reset_inv [OF assms(1,3) inv1, of i x cancel] r by simp
  have "length (p_free p2) < p_cap p2" using own_inv_room [OF pool_invD(1) [OF inv2], of i x] by simp
  then have d: "put_send x p2 = Some (p2\<lparr>p_free := p_free p2 @ [x]\<rparr>, Idle)" by (simp add: put_send_def)
  have "pool_step K L V prep (p2, ?g2) (p2\<lparr>p_free := p_free p2 @ [x]\<rparr>, ?g2(i := Idle))"
    by (rule pool_step.send [where gs = ?g2 and i = i, OF _ d]) simp
  moreover have "?g2(i := Idle) = gs(i := Idle)" by simp
  ultimately have "(pool_step K L V prep)\<^sup>*\<^sup>* (p, gs) (p2\<lparr>p_free := p_free p2 @ [x]\<rparr>, gs(i := Idle))"
    using s1 s2 by (metis (no_types, lifting) converse_rtranclp_into_rtranclp rtranclp.rtrancl_refl)
  moreover have "c_doneCh c = None" "all_idle c" using SetInterrupt_result [OF assms(1) x(2) assms(3) c] by (auto simp: all_idle_def)
  ultimately show ?thesis by (intro exI [of _ "p2\<lparr>p_free := p_free p2 @ [x]\<rparr>"]) (simp add: p2_def)
qed


text \<open>C12: \<open>Close\<close> waits for every connection.  When it has returned, all connections of the pool are closed, none is left
  in the channel and no goroutine has one.\<close>

theorem pool_Close_complete:
  assumes "lib_busy_ok K L V" and "lib_alloc_ok K L V" and "range_ok L" and "prep_ok V prep"
    and "pool_reach K L V prep (p, gs)" and "gs i = C_done err"
  shows "(\<forall>x \<in> set (p_keys p). c_closed (p_conns p x)) \<and> p_free p = [] \<and> (\<forall>j. owns (gs j) = None)"
proof -
  have inv: "pool_inv V (p, gs)" using pool_reach_inv [OF assms(1-5)] .
  note o = pool_invD(1) [OF inv]
  have all: "\<forall>x \<in> set (p_keys p). c_closed (p_conns p x)"
  proof
    have "closed_conns p = set (p_keys p)" using closer_okD [OF inv, of i] assms(6) by simp
    then show "c_closed (p_conns p x)" if "x \<in> set (p_keys p)" for x using that unfolding closed_conns_def by blast
  qed
  moreover have "x \<notin> set (p_free p)" for x using all own_invD(4,7) [OF o] by blast
  then have "p_free p = []" by (cases "p_free p") auto
  moreover have "owns (gs j) = None" for j
    using all own_invD(5,7) [OF o] by (cases "owns (gs j)") blast+
  ultimately show ?thesis by simp
qed

section \<open>Witnesses\<close>

text \<open>A pool of one connection on the small SQLite.\<close>

definition demo_pool :: "demo pool" where
  "demo_pool = \<lparr>p_cap = 1, p_free = [0], p_closed = False, p_prepare = False, p_all = [(0, None)], p_inited = [],
     p_conns = (\<lambda>i. new_Conn demo_world)(0 := demo_opened), p_ctx = 0, p_cancelled = []\<rparr>"

definition demo_prep :: "demo Conn \<Rightarrow> (error \<times> demo Conn) option" where
  "demo_prep c = Some (None, c)"

lemma demo_prep_ok: "prep_ok demo_view demo_prep"
  by (simp add: prep_ok_def demo_prep_def)

abbreviation demo_reach :: "demo pool \<times> (nat \<Rightarrow> gor) \<Rightarrow> bool" where
  "demo_reach \<equiv> pool_reach demo_K demo_open demo_view demo_prep"

lemma demo_NewPool: "NewPool demo_K demo_open ''x'' 2 1 False (\<lambda>_. demo_world) = Some (Inr demo_pool)"
  by (simp add: NewPool_def demo_OpenConn empty_pool_def all_put_def demo_pool_def)

lemma demo_reach_new: "demo_reach (demo_pool, \<lambda>_. Idle)"
  using pool_reach.new [OF demo_NewPool] .

lemma demo_SetInterrupt: "SetInterrupt demo_K demo_open (Some 0) demo_opened = Some (None, demo_opened\<lparr>c_doneCh := Some 0, c_cancelCh := True\<rparr>)"
  by (simp add: SetInterrupt_def demo_opened_def SetBlockOnBusy_def setBusyHandler_def new_Conn_def cancelInterrupt_def demo_open_def
      sqlite_lib.defs demo_lib_def)

text \<open>A goroutine takes the connection.\<close>

lemma demo_taken:
  "\<exists>p. demo_reach (p, (\<lambda>_. Idle)(3 := Holding 0)) \<and> p_free p = [] \<and> CheckReset demo_open (p_conns p 0) = ''''"
proof -
  define p1 where "p1 = demo_pool\<lparr>p_free := [], p_ctx := 1, p_conns := (p_conns demo_pool)(0 := demo_opened\<lparr>c_doneCh := Some 0, c_cancelCh := True\<rparr>)\<rparr>"
  have "take_recv demo_K demo_open demo_pool = Some (p1, T_lock 0 0)"
    by (simp add: take_recv_def demo_pool_def demo_SetInterrupt p1_def)
  then have "pool_step demo_K demo_open demo_view demo_prep (demo_pool, \<lambda>_. Idle) (p1, (\<lambda>_. Idle)(3 := T_lock 0 0))"
    by (intro pool_step.recv) simp_all
  then have r1: "demo_reach (p1, (\<lambda>_. Idle)(3 := T_lock 0 0))" using pool_reach.step [OF demo_reach_new] by blast
  define p2 where "p2 = p1\<lparr>p_all := [(0, Some 0)]\<rparr>"
  have l: "take_lock 0 0 p1 = (p2, Holding 0)" by (simp add: take_lock_def all_put_def p1_def p2_def demo_pool_def)
  have "pool_step demo_K demo_open demo_view demo_prep (p1, (\<lambda>_. Idle)(3 := T_lock 0 0)) (p2, ((\<lambda>_. Idle)(3 := T_lock 0 0))(3 := Holding 0))"
    by (rule pool_step.tlock [where i = 3, OF _ l]) simp
  then have "demo_reach (p2, (\<lambda>_. Idle)(3 := Holding 0))" using pool_reach.step [OF r1] by simp
  moreover have "CheckReset demo_open (p_conns p2 0) = ''''"
    by (simp add: p2_def p1_def CheckReset_def demo_opened_def SetBlockOnBusy_def setBusyHandler_def new_Conn_def demo_open_def
        sqlite_lib.defs demo_lib_def)
  ultimately show ?thesis by (intro exI [of _ p2]) (simp add: p2_def p1_def)
qed

theorem pool_exclusive_witness:
  "\<exists>p. demo_reach (p, (\<lambda>_. Idle)(3 := Holding 0)) \<and> 0 \<notin> set (p_free p) \<and> conn_ok demo_view (p_conns p 0) \<and> \<not> c_closed (p_conns p 0)"
proof -
  obtain p where p: "demo_reach (p, (\<lambda>_. Idle)(3 := Holding 0))" using demo_taken by blast
  then show ?thesis using pool_exclusive [OF demo_open_ok(1,2,4) demo_prep_ok p, of 3 0 3] by auto
qed


text \<open>A goroutine closes the pool.\<close>

lemma demo_closed: "\<exists>p err. demo_reach (p, (\<lambda>_. Idle)(3 := C_done err)) \<and> p_all p = [(0, None)]"
proof -
  let ?step = "pool_step demo_K demo_open demo_view demo_prep"
  let ?g = "\<lambda>g. (\<lambda>_. Idle)(3 := g)"
  have go: "demo_reach (p', ?g h')" if "demo_reach (p, ?g h)" "?step (p, ?g h) (p', (?g h)(3 := h'))" for p p' h h'
    using pool_reach.step [OF that] by simp
  define p1 where "p1 = demo_pool\<lparr>p_closed := True\<rparr>"
  have i: "demo_reach (demo_pool, ?g Idle)" using demo_reach_new by (simp add: fun_upd_idem)
  have "close_begin demo_pool = (p1, C_lock)" by (simp add: close_begin_def p1_def demo_pool_def)
  then have r1: "demo_reach (p1, ?g C_lock)" by (intro go [OF i]) (rule pool_step.close [where i = 3], simp_all)
  have "close_lock p1 = (p1, C_cancel [] 1)" by (simp add: close_lock_def p1_def demo_pool_def map_filter_simps)
  then have r2: "demo_reach (p1, ?g (C_cancel [] 1))" by (intro go [OF r1]) (rule pool_step.clock [where i = 3], simp_all)
  have "close_cancel [] 1 p1 = (p1, C_drain 1 0 None)" by (simp add: close_cancel_def)
  then have r3: "demo_reach (p1, ?g (C_drain 1 0 None))" by (intro go [OF r2]) (rule pool_step.cancel [where i = 3], simp_all)
  have f: "p_free p1 = [0]" by (simp add: p1_def demo_pool_def)
  have "conn_ok demo_view (p_conns p1 0)"
    using own_invD(7) [OF pool_invD(1) [OF pool_reach_inv [OF demo_open_ok(1,2,4) demo_prep_ok r3]], of 0] f by simp
  then obtain err c where "Close demo_K demo_open (p_conns p1 0) = Some (err, c)" using Close_closes [OF demo_open_ok(1,2,4)] by blast
  then obtain p2 where t: "close_turn demo_K demo_open 1 0 None p1 = Some (p2, C_drain 1 1 err)" and a: "p_all p2 = p_all p1"
    using f by (simp add: close_turn_def)
  then have r4: "demo_reach (p2, ?g (C_drain 1 1 err))" by (intro go [OF r3]) (rule pool_step.turn [where i = 3], simp_all)
  have "close_turn demo_K demo_open 1 1 err p2 = Some (p2, C_done err)" by (simp add: close_turn_def)
  then have "demo_reach (p2, ?g (C_done err))" by (intro go [OF r4]) (rule pool_step.turn [where i = 3], simp_all)
  then show ?thesis using a by (auto simp: p1_def demo_pool_def)
qed

theorem pool_Close_complete_witness:
  "\<exists>p err. demo_reach (p, (\<lambda>_. Idle)(3 := C_done err)) \<and> c_closed (p_conns p 0) \<and> p_free p = []"
proof -
  obtain p err where p: "demo_reach (p, (\<lambda>_. Idle)(3 := C_done err))" "p_all p = [(0, None)]" using demo_closed by blast
  then show ?thesis using pool_Close_complete [OF demo_open_ok(1,2,4) demo_prep_ok p(1), of 3 err] by auto
qed

end
