(* ===== verification/Savepoint.thy ===== *)
theory Savepoint
  imports ExecSpec
begin

text \<open>
  Savepoints and transactions (sqlitex/savepoint.go), scripts and statements from files (sqlitex/exec.go).  A function that the source
  returns to be deferred is a value of \<open>release_fn\<close>; running it takes the error of the caller and what \<open>recover\<close> found, and returns the new
  error and the panic it ends with, if any.
\<close>

section \<open>Quoting\<close>

text \<open>The verb \<open>%q\<close> on a string (\<open>strconv.Quote\<close>).  \<open>isPrint\<close> is \<open>strconv.IsPrint\<close> beyond ASCII, a table of Unicode.\<close>

definition hex_digits :: "nat \<Rightarrow> nat \<Rightarrow> gostring" where
  "hex_digits k n = map (\<lambda>i. digit_char (n div 16 ^ (k - 1 - i) mod 16)) [0..<k]"

definition quote_byte :: "char \<Rightarrow> gostring" where
  "quote_byte ch =
     (if ch = CHR 0x22 \<or> ch = CHR 0x5C then [CHR 0x5C, ch]
      else if byte_in 32 126 ch then [ch]
      else case map_of [(7, CHR ''a''), (8, CHR ''b''), (12, CHR ''f''), (10, CHR ''n''), (13, CHR ''r''), (9, CHR ''t''), (11, CHR ''v'')]
             (of_char ch :: nat) of
        Some e \<Rightarrow> [CHR 0x5C, e]
      | None \<Rightarrow> [CHR 0x5C, CHR ''x''] @ hex_digits 2 (of_char ch))"

text \<open>The code point of a valid sequence of more than one byte.\<close>

definition rune_value :: "gostring \<Rightarrow> nat" where
  "rune_value r = foldl (\<lambda>acc ch. acc * 64 + of_char ch mod 64) (of_char (hd r) mod 2 ^ (7 - length r)) (tl r)"

definition quote_rune :: "(nat \<Rightarrow> bool) \<Rightarrow> gostring \<Rightarrow> gostring" where
  "quote_rune isPrint r =
     (if length r = 1 then quote_byte (hd r)
      else let v = rune_value r in
        if isPrint v then r
        else if v < 0x10000 then [CHR 0x5C, CHR ''u''] @ hex_digits 4 v
        else [CHR 0x5C, CHR ''U''] @ hex_digits 8 v)"

function quote_from :: "(nat \<Rightarrow> bool) \<Rightarrow> gostring \<Rightarrow> gostring" where
  "quote_from isPrint s =
     (if s = [] then [] else quote_rune isPrint (take (rune_width s) s) @ quote_from isPrint (drop (rune_width s) s))"
  by auto
termination
  by (relation "measure (\<lambda>(_, s). length s)") (use rune_width_pos in auto)

declare quote_from.simps [simp del]

definition Quote :: "(nat \<Rightarrow> bool) \<Rightarrow> gostring \<Rightarrow> gostring" where
  "Quote isPrint s = [CHR 0x22] @ quote_from isPrint s @ [CHR 0x22]"

section \<open>The end of a transaction\<close>

text \<open>How a deferred function can panic: with what \<open>recover\<close> gave it, or because the rollback failed, with the texts of both errors.\<close>

datatype 'p panic = Repanic 'p | RollbackFailed error go_error

text \<open>The rollback: the statements in turn until one fails.\<close>

fun run_all :: "(gostring \<Rightarrow> 'c \<Rightarrow> (error \<times> 'c) option) \<Rightarrow> gostring list \<Rightarrow> 'c \<Rightarrow> (error \<times> 'c) option" where
  "run_all execute [] c = Some (None, c)"
| "run_all execute (q # qs) c = do {
     (err, c) \<leftarrow> execute q c;
     if err \<noteq> None then Some (err, c) else run_all execute qs c
   }"

text \<open>The two deferred functions are the same but for the statements they run: \<open>commit\<close> on success, \<open>rollback\<close> on the error path.  The three
  operations on the connection are parameters, so that what the function does can be stated for their interface.\<close>

definition end_fn :: "(gostring \<Rightarrow> 'c \<Rightarrow> (error \<times> 'c) option) \<Rightarrow> ('c \<Rightarrow> bool) \<Rightarrow> (nat option \<Rightarrow> 'c \<Rightarrow> (nat option \<times> 'c) option) \<Rightarrow>
    gostring \<Rightarrow> gostring list \<Rightarrow> error \<Rightarrow> 'p option \<Rightarrow> 'c \<Rightarrow> (('p panic option \<times> error) \<times> 'c) option" where
  "end_fn execute autocommit setInterrupt commit rollback errp recoverP c =
     (if autocommit c then Some ((map_option Repanic recoverP, errp), c)
      else do {
        ((errp, ended), c) \<leftarrow>
          (if errp = None \<and> recoverP = None then do {
             (err, c) \<leftarrow> execute commit c;
             Some ((err, err = None \<or> autocommit c), c)
           }
           else Some ((errp, False), c));
        if ended then Some ((None, errp), c)
        else do {
          (oldDoneCh, c) \<leftarrow> setInterrupt None c;
          (err, c) \<leftarrow> run_all execute rollback c;
          (_, c) \<leftarrow> setInterrupt oldDoneCh c;
          Some ((case err of Some e \<Rightarrow> Some (RollbackFailed errp e) | None \<Rightarrow> map_option Repanic recoverP, errp), c)
        }
      })"

section \<open>Savepoints and transactions\<close>

definition sql_savepoint :: "(nat \<Rightarrow> bool) \<Rightarrow> gostring \<Rightarrow> gostring" where
  "sql_savepoint isPrint name = ''SAVEPOINT '' @ Quote isPrint name @ '';''"
definition sql_release :: "(nat \<Rightarrow> bool) \<Rightarrow> gostring \<Rightarrow> gostring" where
  "sql_release isPrint name = ''RELEASE '' @ Quote isPrint name @ '';''"
definition sql_rollback_to :: "(nat \<Rightarrow> bool) \<Rightarrow> gostring \<Rightarrow> gostring" where
  "sql_rollback_to isPrint name = ''ROLLBACK TO '' @ Quote isPrint name @ '';''"
definition sql_begin :: "gostring \<Rightarrow> gostring" where "sql_begin mode = ''BEGIN '' @ mode @ '';''"
definition sql_commit :: gostring where "sql_commit = ''COMMIT;''"
definition sql_rollback :: gostring where "sql_rollback = ''ROLLBACK;''"

text \<open>The functions that the source returns.\<close>

datatype release_fn =
    EndSavepoint gostring
  | EndTransaction
  | StoreError go_error
  | DoNothing

definition end_savepoint :: "lib_consts \<Rightarrow> ('w, 'm) sqlite_lib_scheme \<Rightarrow> (nat \<Rightarrow> bool) \<Rightarrow> gostring \<Rightarrow> error \<Rightarrow> 'p option \<Rightarrow> 'w Conn \<Rightarrow>
    (('p panic option \<times> error) \<times> 'w Conn) option" where
  "end_savepoint K L isPrint name =
     end_fn (\<lambda>q. Execute K L q None) (AutocommitEnabled L) (SetInterrupt K L) (sql_release isPrint name)
       [sql_rollback_to isPrint name, sql_release isPrint name]"

definition end_transaction :: "lib_consts \<Rightarrow> ('w, 'm) sqlite_lib_scheme \<Rightarrow> error \<Rightarrow> 'p option \<Rightarrow> 'w Conn \<Rightarrow>
    (('p panic option \<times> error) \<times> 'w Conn) option" where
  "end_transaction K L =
     end_fn (\<lambda>q. Execute K L q None) (AutocommitEnabled L) (SetInterrupt K L) sql_commit [sql_rollback]"

definition run_release :: "lib_consts \<Rightarrow> ('w, 'm) sqlite_lib_scheme \<Rightarrow> (nat \<Rightarrow> bool) \<Rightarrow> release_fn \<Rightarrow> error \<Rightarrow> 'p option \<Rightarrow> 'w Conn \<Rightarrow>
    (('p panic option \<times> error) \<times> 'w Conn) option" where
  "run_release K L isPrint f errp recoverP c = (case f of
     EndSavepoint name \<Rightarrow> end_savepoint K L isPrint name errp recoverP c
   | EndTransaction \<Rightarrow> end_transaction K L errp recoverP c
   | StoreError e \<Rightarrow> Some ((map_option Repanic recoverP, if errp = None then Some e else errp), c)
   | DoNothing \<Rightarrow> Some ((map_option Repanic recoverP, errp), c))"

definition savepoint :: "lib_consts \<Rightarrow> ('w, 'm) sqlite_lib_scheme \<Rightarrow> (nat \<Rightarrow> bool) \<Rightarrow> gostring \<Rightarrow> 'w Conn \<Rightarrow>
    ((go_error + release_fn) \<times> 'w Conn) option" where
  "savepoint K L isPrint name c =
     (if strings_ContainsByte name (CHR 0x22)
      then Some (Inl (ErrorString (''sqlitex.Savepoint: invalid name: '' @ Quote isPrint name)), c)
      else do {
        (err, c) \<leftarrow> Execute K L (sql_savepoint isPrint name) None c;
        (case err of Some e \<Rightarrow> Some (Inl e, c) | None \<Rightarrow> Some (Inr (EndSavepoint name), c))
      })"

text \<open>An interrupt is kept for the end, any other error is a panic (\<open>Inl\<close>).\<close>

definition or_panic :: "lib_consts \<Rightarrow> go_error + release_fn \<Rightarrow> go_error + release_fn" where
  "or_panic K r = (case r of
     Inl e \<Rightarrow> if ErrCode K (Some e) = ResultInterrupt K then Inr (StoreError e) else Inl e
   | Inr f \<Rightarrow> Inr f)"

text \<open>\<open>caller\<close> is the name of the calling function, empty if the runtime does not know it.\<close>

definition save_name :: "gostring \<Rightarrow> gostring" where
  "save_name caller = (if caller \<noteq> '''' then caller else ''sqlitex.Save'')"

definition Save :: "lib_consts \<Rightarrow> ('w, 'm) sqlite_lib_scheme \<Rightarrow> (nat \<Rightarrow> bool) \<Rightarrow> gostring \<Rightarrow> 'w Conn \<Rightarrow>
    ((go_error + release_fn) \<times> 'w Conn) option" where
  "Save K L isPrint caller c =
     map_option (\<lambda>(r, c). (or_panic K r, c)) (savepoint K L isPrint (save_name caller) c)"

definition transaction :: "lib_consts \<Rightarrow> ('w, 'm) sqlite_lib_scheme \<Rightarrow> gostring \<Rightarrow> 'w Conn \<Rightarrow>
    ((go_error + release_fn) \<times> 'w Conn) option" where
  "transaction K L mode c = do {
     (err, c) \<leftarrow> Execute K L (sql_begin mode) None c;
     (case err of Some e \<Rightarrow> Some (Inl e, c) | None \<Rightarrow> Some (Inr EndTransaction, c))
   }"

definition Transaction :: "lib_consts \<Rightarrow> ('w, 'm) sqlite_lib_scheme \<Rightarrow> 'w Conn \<Rightarrow> ((go_error + release_fn) \<times> 'w Conn) option" where
  "Transaction K L c = map_option (\<lambda>(r, c). (or_panic K r, c)) (transaction K L ''DEFERRED'' c)"

text \<open>Both return the function and an error.\<close>

definition ImmediateTransaction :: "lib_consts \<Rightarrow> ('w, 'm) sqlite_lib_scheme \<Rightarrow> 'w Conn \<Rightarrow> ((release_fn \<times> error) \<times> 'w Conn) option" where
  "ImmediateTransaction K L c = map_option (\<lambda>(r, c). (case r of Inl e \<Rightarrow> (DoNothing, Some e) | Inr f \<Rightarrow> (f, None), c))
     (transaction K L ''IMMEDIATE'' c)"

definition ExclusiveTransaction :: "lib_consts \<Rightarrow> ('w, 'm) sqlite_lib_scheme \<Rightarrow> 'w Conn \<Rightarrow> ((release_fn \<times> error) \<times> 'w Conn) option" where
  "ExclusiveTransaction K L c = map_option (\<lambda>(r, c). (case r of Inl e \<Rightarrow> (DoNothing, Some e) | Inr f \<Rightarrow> (f, None), c))
     (transaction K L ''EXCLUSIVE'' c)"

section \<open>Scripts\<close>

definition param_names_of :: "Stmt \<Rightarrow> gostring list" where
  "param_names_of st = filter (\<lambda>name. name \<noteq> '''') (map (\<lambda>i. BindParamName st (int i)) [1..<BindParamCount st + 1])"

text \<open>The loop over the statements; \<open>unused\<close> are the named arguments that no statement had so far.\<close>

partial_function (option) script_loop :: "lib_consts \<Rightarrow> ('w, 'm) sqlite_lib_scheme \<Rightarrow> 'w ExecOptions option \<Rightarrow> gostring \<Rightarrow> gostring list \<Rightarrow>
    'w Conn \<Rightarrow> ((error \<times> gostring list) \<times> 'w Conn) option" where
  "script_loop K L opts queries unused c =
     (let queries = TrimSpace queries in
      if queries = '''' then Some ((None, unused), c)
      else case PrepareTransient K L queries c of
        ((Some s, trailingBytes, None), c) \<Rightarrow>
          (let unused = filter (\<lambda>k. k \<notin> set (param_names_of (stmt_at c s))) unused;
               usedBytes = int (length queries) - trailingBytes
           in if usedBytes < 0 \<or> int (length queries) < usedBytes then None
              else do {
                (err, c) \<leftarrow> exec K L s forbidMissing opts c;
                (_, c) \<leftarrow> Finalize K L s c;
                if err \<noteq> None then Some ((err, unused), c)
                else script_loop K L opts (drop (nat usedBytes) queries) unused c
              })
      | ((_, _, err), c) \<Rightarrow> Some ((err, unused), c))"

definition script_body :: "lib_consts \<Rightarrow> ('w, 'm) sqlite_lib_scheme \<Rightarrow> 'w ExecOptions option \<Rightarrow> gostring \<Rightarrow> 'w Conn \<Rightarrow> (error \<times> 'w Conn) option" where
  "script_body K L opts queries c = do {
     ((err, unused), c) \<leftarrow> script_loop K L opts queries (case opts of None \<Rightarrow> [] | Some o' \<Rightarrow> map fst (o_Named o')) c;
     if err \<noteq> None then Some (err, c)
     else if 0 < length unused then Some (err_unknown K (minStringInSet unused), c)
     else Some (None, c)
   }"

text \<open>\<open>Inl\<close>: a panic, of \<open>Save\<close> or of the deferred function.\<close>

definition ExecuteScript :: "lib_consts \<Rightarrow> ('w, 'm) sqlite_lib_scheme \<Rightarrow> (nat \<Rightarrow> bool) \<Rightarrow> gostring \<Rightarrow> 'w ExecOptions option \<Rightarrow> 'w Conn \<Rightarrow>
    ((go_error panic + error) \<times> 'w Conn) option" where
  "ExecuteScript K L isPrint queries opts c = do {
     (r, c) \<leftarrow> Save K L isPrint ''zombiezen.com/go/sqlite/sqlitex.ExecuteScript'' c;
     (case r of
        Inl e \<Rightarrow> Some (Inl (Repanic e), c)
      | Inr f \<Rightarrow> do {
          (err, c) \<leftarrow> script_body K L opts queries c;
          ((panic, err), c) \<leftarrow> run_release K L isPrint f err None c;
          Some (case panic of Some p \<Rightarrow> Inl p | None \<Rightarrow> Inr err, c)
        })
   }"

definition ExecScript :: "lib_consts \<Rightarrow> ('w, 'm) sqlite_lib_scheme \<Rightarrow> (nat \<Rightarrow> bool) \<Rightarrow> gostring \<Rightarrow> 'w Conn \<Rightarrow>
    ((go_error panic + error) \<times> 'w Conn) option" where
  "ExecScript K L isPrint queries c = ExecuteScript K L isPrint queries None c"

section \<open>Statements from files\<close>

text \<open>A file system gives, for a name, the error of \<open>Open\<close> or what can be read and the error the reading ends with.\<close>

type_synonym file_system = "gostring \<Rightarrow> go_error + (gostring \<times> error)"

definition readString :: "file_system \<Rightarrow> gostring \<Rightarrow> gostring \<times> error" where
  "readString fsys filename = (case fsys filename of
     Inl e \<Rightarrow> ('''', Some e)
   | Inr (content, err) \<Rightarrow> if err \<noteq> None then ('''', wrap_error (filename @ '': %w'') err) else (content, None))"

definition fmt_execute :: "gostring \<Rightarrow> gostring" where
  "fmt_execute filename = ''sqlitex: execute '' @ filename @ '': %w''"

text \<open>The end of \<open>ExecuteFS\<close> and \<open>ExecuteTransientFS\<close>: when only the reset failed, its error is not the one that is wrapped.\<close>

definition fs_result :: "gostring \<Rightarrow> error \<Rightarrow> error \<Rightarrow> error" where
  "fs_result filename err resetErr =
     (if err \<noteq> None then errorf_w (fmt_execute filename) err
      else if resetErr \<noteq> None then errorf_w (fmt_execute filename) err
      else None)"

definition ExecuteFS :: "lib_consts \<Rightarrow> ('w, 'm) sqlite_lib_scheme \<Rightarrow> file_system \<Rightarrow> gostring \<Rightarrow> 'w ExecOptions option \<Rightarrow> 'w Conn \<Rightarrow>
    (error \<times> 'w Conn) option" where
  "ExecuteFS K L fsys filename opts c =
     (case readString fsys filename of (query, err) \<Rightarrow>
        if err \<noteq> None then Some (errorf_w ''sqlitex: execute: %w'' err, c)
        else do {
          ((so, err), c) \<leftarrow> Prepare K L (TrimSpace query) c;
          (case so of
             None \<Rightarrow> Some (errorf_w (fmt_execute filename) err, c)
           | Some s \<Rightarrow> do {
               (err, c) \<leftarrow> exec K L s (forbidMissing OR forbidExtra) opts c;
               (resetErr, c) \<leftarrow> Reset K L s c;
               Some (fs_result filename err resetErr, c)
             })
        })"

definition ExecuteTransientFS :: "lib_consts \<Rightarrow> ('w, 'm) sqlite_lib_scheme \<Rightarrow> file_system \<Rightarrow> gostring \<Rightarrow> 'w ExecOptions option \<Rightarrow> 'w Conn \<Rightarrow>
    (error \<times> 'w Conn) option" where
  "ExecuteTransientFS K L fsys filename opts c =
     (case readString fsys filename of (query, err) \<Rightarrow>
        if err \<noteq> None then Some (errorf_w ''sqlitex: execute: %w'' err, c)
        else case PrepareTransient K L (TrimSpace query) c of
          ((Some s, _, None), c) \<Rightarrow> do {
            (err, c) \<leftarrow> exec K L s (forbidMissing OR forbidExtra) opts c;
            (resetErr, c) \<leftarrow> Reset K L s c;
            (_, c) \<leftarrow> Finalize K L s c;
            Some (fs_result filename err resetErr, c)
          }
        | ((_, _, err), c) \<Rightarrow> Some (errorf_w (fmt_execute filename) err, c))"

definition PrepareTransientFS :: "lib_consts \<Rightarrow> ('w, 'm) sqlite_lib_scheme \<Rightarrow> file_system \<Rightarrow> gostring \<Rightarrow> 'w Conn \<Rightarrow>
    (nat option \<times> error) \<times> 'w Conn" where
  "PrepareTransientFS K L fsys filename c =
     (case readString fsys filename of (query, err) \<Rightarrow>
        if err \<noteq> None then ((None, errorf_w ''sqlitex: prepare: %w'' err), c)
        else case PrepareTransient K L (TrimSpace query) c of
          ((Some s, _, None), c) \<Rightarrow> ((Some s, None), c)
        | ((_, _, err), c) \<Rightarrow> ((None, errorf_w (''sqlitex: prepare '' @ filename @ '': %w'') err), c))"

definition ExecuteScriptFS :: "lib_consts \<Rightarrow> ('w, 'm) sqlite_lib_scheme \<Rightarrow> (nat \<Rightarrow> bool) \<Rightarrow> file_system \<Rightarrow> gostring \<Rightarrow> 'w ExecOptions option \<Rightarrow>
    'w Conn \<Rightarrow> ((go_error panic + error) \<times> 'w Conn) option" where
  "ExecuteScriptFS K L isPrint fsys filename opts c =
     (case readString fsys filename of (queries, err) \<Rightarrow>
        if err \<noteq> None then Some (Inr (errorf_w ''sqlitex: execute script: %w'' err), c)
        else map_option (\<lambda>(r, c). (case r of Inl p \<Rightarrow> Inl p | Inr err \<Rightarrow> Inr (wrap_error (fmt_execute filename) err), c))
          (ExecuteScript K L isPrint queries opts c))"

end
