(* ===== verification/Blob.thy ===== *)
theory Blob
  imports StmtSpec
begin

text \<open>
  Streaming access to one BLOB (blob.go): opening, reading and writing through a buffer of 4096 bytes of C memory, seeking,
  closing.  The calls of SQLite for blobs extend the record of calls that statements use.
\<close>

section \<open>State\<close>

text \<open>\<open>x_blob_read\<close> returns the bytes that SQLite stores in the buffer; \<open>x_blob_write\<close> gets the bytes it finds there.\<close>

record 'w blob_lib = "'w sqlite_lib" +
  x_blob_open :: "gostring \<Rightarrow> gostring \<Rightarrow> gostring \<Rightarrow> int \<Rightarrow> bool \<Rightarrow> 'w \<Rightarrow> (int \<times> nat) \<times> 'w"
  x_blob_bytes :: "nat \<Rightarrow> 'w \<Rightarrow> int"
  x_blob_read :: "nat \<Rightarrow> nat \<Rightarrow> int \<Rightarrow> 'w \<Rightarrow> (int \<times> gostring) \<times> 'w"
  x_blob_write :: "nat \<Rightarrow> gostring \<Rightarrow> int \<Rightarrow> 'w \<Rightarrow> int \<times> 'w"
  x_blob_close :: "nat \<Rightarrow> 'w \<Rightarrow> int \<times> 'w"
  x_last_insert_rowid :: "'w \<Rightarrow> int"

text \<open>\<open>b_buf\<close>: the contents of the C buffer, to which \<open>bufSlice\<close> gives access; none once it has been freed.\<close>

record Blob =
  b_blob :: nat
  b_buf :: gostring
  b_off :: int
  b_size :: int

definition blobBufSize :: nat where "blobBufSize = 4096"

definition errInvalidBlob :: go_error where "errInvalidBlob = ErrorString ''invalid blob''"
definition fmt_open_blob :: gostring where "fmt_open_blob = ''sqlite: open blob %q.%q: %w''"
definition fmt_read_blob :: gostring where "fmt_read_blob = ''sqlite: read blob: %w''"
definition fmt_write_blob :: gostring where "fmt_write_blob = ''sqlite: write blob: %w''"
definition fmt_close_blob :: gostring where "fmt_close_blob = ''sqlite: close blob: %w''"

lemma blobBufSize_pos [simp]: "0 < blobBufSize"
  by (simp add: blobBufSize_def)

section \<open>Opening\<close>

definition LastInsertRowID :: "('w, 'm) blob_lib_scheme \<Rightarrow> 'w Conn \<Rightarrow> int" where
  "LastInsertRowID L c = x_last_insert_rowid L (c_world c)"

text \<open>The name of the database as a C string, if it can be allocated.\<close>

definition cDBName :: "('w, 'm) sqlite_lib_scheme \<Rightarrow> gostring \<Rightarrow> 'w Conn \<Rightarrow> (gostring \<times> error) \<times> 'w Conn" where
  "cDBName L dbn c =
     (if dbn = '''' \<or> dbn = ''main'' then ((''main'', None), c)
      else if dbn = ''temp'' then ((''temp'', None), c)
      else case lib_call (x_cstring L dbn) c of (err, c) \<Rightarrow> ((dbn, err), c))"

definition x_alloc :: "('w, 'm) sqlite_lib_scheme \<Rightarrow> nat \<Rightarrow> 'w Conn \<Rightarrow> error \<times> 'w Conn" where
  "x_alloc L n c = (case lib_call (x_malloc L n) c of (ok, c) \<Rightarrow> (if ok then None else Some err_nomem, c))"

partial_function (option) openBlob_loop ::
  "lib_consts \<Rightarrow> ('w, 'm) blob_lib_scheme \<Rightarrow> gostring \<Rightarrow> gostring \<Rightarrow> gostring \<Rightarrow> int \<Rightarrow> bool \<Rightarrow> 'w Conn \<Rightarrow>
    ((Blob option \<times> error) \<times> 'w Conn) option" where
  "openBlob_loop K L dbn tab col row wr c =
     (case Conn_interrupted K L c of (err, c) \<Rightarrow>
        if err \<noteq> None then Some ((None, wrap_error fmt_open_blob err), c)
        else case lib_call (x_blob_open L dbn tab col row wr) c of ((res, p), c) \<Rightarrow>
          if res = ResultLockedSharedCache K then do {
            (r, c) \<leftarrow> Conn_wait K L c;
            if ToError K r \<noteq> None then Some ((None, wrap_error fmt_open_blob (ToError K r)), c)
            else openBlob_loop K L dbn tab col row wr c
          }
          else if res = ResultOK K then
            Some ((Some \<lparr>b_blob = p, b_buf = replicate blobBufSize (CHR 0x00), b_off = 0, b_size = x_blob_bytes L p (c_world c)\<rparr>, None), c)
          else Some ((None, errorf_w fmt_open_blob (conn_extreserr K L res c)), c))"

text \<open>The allocations before the loop: the database name, the buffer, the table, the column and the cell for the handle.\<close>

definition openBlob :: "lib_consts \<Rightarrow> ('w, 'm) blob_lib_scheme \<Rightarrow> gostring \<Rightarrow> gostring \<Rightarrow> gostring \<Rightarrow> int \<Rightarrow> bool \<Rightarrow> 'w Conn \<Rightarrow>
    ((Blob option \<times> error) \<times> 'w Conn) option" where
  "openBlob K L dbn tab col row wr c =
     (case cDBName L dbn c of ((cdb, err), c) \<Rightarrow>
      if err \<noteq> None then Some ((None, wrap_error fmt_open_blob err), c)
      else case x_alloc L blobBufSize c of (err, c) \<Rightarrow>
      if err \<noteq> None then Some ((None, wrap_error fmt_open_blob err), c)
      else case lib_call (x_cstring L tab) c of (err, c) \<Rightarrow>
      if err \<noteq> None then Some ((None, wrap_error fmt_open_blob err), c)
      else case lib_call (x_cstring L col) c of (err, c) \<Rightarrow>
      if err \<noteq> None then Some ((None, wrap_error fmt_open_blob err), c)
      else case x_alloc L 8 c of (err, c) \<Rightarrow>
      if err \<noteq> None then Some ((None, wrap_error fmt_open_blob err), c)
      else openBlob_loop K L cdb tab col row wr c)"

section \<open>Reading\<close>

text \<open>The loop of \<open>Read\<close>: \<open>n\<close> bytes are still wanted, \<open>acc\<close> are those copied into the caller's slice so far.\<close>

function blob_read_loop :: "lib_consts \<Rightarrow> ('w, 'm) blob_lib_scheme \<Rightarrow> nat \<Rightarrow> gostring \<Rightarrow> Blob \<Rightarrow> 'w Conn \<Rightarrow>
    (gostring \<times> error) \<times> Blob \<times> 'w Conn" where
  "blob_read_loop K L n acc b c =
     (if n = 0 then ((acc, None), b, c)
      else let nn = min blobBufSize n in
        case lib_call (x_blob_read L (b_blob b) nn (b_off b)) c of ((res, bytes), c) \<Rightarrow>
          let b = b\<lparr>b_buf := splice (b_buf b) 0 bytes\<rparr> in
          if ToError K res \<noteq> None then ((acc, wrap_error fmt_read_blob (ToError K res)), b, c)
          else blob_read_loop K L (n - nn) (acc @ take nn (b_buf b)) (b\<lparr>b_off := wrap32 (b_off b + int nn)\<rparr>) c)"
  by pat_completeness auto
termination
  by (relation "measure (\<lambda>(K, L, n, acc, b, c). n)") (auto simp: blobBufSize_def)

declare blob_read_loop.simps [simp del]

text \<open>The slice \<open>p\<close> of the caller is passed in and returned with what was copied into it.\<close>

definition Blob_Read :: "lib_consts \<Rightarrow> ('w, 'm) blob_lib_scheme \<Rightarrow> gostring \<Rightarrow> Blob \<Rightarrow> 'w Conn \<Rightarrow>
    ((nat \<times> error) \<times> gostring) \<times> Blob \<times> 'w Conn" where
  "Blob_Read K L p b c =
     (if b_blob b = 0 then (((0, Some (Errorf fmt_read_blob errInvalidBlob)), p), b, c)
      else if b_size b \<le> b_off b then (((0, Some io_EOF), p), b, c)
      else case Conn_interrupted K L c of (err, c) \<Rightarrow>
        if err \<noteq> None then (((0, wrap_error fmt_read_blob err), p), b, c)
        else let rem = wrap32 (b_size b - b_off b);
                 fullLen = (if rem < int (length p) then nat rem else length p)
             in case blob_read_loop K L fullLen [] b c of ((bytes, err), b, c) \<Rightarrow>
               (((length bytes, err), splice p 0 bytes), b, c))"

text \<open>\<open>WriteTo\<close> with a writer: \<open>wr\<close> is its \<open>Write\<close> on the writer's own state.  A writer that never takes anything
  and returns no error keeps the loop running.\<close>

partial_function (option) WriteTo_loop :: "lib_consts \<Rightarrow> ('w, 'm) blob_lib_scheme \<Rightarrow> (gostring \<Rightarrow> 's \<Rightarrow> (int \<times> error) \<times> 's) \<Rightarrow> int \<Rightarrow>
    's \<Rightarrow> Blob \<Rightarrow> 'w Conn \<Rightarrow> ((int \<times> error) \<times> 's \<times> Blob \<times> 'w Conn) option" where
  "WriteTo_loop K L wr n st b c =
     (if \<not> b_off b < b_size b then Some ((n, None), st, b, c)
      else let remaining = wrap32 (b_size b - b_off b);
               len = (if remaining < int blobBufSize then nat remaining else blobBufSize)
           in case lib_call (x_blob_read L (b_blob b) len (b_off b)) c of ((res, bytes), c) \<Rightarrow>
             let b = b\<lparr>b_buf := splice (b_buf b) 0 bytes\<rparr> in
             if ToError K res \<noteq> None then Some ((n, wrap_error fmt_read_blob (ToError K res)), st, b, c)
             else case wr (take len (b_buf b)) st of ((nn, err), st) \<Rightarrow>
               let b = b\<lparr>b_off := wrap32 (b_off b + wrap32 nn)\<rparr>; n = wrap64 (n + nn) in
               if err \<noteq> None then Some ((n, err), st, b, c) else WriteTo_loop K L wr n st b c)"

definition Blob_WriteTo :: "lib_consts \<Rightarrow> ('w, 'm) blob_lib_scheme \<Rightarrow> (gostring \<Rightarrow> 's \<Rightarrow> (int \<times> error) \<times> 's) \<Rightarrow> 's \<Rightarrow> Blob \<Rightarrow> 'w Conn \<Rightarrow>
    ((int \<times> error) \<times> 's \<times> Blob \<times> 'w Conn) option" where
  "Blob_WriteTo K L wr st b c =
     (if b_blob b = 0 then Some ((0, Some (Errorf fmt_read_blob errInvalidBlob)), st, b, c)
      else if b_size b \<le> b_off b then Some ((0, None), st, b, c)
      else case Conn_interrupted K L c of (err, c) \<Rightarrow>
        if err \<noteq> None then Some ((0, wrap_error fmt_read_blob err), st, b, c)
        else WriteTo_loop K L wr 0 st b c)"

section \<open>Writing\<close>

text \<open>The loop of \<open>Write\<close> and \<open>WriteString\<close>; \<open>done\<close> bytes have been written.\<close>

function blob_write_loop :: "lib_consts \<Rightarrow> ('w, 'm) blob_lib_scheme \<Rightarrow> nat \<Rightarrow> gostring \<Rightarrow> Blob \<Rightarrow> 'w Conn \<Rightarrow>
    (nat \<times> error) \<times> Blob \<times> 'w Conn" where
  "blob_write_loop K L k p b c =
     (if p = [] then ((k, None), b, c)
      else let nn = min blobBufSize (length p); b = b\<lparr>b_buf := splice (b_buf b) 0 (take nn p)\<rparr> in
        case lib_call (x_blob_write L (b_blob b) (take nn (b_buf b)) (b_off b)) c of (res, c) \<Rightarrow>
          if ToError K res \<noteq> None then ((k, wrap_error fmt_write_blob (ToError K res)), b, c)
          else blob_write_loop K L (k + nn) (drop nn p) (b\<lparr>b_off := wrap32 (b_off b + int nn)\<rparr>) c)"
  by pat_completeness auto
termination
  by (relation "measure (\<lambda>(K, L, k, p, b, c). length p)") (auto simp: blobBufSize_def)

declare blob_write_loop.simps [simp del]

definition Blob_Write :: "lib_consts \<Rightarrow> ('w, 'm) blob_lib_scheme \<Rightarrow> gostring \<Rightarrow> Blob \<Rightarrow> 'w Conn \<Rightarrow> (nat \<times> error) \<times> Blob \<times> 'w Conn" where
  "Blob_Write K L p b c =
     (if b_blob b = 0 then ((0, Some (Errorf fmt_write_blob errInvalidBlob)), b, c)
      else case Conn_interrupted K L c of (err, c) \<Rightarrow>
        if err \<noteq> None then ((0, wrap_error fmt_write_blob err), b, c)
        else blob_write_loop K L 0 p b c)"

definition Blob_WriteString :: "lib_consts \<Rightarrow> ('w, 'm) blob_lib_scheme \<Rightarrow> gostring \<Rightarrow> Blob \<Rightarrow> 'w Conn \<Rightarrow> (nat \<times> error) \<times> Blob \<times> 'w Conn" where
  "Blob_WriteString K L s b c =
     (if b_blob b = 0 then ((0, Some (Errorf fmt_write_blob errInvalidBlob)), b, c)
      else case Conn_interrupted K L c of (err, c) \<Rightarrow>
        if err \<noteq> None then ((0, wrap_error fmt_write_blob err), b, c)
        else blob_write_loop K L 0 s b c)"

text \<open>\<open>ReadFrom\<close> with a reader: \<open>rd\<close> is its \<open>Read\<close> into a slice of the given length, on the reader's own state.\<close>

partial_function (option) ReadFrom_loop :: "lib_consts \<Rightarrow> ('w, 'm) blob_lib_scheme \<Rightarrow> (nat \<Rightarrow> 's \<Rightarrow> (gostring \<times> error) \<times> 's) \<Rightarrow> int \<Rightarrow>
    's \<Rightarrow> Blob \<Rightarrow> 'w Conn \<Rightarrow> ((int \<times> error) \<times> 's \<times> Blob \<times> 'w Conn) option" where
  "ReadFrom_loop K L rd n st b c =
     (case rd blobBufSize st of ((bytes, err), st) \<Rightarrow>
        let b = b\<lparr>b_buf := splice (b_buf b) 0 bytes\<rparr>; nn = length bytes in
        case (if 0 < nn then lib_call (x_blob_write L (b_blob b) (take nn (b_buf b)) (b_off b)) c else (ResultOK K, c)) of (res, c) \<Rightarrow>
          if ToError K res \<noteq> None then Some ((n, wrap_error fmt_write_blob (ToError K res)), st, b, c)
          else let n = wrap64 (n + int nn); b = b\<lparr>b_off := wrap32 (b_off b + int nn)\<rparr> in
            if err \<noteq> None then Some ((n, if err = Some io_EOF then None else err), st, b, c)
            else ReadFrom_loop K L rd n st b c)"

definition Blob_ReadFrom :: "lib_consts \<Rightarrow> ('w, 'm) blob_lib_scheme \<Rightarrow> (nat \<Rightarrow> 's \<Rightarrow> (gostring \<times> error) \<times> 's) \<Rightarrow> 's \<Rightarrow> Blob \<Rightarrow> 'w Conn \<Rightarrow>
    ((int \<times> error) \<times> 's \<times> Blob \<times> 'w Conn) option" where
  "Blob_ReadFrom K L rd st b c =
     (if b_blob b = 0 then Some ((0, Some (Errorf fmt_write_blob errInvalidBlob)), st, b, c)
      else case Conn_interrupted K L c of (err, c) \<Rightarrow>
        if err \<noteq> None then Some ((0, wrap_error fmt_write_blob err), st, b, c)
        else ReadFrom_loop K L rd 0 st b c)"

section \<open>Seeking and closing\<close>

definition err_seek :: "gostring \<Rightarrow> int \<Rightarrow> error" where
  "err_seek what n = Some (ErrorString (''sqlite: seek blob: '' @ what @ FormatInt n))"

definition Blob_Seek :: "int \<Rightarrow> int \<Rightarrow> Blob \<Rightarrow> (int \<times> error) \<times> Blob" where
  "Blob_Seek offset whence b =
     (if whence \<notin> {0, 1, 2} then ((b_off b, err_seek ''invalid whence '' whence), b)
      else let offset = (if whence = 0 then offset else if whence = 1 then wrap64 (offset + b_off b) else wrap64 (offset + b_size b)) in
        if offset < 0 then ((b_off b, err_seek ''negative offset '' offset), b)
        else if b_size b < offset
          then ((b_off b, Some (ErrorString (''sqlite: seek blob: offset '' @ FormatInt offset @ '' is past size '' @ FormatInt (b_size b)))), b)
        else ((offset, None), b\<lparr>b_off := wrap32 offset\<rparr>))"

definition Blob_Size :: "Blob \<Rightarrow> int" where
  "Blob_Size b = b_size b"

definition Blob_Close :: "lib_consts \<Rightarrow> ('w, 'm) blob_lib_scheme \<Rightarrow> Blob \<Rightarrow> 'w Conn \<Rightarrow> error \<times> Blob \<times> 'w Conn" where
  "Blob_Close K L b c =
     (if b_blob b = 0 then (Some errInvalidBlob, b, c)
      else case lib_call (x_blob_close L (b_blob b)) c of (res, c) \<Rightarrow>
        (wrap_error fmt_close_blob (ToError K res), b\<lparr>b_buf := [], b_blob := 0\<rparr>, c))"

section \<open>What SQLite promises of blobs\<close>

text \<open>A view \<open>D\<close> gives the contents of the open handles.  A read in range copies the bytes, a write in range replaces them; a
  call out of range fails.  A failed write leaves the size as it was, and nothing else changes the contents.\<close>

definition lib_blob_ok :: "lib_consts \<Rightarrow> ('w, 'm) blob_lib_scheme \<Rightarrow> (nat \<Rightarrow> 'w \<Rightarrow> gostring option) \<Rightarrow> bool" where
  "lib_blob_ok K L D \<longleftrightarrow>
     (\<forall>p n off w d. D p w = Some d \<longrightarrow> (case x_blob_read L p n off w of ((res, bytes), w') \<Rightarrow>
        D p w' = Some d \<and> length bytes \<le> n \<and>
        (IsSuccess K res \<longrightarrow> 0 \<le> off \<and> nat off + n \<le> length d \<and> bytes = take n (drop (nat off) d)))) \<and>
     (\<forall>p data off w d. D p w = Some d \<longrightarrow> (case x_blob_write L p data off w of (res, w') \<Rightarrow>
        (if IsSuccess K res then 0 \<le> off \<and> nat off + length data \<le> length d \<and> D p w' = Some (splice d (nat off) data)
         else \<exists>d'. D p w' = Some d' \<and> length d' = length d))) \<and>
     (\<forall>p q n off w. q \<noteq> p \<longrightarrow> D q (snd (x_blob_read L p n off w)) = D q w) \<and>
     (\<forall>p q data off w. q \<noteq> p \<longrightarrow> D q (snd (x_blob_write L p data off w)) = D q w) \<and>
     (\<forall>q ch w. D q (snd (x_done L ch w)) = D q w)"

text \<open>An open handle over contents \<open>d\<close>.\<close>

definition blob_over :: "gostring \<Rightarrow> Blob \<Rightarrow> bool" where
  "blob_over d b \<longleftrightarrow> b_blob b \<noteq> 0 \<and> length (b_buf b) = blobBufSize \<and> b_size b = int (length d) \<and> length d < 2 ^ 31 \<and>
     0 \<le> b_off b \<and> b_off b \<le> b_size b"

lemma lib_blob_okD:
  assumes "lib_blob_ok K L D"
  shows "\<forall>p n off w d. D p w = Some d \<longrightarrow> (case x_blob_read L p n off w of ((res, bytes), w') \<Rightarrow>
        D p w' = Some d \<and> length bytes \<le> n \<and>
        (IsSuccess K res \<longrightarrow> 0 \<le> off \<and> nat off + n \<le> length d \<and> bytes = take n (drop (nat off) d)))"
    and "\<forall>p data off w d. D p w = Some d \<longrightarrow> (case x_blob_write L p data off w of (res, w') \<Rightarrow>
        (if IsSuccess K res then 0 \<le> off \<and> nat off + length data \<le> length d \<and> D p w' = Some (splice d (nat off) data)
         else \<exists>d'. D p w' = Some d' \<and> length d' = length d))"
    and "\<forall>p q n off w. q \<noteq> p \<longrightarrow> D q (snd (x_blob_read L p n off w)) = D q w"
    and "\<forall>p q data off w. q \<noteq> p \<longrightarrow> D q (snd (x_blob_write L p data off w)) = D q w"
    and "\<forall>q ch w. D q (snd (x_done L ch w)) = D q w"
  by (intro assms [unfolded lib_blob_ok_def, THEN conjunct1]
      assms [unfolded lib_blob_ok_def, THEN conjunct2, THEN conjunct1]
      assms [unfolded lib_blob_ok_def, THEN conjunct2, THEN conjunct2, THEN conjunct1]
      assms [unfolded lib_blob_ok_def, THEN conjunct2, THEN conjunct2, THEN conjunct2, THEN conjunct1]
      assms [unfolded lib_blob_ok_def, THEN conjunct2, THEN conjunct2, THEN conjunct2, THEN conjunct2])+

lemma blob_read_call:
  assumes "lib_blob_ok K L D" and "D p (c_world c) = Some d" and "lib_call (x_blob_read L p n off) c = ((res, bytes), c')"
  shows "(\<forall>q. D q (c_world c') = D q (c_world c)) \<and> length bytes \<le> n \<and>
    (IsSuccess K res \<longrightarrow> 0 \<le> off \<and> nat off + n \<le> length d \<and> bytes = take n (drop (nat off) d))"
proof -
  let ?r = "x_blob_read L p n off (c_world c)"
  have e: "res = fst (fst ?r)" "bytes = snd (fst ?r)" "c_world c' = snd ?r" using assms(3) by (auto simp: lib_call_eq)
  have 1: "case ?r of ((res, bytes), w') \<Rightarrow> D p w' = Some d \<and> length bytes \<le> n \<and>
      (IsSuccess K res \<longrightarrow> 0 \<le> off \<and> nat off + n \<le> length d \<and> bytes = take n (drop (nat off) d))"
    using lib_blob_okD(1) [OF assms(1), rule_format, OF assms(2)] .
  have 2: "D q (snd ?r) = D q (c_world c)" for q
    using 1 lib_blob_okD(3) [OF assms(1), rule_format, of q p n off "c_world c"] assms(2) by (cases "q = p") (simp_all add: case_prod_beta)
  show ?thesis using 1 2 e by (simp add: case_prod_beta)
qed

lemma blob_write_call:
  assumes "lib_blob_ok K L D" and "D p (c_world c) = Some d" and "lib_call (x_blob_write L p data off) c = (res, c')"
  shows "(\<forall>q. q \<noteq> p \<longrightarrow> D q (c_world c') = D q (c_world c)) \<and>
    (if IsSuccess K res then 0 \<le> off \<and> nat off + length data \<le> length d \<and> D p (c_world c') = Some (splice d (nat off) data)
     else \<exists>d'. D p (c_world c') = Some d' \<and> length d' = length d)"
proof -
  let ?r = "x_blob_write L p data off (c_world c)"
  have e: "res = fst ?r" "c_world c' = snd ?r" using assms(3) by (auto simp: lib_call_eq)
  have 1: "case ?r of (res, w') \<Rightarrow>
        (if IsSuccess K res then 0 \<le> off \<and> nat off + length data \<le> length d \<and> D p w' = Some (splice d (nat off) data)
         else \<exists>d'. D p w' = Some d' \<and> length d' = length d)"
    using lib_blob_okD(2) [OF assms(1), rule_format, OF assms(2)] .
  have 2: "q \<noteq> p \<longrightarrow> D q (snd ?r) = D q (c_world c)" for q
    using lib_blob_okD(4) [OF assms(1), rule_format, of q p data off "c_world c"] by simp
  show ?thesis using 1 2 e by (simp add: case_prod_beta)
qed

lemma interrupted_contents:
  assumes "lib_blob_ok K L D" and "Conn_interrupted K L c = (err, c')"
  shows "D q (c_world c') = D q (c_world c)"
  using assms(2) lib_blob_okD(5) [OF assms(1)] by (auto simp: Conn_interrupted_def lib_call_eq split: option.splits)

text \<open>One chunk read: the state of the handle after it.\<close>

lemma blob_over_advance:
  assumes "blob_over d b" and "nat (b_off b) + n \<le> length d" and "length m = blobBufSize"
  shows "blob_over d (b\<lparr>b_buf := m, b_off := wrap32 (b_off b + int n)\<rparr>) \<and> wrap32 (b_off b + int n) = b_off b + int n"
proof -
  have "in_int32 (b_off b + int n)" using assms by (auto simp: blob_over_def in_int32_def)
  then show ?thesis using assms by (auto simp: blob_over_def)
qed

section \<open>Lemmas: the loops over chunks\<close>

text \<open>Reading in chunks is reading one slice: \<open>k\<close> more bytes were read, all \<open>n\<close> unless there was an error.\<close>

lemma blob_read_loop_slice:
  assumes "lib_blob_ok K L D" and "D (b_blob b) (c_world c) = Some d" and "blob_over d b" and "nat (b_off b) + n \<le> length d"
    and "blob_read_loop K L n acc b c = ((bytes, err), b', c')"
  shows "\<exists>k \<le> n. bytes = acc @ take k (drop (nat (b_off b)) d) \<and> b_off b' = b_off b + int k \<and> (err = None \<longrightarrow> k = n) \<and>
    blob_over d b' \<and> b_blob b' = b_blob b \<and> (\<forall>q. D q (c_world c') = D q (c_world c))"
  using assms(2-)
proof (induction n arbitrary: acc b c rule: less_induct)
  case (less n)
  show ?case
  proof (cases "n = 0")
    case True
    then show ?thesis using less.prems by (subst (asm) blob_read_loop.simps) auto
  next
    case False
    let ?nn = "min blobBufSize n"
    obtain res got c1 where r: "lib_call (x_blob_read L (b_blob b) ?nn (b_off b)) c = ((res, got), c1)"
      by (metis surj_pair)
    note call = blob_read_call [OF assms(1) less.prems(1) r]
    let ?m = "splice (b_buf b) 0 got"
    have m: "length ?m = blobBufSize" using call less.prems(2) by (auto simp: blob_over_def)
    show ?thesis
    proof (cases "IsSuccess K res")
      case False
      then have "blob_read_loop K L n acc b c = ((acc, wrap_error fmt_read_blob (ToError K res)), b\<lparr>b_buf := ?m\<rparr>, c1)"
        using r \<open>n \<noteq> 0\<close> by (subst blob_read_loop.simps) (simp add: Let_def ToError_def)
      then have "bytes = acc" "err \<noteq> None" "b' = b\<lparr>b_buf := ?m\<rparr>" "c' = c1"
        using less.prems(4) False by (auto simp: ToError_def wrap_error_def)
      then show ?thesis using call less.prems(2) m by (intro exI [of _ 0]) (auto simp: blob_over_def)
    next
      case True
      let ?b = "b\<lparr>b_buf := ?m, b_off := wrap32 (b_off b + int ?nn)\<rparr>"
      have got: "got = take ?nn (drop (nat (b_off b)) d)" and "nat (b_off b) + ?nn \<le> length d" using call True by auto
      then have t: "take ?nn ?m = got" and lg: "length got = ?nn" by (auto simp: splice_def)
      note adv = blob_over_advance [OF less.prems(2) \<open>nat (b_off b) + ?nn \<le> length d\<close> m]
      have "blob_read_loop K L (n - ?nn) (acc @ got) ?b c1 = ((bytes, err), b', c')"
        using blob_read_loop.simps [of K L n acc b c] less.prems(4) r True \<open>n \<noteq> 0\<close> t by (simp add: Let_def ToError_def)
      then have "\<exists>k \<le> n - ?nn. bytes = (acc @ got) @ take k (drop (nat (b_off ?b)) d) \<and> b_off b' = b_off ?b + int k \<and>
          (err = None \<longrightarrow> k = n - ?nn) \<and> blob_over d b' \<and> b_blob b' = b_blob ?b \<and> (\<forall>q. D q (c_world c') = D q (c_world c1))"
        using call adv less.prems(1-3) \<open>n \<noteq> 0\<close>
        by (intro less.IH) (auto simp: blob_over_def nat_add_distrib blobBufSize_def)
      then obtain k where k: "k \<le> n - ?nn" "bytes = (acc @ got) @ take k (drop (nat (b_off ?b)) d)" "b_off b' = b_off ?b + int k"
        "err = None \<longrightarrow> k = n - ?nn" "blob_over d b'" "b_blob b' = b_blob ?b" "\<forall>q. D q (c_world c') = D q (c_world c1)"
        by blast
      have "nat (b_off ?b) = nat (b_off b) + ?nn" using adv less.prems(2) by (simp add: blob_over_def nat_add_distrib)
      then have "bytes = acc @ take (?nn + k) (drop (nat (b_off b)) d)" using k(2) got take_add_drop by (metis append_assoc)
      then show ?thesis using k call adv by (intro exI [of _ "?nn + k"]) auto
    qed
  qed
qed

lemma splice_take_drop:
  assumes "n \<le> length p" and "off + length p \<le> length d"
  shows "splice (splice d off (take n p)) (off + n) (drop n p) = splice d off p"
  using splice_splice_adjacent [of off "take n p" "drop n p" d] assms by simp

text \<open>Writing in chunks is writing one slice.  After an error \<open>j\<close> bytes have been written.\<close>

lemma blob_write_chunk:
  assumes "lib_blob_ok K L D" and "D (b_blob b) (c_world c) = Some d" and "blob_over d b" and "p \<noteq> []"
  defines "nn \<equiv> min blobBufSize (length p)"
  obtains (err) b1 c1 d1 e where "blob_write_loop K L k p b c = ((k, Some e), b1, c1)" and "b_off b1 = b_off b" and "b_blob b1 = b_blob b"
      and "blob_over d1 b1" and "length d1 = length d" and "D (b_blob b) (c_world c1) = Some d1"
      and "\<forall>q. q \<noteq> b_blob b \<longrightarrow> D q (c_world c1) = D q (c_world c)"
  | (ok) b1 c1 d1 where "blob_write_loop K L k p b c = blob_write_loop K L (k + nn) (drop nn p) b1 c1" and "b_off b1 = b_off b + int nn"
      and "b_blob b1 = b_blob b" and "d1 = splice d (nat (b_off b)) (take nn p)" and "nat (b_off b) + nn \<le> length d"
      and "blob_over d1 b1" and "length d1 = length d" and "D (b_blob b) (c_world c1) = Some d1"
      and "\<forall>q. q \<noteq> b_blob b \<longrightarrow> D q (c_world c1) = D q (c_world c)"
proof -
  let ?b = "b\<lparr>b_buf := splice (b_buf b) 0 (take nn p)\<rparr>"
  have m: "length (b_buf ?b) = blobBufSize" using assms(3) by (simp add: blob_over_def nn_def)
  have t: "take nn (b_buf ?b) = take nn p" by (simp add: splice_def nn_def)
  obtain res c1 where w: "lib_call (x_blob_write L (b_blob b) (take nn p) (b_off b)) c = (res, c1)" by (metis surj_pair)
  note call = blob_write_call [OF assms(1,2) w]
  have eq: "blob_write_loop K L k p b c = (if ToError K res \<noteq> None then ((k, wrap_error fmt_write_blob (ToError K res)), ?b, c1)
      else blob_write_loop K L (k + nn) (drop nn p) (?b\<lparr>b_off := wrap32 (b_off b + int nn)\<rparr>) c1)"
    using w t \<open>p \<noteq> []\<close> by (subst blob_write_loop.simps) (simp add: Let_def nn_def)
  show thesis
  proof (cases "IsSuccess K res")
    case False
    then obtain d' where d': "D (b_blob b) (c_world c1) = Some d'" "length d' = length d" using call by auto
    moreover have "blob_over d' ?b" using assms(3) m d' by (simp add: blob_over_def)
    ultimately show thesis using err [of "Errorf fmt_write_blob (sqliteError res)" ?b c1 d'] eq call False
      by (simp add: ToError_def wrap_error_def)
  next
    case True
    have ln: "length (take nn p) = nn" by (simp add: nn_def)
    then have fits: "nat (b_off b) + nn \<le> length d" using call True by simp
    note adv = blob_over_advance [OF assms(3) fits m]
    let ?d1 = "splice d (nat (b_off b)) (take nn p)"
    have l: "length ?d1 = length d" using fits ln by simp
    show thesis
      using ok [of "?b\<lparr>b_off := wrap32 (b_off b + int nn)\<rparr>" c1 ?d1] eq call True adv l fits by (simp add: ToError_def blob_over_def)
  qed
qed

lemma blob_write_loop_splice:
  assumes "lib_blob_ok K L D" and "D (b_blob b) (c_world c) = Some d" and "blob_over d b"
    and "blob_write_loop K L k p b c = ((n, err), b', c')"
  shows "\<exists>d' j. j \<le> length p \<and> n = k + j \<and> b_off b' = b_off b + int j \<and> b_blob b' = b_blob b \<and>
    (\<forall>q. q \<noteq> b_blob b \<longrightarrow> D q (c_world c') = D q (c_world c)) \<and>
    D (b_blob b) (c_world c') = Some d' \<and> blob_over d' b' \<and> length d' = length d \<and>
    (err = None \<longrightarrow> j = length p \<and> nat (b_off b) + j \<le> length d \<and> d' = splice d (nat (b_off b)) p)"
  using assms(2-)
proof (induction "length p" arbitrary: k p b c d rule: less_induct)
  case less
  show ?case
  proof (cases "p = []")
    case True
    then show ?thesis using less.prems by (subst (asm) blob_write_loop.simps) (auto simp: blob_over_def)
  next
    case False
    define nn where "nn = min blobBufSize (length p)"
    have nn: "nn \<le> length p" "0 < nn" using False by (simp_all add: nn_def blobBufSize_def)
    from assms(1) less.prems(1,2) False show ?thesis
    proof (cases rule: blob_write_chunk [where k = k])
      case (err b1 c1 d1 e)
      then show ?thesis using less.prems(3) by (intro exI [of _ d1] exI [of _ 0]) simp
    next
      case (ok b1 c1 d1)
      note ok = ok [folded nn_def]
      have "length (drop nn p) < length p" using nn by simp
      from less.hyps [OF this, of b1 c1 d1 "k + nn"] ok(1-3,6-9) less.prems(3)
      obtain d' j where r: "j \<le> length p - nn" "n = k + nn + j" "b_off b' = b_off b1 + int j" "b_blob b' = b_blob b"
        "\<forall>q. q \<noteq> b_blob b \<longrightarrow> D q (c_world c') = D q (c_world c1)" "D (b_blob b) (c_world c') = Some d'" "blob_over d' b'"
        "length d' = length d" "err = None \<longrightarrow> j = length p - nn \<and> nat (b_off b1) + j \<le> length d \<and> d' = splice d1 (nat (b_off b1)) (drop nn p)"
        by auto
      have o1: "nat (b_off b1) = nat (b_off b) + nn" using ok(2) less.prems(2) by (simp add: blob_over_def nat_add_distrib)
      have "d' = splice d (nat (b_off b)) p \<and> nat (b_off b) + length p \<le> length d \<and> nn + j = length p" if "err = None"
        using r(9) that nn o1 ok(4) splice_take_drop [OF nn(1), of "nat (b_off b)" d] by auto
      then show ?thesis using r ok(2,9) nn by (intro exI [of _ d'] exI [of _ "nn + j"]) auto
    qed
  qed
qed

lemma Blob_Read_result:
  assumes "lib_blob_ok K L D" and "D (b_blob b) (c_world c) = Some d" and "blob_over d b"
    and "Blob_Read K L p b c = (((n, err), p'), b', c')"
  shows "n \<le> length p \<and> nat (b_off b) + n \<le> length d \<and> p' = splice p 0 (take n (drop (nat (b_off b)) d)) \<and>
    b_off b' = b_off b + int n \<and> b_blob b' = b_blob b \<and> blob_over d b' \<and> (\<forall>q. D q (c_world c') = D q (c_world c)) \<and>
    (err = None \<longrightarrow> n = min (length p) (length d - nat (b_off b))) \<and> (b_off b = b_size b \<longrightarrow> n = 0 \<and> err = Some io_EOF)"
proof (cases "b_size b \<le> b_off b")
  case True
  then show ?thesis using assms(3,4) by (auto simp: Blob_Read_def blob_over_def)
next
  case False
  have s: "b_size b = int (length d)" "0 \<le> b_off b" "b_off b \<le> b_size b" using assms(3) by (auto simp: blob_over_def)
  obtain e c1 where i: "Conn_interrupted K L c = (e, c1)" by fastforce
  note c1 = interrupted_contents [OF assms(1) i]
  show ?thesis
  proof (cases e)
    case (Some a)
    then show ?thesis using assms(3,4) i c1 False by (auto simp: Blob_Read_def blob_over_def wrap_error_def)
  next
    case None
    let ?len = "min (length p) (length d - nat (b_off b))"
    have "wrap32 (b_size b - b_off b) = b_size b - b_off b" using assms(3) by (intro wrap32_id) (auto simp: blob_over_def in_int32_def)
    then have len: "(if wrap32 (b_size b - b_off b) < int (length p) then nat (wrap32 (b_size b - b_off b)) else length p) = ?len"
      using s by auto
    have "b_blob b \<noteq> 0" using assms(3) by (simp add: blob_over_def)
    then have "Blob_Read K L p b c = (case blob_read_loop K L ?len [] b c1 of ((bytes, err), b, c) \<Rightarrow>
        (((length bytes, err), splice p 0 bytes), b, c))"
      unfolding len [symmetric] using i None False by (simp add: Blob_Read_def Let_def)
    then obtain bytes where l: "blob_read_loop K L ?len [] b c1 = ((bytes, err), b', c')"
      and r: "n = length bytes" "p' = splice p 0 bytes"
      using assms(4) by (auto split: prod.splits)
    have in_d: "nat (b_off b) + ?len \<le> length d" using s by auto
    have Dc: "D (b_blob b) (c_world c1) = Some d" using assms(2) c1 by simp
    obtain k where k: "k \<le> ?len \<and> bytes = [] @ take k (drop (nat (b_off b)) d) \<and> b_off b' = b_off b + int k \<and> (err = None \<longrightarrow> k = ?len) \<and>
        blob_over d b' \<and> b_blob b' = b_blob b \<and> (\<forall>q. D q (c_world c') = D q (c_world c1))"
      using blob_read_loop_slice [OF assms(1) Dc assms(3) in_d l] by (elim exE)
    then have "length bytes = k" using in_d by simp
    moreover have "b_off b \<noteq> b_size b" using False by simp
    moreover have "nat (b_off b) + k \<le> length d" "k \<le> length p" using k in_d by linarith+
    ultimately show ?thesis using k r c1 by simp
  qed
qed

lemma Blob_Write_result:
  assumes "lib_blob_ok K L D" and "D (b_blob b) (c_world c) = Some d" and "blob_over d b" and "Blob_Write K L p b c = ((n, err), b', c')"
  shows "\<exists>d'. n \<le> length p \<and> b_off b' = b_off b + int n \<and> b_blob b' = b_blob b \<and>
    (\<forall>q. q \<noteq> b_blob b \<longrightarrow> D q (c_world c') = D q (c_world c)) \<and>
    D (b_blob b) (c_world c') = Some d' \<and> blob_over d' b' \<and> length d' = length d \<and>
    (err = None \<longrightarrow> n = length p \<and> nat (b_off b) + n \<le> length d \<and> d' = splice d (nat (b_off b)) p)"
proof -
  have nz: "b_blob b \<noteq> 0" using assms(3) by (simp add: blob_over_def)
  obtain e c0 where i: "Conn_interrupted K L c = (e, c0)" by fastforce
  note D0 = interrupted_contents [OF assms(1) i]
  show ?thesis
  proof (cases e)
    case (Some x)
    then have "n = 0" "err \<noteq> None" "b' = b" "c' = c0" using assms(4) nz i by (auto simp: Blob_Write_def wrap_error_def)
    then show ?thesis using D0 assms(2,3) by (intro exI [of _ d]) auto
  next
    case None
    then have w: "blob_write_loop K L 0 p b c0 = ((n, err), b', c')" using assms(4) nz i by (simp add: Blob_Write_def)
    have "D (b_blob b) (c_world c0) = Some d" using D0 assms(2) by simp
    from blob_write_loop_splice [OF assms(1) this assms(3) w] show ?thesis using D0 by auto
  qed
qed

section \<open>Properties\<close>

text \<open>C17: \<open>Read\<close> is a read of one slice.  On an open handle over the contents \<open>d\<close> it copies the next bytes of \<open>d\<close> to the start of
  the caller's slice, as many as fit or as are left unless it returns an error, and advances by what it copied; the rest of the
  slice and the contents stay as they are.  At the end it returns \<open>io.EOF\<close>.\<close>

theorem Blob_Read_slice:
  assumes "lib_blob_ok K L D" and "D (b_blob b) (c_world c) = Some d" and "blob_over d b"
    and "Blob_Read K L p b c = (((n, err), p'), b', c')"
  shows "n \<le> length p \<and> nat (b_off b) + n \<le> length d \<and> p' = splice p 0 (take n (drop (nat (b_off b)) d)) \<and>
    b_off b' = b_off b + int n \<and> blob_over d b' \<and> (\<forall>q. D q (c_world c') = D q (c_world c)) \<and>
    (err = None \<longrightarrow> n = min (length p) (length d - nat (b_off b))) \<and> (b_off b = b_size b \<longrightarrow> n = 0 \<and> err = Some io_EOF)"
  using Blob_Read_result [OF assms] by simp

text \<open>C16: what \<open>Write\<close> wrote, \<open>Read\<close> reads back.  After a write without error, seeking to where it started and reading as many
  bytes gives the bytes written, and the handle is again where the write left it.\<close>

theorem Blob_Write_read_back:
  assumes "lib_blob_ok K L D" and "D (b_blob b) (c_world c) = Some d" and "blob_over d b" and "length buf = length p"
    and "Blob_Write K L p b c = ((n, None), b1, c1)" and "Blob_Seek (b_off b) 0 b1 = ((o2, e2), b2)"
    and "Blob_Read K L buf b2 c1 = (((m, None), buf'), b3, c3)"
  shows "n = length p \<and> e2 = None \<and> m = length p \<and> buf' = p \<and> b_off b3 = b_off b1"
proof -
  from Blob_Write_result [OF assms(1-3,5)]
  obtain d' where n: "n = length p" and o1: "b_off b1 = b_off b + int (length p)" and bl: "b_blob b1 = b_blob b"
    and D1: "D (b_blob b) (c_world c1) = Some d'" and over: "blob_over d' b1" and ld: "length d' = length d"
    and fits: "nat (b_off b) + length p \<le> length d" and d': "d' = splice d (nat (b_off b)) p" by auto
  have "in_int32 (b_off b)" and ob: "0 \<le> b_off b" "b_off b \<le> b_size b1" "b_size b1 = int (length d')"
    using assms(3) over ld by (auto simp: blob_over_def in_int32_def)
  then have sk: "e2 = None" and b2: "b2 = b1\<lparr>b_off := b_off b\<rparr>" using assms(6) by (auto simp: Blob_Seek_def Let_def)
  have over2: "blob_over d' b2" using over ob by (simp add: b2 blob_over_def)
  have "D (b_blob b2) (c_world c1) = Some d'" using D1 bl by (simp add: b2)
  from Blob_Read_result [OF assms(1) this over2 assms(7)]
  have m: "m = min (length buf) (length d' - nat (b_off b))" and buf': "buf' = splice buf 0 (take m (drop (nat (b_off b)) d'))"
    and "b_off b3 = b_off b + int m" by (simp_all add: b2)
  have "m = length p" using m assms(4) fits ld by simp
  moreover have "take (length p) (drop (nat (b_off b)) d') = p" unfolding d' by (rule take_drop_splice [OF fits])
  ultimately show ?thesis using n sk buf' o1 assms(4) \<open>b_off b3 = b_off b + int m\<close> by (simp add: splice_whole)
qed

section \<open>A small store of blobs\<close>

text \<open>A SQLite without statements, to be extended: its calls do nothing.\<close>

definition null_lib :: "'w sqlite_lib" where
  "null_lib = \<lparr>x_unlock_notify = (\<lambda>w. (0, False, w)), un_block = Some, x_step = (\<lambda>p w. (101, w)), x_reset = (\<lambda>p w. (0, w)),
     x_finalize = (\<lambda>p w. (0, w)), x_clear_bindings = (\<lambda>p w. (0, w)), x_bind = (\<lambda>p i a w. (0, w)), x_malloc = (\<lambda>n w. (True, w)),
     x_cstring = (\<lambda>q w. (None, w)), x_prepare_v3 = (\<lambda>q f w. ((1, 0, 0), w)), x_bind_parameter_count = (\<lambda>p w. 0),
     x_bind_parameter_name = (\<lambda>p i w. None), x_column_count = (\<lambda>p w. 0), x_column_name = (\<lambda>p i w. None),
     x_data_count = (\<lambda>p w. 0), x_column_int = (\<lambda>p i w. 0), x_column_int64 = (\<lambda>p i w. 0), x_column_double = (\<lambda>p i w. 0),
     x_column_type = (\<lambda>p i w. 5), x_column_bytes = (\<lambda>p i w. 0), x_column_blob = (\<lambda>p i w. None),
     x_column_text = (\<lambda>p i w. None), x_column_database_name = (\<lambda>p i w. ''''), x_column_table_name = (\<lambda>p i w. ''''),
     x_error_offset = (\<lambda>w. - 1), x_errmsg = (\<lambda>w. ''''), x_done = (\<lambda>ch w. (False, w)), x_close = (\<lambda>w. (0, w)),
     x_busy_handler = (\<lambda>b w. w), x_busy_timeout = (\<lambda>d w. w), x_timer_first = (\<lambda>d ch w. (True, w)),
     x_get_autocommit = (\<lambda>w. True), range_order = id\<rparr>"

type_synonym blob_world = "nat \<Rightarrow> gostring option"

definition demo_blob_read :: "nat \<Rightarrow> nat \<Rightarrow> int \<Rightarrow> blob_world \<Rightarrow> (int \<times> gostring) \<times> blob_world" where
  "demo_blob_read p n off w = (case w p of None \<Rightarrow> ((1, []), w) | Some d \<Rightarrow>
     (if off < 0 \<or> length d < nat off + n then ((1, []), w) else ((0, take n (drop (nat off) d)), w)))"

definition demo_blob_write :: "nat \<Rightarrow> gostring \<Rightarrow> int \<Rightarrow> blob_world \<Rightarrow> int \<times> blob_world" where
  "demo_blob_write p data off w = (case w p of None \<Rightarrow> (1, w) | Some d \<Rightarrow>
     (if off < 0 \<or> length d < nat off + length data then (1, w) else (0, w(p := Some (splice d (nat off) data)))))"

definition demo_blob_lib :: "blob_world blob_lib" where
  "demo_blob_lib = sqlite_lib.extend null_lib \<lparr>x_blob_open = (\<lambda>dbn tab col row wr w. ((0, 1), w)),
     x_blob_bytes = (\<lambda>p w. (case w p of None \<Rightarrow> 0 | Some d \<Rightarrow> int (length d))), x_blob_read = demo_blob_read,
     x_blob_write = demo_blob_write, x_blob_close = (\<lambda>p w. (0, w(p := None))), x_last_insert_rowid = (\<lambda>w. 1)\<rparr>"

lemma demo_blob_lib_sel [simp]:
  "x_blob_read demo_blob_lib = demo_blob_read" "x_blob_write demo_blob_lib = demo_blob_write" "x_done demo_blob_lib ch w = (False, w)"
  by (simp_all add: demo_blob_lib_def sqlite_lib.defs null_lib_def)

lemma demo_blob_ok: "lib_blob_ok demo_K demo_blob_lib (\<lambda>p w. w p)"
  unfolding lib_blob_ok_def by (auto simp: demo_blob_read_def demo_blob_write_def IsSuccess_def split: option.splits)

definition demo_blob_conn :: "blob_world Conn" where
  "demo_blob_conn = \<lparr>c_stmts = [], c_closed = False, c_cancelCh = False, c_doneCh = None, c_note = allocUnlockNote,
     c_heap = (\<lambda>_. demo_Stmt), c_next = 0, c_registered = True, c_busyHandler = True, c_authorizer = False,
     c_world = (\<lambda>p. if p = 1 then Some ''hello'' else None)\<rparr>"

definition demo_Blob :: "int \<Rightarrow> Blob" where
  "demo_Blob off = \<lparr>b_blob = 1, b_buf = replicate blobBufSize (CHR ''x''), b_off = off, b_size = 5\<rparr>"

lemma demo_Blob_over: "0 \<le> off \<Longrightarrow> off \<le> 5 \<Longrightarrow> blob_over ''hello'' (demo_Blob off)"
  by (simp add: blob_over_def demo_Blob_def)

lemma demo_blob_world: "(\<lambda>p w. w p) (b_blob (demo_Blob off)) (c_world demo_blob_conn) = Some ''hello''"
  by (simp add: demo_Blob_def demo_blob_conn_def)

theorem Blob_Read_slice_witness:
  "\<exists>n err p' b' c'. Blob_Read demo_K demo_blob_lib ''....'' (demo_Blob 3) demo_blob_conn = (((n, err), p'), b', c') \<and>
     n \<le> 2 \<and> p' = splice ''....'' 0 (take n ''lo'') \<and> (err = None \<longrightarrow> n = 2)"
proof -
  obtain n err p' b' c' where r: "Blob_Read demo_K demo_blob_lib ''....'' (demo_Blob 3) demo_blob_conn = (((n, err), p'), b', c')"
    by (metis surj_pair)
  have o: "b_off (demo_Blob 3) = 3" by (simp add: demo_Blob_def)
  from Blob_Read_slice [OF demo_blob_ok demo_blob_world demo_Blob_over r] have "n \<le> 2" "p' = splice ''....'' 0 (take n ''lo'')"
    "err = None \<longrightarrow> n = 2" by (simp_all add: o eval_nat_numeral)
  with r show ?thesis by blast
qed

theorem Blob_Write_read_back_witness:
  "\<exists>n b1 c1 o2 b2 m buf' b3 c3. Blob_Write demo_K demo_blob_lib ''EL'' (demo_Blob 1) demo_blob_conn = ((n, None), b1, c1) \<and>
     Blob_Seek 1 0 b1 = ((o2, None), b2) \<and> Blob_Read demo_K demo_blob_lib ''..'' b2 c1 = (((m, None), buf'), b3, c3) \<and> buf' = ''EL''"
proof -
  let ?w = "(c_world demo_blob_conn)(1 \<mapsto> ''hELlo'')"
  let ?c1 = "demo_blob_conn\<lparr>c_world := ?w\<rparr>"
  let ?b1 = "(demo_Blob 1)\<lparr>b_buf := splice (b_buf (demo_Blob 1)) 0 ''EL'', b_off := 3\<rparr>"
  have i: "Conn_interrupted demo_K demo_blob_lib c = (None, c)" for c
    by (cases "c_doneCh c") (simp_all add: Conn_interrupted_def lib_call_eq)
  have mn: "min blobBufSize (Suc (Suc 0)) = Suc (Suc 0)" by (simp add: blobBufSize_def)
  have t2: "take (Suc (Suc 0)) (splice xs 0 [a, b]) = [a, b]" for xs :: gostring and a b by (simp add: splice_def)
  have sp: "splice ''hello'' (Suc 0) ''EL'' = ''hELlo''" by (simp add: splice_def)
  have w32: "wrap32 3 = 3" "wrap32 1 = 1" "wrap32 4 = 4" by (simp_all add: in_int32_def)
  have o: "b_off (demo_Blob 1) = 1" "b_blob (demo_Blob 1) = 1" "b_size (demo_Blob 1) = 5" by (simp_all add: demo_Blob_def)
  have cw: "c_world demo_blob_conn (Suc 0) = Some ''hello''" by (simp add: demo_blob_conn_def)
  have ok: "ToError demo_K 0 = None" by (simp add: ToError_def IsSuccess_def)
  have w: "Blob_Write demo_K demo_blob_lib ''EL'' (demo_Blob 1) demo_blob_conn = ((2, None), ?b1, ?c1)"
    using blob_write_loop.simps [of demo_K demo_blob_lib 0 "''EL''" "demo_Blob 1" demo_blob_conn]
      blob_write_loop.simps [of demo_K demo_blob_lib "Suc (Suc 0)" "[]" ?b1 ?c1]
    by (simp add: Blob_Write_def i lib_call_eq demo_blob_write_def Let_def mn t2 o cw sp w32 ok eval_nat_numeral)
  have s: "Blob_Seek (b_off (demo_Blob 1)) 0 ?b1 = ((1, None), ?b1\<lparr>b_off := 1\<rparr>)"
    by (simp add: Blob_Seek_def o w32 Let_def)
  obtain m err buf' b3 c3 where r: "Blob_Read demo_K demo_blob_lib ''..'' (?b1\<lparr>b_off := 1\<rparr>) ?c1 = (((m, err), buf'), b3, c3)"
    by (metis surj_pair)
  have "err = None"
    using r blob_read_loop.simps [of demo_K demo_blob_lib "Suc (Suc 0)" "[]" "?b1\<lparr>b_off := 1\<rparr>" ?c1]
    by (simp add: Blob_Read_def i lib_call_eq demo_blob_read_def Let_def mn t2 o w32 ok eval_nat_numeral blob_read_loop.simps [of _ _ 0])
  with r Blob_Write_read_back [OF demo_blob_ok demo_blob_world demo_Blob_over _ w s, of "''..''"] have "buf' = ''EL''" by simp
  with w s r o \<open>err = None\<close> show ?thesis by metis
qed

end
