(* ===== verification/Atomic.thy ===== *)
theory Atomic
  imports Savepoint Blob
begin

text \<open>
  Savepoints are atomic.  The states of a transaction are those of the SQLite documentation: a stack of savepoints, each with the database as
  it was.  The deferred functions of Savepoint.thy are shown atomic over an interface, \<open>txn_conn\<close>; then \<open>Execute\<close> and \<open>SetInterrupt\<close> are shown to
  have that interface, from what SQLite promises of the statements that control transactions.
\<close>

section \<open>Transactions\<close>

text \<open>\<open>Txn explicit start savepoints current\<close>: \<open>explicit\<close> if \<open>BEGIN\<close> started it; the newest savepoint comes first.\<close>

datatype 'd txn = Auto 'd | Txn bool 'd "(gostring \<times> 'd) list" 'd

datatype ctl = C_Savepoint gostring | C_Release gostring | C_RollbackTo gostring | C_Begin | C_Commit | C_Rollback

text \<open>The most recent savepoint of a name, and those before it.\<close>

fun pop_to :: "gostring \<Rightarrow> (gostring \<times> 'd) list \<Rightarrow> ('d \<times> (gostring \<times> 'd) list) option" where
  "pop_to n [] = None"
| "pop_to n ((m, d) # st) = (if m = n then Some (d, st) else pop_to n st)"

fun txn_apply :: "ctl \<Rightarrow> 'd txn \<Rightarrow> 'd txn option" where
  "txn_apply (C_Savepoint n) (Auto d) = Some (Txn False d [(n, d)] d)"
| "txn_apply (C_Savepoint n) (Txn x b st d) = Some (Txn x b ((n, d) # st) d)"
| "txn_apply (C_Release n) (Txn x b st d) = (case pop_to n st of
     None \<Rightarrow> None | Some (_, rest) \<Rightarrow> Some (if rest = [] \<and> \<not> x then Auto d else Txn x b rest d))"
| "txn_apply (C_RollbackTo n) (Txn x b st d) = (case pop_to n st of
     None \<Rightarrow> None | Some (s, rest) \<Rightarrow> Some (Txn x b ((n, s) # rest) s))"
| "txn_apply C_Begin (Auto d) = Some (Txn True d [] d)"
| "txn_apply C_Commit (Txn x b st d) = Some (Auto d)"
| "txn_apply C_Rollback (Txn x b st d) = Some (Auto b)"
| "txn_apply _ _ = None"

text \<open>After an error the transaction is as it was, or SQLite has rolled all of it back.\<close>

definition aborted :: "'d txn \<Rightarrow> 'd txn \<Rightarrow> bool" where
  "aborted t t' \<longleftrightarrow> t' = t \<or> (case t of Auto d \<Rightarrow> False | Txn x b st d \<Rightarrow> t' = Auto b)"

text \<open>The state with another current database, and the state inside a savepoint opened in it: \<open>newer\<close> are the savepoints opened since.\<close>

fun with_current :: "'d \<Rightarrow> 'd txn \<Rightarrow> 'd txn" where
  "with_current d (Auto _) = Auto d"
| "with_current d (Txn x b st _) = Txn x b st d"

fun current_of :: "'d txn \<Rightarrow> 'd" where
  "current_of (Auto d) = d"
| "current_of (Txn x b st d) = d"

definition inside :: "gostring \<Rightarrow> 'd txn \<Rightarrow> 'd txn \<Rightarrow> bool" where
  "inside n t0 t \<longleftrightarrow> (\<exists>newer d x b st. n \<notin> fst ` set newer \<and> t = Txn x b (newer @ (n, current_of t0) # st) d \<and>
     t0 = (if st = [] \<and> \<not> x then Auto b else Txn x b st (current_of t0)))"

fun start_of :: "'d txn \<Rightarrow> 'd" where
  "start_of (Auto d) = d"
| "start_of (Txn x b st d) = b"

lemma pop_to_above: "n \<notin> fst ` set newer \<Longrightarrow> pop_to n (newer @ (n, d) # st) = Some (d, st)"
  by (induction newer) auto

text \<open>Transactions that \<open>SAVEPOINT\<close> started have a savepoint.\<close>

definition txn_ok :: "'d txn \<Rightarrow> bool" where
  "txn_ok t \<longleftrightarrow> (case t of Auto d \<Rightarrow> True | Txn x b st d \<Rightarrow> x \<or> st \<noteq> [])"

lemma insideI:
  assumes "n \<notin> fst ` set newer" and "t0 = (if st = [] \<and> \<not> x then Auto b else Txn x b st (current_of t0))"
  shows "inside n t0 (Txn x b (newer @ (n, current_of t0) # st) d)"
  unfolding inside_def using assms by blast

lemma insideE:
  assumes "inside n t0 t"
  obtains newer d x b st where "n \<notin> fst ` set newer" and "t = Txn x b (newer @ (n, current_of t0) # st) d"
    and "t0 = (if st = [] \<and> \<not> x then Auto b else Txn x b st (current_of t0))"
  using assms unfolding inside_def by blast

lemma inside_savepoint:
  assumes "txn_ok t0" and "txn_apply (C_Savepoint n) t0 = Some t"
  shows "inside n t0 t"
proof (cases t0)
  case (Auto d)
  then show ?thesis using insideI [of n "[]" t0 "[]" False d d] assms(2) by simp
next
  case (Txn x b st d)
  have e: "t0 = (if st = [] \<and> \<not> x then Auto b else Txn x b st (current_of t0))" using Txn assms(1) by (auto simp: txn_ok_def)
  have "t = Txn x b ([] @ (n, current_of t0) # st) d" using Txn assms(2) by simp
  then show ?thesis using insideI [OF _ e, of n "[]" d] by auto
qed

lemma inside_release:
  assumes "inside n t0 t"
  shows "txn_apply (C_Release n) t = Some (with_current (current_of t) t0)"
proof (rule insideE [OF assms])
  fix newer d x b st
  assume 1: "n \<notin> fst ` set newer" and t: "t = Txn x b (newer @ (n, current_of t0) # st) d"
    and t0: "t0 = (if st = [] \<and> \<not> x then Auto b else Txn x b st (current_of t0))"
  have "with_current d t0 = (if st = [] \<and> \<not> x then Auto d else Txn x b st d)" by (subst t0) simp
  then show ?thesis by (simp add: t pop_to_above [OF 1])
qed

lemma inside_rollback_to:
  assumes "inside n t0 t"
  shows "\<exists>t'. txn_apply (C_RollbackTo n) t = Some t' \<and> inside n t0 t' \<and> current_of t' = current_of t0"
proof (rule insideE [OF assms])
  fix newer d x b st
  assume 1: "n \<notin> fst ` set newer" and t: "t = Txn x b (newer @ (n, current_of t0) # st) d"
    and t0: "t0 = (if st = [] \<and> \<not> x then Auto b else Txn x b st (current_of t0))"
  show ?thesis using insideI [OF _ t0, of n "[]" "current_of t0"] by (simp add: t pop_to_above [OF 1])
qed

lemma with_current_same: "with_current (current_of t) t = t"
  by (cases t) auto

lemma inside_start:
  assumes "inside n t0 t"
  shows "start_of t = start_of t0"
proof (rule insideE [OF assms])
  fix newer d x b st
  assume t: "t = Txn x b (newer @ (n, current_of t0) # st) d"
    and t0: "t0 = (if st = [] \<and> \<not> x then Auto b else Txn x b st (current_of t0))"
  have "start_of t0 = b" by (subst t0) simp
  then show ?thesis by (simp add: t)
qed

lemma inside_not_Auto: "inside n t0 t \<Longrightarrow> t \<noteq> Auto d"
  by (auto simp: inside_def)

section \<open>The interface\<close>

text \<open>\<open>idle c\<close>: no statement is at a row, so that changing the interrupt resets nothing.\<close>

locale txn_conn =
  fixes inv :: "'c \<Rightarrow> bool" and tx :: "'c \<Rightarrow> 'd txn" and idle :: "'c \<Rightarrow> bool" and meaning :: "gostring \<Rightarrow> ctl option"
    and execute :: "gostring \<Rightarrow> 'c \<Rightarrow> (error \<times> 'c) option" and autocommit :: "'c \<Rightarrow> bool"
    and setInterrupt :: "nat option \<Rightarrow> 'c \<Rightarrow> (nat option \<times> 'c) option"
  assumes execute_ctl: "inv c \<Longrightarrow> meaning q = Some m \<Longrightarrow> execute q c = Some (err, c') \<Longrightarrow>
      inv c' \<and> (idle c \<longrightarrow> idle c') \<and> (if err = None then txn_apply m (tx c) = Some (tx c') else aborted (tx c) (tx c'))"
    and autocommit_iff: "inv c \<Longrightarrow> autocommit c \<longleftrightarrow> (\<exists>d. tx c = Auto d)"
    and setInterrupt_keeps: "inv c \<Longrightarrow> setInterrupt ch c = Some (old, c') \<Longrightarrow>
      inv c' \<and> idle c' \<and> (idle c \<or> \<not> autocommit c \<longrightarrow> tx c' = tx c)"
begin

text \<open>The rollback of a savepoint: without an error the state is the one before the savepoint.\<close>

lemma rollback_savepoint:
  assumes "inv c" and "inside n t0 (tx c)" and "meaning back_q = Some (C_RollbackTo n)" and "meaning rel_q = Some (C_Release n)"
    and "run_all execute [back_q, rel_q] c = Some (err, c')"
  shows "inv c' \<and> (idle c \<longrightarrow> idle c') \<and> (err = None \<longrightarrow> tx c' = t0)"
proof -
  obtain e1 c1 where x1: "execute back_q c = Some (e1, c1)" using assms(5) by (auto simp: bind_eq_Some_conv)
  note r1 = execute_ctl [OF assms(1,3) x1]
  show ?thesis
  proof (cases e1)
    case (Some e)
    then show ?thesis using assms(5) x1 r1 by auto
  next
    case None
    then obtain e2 c2 where x2: "execute rel_q c1 = Some (e2, c2)" using assms(5) x1 by (auto simp: bind_eq_Some_conv)
    have i1: "inside n t0 (tx c1)" "current_of (tx c1) = current_of t0" using inside_rollback_to [OF assms(2)] r1 None by auto
    have r2: "inv c2 \<and> (idle c1 \<longrightarrow> idle c2) \<and> (if e2 = None then txn_apply (C_Release n) (tx c1) = Some (tx c2) else aborted (tx c1) (tx c2))"
      using execute_ctl [OF _ assms(4) x2] r1 by blast
    have "e2 = None \<longrightarrow> tx c2 = t0" using r2 inside_release [OF i1(1)] i1(2) by (auto simp: with_current_same)
    then show ?thesis using r1 r2 assms(5) x1 x2 None by (cases e2) auto
  qed
qed

lemma rollback_transaction:
  assumes "inv c" and "tx c \<noteq> Auto (current_of (tx c))" and "meaning back_q = Some C_Rollback"
    and "run_all execute [back_q] c = Some (err, c')"
  shows "inv c' \<and> (idle c \<longrightarrow> idle c') \<and> (err = None \<longrightarrow> tx c' = Auto (start_of (tx c)))"
proof -
  obtain e1 c1 where x1: "execute back_q c = Some (e1, c1)" using assms(4) by (auto simp: bind_eq_Some_conv)
  note r1 = execute_ctl [OF assms(1,3) x1]
  have "err = e1" "c' = c1" using assms(4) x1 by (cases e1; simp)+
  then show ?thesis using r1 assms(2) by (cases "tx c") auto
qed

text \<open>The end of a transaction or savepoint that was opened in the state \<open>t0\<close>: \<open>S\<close> are the states inside it, \<open>fin\<close> is what the success path makes
  of them.\<close>

lemma end_fn_atomic:
  assumes "inv c" and "S (tx c)" and S: "\<And>t. S t \<Longrightarrow> t \<noteq> Auto (current_of t) \<and> start_of t = b0"
    and commit: "meaning commit_q = Some m" "\<And>t. S t \<Longrightarrow> txn_apply m t = Some (fin t)"
    and undo: "\<And>c err c'. inv c \<Longrightarrow> S (tx c) \<Longrightarrow> run_all execute rollback_qs c = Some (err, c') \<Longrightarrow>
      inv c' \<and> (idle c \<longrightarrow> idle c') \<and> (err = None \<longrightarrow> tx c' = t0)"
    and run: "end_fn execute autocommit setInterrupt commit_q rollback_qs errp recoverP c = Some ((panic, errp'), c')"
  shows "inv c' \<and> (errp \<noteq> None \<longrightarrow> errp' = errp) \<and>
    (if errp' = None \<and> panic = None then tx c' = fin (tx c)
     else (\<exists>e. panic = Some (RollbackFailed errp' e)) \<or> tx c' = t0 \<or> tx c' = Auto b0)"
proof -
  have not_auto: "\<not> autocommit c" if "inv c" "S (tx c)" for c
    using autocommit_iff [OF that(1)] S [OF that(2)] by (metis current_of.simps(1))
  note na = not_auto [OF assms(1,2)]
  have rollback: "inv c' \<and> ((\<exists>e. panic = Some (RollbackFailed errp' e)) \<or> panic = map_option Repanic recoverP \<and> tx c' = t0)"
    if i: "inv c1" and t: "S (tx c1)" and s: "setInterrupt None c1 = Some (old, c2)" and r: "run_all execute rollback_qs c2 = Some (err, c3)"
      and s': "setInterrupt old c3 = Some (old', c')" and p: "panic = (case err of Some e \<Rightarrow> Some (RollbackFailed errp' e) | None \<Rightarrow> map_option Repanic recoverP)"
    for c1 old c2 err c3 old'
  proof -
    from setInterrupt_keeps [OF i s] not_auto [OF i t] have c2: "inv c2" "idle c2" "tx c2 = tx c1" by auto
    with undo [OF c2(1) _ r] t have c3: "inv c3" "idle c3" "err = None \<longrightarrow> tx c3 = t0" by auto
    with setInterrupt_keeps [OF c3(1) s'] have "inv c'" "tx c' = tx c3" by auto
    then show ?thesis using c3(3) p by (cases err) auto
  qed
  show ?thesis
  proof (cases "errp = None \<and> recoverP = None")
    case False
    then obtain old c2 err c3 old' where "setInterrupt None c = Some (old, c2)" "run_all execute rollback_qs c2 = Some (err, c3)"
      "setInterrupt old c3 = Some (old', c')" "errp' = errp"
      "panic = (case err of Some e \<Rightarrow> Some (RollbackFailed errp' e) | None \<Rightarrow> map_option Repanic recoverP)"
      using run na by (auto simp: end_fn_def bind_eq_Some_conv)
    from rollback [OF assms(1,2) this(1-3,5)] this(4) False show ?thesis by auto
  next
    case True
    then obtain err c1 where x: "execute commit_q c = Some (err, c1)" using run na by (auto simp: end_fn_def bind_eq_Some_conv)
    note r = execute_ctl [OF assms(1) commit(1) x]
    show ?thesis
    proof (cases "err = None \<or> autocommit c1")
      case ended: True
      then have e: "panic = None" "errp' = err" "c' = c1" using run na True x by (auto simp: end_fn_def)
      have "err \<noteq> None \<longrightarrow> tx c1 = Auto b0"
        using r ended autocommit_iff [of c1] S [OF assms(2)] by (cases "tx c") (auto simp: aborted_def)
      then show ?thesis using r e True commit(2) [OF assms(2)] by (cases err) auto
    next
      case False
      then obtain old c2 e2 c3 old' where st: "setInterrupt None c1 = Some (old, c2)" "run_all execute rollback_qs c2 = Some (e2, c3)"
        "setInterrupt old c3 = Some (old', c')" "errp' = err"
        "panic = (case e2 of Some e \<Rightarrow> Some (RollbackFailed errp' e) | None \<Rightarrow> map_option Repanic recoverP)"
        using run na True x by (auto simp: end_fn_def bind_eq_Some_conv)
      have "tx c1 = tx c" using r False autocommit_iff [of c1] by (cases "tx c") (auto simp: aborted_def)
      with assms(2) have "S (tx c1)" by simp
      from rollback [OF conjunct1 [OF r] this st(1-3,5)] st(4) False True show ?thesis by auto
    qed
  qed
qed

lemma end_savepoint_atomic:
  assumes "inv c" and "inside n t0 (tx c)" and "meaning back_q = Some (C_RollbackTo n)" and "meaning rel_q = Some (C_Release n)"
    and "end_fn execute autocommit setInterrupt rel_q [back_q, rel_q] errp recoverP c = Some ((panic, errp'), c')"
  shows "inv c' \<and> (errp \<noteq> None \<longrightarrow> errp' = errp) \<and>
    (if errp' = None \<and> panic = None then tx c' = with_current (current_of (tx c)) t0
     else (\<exists>e. panic = Some (RollbackFailed errp' e)) \<or> tx c' = t0 \<or> tx c' = Auto (start_of t0))"
proof (rule end_fn_atomic [where S = "inside n t0", OF assms(1,2) _ assms(4) inside_release _ assms(5)])
  show "t \<noteq> Auto (current_of t) \<and> start_of t = start_of t0" if "inside n t0 t" for t
    using inside_not_Auto [OF that] inside_start [OF that] by blast
qed (assumption, rule rollback_savepoint [OF _ _ assms(3,4)])

lemma end_transaction_atomic:
  assumes "inv c" and "tx c \<noteq> Auto (current_of (tx c))" and "meaning back_q = Some C_Rollback" and "meaning commit_q = Some C_Commit"
    and "end_fn execute autocommit setInterrupt commit_q [back_q] errp recoverP c = Some ((panic, errp'), c')"
  shows "inv c' \<and> (errp \<noteq> None \<longrightarrow> errp' = errp) \<and>
    (if errp' = None \<and> panic = None then tx c' = Auto (current_of (tx c))
     else (\<exists>e. panic = Some (RollbackFailed errp' e)) \<or> tx c' = Auto (start_of (tx c)))"
proof -
  let ?S = "\<lambda>t. t \<noteq> Auto (current_of t) \<and> start_of t = start_of (tx c)"
  have "inv c' \<and> (errp \<noteq> None \<longrightarrow> errp' = errp) \<and>
    (if errp' = None \<and> panic = None then tx c' = Auto (current_of (tx c))
     else (\<exists>e. panic = Some (RollbackFailed errp' e)) \<or> tx c' = Auto (start_of (tx c)) \<or> tx c' = Auto (start_of (tx c)))"
  proof (rule end_fn_atomic [where S = ?S])
    show "txn_apply C_Commit t = Some (Auto (current_of t))" if "?S t" for t using that by (cases t) auto
    show "inv c' \<and> (idle c1 \<longrightarrow> idle c') \<and> (err = None \<longrightarrow> tx c' = Auto (start_of (tx c)))"
      if "inv c1" "?S (tx c1)" "run_all execute [back_q] c1 = Some (err, c')" for c1 err c'
      using rollback_transaction [OF that(1) _ assms(3) that(3)] that(2) by auto
  qed (use assms in auto)
  then show ?thesis by auto
qed

end

section \<open>What SQLite promises of transactions\<close>

text \<open>A view of a world: its transaction, and the text of each prepared statement; \<open>t_meaning\<close> tells which texts are statements that control
  transactions.\<close>

record ('w, 'd) txn_view =
  t_tx :: "'w \<Rightarrow> 'd txn"
  t_sql :: "nat \<Rightarrow> 'w \<Rightarrow> gostring"
  t_meaning :: "gostring \<Rightarrow> ctl option"

definition keeps :: "('w, 'n) lib_view_scheme \<Rightarrow> ('w, 'd) txn_view \<Rightarrow> 'w \<Rightarrow> 'w \<Rightarrow> bool" where
  "keeps V T w w' \<longleftrightarrow> t_tx T w' = t_tx T w \<and> (\<forall>q. v_live V q w \<longrightarrow> v_live V q w' \<and> t_sql T q w' = t_sql T q w)"

definition texts_kept :: "('w, 'n) lib_view_scheme \<Rightarrow> ('w, 'd) txn_view \<Rightarrow> 'w \<Rightarrow> 'w \<Rightarrow> bool" where
  "texts_kept V T w w' \<longleftrightarrow> (\<forall>q. v_live V q w \<longrightarrow> v_live V q w' \<and> t_sql T q w' = t_sql T q w)"

definition is_ctl :: "('w, 'n) lib_view_scheme \<Rightarrow> ('w, 'd) txn_view \<Rightarrow> nat \<Rightarrow> 'w \<Rightarrow> bool" where
  "is_ctl V T p w \<longleftrightarrow> v_live V p w \<and> t_meaning T (t_sql T p w) \<noteq> None"

text \<open>Ending the execution of a statement does not change the transaction unless it is a statement that was in the middle of its own implicit
  transaction.\<close>

definition safe :: "('w, 'n) lib_view_scheme \<Rightarrow> ('w, 'd) txn_view \<Rightarrow> nat \<Rightarrow> 'w \<Rightarrow> bool" where
  "safe V T p w \<longleftrightarrow> is_ctl V T p w \<or> \<not> v_busy V p w \<or> t_tx T w \<noteq> Auto (current_of (t_tx T w))"

text \<open>A statement that controls the transaction returns no rows, but is done or fails.  When it is done its effect is the documented one and its reset succeeds; after an
  error the transaction is as before or was rolled back, and a shared-cache lock changes nothing.  The other calls change neither the transaction nor
  the text of a statement.\<close>

definition step_ctl_ok :: "lib_consts \<Rightarrow> ('w, 'm) sqlite_lib_scheme \<Rightarrow> ('w, 'd) txn_view \<Rightarrow> nat \<Rightarrow> ctl \<Rightarrow> 'w \<Rightarrow> bool" where
  "step_ctl_ok K L T p m w \<longleftrightarrow> (case x_step L p w of (res, w') \<Rightarrow>
     ToPrimary res \<noteq> ResultRow K \<and>
     (ToPrimary res = ResultDone K \<longrightarrow> txn_apply m (t_tx T w) = Some (t_tx T w') \<and> fst (x_reset L p w') = ResultOK K) \<and>
     (ToPrimary res \<noteq> ResultDone K \<longrightarrow> \<not> IsSuccess K res \<and> aborted (t_tx T w) (t_tx T w')) \<and>
     (res = ResultLockedSharedCache K \<longrightarrow> t_tx T w' = t_tx T w))"

definition lib_txn_ok :: "lib_consts \<Rightarrow> ('w, 'm) sqlite_lib_scheme \<Rightarrow> ('w, 'n) lib_view_scheme \<Rightarrow> ('w, 'd) txn_view \<Rightarrow> bool" where
  "lib_txn_ok K L V T \<longleftrightarrow>
     (\<forall>p w q. v_live V q w \<longrightarrow> t_sql T q (snd (x_step L p w)) = t_sql T q w) \<and>
     (\<forall>p w m. v_live V p w \<longrightarrow> t_meaning T (t_sql T p w) = Some m \<longrightarrow> step_ctl_ok K L T p m w) \<and>
     (\<forall>p w. texts_kept V T w (snd (x_reset L p w)) \<and> (safe V T p w \<longrightarrow> keeps V T w (snd (x_reset L p w)))) \<and>
     (\<forall>p w q. \<not> v_busy V p w \<longrightarrow> t_tx T (snd (x_finalize L p w)) = t_tx T w \<and>
        (v_live V q w \<longrightarrow> q \<noteq> p \<longrightarrow> t_sql T q (snd (x_finalize L p w)) = t_sql T q w)) \<and>
     (\<forall>q f w code p n w'. x_prepare_v3 L q f w = ((code, p, n), w') \<longrightarrow> keeps V T w w' \<and>
        (n = length q \<longrightarrow> p \<noteq> 0 \<longrightarrow> t_sql T p w' = q) \<and> (n = length q \<longrightarrow> IsSuccess K code \<longrightarrow> t_meaning T q \<noteq> None \<longrightarrow> p \<noteq> 0)) \<and>
     (\<forall>w. x_get_autocommit L w \<longleftrightarrow> t_tx T w = Auto (current_of (t_tx T w))) \<and>
     (\<forall>p w. keeps V T w (snd (x_clear_bindings L p w))) \<and> (\<forall>n w. keeps V T w (snd (x_malloc L n w))) \<and>
     (\<forall>q w. keeps V T w (snd (x_cstring L q w))) \<and> (\<forall>w. keeps V T w (snd (snd (x_unlock_notify L w)))) \<and>
     (\<forall>w w'. un_block L w = Some w' \<longrightarrow> keeps V T w w') \<and> (\<forall>ch w. keeps V T w (snd (x_done L ch w))) \<and>
     ResultLocked K \<noteq> ResultDone K \<and> ResultOK K \<noteq> ResultLockedSharedCache K"

lemma lib_txn_okD:
  assumes "lib_txn_ok K L V T"
  shows "v_live V q w \<Longrightarrow> t_sql T q (snd (x_step L p w)) = t_sql T q w"
    and "v_live V p w \<Longrightarrow> t_meaning T (t_sql T p w) = Some m \<Longrightarrow> step_ctl_ok K L T p m w"
    and "safe V T p w \<Longrightarrow> keeps V T w (snd (x_reset L p w))"
    and "\<not> v_busy V p w \<Longrightarrow> t_tx T (snd (x_finalize L p w)) = t_tx T w"
    and "\<not> v_busy V p w \<Longrightarrow> v_live V q w \<Longrightarrow> q \<noteq> p \<Longrightarrow> t_sql T q (snd (x_finalize L p w)) = t_sql T q w"
    and "x_prepare_v3 L qu f w = ((code, p, n), w') \<Longrightarrow> keeps V T w w'"
    and "x_prepare_v3 L qu f w = ((code, p, n), w') \<Longrightarrow> n = length qu \<Longrightarrow> p \<noteq> 0 \<Longrightarrow> t_sql T p w' = qu"
    and "x_prepare_v3 L qu f w = ((code, p, n), w') \<Longrightarrow> n = length qu \<Longrightarrow> IsSuccess K code \<Longrightarrow> t_meaning T qu \<noteq> None \<Longrightarrow> p \<noteq> 0"
    and "x_get_autocommit L w \<longleftrightarrow> t_tx T w = Auto (current_of (t_tx T w))"
    and "keeps V T w (snd (x_clear_bindings L p w))" and "keeps V T w (snd (x_malloc L i w))"
    and "keeps V T w (snd (x_cstring L qu w))" and "keeps V T w (snd (snd (x_unlock_notify L w)))"
    and "un_block L w = Some w' \<Longrightarrow> keeps V T w w'" and "keeps V T w (snd (x_done L ch w))"
    and "ResultLocked K \<noteq> ResultDone K" and "ResultOK K \<noteq> ResultLockedSharedCache K"
    and "texts_kept V T w (snd (x_reset L p w))"
  using assms unfolding lib_txn_ok_def by (simp_all del: not_None_eq split_paired_All)

lemma keeps_refl [simp]: "keeps V T w w"
  by (simp add: keeps_def)

lemma keeps_trans: "keeps V T w1 w2 \<Longrightarrow> keeps V T w2 w3 \<Longrightarrow> keeps V T w1 w3"
  by (auto simp: keeps_def)

lemma keeps_texts: "keeps V T w w' \<Longrightarrow> texts_kept V T w w'"
  by (simp add: keeps_def texts_kept_def)

lemma texts_kept_trans: "texts_kept V T w1 w2 \<Longrightarrow> texts_kept V T w2 w3 \<Longrightarrow> texts_kept V T w1 w3"
  by (simp add: texts_kept_def)

lemma keeps_ctl: "keeps V T w w' \<Longrightarrow> is_ctl V T p w \<Longrightarrow> is_ctl V T p w'"
  by (auto simp: keeps_def is_ctl_def)

lemma safe_quiet: "keeps V T w w' \<Longrightarrow> quiet V w w' \<Longrightarrow> safe V T p w \<Longrightarrow> safe V T p w'"
  by (auto simp: keeps_def safe_def is_ctl_def quiet_def)

section \<open>Lemmas: calls that keep the transaction\<close>

lemma Conn_interrupted_keeps:
  assumes "lib_txn_ok K L V T"
  shows "keeps V T (c_world c) (c_world (snd (Conn_interrupted K L c)))"
  using lib_txn_okD(15) [OF assms] by (auto simp: Conn_interrupted_def lib_call_eq split: option.splits)

lemma Conn_wait_keeps:
  assumes "lib_txn_ok K L V T" and "Conn_wait K L c = Some (r, c')"
  shows "keeps V T (c_world c) (c_world c')"
proof -
  obtain un w where w: "waitForUnlockNotify K L (c_note c) (c_world c) = Some (r, un, w)" and c': "c' = c\<lparr>c_note := un, c_world := w\<rparr>"
    using assms(2) by (auto simp: Conn_wait_def)
  obtain res called w1 where u: "x_unlock_notify L (c_world c) = (res, called, w1)" by (cases "x_unlock_notify L (c_world c)")
  then have k: "keeps V T (c_world c) w1" using lib_txn_okD(13) [OF assms(1), of "c_world c"] by simp
  have "w = w1 \<or> un_block L w1 = Some w"
    using w u by (auto simp: waitForUnlockNotify_def Let_def split: if_splits option.splits)
  then show ?thesis using k keeps_trans [OF k lib_txn_okD(14) [OF assms(1)]] by (auto simp: c')
qed

lemma Reset_loop_keeps:
  fixes L :: "('w, 'm) sqlite_lib_scheme" and V :: "('w, 'n) lib_view_scheme"
  assumes "Reset_loop K L p c = Some r"
  shows "lib_txn_ok K L V T \<longrightarrow> lib_busy_ok K L V \<longrightarrow> texts_kept V T (c_world c) (c_world (snd r)) \<and> (safe V T p (c_world c) \<longrightarrow> keeps V T (c_world c) (c_world (snd r)))"
proof (rule Reset_loop.raw_induct [where P = "\<lambda>K L p c r. lib_txn_ok K L V T \<longrightarrow> lib_busy_ok K L V \<longrightarrow> 
    texts_kept V T (c_world c) (c_world (snd r)) \<and> (safe V T p (c_world c) \<longrightarrow> keeps V T (c_world c) (c_world (snd r)))", OF _ assms])
  fix f :: "lib_consts \<Rightarrow> ('w, 'm) sqlite_lib_scheme \<Rightarrow> nat \<Rightarrow> 'w Conn \<Rightarrow> (error \<times> 'w Conn) option"
    and K and L :: "('w, 'm) sqlite_lib_scheme" and p and c :: "'w Conn" and r
  assume IH: "\<And>K L p c r. f K L p c = Some r \<Longrightarrow> lib_txn_ok K L V T \<longrightarrow> lib_busy_ok K L V \<longrightarrow> 
      texts_kept V T (c_world c) (c_world (snd r)) \<and> (safe V T p (c_world c) \<longrightarrow> keeps V T (c_world c) (c_world (snd r)))"
    and eq: "(case lib_call (x_reset L p) c of (res, c) \<Rightarrow>
        if res \<noteq> ResultLockedSharedCache K then Some (wrap_error fmt_reset (conn_extreserr K L res c), c)
        else Conn_wait K L c \<bind> (\<lambda>(r, c).
          if r \<noteq> ResultOK K then Some (errorf_w fmt_reset (conn_extreserr K L r c), c) else f K L p c)) = Some r"
  show "lib_txn_ok K L V T \<longrightarrow> lib_busy_ok K L V \<longrightarrow> texts_kept V T (c_world c) (c_world (snd r)) \<and> (safe V T p (c_world c) \<longrightarrow> keeps V T (c_world c) (c_world (snd r)))"
  proof (intro impI)
    assume ok: "lib_txn_ok K L V T" and bo: "lib_busy_ok K L V"
    let ?c1 = "c\<lparr>c_world := snd (x_reset L p (c_world c))\<rparr>"
    have t1: "texts_kept V T (c_world c) (c_world ?c1)" using lib_txn_okD(18) [OF ok] by simp
    have k1: "safe V T p (c_world c) \<Longrightarrow> keeps V T (c_world c) (c_world ?c1)" using lib_txn_okD(3) [OF ok] by simp
    have b1: "\<not> v_busy V p (c_world ?c1)" using lib_busy_okD(4) [OF bo] by simp
    show "texts_kept V T (c_world c) (c_world (snd r)) \<and> (safe V T p (c_world c) \<longrightarrow> keeps V T (c_world c) (c_world (snd r)))"
    proof (cases "fst (x_reset L p (c_world c)) = ResultLockedSharedCache K")
      case False
      then show ?thesis using eq k1 t1 by (auto simp: lib_call_eq)
    next
      case True
      then obtain r2 c2 where w: "Conn_wait K L ?c1 = Some (r2, c2)" and rest: "snd r = c2 \<or> f K L p c2 = Some r"
        using eq by (auto simp: lib_call_eq bind_eq_Some_conv split: if_splits)
      note kw = Conn_wait_keeps [OF ok w]
      have "\<not> v_busy V p (c_world c2)" using Conn_wait_effect [OF bo w] b1 by (auto simp: effect_def quiet_def)
      then have "safe V T p (c_world c2)" by (simp add: safe_def)
      with IH [of K L p c2 r] ok bo have "f K L p c2 = Some r \<Longrightarrow> keeps V T (c_world c2) (c_world (snd r))" by blast
      with rest have k2: "keeps V T (c_world ?c1) (c_world (snd r))" using kw keeps_trans [OF kw] by auto
      show ?thesis using texts_kept_trans [OF t1 keeps_texts [OF k2]] keeps_trans [OF k1 k2] by blast
    qed
  qed
qed

lemma Reset_keeps:
  assumes "lib_txn_ok K L V T" and "lib_busy_ok K L V" and "safe V T (s_ptr (stmt_at c s)) (c_world c)" and "Reset K L s c = Some (err, c')"
  shows "keeps V T (c_world c) (c_world c')"
proof -
  have "Reset_loop K L (s_ptr (stmt_at c s)) (upd_stmt s (\<lambda>st. st\<lparr>s_lastHasRow := False\<rparr>) c) = Some (err, c')"
    using assms(4) by (simp add: Reset_def Let_def split: if_splits)
  from Reset_loop_keeps [OF this, of V T] show ?thesis using assms(1-3) by simp
qed

lemma Reset_texts:
  assumes "lib_txn_ok K L V T" and "lib_busy_ok K L V" and "Reset K L s c = Some (err, c')"
  shows "texts_kept V T (c_world c) (c_world c')"
proof -
  have "Reset_loop K L (s_ptr (stmt_at c s)) (upd_stmt s (\<lambda>st. st\<lparr>s_lastHasRow := False\<rparr>) c) = Some (err, c')"
    using assms(3) by (simp add: Reset_def Let_def split: if_splits)
  from Reset_loop_keeps [OF this, of V T] show ?thesis using assms(1,2) by simp
qed

lemma ClearBindings_keeps:
  assumes "lib_txn_ok K L V T" and "ClearBindings K L s c = Some (err, c')"
  shows "keeps V T (c_world c) (c_world c')"
proof -
  obtain e c1 where i: "Stmt_interrupted K L s c = Some (e, c1)" and c': "c' = c1 \<or> c' = snd (lib_call (x_clear_bindings L (s_ptr (stmt_at c1 s))) c1)"
    using assms(2) by (auto simp: ClearBindings_def bind_eq_Some_conv case_prod_beta split: if_splits)
  have "keeps V T (c_world c) (c_world c1)"
    using i Conn_interrupted_keeps [OF assms(1), of c] by (auto simp: Stmt_interrupted_def split: if_splits)
  then show ?thesis using c' keeps_trans lib_txn_okD(10) [OF assms(1)] by (fastforce simp: lib_call_eq)
qed

section \<open>Lemmas: statements that control the transaction\<close>

definition ctl_at :: "('w, 'n) lib_view_scheme \<Rightarrow> ('w, 'd) txn_view \<Rightarrow> nat \<Rightarrow> ctl \<Rightarrow> 'w \<Rightarrow> bool" where
  "ctl_at V T p m w \<longleftrightarrow> v_live V p w \<and> t_meaning T (t_sql T p w) = Some m"

text \<open>The outcome of executing the statement \<open>p\<close> with the meaning \<open>m\<close>.\<close>

definition ran :: "lib_consts \<Rightarrow> ('w, 'm) sqlite_lib_scheme \<Rightarrow> ('w, 'n) lib_view_scheme \<Rightarrow> ('w, 'd) txn_view \<Rightarrow> nat \<Rightarrow> ctl \<Rightarrow> 'w \<Rightarrow>
    (bool \<times> error) \<times> 'w Conn \<Rightarrow> bool" where
  "ran K L V T p m w r \<longleftrightarrow> \<not> fst (fst r) \<and> texts_kept V T w (c_world (snd r)) \<and>
     (if snd (fst r) = None then txn_apply m (t_tx T w) = Some (t_tx T (c_world (snd r))) \<and> fst (x_reset L p (c_world (snd r))) = ResultOK K
      else aborted (t_tx T w) (t_tx T (c_world (snd r))))"

lemma ctl_keeps: "keeps V T w w' \<Longrightarrow> ctl_at V T p m w \<Longrightarrow> ctl_at V T p m w'"
  by (simp add: keeps_def ctl_at_def)

lemma ctl_safe: "ctl_at V T p m w \<Longrightarrow> safe V T p w"
  by (simp add: ctl_at_def safe_def is_ctl_def)

lemma ran_keeps: "keeps V T w w1 \<Longrightarrow> ran K L V T p m w1 r \<Longrightarrow> ran K L V T p m w r"
  by (auto simp: ran_def keeps_def texts_kept_def)

lemma ran_error: "keeps V T w (c_world c') \<Longrightarrow> err \<noteq> None \<Longrightarrow> ran K L V T p m w ((False, err), c')"
  by (auto simp: ran_def keeps_def texts_kept_def aborted_def)

lemma step_ctl_turn:
  assumes "lib_txn_ok K L V T" and "lib_busy_ok K L V" and "ctl_at V T p m (c_world c)" and "lib_call (x_step L p) c = (res, c')"
  shows "texts_kept V T (c_world c) (c_world c')" and "ToPrimary res \<noteq> ResultRow K"
    and "ToPrimary res = ResultDone K \<Longrightarrow> ran K L V T p m (c_world c) ((False, None), c')"
    and "ToPrimary res \<noteq> ResultDone K \<Longrightarrow> \<not> IsSuccess K res"
    and "ToPrimary res \<noteq> ResultDone K \<Longrightarrow> err \<noteq> None \<Longrightarrow> ran K L V T p m (c_world c) ((False, err), c')"
    and "res = ResultLockedSharedCache K \<Longrightarrow> keeps V T (c_world c) (c_world c')"
proof -
  have e: "res = fst (x_step L p (c_world c))" "c_world c' = snd (x_step L p (c_world c))" using assms(4) by (auto simp: lib_call_eq)
  have "touches V p (c_world c) (c_world c')" using lib_busy_okD(1) [OF assms(2)] e by simp
  then show tk: "texts_kept V T (c_world c) (c_world c')"
    using lib_txn_okD(1) [OF assms(1)] e by (auto simp: texts_kept_def touches_def)
  have s: "step_ctl_ok K L T p m (c_world c)" using lib_txn_okD(2) [OF assms(1)] assms(3) by (auto simp: ctl_at_def)
  then show "ToPrimary res \<noteq> ResultRow K" "ToPrimary res \<noteq> ResultDone K \<Longrightarrow> \<not> IsSuccess K res"
    using e by (auto simp: step_ctl_ok_def case_prod_beta)
  show "ToPrimary res = ResultDone K \<Longrightarrow> ran K L V T p m (c_world c) ((False, None), c')"
    "ToPrimary res \<noteq> ResultDone K \<Longrightarrow> err \<noteq> None \<Longrightarrow> ran K L V T p m (c_world c) ((False, err), c')"
    using s e tk by (auto simp: step_ctl_ok_def case_prod_beta ran_def)
  show "res = ResultLockedSharedCache K \<Longrightarrow> keeps V T (c_world c) (c_world c')"
    using s e tk by (auto simp: step_ctl_ok_def case_prod_beta keeps_def texts_kept_def)
qed

lemma Stmt_interrupted_keeps:
  assumes "lib_txn_ok K L V T" and "Stmt_interrupted K L s c = Some (err, c')"
  shows "keeps V T (c_world c) (c_world c') \<and> c_heap c' = c_heap c"
proof -
  have "c_heap (snd (Conn_interrupted K L c)) = c_heap c"
    by (auto simp: Conn_interrupted_def lib_call_eq split: option.splits)
  then show ?thesis
    using assms(2) Conn_interrupted_keeps [OF assms(1), of c] by (auto simp: Stmt_interrupted_def split: if_splits)
qed

lemma step_loop_ctl:
  fixes L :: "('w, 'm) sqlite_lib_scheme" and V :: "('w, 'n) lib_view_scheme"
  assumes "step_loop K L s c = Some r"
  shows "lib_txn_ok K L V T \<longrightarrow> lib_busy_ok K L V \<longrightarrow> ctl_at V T (s_ptr (stmt_at c s)) m (c_world c) \<longrightarrow>
    ran K L V T (s_ptr (stmt_at c s)) m (c_world c) r"
proof (rule step_loop.raw_induct [where P = "\<lambda>K L s c r. lib_txn_ok K L V T \<longrightarrow> lib_busy_ok K L V \<longrightarrow>
    ctl_at V T (s_ptr (stmt_at c s)) m (c_world c) \<longrightarrow> ran K L V T (s_ptr (stmt_at c s)) m (c_world c) r", OF _ assms])
  fix f :: "lib_consts \<Rightarrow> ('w, 'm) sqlite_lib_scheme \<Rightarrow> nat \<Rightarrow> 'w Conn \<Rightarrow> ((bool \<times> error) \<times> 'w Conn) option"
    and K and L :: "('w, 'm) sqlite_lib_scheme" and s and c :: "'w Conn" and r
  let ?p = "s_ptr (stmt_at c s)"
  assume IH: "\<And>K L s c r. f K L s c = Some r \<Longrightarrow> lib_txn_ok K L V T \<longrightarrow> lib_busy_ok K L V \<longrightarrow>
      ctl_at V T (s_ptr (stmt_at c s)) m (c_world c) \<longrightarrow> ran K L V T (s_ptr (stmt_at c s)) m (c_world c) r"
    and eq: "Stmt_interrupted K L s c \<bind> (\<lambda>(err, c).
      if err \<noteq> None then Some ((False, err), c)
      else if \<not> s_conn (stmt_at c s) then None
      else (case lib_call (x_step L (s_ptr (stmt_at c s))) c of (res, c) \<Rightarrow>
        if ToPrimary res = ResultLocked K then
          if res \<noteq> ResultLockedSharedCache K then Some ((False, conn_extreserr K L res c), c)
          else Conn_wait K L c \<bind> (\<lambda>(r, c).
            if \<not> IsSuccess K r then Some ((False, conn_extreserr K L r c), c)
            else f K L s (snd (lib_call (x_reset L (s_ptr (stmt_at c s))) c)))
        else if ToPrimary res = ResultRow K then Some ((True, None), c)
        else if ToPrimary res = ResultDone K then Some ((False, None), c)
        else if ToPrimary res = ResultInterrupt K then Some ((False, ToError K res), c)
        else Some ((False, conn_extreserr K L res c), c))) = Some r"
  show "lib_txn_ok K L V T \<longrightarrow> lib_busy_ok K L V \<longrightarrow> ctl_at V T ?p m (c_world c) \<longrightarrow> ran K L V T ?p m (c_world c) r"
  proof (intro impI)
    assume ok: "lib_txn_ok K L V T" and bo: "lib_busy_ok K L V" and ct: "ctl_at V T ?p m (c_world c)"
    obtain err c0 where i: "Stmt_interrupted K L s c = Some (err, c0)" using eq by (auto simp: bind_eq_Some_conv)
    note k0 = Stmt_interrupted_keeps [OF ok i]
    have ct0: "ctl_at V T ?p m (c_world c0)" using ctl_keeps [OF conjunct1 [OF k0] ct] .
    obtain res c1 where st: "lib_call (x_step L ?p) c0 = (res, c1)" by fastforce
    note turn = step_ctl_turn [OF ok bo ct0 st]
    have h1: "c_heap c1 = c_heap c" using st k0 by (auto simp: lib_call_eq)
    show "ran K L V T ?p m (c_world c) r"
    proof (cases "err = None \<and> ToPrimary res = ResultLocked K \<and> res = ResultLockedSharedCache K")
      case False
      then have "r = ((False, err), c0) \<and> err \<noteq> None \<or> (\<exists>e. r = ((False, e), c1) \<and> (e = None \<longleftrightarrow> ToPrimary res = ResultDone K))"
        using eq i st k0 turn(2,4) lib_txn_okD(16) [OF ok]
        by (auto simp: conn_extreserr_def extreserr_def ToError_def split: if_splits)
      moreover have "ran K L V T ?p m (c_world c) ((False, e), c1)" if "e = None \<longleftrightarrow> ToPrimary res = ResultDone K" for e
        using that turn(3) turn(5) [of e] by (cases e) (auto intro: ran_keeps [OF conjunct1 [OF k0]])
      ultimately show ?thesis using ran_error [of V T "c_world c" c0 err] k0 by auto
    next
      case True
      then obtain r2 c2 where w: "Conn_wait K L c1 = Some (r2, c2)"
        and rest: "(if \<not> IsSuccess K r2 then Some ((False, conn_extreserr K L r2 c2), c2)
          else f K L s (snd (lib_call (x_reset L (s_ptr (stmt_at c2 s))) c2))) = Some r"
        using eq i st k0 by (auto simp: bind_eq_Some_conv split: if_splits)
      have k2: "keeps V T (c_world c) (c_world c2)"
        using keeps_trans [OF keeps_trans [OF conjunct1 [OF k0] turn(6)] Conn_wait_keeps [OF ok w]] True by blast
      have h2: "c_heap c2 = c_heap c" using Conn_wait_effect [OF bo w] h1 by (simp add: effect_def)
      let ?c3 = "snd (lib_call (x_reset L ?p) c2)"
      have "keeps V T (c_world c2) (c_world ?c3)"
        using lib_txn_okD(3) [OF ok ctl_safe [OF ctl_keeps [OF k2 ct]]] by (simp add: lib_call_eq)
      then have k3: "keeps V T (c_world c) (c_world ?c3)" by (rule keeps_trans [OF k2])
      have h3: "stmt_at ?c3 s = stmt_at c s" using h2 by (simp add: lib_call_eq)
      show ?thesis
      proof (cases "IsSuccess K r2")
        case False
        then have "r = ((False, conn_extreserr K L r2 c2), c2)" "conn_extreserr K L r2 c2 \<noteq> None"
          using rest by (auto simp: conn_extreserr_def extreserr_def)
        then show ?thesis using ran_error [OF k2] by simp
      next
        case True
        then have "f K L s ?c3 = Some r" using rest h2 by simp
        from IH [OF this, THEN mp, OF ok, THEN mp, OF bo] h3 ctl_keeps [OF k3 ct] have "ran K L V T ?p m (c_world ?c3) r" by simp
        then show ?thesis by (rule ran_keeps [OF k3])
      qed
    qed
  qed
qed

lemma Step_ctl:
  assumes "lib_txn_ok K L V T" and "lib_busy_ok K L V" and "ctl_at V T (s_ptr (stmt_at c s)) m (c_world c)"
    and "Step K L s c = Some ((row, err), c')"
  shows "ran K L V T (s_ptr (stmt_at c s)) m (c_world c) ((row, err), c')"
proof (cases "s_bindErr (stmt_at c s)")
  case (Some e)
  let ?c = "upd_stmt s (\<lambda>st. st\<lparr>s_bindErr := None\<rparr>) c"
  obtain e' where r: "Reset K L s ?c = Some (e', c')" and e: "\<not> row" "err \<noteq> None"
    using assms(4) Some by (auto simp: Step_def bind_eq_Some_conv errorf_w_def)
  have "keeps V T (c_world ?c) (c_world c')" using Reset_keeps [OF assms(1,2) _ r] ctl_safe [OF assms(3)] by simp
  then show ?thesis using ran_error [of V T "c_world c" c' err] e by simp
next
  case None
  obtain row1 err1 c1 where l: "step_loop K L s c = Some ((row1, err1), c1)"
    using assms(4) None by (cases "step_loop K L s c") (auto simp: Step_def)
  have r1: "ran K L V T (s_ptr (stmt_at c s)) m (c_world c) ((row1, err1), c1)" using step_loop_ctl [OF l, of V T m] assms(1-3) by blast
  have h1: "c_heap c1 = c_heap c" using step_loop_effect [OF l, of V] assms(2) by (simp add: step_result_ok_def effect_def)
  show ?thesis
  proof (cases err1)
    case None': None
    then show ?thesis using assms(4) None l r1 by (auto simp: Step_def Let_def ran_def)
  next
    case (Some e)
    have c': "\<not> row" "err \<noteq> None" "c_world c' = snd (x_reset L (s_ptr (stmt_at c s)) (c_world c1))"
      using assms(4) None l Some h1 r1 by (auto simp: Step_def Let_def lib_call_eq errorf_w_def ran_def split: if_splits)
    have "ctl_at V T (s_ptr (stmt_at c s)) m (c_world c1)" using r1 assms(3) by (auto simp: ran_def texts_kept_def ctl_at_def)
    then have "keeps V T (c_world c1) (c_world c')" using lib_txn_okD(3) [OF assms(1) ctl_safe] c' by simp
    then show ?thesis using r1 Some c'(1,2) by (auto simp: ran_def keeps_def texts_kept_def)
  qed
qed

lemma exec_ctl:
  assumes "lib_txn_ok K L V T" and "lib_busy_ok K L V" and "ctl_at V T (s_ptr (stmt_at c s)) m (c_world c)"
    and "exec K L s flags None c = Some (err, c')"
  shows "ran K L V T (s_ptr (stmt_at c s)) m (c_world c) ((False, err), c')"
proof (cases "\<exists>e. err = Some e \<and> c' = c")
  case True
  then show ?thesis using ran_error [of V T "c_world c" c' err] by auto
next
  case False
  then have l: "row_loop (Step K L s) None c = Some (err, c')"
    using assms(4) by (auto simp: exec_def exec_bind_def Let_def err_missing_def split: if_splits)
  then obtain row e c1 where st: "Step K L s c = Some ((row, e), c1)" by (subst (asm) row_loop.simps) (auto simp: bind_eq_Some_conv)
  note r = Step_ctl [OF assms(1-3) st]
  then have "\<not> row" by (simp add: ran_def)
  then have "err = e" "c' = c1" using l st by (subst (asm) row_loop.simps; cases e; simp)+
  then show ?thesis using r \<open>\<not> row\<close> by simp
qed

lemma keeps_call:
  assumes "lib_call f c = (r, c')" and "\<And>w. keeps V T w (snd (f w))" and "keeps V T w0 (c_world c)"
  shows "keeps V T w0 (c_world c')"
  using assms(1) keeps_trans [OF assms(3) assms(2)] by (auto simp: lib_call_eq)

lemma conn_prepare_ctl:
  assumes "lib_txn_ok K L V T" and "conn_prepare K L query flags c = ((so, trailing, err), c')"
  shows "keeps V T (c_world c) (c_world c')"
    and "so = Some s \<Longrightarrow> trailing = 0 \<Longrightarrow> t_meaning T query \<noteq> None \<Longrightarrow>
      s_ptr (stmt_at c' s) \<noteq> 0 \<and> t_sql T (s_ptr (stmt_at c' s)) (c_world c') = query"
proof -
  obtain e0 c0 where c0: "Conn_interrupted K L c = (e0, c0)" by fastforce
  have k0: "keeps V T (c_world c) (c_world c0)" using Conn_interrupted_keeps [OF assms(1), of c] c0 by simp
  obtain e1 c1 where c1: "lib_call (x_cstring L query) c0 = (e1, c1)" by fastforce
  note k1 = keeps_call [OF c1 lib_txn_okD(12) [OF assms(1)] k0]
  obtain ok2 c2 where c2: "lib_call (x_malloc L 8) c1 = (ok2, c2)" by fastforce
  note k2 = keeps_call [OF c2 lib_txn_okD(11) [OF assms(1)] k1]
  obtain ok3 c3 where c3: "lib_call (x_malloc L 8) c2 = (ok3, c3)" by fastforce
  note k3 = keeps_call [OF c3 lib_txn_okD(11) [OF assms(1)] k2]
  obtain res p n c4 where c4: "lib_call (x_prepare_v3 L query flags) c3 = ((res, p, n), c4)" by (metis surj_pair)
  have x: "x_prepare_v3 L query flags (c_world c3) = ((res, p, n), c_world c4)" using c4 by (auto simp: lib_call_def split: prod.splits)
  note k4 = keeps_trans [OF k3 lib_txn_okD(6) [OF assms(1) x]]
  let ?a = "alloc_Stmt (new_Stmt L query p (c_world c4)) c4"
  have eq: "conn_prepare K L query flags c =
     (if e0 \<noteq> None then ((None, 0, e0), c0) else if e1 \<noteq> None then ((None, 0, e1), c1)
      else if \<not> ok2 then ((None, 0, Some err_nomem), c2) else if \<not> ok3 then ((None, 0, Some err_nomem), c3)
      else if conn_extreserr K L res c4 \<noteq> None then ((None, 0, locate_error query (conn_extreserr K L res c4)), c4)
      else ((Some (fst ?a), int (length query) - int n, None), snd ?a))"
    by (simp add: conn_prepare_def c0 c1 c2 c3 c4 Let_def case_prod_beta)
  have a: "c_world (snd ?a) = c_world c4" "stmt_at (snd ?a) (fst ?a) = new_Stmt L query p (c_world c4)" by (simp_all add: alloc_Stmt_def)
  show "keeps V T (c_world c) (c_world c')"
    using assms(2) k0 k1 k2 k3 k4 a unfolding eq by (auto split: if_splits)
  show "s_ptr (stmt_at c' s) \<noteq> 0 \<and> t_sql T (s_ptr (stmt_at c' s)) (c_world c') = query"
    if "so = Some s" "trailing = 0" "t_meaning T query \<noteq> None"
  proof -
    have e: "c' = snd ?a" "s = fst ?a" "n = length query" "conn_extreserr K L res c4 = None"
      using assms(2) that(1,2) unfolding eq by (auto split: if_splits)
    then have s: "IsSuccess K res" by (simp add: conn_extreserr_def extreserr_None_iff)
    have p: "s_ptr (stmt_at c' s) = p" "c_world c' = c_world c4" using e a by (simp_all add: new_Stmt_def)
    have "p \<noteq> 0" using lib_txn_okD(8) [OF assms(1) x e(3) s that(3)] .
    with lib_txn_okD(7) [OF assms(1) x e(3)] p show ?thesis by simp
  qed
qed

text \<open>The texts of the cached statements that control transactions are known.\<close>

definition texts_ok :: "('w, 'd) txn_view \<Rightarrow> 'w Conn \<Rightarrow> bool" where
  "texts_ok T c \<longleftrightarrow> (\<forall>(q, s) \<in> set (c_stmts c). t_meaning T q \<noteq> None \<longrightarrow>
     s_ptr (stmt_at c s) \<noteq> 0 \<and> t_sql T (s_ptr (stmt_at c s)) (c_world c) = q)"

lemma texts_okD:
  assumes "texts_ok T c" and "(q, s) \<in> set (c_stmts c)" and "t_meaning T q \<noteq> None"
  shows "s_ptr (stmt_at c s) \<noteq> 0 \<and> t_sql T (s_ptr (stmt_at c s)) (c_world c) = q"
  using assms unfolding texts_ok_def by blast

lemma conn_ok_live:
  assumes "conn_ok V c" and "attached c s" and "s_ptr (stmt_at c s) \<noteq> 0"
  shows "v_live V (s_ptr (stmt_at c s)) (c_world c)"
  using assms unfolding conn_ok_def by blast

lemma texts_ok_kept:
  assumes "texts_ok T c" and "conn_ok V c" and "texts_kept V T (c_world c) (c_world c')" and "set (c_stmts c') \<subseteq> set (c_stmts c)"
    and "\<And>q s. (q, s) \<in> set (c_stmts c') \<Longrightarrow> s_ptr (stmt_at c' s) = s_ptr (stmt_at c s)"
  shows "texts_ok T c'"
  unfolding texts_ok_def
proof (rule ballI)
  fix x
  assume x: "x \<in> set (c_stmts c')"
  obtain q s where qs: "x = (q, s)" by (cases x)
  have mc: "(q, s) \<in> set (c_stmts c)" using x assms(4) qs by blast
  note d = texts_okD [OF assms(1) mc]
  have a: "attached c s" using cache_okD(1) [OF _ mc] assms(2) by (simp add: conn_ok_def)
  have "s_ptr (stmt_at c' s) \<noteq> 0 \<and> t_sql T (s_ptr (stmt_at c' s)) (c_world c') = q" if "t_meaning T q \<noteq> None"
    using d [OF that] conn_ok_live [OF assms(2) a] assms(3) assms(5) x qs by (auto simp: texts_kept_def)
  then show "case x of (q, s) \<Rightarrow> t_meaning T q \<noteq> None \<longrightarrow> s_ptr (stmt_at c' s) \<noteq> 0 \<and> t_sql T (s_ptr (stmt_at c' s)) (c_world c') = q"
    by (simp add: qs del: not_None_eq)
qed

lemma Finalize_ctl:
  assumes "lib_txn_ok K L V T" and "lib_alloc_ok K L V" and "\<not> v_busy V (s_ptr (stmt_at c s)) (c_world c)" and "Finalize K L s c = Some (err, c')"
    and "keeps V T w (c_world c)" and "\<not> v_live V (s_ptr (stmt_at c s)) w"
  shows "keeps V T w (c_world c')"
proof -
  have w: "c_world c' = snd (x_finalize L (s_ptr (stmt_at c s)) (c_world c))" using Finalize_result(4) [OF assms(4)] .
  show ?thesis
    using assms(5,6) lib_txn_okD(4,5) [OF assms(1,3)] alloc_ok_finalize(1) [OF assms(2)] unfolding w keeps_def by metis
qed

lemma conn_prepare_fresh:
  assumes "lib_busy_ok K L V" and "lib_alloc_ok K L V" and "conn_prepare K L query flags c = ((Some s, trailing, err), c')"
  shows "\<not> v_live V (s_ptr (stmt_at c' s)) (c_world c)"
proof -
  obtain e0 c0 where c0: "Conn_interrupted K L c = (e0, c0)" by fastforce
  have q0: "effect (quiet V) c c0" using Conn_interrupted_effect [OF assms(1), of c] c0 by simp
  obtain e1 c1 where c1: "lib_call (x_cstring L query) c0 = (e1, c1)" by fastforce
  have q1: "effect (quiet V) c c1" using quiet_call [OF c1 lib_busy_okD(14) [OF assms(1)] q0] .
  obtain ok2 c2 where c2: "lib_call (x_malloc L 8) c1 = (ok2, c2)" by fastforce
  have q2: "effect (quiet V) c c2" using quiet_call [OF c2 lib_busy_okD(7) [OF assms(1)] q1] .
  obtain ok3 c3 where c3: "lib_call (x_malloc L 8) c2 = (ok3, c3)" by fastforce
  have q3: "effect (quiet V) c c3" using quiet_call [OF c3 lib_busy_okD(7) [OF assms(1)] q2] .
  obtain res p n c4 where c4: "lib_call (x_prepare_v3 L query flags) c3 = ((res, p, n), c4)" by (metis surj_pair)
  have x: "x_prepare_v3 L query flags (c_world c3) = ((res, p, n), c_world c4)" using c4 by (auto simp: lib_call_def split: prod.splits)
  have "s_ptr (stmt_at c' s) = p"
    using assms(3) by (auto simp: conn_prepare_def c0 c1 c2 c3 c4 Let_def case_prod_beta alloc_Stmt_def new_Stmt_def split: if_splits)
  moreover have "\<not> v_live V p (c_world c3)" using alloc_ok_prepare(2) [OF assms(2) x] lib_busy_okD(11) [OF assms(1)] by (cases "p = 0") auto
  ultimately show ?thesis using q3 by (simp add: effect_def quiet_def)
qed

lemma Prepare_ctl:
  assumes "lib_txn_ok K L V T" and "lib_busy_ok K L V" and "lib_alloc_ok K L V" and "conn_ok V c" and "texts_ok T c"
    and "t_meaning T query = Some m" and "Prepare K L query c = Some ((so, err), c')"
  shows "keeps V T (c_world c) (c_world c') \<and> texts_ok T c' \<and> (\<forall>s. so = Some s \<longrightarrow> ctl_at V T (s_ptr (stmt_at c' s)) m (c_world c'))"
proof (cases "map_of (c_stmts c) query")
  case (Some s)
  have mem: "(query, s) \<in> set (c_stmts c)" using Some by (rule map_of_SomeD)
  have a: "attached c s" using cache_lookup(1) [OF _ Some] assms(4) by (simp add: conn_ok_def)
  have t: "s_ptr (stmt_at c s) \<noteq> 0" "t_sql T (s_ptr (stmt_at c s)) (c_world c) = query" using texts_okD [OF assms(5) mem] assms(6) by auto
  then have ct: "ctl_at V T (s_ptr (stmt_at c s)) m (c_world c)" using conn_ok_live [OF assms(4) a] assms(6) by (simp add: ctl_at_def)
  obtain e1 c1 where r: "Reset K L s c = Some (e1, c1)" using assms(7) Some by (auto simp: Prepare_def bind_eq_Some_conv)
  have k1: "keeps V T (c_world c) (c_world c1)" using Reset_keeps [OF assms(1,2) ctl_safe [OF ct] r] .
  note e1 = Reset_result(3) [OF assms(2) r]
  have f1: "c_stmts c1 = c_stmts c" "\<And>t. s_ptr (stmt_at c1 t) = s_ptr (stmt_at c t)" using e1 by (auto simp: effect_def)
  have "\<exists>c2. c' = c2 \<and> keeps V T (c_world c) (c_world c2) \<and> c_stmts c2 = c_stmts c \<and> (\<forall>t. s_ptr (stmt_at c2 t) = s_ptr (stmt_at c t)) \<and>
      (so = None \<or> so = Some s)"
  proof (cases e1)
    case (Some e)
    then show ?thesis using assms(7) \<open>map_of (c_stmts c) query = Some s\<close> r k1 f1 by (auto simp: Prepare_def)
  next
    case None
    then obtain e2 c2 where cl: "ClearBindings K L s c1 = Some (e2, c2)" and "c' = c2" "so = None \<or> so = Some s"
      using assms(7) Some r by (auto simp: Prepare_def bind_eq_Some_conv split: if_splits)
    then show ?thesis using keeps_trans [OF k1 ClearBindings_keeps [OF assms(1) cl]] ClearBindings_effect [OF assms(2) cl] f1 by (auto simp: effect_def)
  qed
  then have k: "keeps V T (c_world c) (c_world c')" and f: "c_stmts c' = c_stmts c" "\<And>t. s_ptr (stmt_at c' t) = s_ptr (stmt_at c t)"
    and so: "so = None \<or> so = Some s" by auto
  have "texts_ok T c'" using texts_ok_kept [OF assms(5,4) keeps_texts [OF k]] f by simp
  then show ?thesis using k so f ctl_keeps [OF k ct] by auto
next
  case None
  obtain so1 tr e1 c1 where p: "conn_prepare K L query (PREPARE_PERSISTENT K) c = ((so1, tr, e1), c1)" by (metis surj_pair)
  note r1 = conn_prepare_result [OF assms(2-4) p]
  note k1 = conn_prepare_ctl(1) [OF assms(1) p]
  have ptr: "s_ptr (stmt_at c1 t) = s_ptr (stmt_at c t)" if "(q, t) \<in> set (c_stmts c)" for q t
  proof -
    have "attached c t" using cache_okD(1) [OF _ that] assms(4) by (simp add: conn_ok_def)
    then show ?thesis using r1 by (cases so1) (auto simp: effect_def attached_def)
  qed
  have t1: "texts_ok T c1" using texts_ok_kept [OF assms(5,4) keeps_texts [OF k1]] r1 ptr by simp
  show ?thesis
  proof (cases so1)
    case none: None
    then show ?thesis using assms(7) None p k1 t1 by (auto simp: Prepare_def)
  next
    case (Some s)
    then have e1: "e1 = None" and a: "attached c1 s" and q: "\<not> s_lastHasRow (stmt_at c1 s)"
      using r1 by (auto simp: attached_def new_Stmt_def)
    have ok1: "conn_ok V c1" using r1 by blast
    show ?thesis
    proof (cases "tr = 0")
      case False
      then obtain e2 where fi: "Finalize K L s c1 = Some (e2, c')" and so: "so = None"
        using assms(7) None p Some e1 by (auto simp: Prepare_def bind_eq_Some_conv)
      have nb: "\<not> v_busy V (s_ptr (stmt_at c1 s)) (c_world c1)" using ok1 a q by (auto simp: conn_ok_def)
      have fr: "\<not> v_live V (s_ptr (stmt_at c1 s)) (c_world c)" using conn_prepare_fresh [OF assms(2,3)] p Some by blast
      have k: "keeps V T (c_world c) (c_world c')" using Finalize_ctl [OF assms(1,3) nb fi k1 fr] .
      have "set (c_stmts c') \<subseteq> set (c_stmts c)" using Finalize_cache(2) [OF _ a fi] ok1 r1 by (auto simp: conn_ok_def)
      moreover have "s_ptr (stmt_at c' t) = s_ptr (stmt_at c t)" if "(q', t) \<in> set (c_stmts c')" for q' t
        using that calculation ptr Finalize_result(1) [OF fi] by auto
      ultimately have "texts_ok T c'" using texts_ok_kept [OF assms(5,4) keeps_texts [OF k]] by blast
      then show ?thesis using k so by simp
    next
      case True
      then have c': "c' = c1\<lparr>c_stmts := map_insert query s (c_stmts c1)\<rparr>" and so: "so = Some s"
        using assms(7) None p Some e1 by (auto simp: Prepare_def)
      have s: "s_ptr (stmt_at c1 s) \<noteq> 0" "t_sql T (s_ptr (stmt_at c1 s)) (c_world c1) = query"
        using conn_prepare_ctl(2) [OF assms(1) p Some True] assms(6) by auto
      have "texts_ok T c'" using t1 s unfolding texts_ok_def c' by (auto simp: map_insert_def set_map_delete)
      moreover have "ctl_at V T (s_ptr (stmt_at c1 s)) m (c_world c1)" using s conn_ok_live [OF ok1 a] assms(6) by (simp add: ctl_at_def)
      ultimately show ?thesis using k1 so by (simp add: c')
    qed
  qed
qed

section \<open>Execute and SetInterrupt have the interface\<close>

text \<open>What a call on the statement \<open>s\<close> leaves alone: the cache, the other statements and which C statement \<open>s\<close> is.\<close>

definition framed :: "nat \<Rightarrow> 'w Conn \<Rightarrow> 'w Conn \<Rightarrow> bool" where
  "framed s c c' \<longleftrightarrow> c_stmts c' = c_stmts c \<and> (\<forall>t. s_ptr (stmt_at c' t) = s_ptr (stmt_at c t)) \<and> (\<forall>t. t \<noteq> s \<longrightarrow> stmt_at c' t = stmt_at c t)"

lemma framed_trans: "framed s c1 c2 \<Longrightarrow> framed s c2 c3 \<Longrightarrow> framed s c1 c3"
  by (simp add: framed_def)

lemma effect_framed: "effect R c c' \<Longrightarrow> framed s c c'"
  by (simp add: effect_def framed_def)

lemma Reset_framed:
  assumes "lib_busy_ok K L V" and "Reset K L s c = Some (err, c')"
  shows "framed s c c'"
  using Reset_result(3) [OF assms] by (simp add: effect_def framed_def)

lemma Step_framed:
  assumes "lib_busy_ok K L V" and "Step K L s c = Some ((row, err), c')"
  shows "framed s c c'"
proof (cases "s_bindErr (stmt_at c s)")
  case (Some e)
  then obtain e' where r: "Reset K L s (upd_stmt s (\<lambda>st. st\<lparr>s_bindErr := None\<rparr>) c) = Some (e', c')"
    using assms(2) by (auto simp: Step_def bind_eq_Some_conv)
  show ?thesis using Reset_framed [OF assms(1) r] by (simp add: framed_def)
next
  case None
  obtain row1 err1 c1 where l: "step_loop K L s c = Some ((row1, err1), c1)"
    using assms(2) None by (cases "step_loop K L s c") (auto simp: Step_def)
  have "framed s c c1" using step_loop_effect [OF l, of V] assms(1) effect_framed by (auto simp: step_result_ok_def)
  then show ?thesis using assms(2) None l by (auto simp: Step_def Let_def lib_call_eq framed_def split: if_splits)
qed

lemma exec_None_framed:
  assumes "lib_busy_ok K L V" and "exec K L s flags None c = Some (err, c')"
    and "\<And>row e c1. Step K L s c = Some ((row, e), c1) \<Longrightarrow> \<not> row"
  shows "framed s c c'"
proof (cases "c' = c")
  case True
  then show ?thesis by (simp add: framed_def)
next
  case False
  then have l: "row_loop (Step K L s) None c = Some (err, c')"
    using assms(2) by (auto simp: exec_def exec_bind_def Let_def split: if_splits)
  then obtain row e c1 where st: "Step K L s c = Some ((row, e), c1)" by (subst (asm) row_loop.simps) (auto simp: bind_eq_Some_conv)
  then have "c' = c1" using l assms(3) [OF st] by (subst (asm) row_loop.simps; cases e; simp)
  then show ?thesis using Step_framed [OF assms(1) st] by simp
qed

definition txn_inv :: "lib_consts \<Rightarrow> ('w, 'm) sqlite_lib_scheme \<Rightarrow> ('w, 'n) lib_view_scheme \<Rightarrow> ('w, 'd) txn_view \<Rightarrow> 'w Conn \<Rightarrow> bool" where
  "txn_inv K L V T c \<longleftrightarrow> lib_txn_ok K L V T \<and> lib_busy_ok K L V \<and> lib_alloc_ok K L V \<and> range_ok L \<and> conn_ok V c \<and> texts_ok T c"

lemma all_idle_framed:
  assumes "framed s c c'" and "all_idle c" and "\<not> s_lastHasRow (stmt_at c' s)"
  shows "all_idle c'"
proof (rule all_idleI)
  fix q t
  assume "(q, t) \<in> set (c_stmts c')"
  then have "(q, t) \<in> set (c_stmts c)" using assms(1) by (simp add: framed_def)
  from all_idleD [OF assms(2) this] show "\<not> s_lastHasRow (stmt_at c' t)"
    using assms(1,3) by (cases "t = s") (auto simp: framed_def)
qed

lemma Prepare_idle:
  assumes "lib_busy_ok K L V" and "lib_alloc_ok K L V" and "conn_ok V c" and "Prepare K L query c = Some ((so, err), c')" and "all_idle c"
  shows "all_idle c'"
proof (cases "map_of (c_stmts c) query")
  case (Some s)
  obtain e1 c1 where r: "Reset K L s c = Some (e1, c1)" using assms(4) Some by (auto simp: Prepare_def bind_eq_Some_conv)
  note f1 = Reset_framed [OF assms(1) r] Reset_result(4) [OF assms(1) r]
  have i1: "all_idle c1" using all_idle_framed [OF f1(1) assms(5)] f1(2) by simp
  have "c' = c1 \<or> (\<exists>e2. ClearBindings K L s c1 = Some (e2, c'))"
    using assms(4) Some r by (auto simp: Prepare_def bind_eq_Some_conv split: if_splits)
  then show ?thesis using i1 ClearBindings_effect [OF assms(1)] by (auto simp: all_idle_def effect_def)
next
  case None
  obtain so1 tr e1 c1 where p: "conn_prepare K L query (PREPARE_PERSISTENT K) c = ((so1, tr, e1), c1)" by (metis surj_pair)
  note r1 = conn_prepare_result [OF assms(1-3) p]
  have "stmt_at c1 t = stmt_at c t" if "(q, t) \<in> set (c_stmts c)" for q t
    using cache_okD(1) [OF _ that] assms(3) r1 by (cases so1) (auto simp: effect_def attached_def conn_ok_def)
  then have i1: "all_idle c1" using all_idleD [OF assms(5)] r1 by (auto intro!: all_idleI)
  show ?thesis
  proof (cases so1)
    case none: None
    then show ?thesis using assms(4) None p i1 by (auto simp: Prepare_def)
  next
    case (Some s)
    then have e1: "e1 = None" and a: "attached c1 s" and q: "\<not> s_lastHasRow (stmt_at c1 s)"
      using r1 by (auto simp: attached_def new_Stmt_def)
    show ?thesis
    proof (cases "tr = 0")
      case False
      then obtain e2 where fi: "Finalize K L s c1 = Some (e2, c')"
        using assms(4) None p Some e1 by (auto simp: Prepare_def bind_eq_Some_conv)
      then show ?thesis using i1 Finalize_cache(2) [OF _ a fi] Finalize_attached(2) [OF fi] r1
        by (auto simp: all_idle_def conn_ok_def)
    next
      case True
      then have c': "c' = c1\<lparr>c_stmts := map_insert query s (c_stmts c1)\<rparr>"
        using assms(4) None p Some e1 by (auto simp: Prepare_def)
      then show ?thesis using i1 q by (auto simp: all_idle_def map_insert_def set_map_delete)
    qed
  qed
qed

lemma Reset_succeeds:
  assumes "lib_txn_ok K L V T" and "fst (x_reset L (s_ptr (stmt_at c s)) (c_world c)) = ResultOK K" and "Reset K L s c = Some (err, c')"
  shows "err = None"
proof -
  have "ResultOK K \<noteq> ResultLockedSharedCache K" using lib_txn_okD(17) [OF assms(1)] .
  then show ?thesis
    using assms(2,3) by (auto simp: Reset_def Let_def Reset_loop.simps lib_call_eq conn_extreserr_def extreserr_def wrap_error_def split: if_splits)
qed

lemma Execute_ctl:
  assumes "txn_inv K L V T c" and m: "t_meaning T q = Some m" and "Execute K L q None c = Some (err, c')"
  shows "txn_inv K L V T c' \<and> (all_idle c \<longrightarrow> all_idle c') \<and>
    (if err = None then txn_apply m (t_tx T (c_world c)) = Some (t_tx T (c_world c')) else aborted (t_tx T (c_world c)) (t_tx T (c_world c')))"
proof -
  have ok: "lib_txn_ok K L V T" "lib_busy_ok K L V" "lib_alloc_ok K L V" "range_ok L" "conn_ok V c" "texts_ok T c"
    using assms(1) by (simp_all add: txn_inv_def)
  obtain so e1 c1 where p: "Prepare K L q c = Some ((so, e1), c1)"
    using assms(3) by (auto simp: Execute_def exec_cached_def bind_eq_Some_conv)
  have ok1: "conn_ok V c1" and so: "case so of None \<Rightarrow> e1 \<noteq> None | Some s \<Rightarrow> attached c1 s"
    using Prepare_conn_ok [OF ok(2,3,5) p] by (auto split: option.splits)
  have k1: "keeps V T (c_world c) (c_world c1)" and t1: "texts_ok T c1" and ct: "so = Some s \<Longrightarrow> ctl_at V T (s_ptr (stmt_at c1 s)) m (c_world c1)" for s
    using Prepare_ctl [OF ok(1-3,5,6) m p] by auto
  have i1: "all_idle c \<Longrightarrow> all_idle c1" using Prepare_idle [OF ok(2,3,5) p] .
  show ?thesis
  proof (cases so)
    case None
    then have "err = e1" "c' = c1" using assms(3) p by (simp_all add: Execute_def exec_cached_def)
    then show ?thesis using None so ok ok1 k1 t1 i1 by (auto simp: txn_inv_def keeps_def aborted_def)
  next
    case (Some s)
    obtain e2 c2 e3 where x: "exec K L s (forbidMissing OR forbidExtra) None c1 = Some (e2, c2)" and r: "Reset K L s c2 = Some (e3, c')"
      and err: "err = (if e2 = None then e3 else e2)"
      using assms(3) p Some by (auto simp: Execute_def exec_cached_def bind_eq_Some_conv)
    have a1: "attached c1 s" using so Some by simp
    note ct1 = ct [OF Some]
    note ran = exec_ctl [OF ok(1,2) ct1 x]
    have fn: "fn_keeps V None" by (simp add: fn_keeps_def result_fn_of_def)
    have ok2: "conn_ok V c2" "attached c2 s" using exec_inv [OF ok(2) ok1 a1 fn x] by auto
    have "\<not> row" if "Step K L s c1 = Some ((row, e), c3)" for row e c3 using Step_ctl [OF ok(1,2) ct1 that] by (simp add: ran_def)
    then have f2: "framed s c1 c2" using exec_None_framed [OF ok(2) x] by blast
    have p2: "s_ptr (stmt_at c2 s) = s_ptr (stmt_at c1 s)" using f2 by (simp add: framed_def)
    have ct2: "ctl_at V T (s_ptr (stmt_at c2 s)) m (c_world c2)" using ran ct1 by (auto simp: ran_def texts_kept_def ctl_at_def p2)
    have k3: "keeps V T (c_world c2) (c_world c')" using Reset_keeps [OF ok(1,2) ctl_safe [OF ct2] r] .
    have f3: "framed s c1 c'" using framed_trans [OF f2 Reset_framed [OF ok(2) r]] .
    have e3: "e2 = None \<Longrightarrow> e3 = None" using Reset_succeeds [OF ok(1) _ r] ran by (simp add: ran_def p2)
    have "texts_kept V T (c_world c1) (c_world c')" using ran k3 texts_kept_trans [OF _ keeps_texts [OF k3]] by (simp add: ran_def)
    then have t3: "texts_ok T c'" using texts_ok_kept [OF t1 ok1] f3 by (simp add: framed_def)
    have "all_idle c1 \<Longrightarrow> all_idle c'" using all_idle_framed [OF f3] Reset_result(4) [OF ok(2) r] by simp
    moreover have "conn_ok V c'" using Reset_conn_ok [OF ok(2) ok2 r] .
    moreover have "if err = None then txn_apply m (t_tx T (c_world c)) = Some (t_tx T (c_world c'))
        else aborted (t_tx T (c_world c)) (t_tx T (c_world c'))"
      using ran e3 k1 k3 err by (cases e2) (auto simp: ran_def keeps_def)
    ultimately show ?thesis using ok t3 i1 by (simp add: txn_inv_def)
  qed
qed

lemma reset_busy_ctl:
  assumes "lib_txn_ok K L V T" and "lib_busy_ok K L V" and "reset_busy K L ms c = Some c'"
  shows "texts_kept V T (c_world c) (c_world c') \<and> (\<forall>t. s_ptr (stmt_at c' t) = s_ptr (stmt_at c t)) \<and>
    ((\<forall>(q, s) \<in> set ms. \<not> s_lastHasRow (stmt_at c s)) \<or> t_tx T (c_world c) \<noteq> Auto (current_of (t_tx T (c_world c))) \<longrightarrow>
     t_tx T (c_world c') = t_tx T (c_world c))"
  using assms(3)
proof (induction ms arbitrary: c)
  case (Cons qs ms)
  obtain q s where qs: "qs = (q, s)" by (cases qs)
  show ?case
  proof (cases "s_lastHasRow (stmt_at c s)")
    case False
    then show ?thesis using Cons.IH [of c] Cons.prems qs by auto
  next
    case True
    then obtain e c1 where r: "Reset K L s c = Some (e, c1)" and rest: "reset_busy K L ms c1 = Some c'"
      using Cons.prems qs by (auto simp: bind_eq_Some_conv)
    have "t_tx T (c_world c) \<noteq> Auto (current_of (t_tx T (c_world c))) \<Longrightarrow> t_tx T (c_world c1) = t_tx T (c_world c)"
      using Reset_keeps [OF assms(1,2) _ r] by (auto simp: safe_def keeps_def)
    with Cons.IH [OF rest] texts_kept_trans [OF Reset_texts [OF assms(1,2) r]] Reset_framed [OF assms(2) r] True qs show ?thesis
      by (auto simp: framed_def)
  qed
qed (auto simp: texts_kept_def)

lemma SetInterrupt_ctl:
  assumes "txn_inv K L V T c" and "SetInterrupt K L ch c = Some (old, c')"
  shows "txn_inv K L V T c' \<and> all_idle c' \<and> (all_idle c \<or> \<not> AutocommitEnabled L c \<longrightarrow> t_tx T (c_world c') = t_tx T (c_world c))"
proof -
  have ok: "lib_txn_ok K L V T" "lib_busy_ok K L V" "lib_alloc_ok K L V" "range_ok L" "conn_ok V c" "texts_ok T c"
    using assms(1) by (simp_all add: txn_inv_def)
  let ?c0 = "(cancelInterrupt c)\<lparr>c_doneCh := ch\<rparr>"
  have ok0: "conn_ok V ?c0" using conn_ok_go_fields(2) [OF conn_ok_go_fields(4) [OF ok(5)]] .
  have c0: "c_stmts ?c0 = c_stmts c" "c_heap ?c0 = c_heap c" "c_world ?c0 = c_world c" by (simp_all add: cancelInterrupt_def)
  have ch0: "cache_ok ?c0" using ok0 unfolding conn_ok_def by blast
  obtain c1 where r: "reset_busy K L (range_order L (c_stmts ?c0)) ?c0 = Some c1" and c': "c' = c1 \<or> c' = c1\<lparr>c_cancelCh := True\<rparr>"
    using assms(2) c0(1) by (auto simp: SetInterrupt_def Let_def bind_eq_Some_conv split: if_splits)
  have set: "set (range_order L (c_stmts ?c0)) = set (c_stmts c)" using range_set [OF ok(4)] c0(1) by simp
  have at: "\<forall>(q, s) \<in> set (range_order L (c_stmts ?c0)). attached ?c0 s" using ch0 set c0(1) unfolding cache_ok_def by auto
  note b = reset_busy_result [OF ok(2) ok0 at r]
  note t = reset_busy_ctl [OF ok(1,2) r]
  have f: "c_stmts c' = c_stmts c" "c_heap c' = c_heap c1" "c_world c' = c_world c1" using c' b c0(1) by auto
  have "conn_ok V c'" using c' b conn_ok_go_fields(1) by auto
  moreover have "texts_ok T c'" using texts_ok_kept [OF ok(6,5), of c'] t f c0 by simp
  moreover have "all_idle c'" using b set f by (intro all_idleI) force
  moreover have "t_tx T (c_world c') = t_tx T (c_world c)" if "all_idle c \<or> \<not> AutocommitEnabled L c"
    using t that lib_txn_okD(9) [OF ok(1)] f c0 set by (auto simp: all_idle_def AutocommitEnabled_def)
  ultimately show ?thesis using ok by (simp add: txn_inv_def)
qed

interpretation savepoints: txn_conn "txn_inv K L V T" "\<lambda>c. t_tx T (c_world c)" all_idle "t_meaning T" "\<lambda>q. Execute K L q None"
    "AutocommitEnabled L" "SetInterrupt K L"
  for K :: lib_consts and L :: "('w, 'm) sqlite_lib_scheme" and V :: "('w, 'n) lib_view_scheme" and T :: "('w, 'd) txn_view"
proof
  fix c
  assume "txn_inv K L V T c"
  then show "AutocommitEnabled L c = (\<exists>d. t_tx T (c_world c) = Auto d)"
    using lib_txn_okD(9) [of K L V T "c_world c"] by (auto simp: txn_inv_def AutocommitEnabled_def)
qed (fact Execute_ctl, fact SetInterrupt_ctl)

section \<open>Properties\<close>

text \<open>SQLite understands the three statements of a savepoint called \<open>name\<close>; \<open>n\<close> is how it spells the name.\<close>

definition knows_savepoint :: "('w, 'd) txn_view \<Rightarrow> (nat \<Rightarrow> bool) \<Rightarrow> gostring \<Rightarrow> gostring \<Rightarrow> bool" where
  "knows_savepoint T isPrint name n \<longleftrightarrow> t_meaning T (sql_savepoint isPrint name) = Some (C_Savepoint n) \<and>
     t_meaning T (sql_release isPrint name) = Some (C_Release n) \<and> t_meaning T (sql_rollback_to isPrint name) = Some (C_RollbackTo n)"

definition knows_transaction :: "('w, 'd) txn_view \<Rightarrow> gostring \<Rightarrow> bool" where
  "knows_transaction T mode \<longleftrightarrow> t_meaning T (sql_begin mode) = Some C_Begin \<and> t_meaning T sql_commit = Some C_Commit \<and>
     t_meaning T sql_rollback = Some C_Rollback"

lemma savepoint_inside:
  assumes "txn_inv K L V T c" and "knows_savepoint T isPrint name n" and "txn_ok (t_tx T (c_world c))"
    and "savepoint K L isPrint name c = Some (Inr f, c')"
  shows "txn_inv K L V T c' \<and> inside n (t_tx T (c_world c)) (t_tx T (c_world c')) \<and> f = EndSavepoint name"
proof -
  have x: "Execute K L (sql_savepoint isPrint name) None c = Some (None, c')" and f: "f = EndSavepoint name"
    using assms(4) by (auto simp: savepoint_def bind_eq_Some_conv split: if_splits option.splits)
  have "t_meaning T (sql_savepoint isPrint name) = Some (C_Savepoint n)" using assms(2) by (simp add: knows_savepoint_def)
  from Execute_ctl [OF assms(1) this x] show ?thesis using inside_savepoint [OF assms(3)] f by auto
qed

text \<open>C1: a savepoint is atomic.  The statement opens a savepoint in the state of the transaction \<open>t0\<close>.  If the caller's work leaves it open, the
  deferred function keeps all of the work or none: when it returns no error and does not panic, the state is \<open>t0\<close> with the database as the work left
  it; otherwise the error of the caller is reported, and the state is again \<open>t0\<close>, unless SQLite rolled the whole transaction back itself, or the function
  panicked because the rollback failed.\<close>

theorem savepoint_atomic:
  assumes "txn_inv K L V T c" and "knows_savepoint T isPrint name n" and "txn_ok t0" and "t0 = t_tx T (c_world c)"
    and "savepoint K L isPrint name c = Some (Inr f, c1)"
    and "txn_inv K L V T c2" and "inside n t0 (t_tx T (c_world c2))"
    and "run_release K L isPrint f errp recoverP c2 = Some ((panic, errp'), c3)"
  shows "inside n t0 (t_tx T (c_world c1)) \<and> (errp \<noteq> None \<longrightarrow> errp' = errp) \<and>
    (if errp' = None \<and> panic = None then t_tx T (c_world c3) = with_current (current_of (t_tx T (c_world c2))) t0
     else (\<exists>e. panic = Some (RollbackFailed errp' e)) \<or> t_tx T (c_world c3) = t0 \<or> t_tx T (c_world c3) = Auto (start_of t0))"
proof -
  have s: "inside n t0 (t_tx T (c_world c1)) \<and> f = EndSavepoint name" using savepoint_inside [OF assms(1,2) _ assms(5)] assms(3,4) by blast
  have m: "t_meaning T (sql_rollback_to isPrint name) = Some (C_RollbackTo n)" "t_meaning T (sql_release isPrint name) = Some (C_Release n)"
    using assms(2) by (simp_all add: knows_savepoint_def)
  have "end_fn (\<lambda>q. Execute K L q None) (AutocommitEnabled L) (SetInterrupt K L) (sql_release isPrint name)
      [sql_rollback_to isPrint name, sql_release isPrint name] errp recoverP c2 = Some ((panic, errp'), c3)"
    using assms(8) s by (simp add: run_release_def end_savepoint_def)
  from savepoints.end_savepoint_atomic [OF assms(6,7) m this] s show ?thesis by blast
qed

text \<open>C10: transactions are atomic.  A transaction begins in a database \<open>d\<close>; if it is still open when the deferred function runs, the function commits
  the database as it is then, or it reports an error and the database is \<open>d\<close> again, or it panics because the rollback failed.\<close>

theorem transaction_atomic:
  assumes "txn_inv K L V T c" and "knows_transaction T mode" and "transaction K L mode c = Some (Inr f, c1)"
    and "txn_inv K L V T c2" and "t_tx T (c_world c2) = Txn x d st d2" and "start_of (t_tx T (c_world c1)) = d"
    and "run_release K L isPrint f errp recoverP c2 = Some ((panic, errp'), c3)"
  shows "t_tx T (c_world c) = Auto d \<and> t_tx T (c_world c1) = Txn True d [] d \<and> (errp \<noteq> None \<longrightarrow> errp' = errp) \<and>
    (if errp' = None \<and> panic = None then t_tx T (c_world c3) = Auto d2
     else (\<exists>e. panic = Some (RollbackFailed errp' e)) \<or> t_tx T (c_world c3) = Auto d)"
proof -
  have m: "t_meaning T (sql_begin mode) = Some C_Begin" "t_meaning T sql_rollback = Some C_Rollback" "t_meaning T sql_commit = Some C_Commit"
    using assms(2) by (simp_all add: knows_transaction_def)
  have x: "Execute K L (sql_begin mode) None c = Some (None, c1)" and f: "f = EndTransaction"
    using assms(3) by (auto simp: transaction_def bind_eq_Some_conv split: option.splits)
  have "txn_apply C_Begin (t_tx T (c_world c)) = Some (t_tx T (c_world c1))" using Execute_ctl [OF assms(1) m(1) x] by simp
  then obtain d' where "t_tx T (c_world c) = Auto d'" "t_tx T (c_world c1) = Txn True d' [] d'" by (cases "t_tx T (c_world c)") auto
  with assms(6) have b: "t_tx T (c_world c) = Auto d \<and> t_tx T (c_world c1) = Txn True d [] d" by simp
  have "end_fn (\<lambda>q. Execute K L q None) (AutocommitEnabled L) (SetInterrupt K L) sql_commit [sql_rollback] errp recoverP c2 = Some ((panic, errp'), c3)"
    using assms(7) f by (simp add: run_release_def end_transaction_def)
  from savepoints.end_transaction_atomic [OF assms(4) _ m(2,3) this] assms(5) b show ?thesis by (cases errp'; cases panic) auto
qed

lemma Save_EndSavepoint:
  assumes "Save K L isPrint caller c = Some (Inr (EndSavepoint sp), c1)"
  shows "savepoint K L isPrint (save_name caller) c = Some (Inr (EndSavepoint sp), c1)"
proof -
  obtain r where "savepoint K L isPrint (save_name caller) c = Some (r, c1)" "or_panic K r = Inr (EndSavepoint sp)"
    using assms by (auto simp: Save_def)
  then show ?thesis by (cases r) (auto simp: or_panic_def split: if_splits)
qed


section \<open>A small SQLite with transactions\<close>

text \<open>A database is a number; a statement that does not control the transaction adds one to it.  The savepoint is that of
  \<open>ExecuteScript\<close>; this SQLite calls it \<open>s\<close>.\<close>

record tdemo =
  td_text :: "nat \<Rightarrow> gostring option"
  td_next :: nat
  td_tx :: "nat txn"

definition td_name :: gostring where "td_name = ''zombiezen.com/go/sqlite/sqlitex.ExecuteScript''"
definition td_save :: gostring where "td_save = sql_savepoint (\<lambda>_. False) td_name"
definition td_rel :: gostring where "td_rel = sql_release (\<lambda>_. False) td_name"
definition td_back :: gostring where "td_back = sql_rollback_to (\<lambda>_. False) td_name"

definition td_meaning :: "gostring \<Rightarrow> ctl option" where
  "td_meaning q = (if q = td_save then Some (C_Savepoint ''s'') else if q = td_rel then Some (C_Release ''s'')
     else if q = td_back then Some (C_RollbackTo ''s'') else if q = sql_begin ''DEFERRED'' then Some C_Begin
     else if q = sql_commit then Some C_Commit else if q = sql_rollback then Some C_Rollback else None)"

definition td_step :: "nat \<Rightarrow> tdemo \<Rightarrow> int \<times> tdemo" where
  "td_step p w = (case td_text w p of
     None \<Rightarrow> (1, w)
   | Some q \<Rightarrow> (case td_meaning q of
       None \<Rightarrow> (101, w\<lparr>td_tx := with_current (Suc (current_of (td_tx w))) (td_tx w)\<rparr>)
     | Some m \<Rightarrow> (case txn_apply m (td_tx w) of None \<Rightarrow> (1, w) | Some t \<Rightarrow> (101, w\<lparr>td_tx := t\<rparr>))))"

definition td_prepare :: "gostring \<Rightarrow> int \<Rightarrow> tdemo \<Rightarrow> (int \<times> nat \<times> nat) \<times> tdemo" where
  "td_prepare q f w = (if td_next w = 0 \<or> td_text w (td_next w) \<noteq> None then ((1, 0, 0), w)
     else ((0, td_next w, length q), w\<lparr>td_text := (td_text w)(td_next w \<mapsto> q), td_next := Suc (td_next w)\<rparr>))"

definition td_lib :: "tdemo sqlite_lib" where
  "td_lib = null_lib\<lparr>x_step := td_step, x_prepare_v3 := td_prepare, x_finalize := (\<lambda>p w. (0, w\<lparr>td_text := (td_text w)(p := None)\<rparr>)),
     x_get_autocommit := (\<lambda>w. td_tx w = Auto (current_of (td_tx w)))\<rparr>"

definition td_view :: "tdemo lib_view" where
  "td_view = \<lparr>v_live = (\<lambda>p w. p \<noteq> 0 \<and> td_text w p \<noteq> None), v_busy = (\<lambda>p w. False)\<rparr>"

definition td_txn :: "(tdemo, nat) txn_view" where
  "td_txn = \<lparr>t_tx = td_tx, t_sql = (\<lambda>p w. the (td_text w p)), t_meaning = td_meaning\<rparr>"

lemma td_calls [simp]:
  "x_step td_lib = td_step" "x_reset td_lib p w = (0, w)" "x_prepare_v3 td_lib = td_prepare" "x_clear_bindings td_lib p w = (0, w)"
  "x_finalize td_lib p w = (0, w\<lparr>td_text := (td_text w)(p := None)\<rparr>)" "x_bind td_lib p i a w = (0, w)" "x_malloc td_lib n w = (True, w)"
  "x_cstring td_lib q w = (None, w)" "x_unlock_notify td_lib w = (0, False, w)" "un_block td_lib = Some" "x_done td_lib ch w = (False, w)"
  "x_busy_handler td_lib b w = w" "x_busy_timeout td_lib d w = w" "range_order td_lib = id"
  "x_get_autocommit td_lib w \<longleftrightarrow> td_tx w = Auto (current_of (td_tx w))" "x_bind_parameter_count td_lib p w = 0" "x_column_count td_lib p w = 0"
  by (simp_all add: td_lib_def null_lib_def)

lemma td_view_simps [simp]:
  "v_live td_view p w \<longleftrightarrow> p \<noteq> 0 \<and> td_text w p \<noteq> None" "\<not> v_busy td_view p w"
  "t_tx td_txn = td_tx" "t_sql td_txn p w = the (td_text w p)" "t_meaning td_txn = td_meaning"
  by (simp_all add: td_view_def td_txn_def)

lemma td_step_text [simp]: "td_text (snd (td_step p w)) = td_text w"
  by (auto simp: td_step_def split: option.splits)

lemma td_busy_ok: "lib_busy_ok demo_K td_lib td_view"
  unfolding lib_busy_ok_def by (simp add: touches_def quiet_def)

lemma td_alloc_ok: "lib_alloc_ok demo_K td_lib td_view"
  by (auto simp: lib_alloc_ok_def td_prepare_def Let_def split: if_splits)

lemma td_txn_ok: "lib_txn_ok demo_K td_lib td_view td_txn"
proof -
  have "step_ctl_ok demo_K td_lib td_txn p m w" if "td_text w p \<noteq> None" "td_meaning (the (td_text w p)) = Some m" for p m w
    using that by (auto simp: step_ctl_ok_def td_step_def aborted_def IsSuccess_def split: option.splits)
  then show ?thesis
    unfolding lib_txn_ok_def keeps_def texts_kept_def by (auto simp: td_prepare_def IsSuccess_def split: if_splits)
qed

definition td_conn :: "tdemo Conn" where
  "td_conn = \<lparr>c_stmts = [], c_closed = False, c_cancelCh = False, c_doneCh = None, c_note = allocUnlockNote, c_heap = (\<lambda>_. demo_Stmt), c_next = 0,
     c_registered = True, c_busyHandler = True, c_authorizer = False,
     c_world = \<lparr>td_text = (\<lambda>_. None), td_next = 1, td_tx = Auto 5\<rparr>\<rparr>"

lemma td_inv: "txn_inv demo_K td_lib td_view td_txn td_conn"
  using td_busy_ok td_alloc_ok td_txn_ok
  by (simp add: txn_inv_def range_ok_def conn_ok_def cache_ok_def attached_def texts_ok_def td_conn_def)

lemma td_meaning_sqls:
  "td_meaning td_save = Some (C_Savepoint ''s'')" "td_meaning td_rel = Some (C_Release ''s'')" "td_meaning td_back = Some (C_RollbackTo ''s'')"
  "td_meaning (sql_begin ''DEFERRED'') = Some C_Begin" "td_meaning sql_commit = Some C_Commit" "td_meaning sql_rollback = Some C_Rollback"
  by (simp_all add: td_meaning_def td_save_def td_rel_def td_back_def sql_savepoint_def sql_release_def sql_rollback_to_def sql_begin_def
      sql_commit_def sql_rollback_def)

text \<open>Executing a statement for the first time, and changing the interrupt of an idle connection.\<close>

definition td_ready :: "tdemo Conn \<Rightarrow> gostring \<Rightarrow> bool" where
  "td_ready c q \<longleftrightarrow> map_of (c_stmts c) q = None \<and> c_doneCh c = None \<and> \<not> c_closed c \<and> \<not> c_cancelCh c \<and> td_next (c_world c) \<noteq> 0 \<and>
     (\<forall>k \<ge> td_next (c_world c). td_text (c_world c) k = None)"

lemma td_Execute:
  assumes "td_ready c q" and "td_meaning q = Some m" and "txn_apply m (td_tx (c_world c)) = Some t"
  shows "\<exists>c'. Execute demo_K td_lib q None c = Some (None, c') \<and> td_tx (c_world c') = t \<and> fst ` set (c_stmts c') = insert q (fst ` set (c_stmts c)) \<and>
    (\<forall>q'. q' \<notin> fst ` set (c_stmts c') \<longrightarrow> td_ready c' q')"
proof -
  let ?k = "td_next (c_world c)" and ?s = "c_next c"
  let ?st = "\<lparr>s_conn = True, s_ptr = ?k, s_query = q, s_bindNames = [], s_colNames = [], s_bindErr = None, s_prepInterrupt = False, s_lastHasRow = False\<rparr>"
  let ?w1 = "(c_world c)\<lparr>td_text := (td_text (c_world c))(?k \<mapsto> q), td_next := Suc ?k\<rparr>"
  let ?c1 = "c\<lparr>c_stmts := map_insert q ?s (c_stmts c), c_heap := (c_heap c)(?s := ?st), c_next := Suc ?s, c_world := ?w1\<rparr>"
  have r: "td_ready c q" and n: "map_of (c_stmts c) q = None" "c_doneCh c = None" "?k \<noteq> 0" "td_text (c_world c) ?k = None"
    using assms(1) by (auto simp: td_ready_def)
  have p: "Prepare demo_K td_lib q c = Some ((Some ?s, None), ?c1)"
    using n by (simp add: Prepare_def conn_prepare_def Conn_interrupted_def lib_call_eq td_prepare_def conn_extreserr_def extreserr_def IsSuccess_def
        alloc_Stmt_def new_Stmt_def bind_names_def col_names_def Let_def)
  let ?c2 = "?c1\<lparr>c_heap := (c_heap ?c1)(?s := ?st), c_world := ?w1\<lparr>td_tx := t\<rparr>\<rparr>"
  have st: "Step demo_K td_lib ?s ?c1 = Some ((False, None), ?c2)"
    using n assms(2,3) by (simp add: Step_def step_loop.simps Stmt_interrupted_def Conn_interrupted_def lib_call_eq td_step_def upd_stmt_def Let_def)
  have x: "exec demo_K td_lib ?s (forbidMissing OR forbidExtra) None ?c1 = Some (None, ?c2)"
    using st by (simp add: exec_def exec_bind_def BindParamCount_def newBitset_def hasAll_def row_loop.simps Let_def)
  have rs: "Reset demo_K td_lib ?s ?c2 = Some (None, ?c2)"
    by (simp add: Reset_def Reset_loop.simps lib_call_eq conn_extreserr_def extreserr_def IsSuccess_def wrap_error_def upd_stmt_def Let_def)
  have e: "Execute demo_K td_lib q None c = Some (None, ?c2)" using p x rs by (simp add: Execute_def exec_cached_def)
  have s: "fst ` set (c_stmts ?c2) = insert q (fst ` set (c_stmts c))" by (auto simp: map_insert_def map_delete_def)
  have "td_ready ?c2 q'" if "q' \<notin> fst ` set (c_stmts ?c2)" for q'
    using that r by (auto simp: td_ready_def map_of_eq_None_iff)
  then show ?thesis using e s by (intro exI [of _ ?c2]) simp
qed

lemma td_SetInterrupt:
  assumes "td_ready c q" and "all_idle c"
  shows "SetInterrupt demo_K td_lib None c = Some (None, c)"
proof -
  have "reset_busy demo_K td_lib ms c = Some c" if "\<forall>(q, s) \<in> set ms. \<not> s_lastHasRow (stmt_at c s)" for ms
    using that by (induction ms) auto
  with assms(2) have "reset_busy demo_K td_lib (c_stmts c) c = Some c" unfolding all_idle_def by blast
  moreover have f: "\<not> c_closed c" "cancelInterrupt c = c" "c_doneCh c = None"
    using assms(1) by (simp_all add: td_ready_def cancelInterrupt_def)
  moreover have e: "c\<lparr>c_doneCh := None\<rparr> = c" using f(3) by (cases c) simp
  ultimately show ?thesis by (simp add: SetInterrupt_def e)
qed

lemma td_name_plain: "\<not> strings_ContainsByte td_name (CHR 0x22)" "save_name td_name = td_name"
  by (simp_all add: strings_ContainsByte_def td_name_def save_name_def)

lemma td_start:
  "td_ready td_conn td_save" "all_idle td_conn" "td_save \<noteq> td_rel" "td_save \<noteq> td_back" "td_rel \<noteq> td_back"
  "knows_savepoint td_txn (\<lambda>_. False) td_name ''s''" "knows_transaction td_txn ''DEFERRED''"
  using td_meaning_sqls
  by (auto simp: td_ready_def td_conn_def all_idle_def knows_savepoint_def knows_transaction_def td_save_def td_rel_def td_back_def
      sql_savepoint_def sql_release_def sql_rollback_to_def)

text \<open>Work that changes the database inside the transaction.\<close>

definition td_work :: "nat \<Rightarrow> tdemo Conn \<Rightarrow> tdemo Conn" where
  "td_work d c = c\<lparr>c_world := (c_world c)\<lparr>td_tx := with_current d (td_tx (c_world c))\<rparr>\<rparr>"

lemma td_work_facts:
  "td_ready (td_work d c) q = td_ready c q" "all_idle (td_work d c) = all_idle c"
  "td_tx (c_world (td_work d c)) = with_current d (td_tx (c_world c))" "c_stmts (td_work d c) = c_stmts c"
  by (simp_all add: td_work_def td_ready_def all_idle_def)

lemma td_work_inv:
  assumes "txn_inv demo_K td_lib td_view td_txn c"
  shows "txn_inv demo_K td_lib td_view td_txn (td_work d c)"
proof -
  have "effect (quiet td_view) c (td_work d c)" by (simp add: effect_def td_work_def quiet_def)
  from conn_ok_quiet [OF _ this] show ?thesis using assms by (auto simp: txn_inv_def texts_ok_def td_work_def)
qed

text \<open>An error after the database was changed to 9: it is 5 again.\<close>

theorem savepoint_atomic_witness:
  "\<exists>f c1 c3. savepoint demo_K td_lib (\<lambda>_. False) td_name td_conn = Some (Inr f, c1) \<and>
     run_release demo_K td_lib (\<lambda>_. False) f (Some io_EOF) (None :: gostring option) (td_work 9 c1) = Some ((None, Some io_EOF), c3) \<and>
     current_of (td_tx (c_world (td_work 9 c1))) = 9 \<and> td_tx (c_world c3) = Auto 5"
proof -
  let ?t0 = "t_tx td_txn (c_world td_conn)"
  have t0: "?t0 = Auto 5" "td_tx (c_world td_conn) = Auto 5" by (simp_all add: td_conn_def)
  obtain c1 where x1: "Execute demo_K td_lib td_save None td_conn = Some (None, c1)" "td_tx (c_world c1) = Txn False 5 [(''s'', 5)] 5"
    and s1: "fst ` set (c_stmts c1) = {td_save}" and r1: "\<And>q. q \<notin> fst ` set (c_stmts c1) \<Longrightarrow> td_ready c1 q"
    using td_Execute [OF td_start(1) td_meaning_sqls(1)] t0(2) by (auto simp: td_conn_def)
  have sp: "savepoint demo_K td_lib (\<lambda>_. False) td_name td_conn = Some (Inr (EndSavepoint td_name), c1)"
    using x1(1) td_name_plain by (simp add: savepoint_def td_save_def)
  note i1 = savepoint_inside [OF td_inv td_start(6) _ sp]
  let ?c2 = "td_work 9 c1"
  have i2: "txn_inv demo_K td_lib td_view td_txn ?c2" using td_work_inv i1 t0 by (auto simp: txn_ok_def)
  have tx2: "td_tx (c_world ?c2) = Txn False 5 [(''s'', 5)] 9" by (simp add: td_work_facts x1(2))
  have in2: "inside ''s'' ?t0 (t_tx td_txn (c_world ?c2))"
    using insideI [of "''s''" "[]" ?t0 "[]" False 5 9] by (simp add: tx2 t0)
  have idle2: "all_idle ?c2" using Execute_ctl [OF td_inv _ x1(1)] td_start(2) td_meaning_sqls(1) by (auto simp: td_work_facts)
  have rdy: "td_ready ?c2 td_back" using r1 [of td_back] s1 td_start(4) by (auto simp: td_work_facts)
  obtain c3 where x3: "Execute demo_K td_lib td_back None ?c2 = Some (None, c3)" "td_tx (c_world c3) = Txn False 5 [(''s'', 5)] 5"
    and s3: "fst ` set (c_stmts c3) = {td_back, td_save}" and r3: "\<And>q. q \<notin> fst ` set (c_stmts c3) \<Longrightarrow> td_ready c3 q"
    using td_Execute [OF rdy td_meaning_sqls(3)] s1 by (auto simp: tx2 td_work_facts(4))
  have rdy3: "td_ready c3 td_rel" using r3 [of td_rel] s3 td_start(3,5) by auto
  obtain c4 where x4: "Execute demo_K td_lib td_rel None c3 = Some (None, c4)" and r4: "\<And>q. q \<notin> fst ` set (c_stmts c4) \<Longrightarrow> td_ready c4 q"
    and s4: "fst ` set (c_stmts c4) = insert td_rel (fst ` set (c_stmts c3))"
    using td_Execute [OF rdy3 td_meaning_sqls(2)] by (auto simp: x3(2))
  have i3: "txn_inv demo_K td_lib td_view td_txn c3 \<and> all_idle c3" using Execute_ctl [OF i2 _ x3(1)] idle2 td_meaning_sqls(3) by auto
  then have idle4: "all_idle c4" using Execute_ctl [OF _ _ x4, of td_view td_txn "C_Release ''s''"] td_meaning_sqls(2) by auto
  have "td_ready c4 ''''" using r4 [of "''''"] s4 s3
    by (auto simp: td_rel_def td_back_def td_save_def sql_release_def sql_rollback_to_def sql_savepoint_def)
  note si4 = td_SetInterrupt [OF this idle4]
  have run: "run_release demo_K td_lib (\<lambda>_. False) (EndSavepoint td_name) (Some io_EOF) (None :: gostring option) ?c2 = Some ((None, Some io_EOF), c4)"
    using x3(1) x4 si4 td_SetInterrupt [OF rdy idle2] tx2
    by (simp add: run_release_def end_savepoint_def end_fn_def AutocommitEnabled_def td_back_def td_rel_def)
  from savepoint_atomic [OF td_inv td_start(6) _ refl sp i2 in2 run] t0 have "td_tx (c_world c4) = Auto 5" by (auto simp: txn_ok_def)
  then show ?thesis using sp run tx2 by auto
qed

text \<open>The change to 9 is committed.\<close>

theorem transaction_atomic_witness:
  "\<exists>f c1 c3. transaction demo_K td_lib ''DEFERRED'' td_conn = Some (Inr f, c1) \<and>
     run_release demo_K td_lib (\<lambda>_. False) f None (None :: gostring option) (td_work 9 c1) = Some ((None, None), c3) \<and>
     td_tx (c_world c3) = Auto 9"
proof -
  have rdy: "td_ready td_conn (sql_begin ''DEFERRED'')" by (auto simp: td_ready_def td_conn_def)
  obtain c1 where x1: "Execute demo_K td_lib (sql_begin ''DEFERRED'') None td_conn = Some (None, c1)" "td_tx (c_world c1) = Txn True 5 [] 5"
    and s1: "fst ` set (c_stmts c1) = {sql_begin ''DEFERRED''}" and r1: "\<And>q. q \<notin> fst ` set (c_stmts c1) \<Longrightarrow> td_ready c1 q"
    using td_Execute [OF rdy td_meaning_sqls(4)] by (auto simp: td_conn_def)
  have tr: "transaction demo_K td_lib ''DEFERRED'' td_conn = Some (Inr EndTransaction, c1)" using x1(1) by (simp add: transaction_def)
  let ?c2 = "td_work 9 c1"
  have i2: "txn_inv demo_K td_lib td_view td_txn ?c2"
    using td_work_inv Execute_ctl [OF td_inv _ x1(1), of C_Begin] td_meaning_sqls(4) by auto
  have tx2: "t_tx td_txn (c_world ?c2) = Txn True 5 [] 9" by (simp add: td_work_facts x1(2))
  have "td_ready ?c2 sql_commit" using r1 [of sql_commit] s1 by (auto simp: td_work_facts sql_commit_def sql_begin_def)
  from td_Execute [OF this td_meaning_sqls(5)] tx2 obtain c3 where x3: "Execute demo_K td_lib sql_commit None ?c2 = Some (None, c3)" by auto
  have run: "run_release demo_K td_lib (\<lambda>_. False) EndTransaction None (None :: gostring option) ?c2 = Some ((None, None), c3)"
    using x3 tx2 by (simp add: run_release_def end_transaction_def end_fn_def AutocommitEnabled_def)
  have "td_tx (c_world c3) = Auto 9"
    using transaction_atomic [OF td_inv td_start(7) tr i2 tx2 _ run] x1(2) by simp
  then show ?thesis using tr run by blast
qed


end
