(* ===== verification/Frame.thy ===== *)
theory Frame
  imports Conn Blob
begin

text \<open>
  What a sequence of calls does to the world, seen from outside: a relation between worlds that every call of SQLite keeps to is kept by the operations on
  statements and connections.  Components that keep data in the database use it to know that preparing and running their statements leaves the rest alone.
\<close>

text \<open>The handle that a successful \<open>sqlite3_blob_open\<close> gives.\<close>

definition opened_by :: "lib_consts \<Rightarrow> ('w, 'm) blob_lib_scheme \<Rightarrow> gostring \<Rightarrow> gostring \<Rightarrow> int \<Rightarrow> bool \<Rightarrow> 'w \<Rightarrow> Blob \<Rightarrow> 'w \<Rightarrow> bool" where
  "opened_by K L tbl col row wr w b w' \<longleftrightarrow> (\<exists>dbn. x_blob_open L dbn tbl col row wr w = ((ResultOK K, b_blob b), w')) \<and>
     b_buf b = replicate blobBufSize (CHR 0x00) \<and> b_off b = 0 \<and> b_size b = x_blob_bytes L (b_blob b) w'"

section \<open>The interface\<close>

locale world_frame =
  fixes K :: lib_consts and L :: "('w, 'm) blob_lib_scheme" and R :: "'w \<Rightarrow> 'w \<Rightarrow> bool"
  assumes refl: "R w w" and trans: "R w1 w2 \<Longrightarrow> R w2 w3 \<Longrightarrow> R w1 w3"
    and step: "R w (snd (x_step L p w))" and reset: "R w (snd (x_reset L p w))" and finalize: "R w (snd (x_finalize L p w))"
    and clear: "R w (snd (x_clear_bindings L p w))" and bind: "R w (snd (x_bind L p i a w))" and malloc: "R w (snd (x_malloc L n w))"
    and cstring: "R w (snd (x_cstring L q w))" and prepare: "R w (snd (x_prepare_v3 L q f w))" and notify: "R w (snd (snd (x_unlock_notify L w)))"
    and block: "un_block L w = Some w' \<Longrightarrow> R w w'" and done_ch: "R w (snd (x_done L ch w))"
    and blob_open: "R w (snd (x_blob_open L dbn tbl col row wr w))"
begin

lemma call_frame:
  assumes "lib_call f c = (r, c')" and "\<And>w. R w (snd (f w))" and "R w0 (c_world c)"
  shows "R w0 (c_world c')"
  using assms(1) trans [OF assms(3) assms(2)] by (auto simp: lib_call_eq)

lemma interrupted_frame: "Conn_interrupted K L c = (e, c') \<Longrightarrow> R (c_world c) (c_world c')"
  by (auto simp: Conn_interrupted_def lib_call_eq refl done_ch split: option.splits)

lemma Stmt_interrupted_frame: "Stmt_interrupted K L s c = Some (e, c') \<Longrightarrow> R (c_world c) (c_world c')"
  using interrupted_frame [of c] by (auto simp: Stmt_interrupted_def refl split: if_splits)

lemma wait_frame:
  assumes "Conn_wait K L c = Some (r, c')"
  shows "R (c_world c) (c_world c')"
proof -
  obtain un w where w: "waitForUnlockNotify K L (c_note c) (c_world c) = Some (r, un, w)" and c': "c' = c\<lparr>c_note := un, c_world := w\<rparr>"
    using assms by (auto simp: Conn_wait_def)
  obtain res called w1 where u: "x_unlock_notify L (c_world c) = (res, called, w1)" by (cases "x_unlock_notify L (c_world c)")
  then have k: "R (c_world c) w1" using notify [of "c_world c"] by simp
  have "w = w1 \<or> un_block L w1 = Some w" using w u by (auto simp: waitForUnlockNotify_def Let_def split: if_splits option.splits)
  then show ?thesis using k trans [OF k block] by (auto simp: c')
qed

lemma Reset_loop_frame:
  assumes "Reset_loop K L p c = Some r"
  shows "R (c_world c) (c_world (snd r))"
proof -
  have "K = K \<and> L = L \<longrightarrow> R (c_world c) (c_world (snd r))"
  proof (rule Reset_loop.raw_induct [where P = "\<lambda>K' L' p c r. K' = K \<and> L' = L \<longrightarrow> R (c_world c) (c_world (snd r))", OF _ assms], intro impI)
    fix f :: "lib_consts \<Rightarrow> ('w, 'm) blob_lib_scheme \<Rightarrow> nat \<Rightarrow> 'w Conn \<Rightarrow> (error \<times> 'w Conn) option"
      and K' and L' :: "('w, 'm) blob_lib_scheme" and p and c :: "'w Conn" and r
    assume IH: "\<And>K' L' p c r. f K' L' p c = Some r \<Longrightarrow> K' = K \<and> L' = L \<longrightarrow> R (c_world c) (c_world (snd r))"
      and eq: "(case lib_call (x_reset L' p) c of (res, c) \<Rightarrow>
          if res \<noteq> ResultLockedSharedCache K' then Some (wrap_error fmt_reset (conn_extreserr K' L' res c), c)
          else Conn_wait K' L' c \<bind> (\<lambda>(r, c).
            if r \<noteq> ResultOK K' then Some (errorf_w fmt_reset (conn_extreserr K' L' r c), c) else f K' L' p c)) = Some r"
      and KL: "K' = K \<and> L' = L"
    obtain res c1 where c1: "lib_call (x_reset L p) c = (res, c1)" by fastforce
    note r1 = call_frame [OF c1 reset refl]
    show "R (c_world c) (c_world (snd r))"
    proof (cases "res = ResultLockedSharedCache K")
      case False
      then show ?thesis using eq KL c1 r1 by auto
    next
      case True
      then obtain r2 c2 where w: "Conn_wait K L c1 = Some (r2, c2)" and rest: "snd r = c2 \<or> f K L p c2 = Some r"
        using eq KL c1 by (auto simp: bind_eq_Some_conv split: if_splits)
      note r2 = trans [OF r1 wait_frame [OF w]]
      from IH [of K L p c2 r] rest show ?thesis using r2 trans [OF r2] by auto
    qed
  qed
  then show ?thesis by simp
qed

lemma Reset_frame:
  assumes "Reset K L s c = Some (e, c')"
  shows "R (c_world c) (c_world c')"
proof -
  have "Reset_loop K L (s_ptr (stmt_at c s)) (upd_stmt s (\<lambda>st. st\<lparr>s_lastHasRow := False\<rparr>) c) = Some (e, c')"
    using assms by (simp add: Reset_def Let_def split: if_splits)
  from Reset_loop_frame [OF this] show ?thesis by simp
qed

lemma step_loop_frame:
  assumes "step_loop K L s c = Some r"
  shows "R (c_world c) (c_world (snd r))"
proof -
  have "K = K \<and> L = L \<longrightarrow> R (c_world c) (c_world (snd r))"
  proof (rule step_loop.raw_induct [where P = "\<lambda>K' L' s c r. K' = K \<and> L' = L \<longrightarrow> R (c_world c) (c_world (snd r))", OF _ assms], intro impI)
    fix f :: "lib_consts \<Rightarrow> ('w, 'm) blob_lib_scheme \<Rightarrow> nat \<Rightarrow> 'w Conn \<Rightarrow> ((bool \<times> error) \<times> 'w Conn) option"
      and K' and L' :: "('w, 'm) blob_lib_scheme" and s and c :: "'w Conn" and r
    assume IH: "\<And>K' L' s c r. f K' L' s c = Some r \<Longrightarrow> K' = K \<and> L' = L \<longrightarrow> R (c_world c) (c_world (snd r))"
      and eq: "Stmt_interrupted K' L' s c \<bind> (\<lambda>(err, c).
        if err \<noteq> None then Some ((False, err), c)
        else if \<not> s_conn (stmt_at c s) then None
        else (case lib_call (x_step L' (s_ptr (stmt_at c s))) c of (res, c) \<Rightarrow>
          if ToPrimary res = ResultLocked K' then
            if res \<noteq> ResultLockedSharedCache K' then Some ((False, conn_extreserr K' L' res c), c)
            else Conn_wait K' L' c \<bind> (\<lambda>(r, c).
              if \<not> IsSuccess K' r then Some ((False, conn_extreserr K' L' r c), c)
              else f K' L' s (snd (lib_call (x_reset L' (s_ptr (stmt_at c s))) c)))
          else if ToPrimary res = ResultRow K' then Some ((True, None), c)
          else if ToPrimary res = ResultDone K' then Some ((False, None), c)
          else if ToPrimary res = ResultInterrupt K' then Some ((False, ToError K' res), c)
          else Some ((False, conn_extreserr K' L' res c), c))) = Some r"
      and KL: "K' = K \<and> L' = L"
    obtain e c0 where i: "Stmt_interrupted K L s c = Some (e, c0)" using eq KL by (auto simp: bind_eq_Some_conv)
    note r0 = Stmt_interrupted_frame [OF i]
    obtain res c1 where c1: "lib_call (x_step L (s_ptr (stmt_at c0 s))) c0 = (res, c1)" by fastforce
    note r1 = call_frame [OF c1 step r0]
    have "snd r = c0 \<or> snd r = c1 \<or> (\<exists>r2 c2. Conn_wait K L c1 = Some (r2, c2) \<and>
        (snd r = c2 \<or> f K L s (snd (lib_call (x_reset L (s_ptr (stmt_at c2 s))) c2)) = Some r))"
      using eq KL i c1 by (auto simp: bind_eq_Some_conv split: if_splits)
    then consider "snd r = c0" | "snd r = c1" | r2 c2 where "Conn_wait K L c1 = Some (r2, c2)" "snd r = c2"
      | r2 c2 where "Conn_wait K L c1 = Some (r2, c2)" "f K L s (snd (lib_call (x_reset L (s_ptr (stmt_at c2 s))) c2)) = Some r"
      by blast
    then show "R (c_world c) (c_world (snd r))"
    proof cases
      case (3 r2 c2)
      then show ?thesis using trans [OF r1 wait_frame] by blast
    next
      case (4 r2 c2)
      note r2 = trans [OF r1 wait_frame [OF 4(1)]]
      have "R (c_world c) (c_world (snd (lib_call (x_reset L (s_ptr (stmt_at c2 s))) c2)))"
        using trans [OF r2 reset] by (simp add: lib_call_eq)
      from trans [OF this] IH [OF 4(2)] show ?thesis by blast
    qed (use r0 r1 in auto)
  qed
  then show ?thesis by simp
qed

lemma Step_frame:
  assumes "Step K L s c = Some (r, c')"
  shows "R (c_world c) (c_world c')"
proof (cases "s_bindErr (stmt_at c s) = None")
  case False
  then obtain e where "Reset K L s (upd_stmt s (\<lambda>st. st\<lparr>s_bindErr := None\<rparr>) c) = Some (e, c')"
    using assms by (auto simp: Step_def bind_eq_Some_conv)
  from Reset_frame [OF this] show ?thesis by simp
next
  case True
  then obtain r1 c1 where l: "step_loop K L s c = Some (r1, c1)" and c': "c_world c' = c_world c1 \<or> (\<exists>p. c_world c' = snd (x_reset L p (c_world c1)))"
    using assms by (fastforce simp: Step_def bind_eq_Some_conv Let_def lib_call_eq split: if_splits)
  have "R (c_world c) (c_world c1)" using step_loop_frame [OF l] by simp
  then show ?thesis using c' trans [OF _ reset] by auto
qed

lemma ClearBindings_frame:
  assumes "ClearBindings K L s c = Some (e, c')"
  shows "R (c_world c) (c_world c')"
proof -
  obtain e1 c1 where i: "Stmt_interrupted K L s c = Some (e1, c1)" and c': "c' = c1 \<or> c' = snd (lib_call (x_clear_bindings L (s_ptr (stmt_at c1 s))) c1)"
    using assms by (auto simp: ClearBindings_def bind_eq_Some_conv case_prod_beta split: if_splits)
  note r = Stmt_interrupted_frame [OF i]
  show ?thesis using c' r trans [OF r clear] by (auto simp: lib_call_eq)
qed

lemma Finalize_frame: "Finalize K L s c = Some (e, c') \<Longrightarrow> R (c_world c) (c_world c')"
  using Finalize_result(4) finalize by metis

lemma bind_call_frame: "bind_call K L prefix a s i c = Some c' \<Longrightarrow> R (c_world c) (c_world c')"
  using bind by (auto simp: bind_call_def handleBindErr_def lib_call_eq split: if_splits)

lemma findBindName_world: "c_world (snd (findBindName prefix param s c)) = c_world c"
  by (simp add: findBindName_def split: option.splits)

lemma Set_frame:
  shows "SetZeroBlob K L s n v c = Some c' \<Longrightarrow> R (c_world c) (c_world c')" and "SetInt64 K L s n v c = Some c' \<Longrightarrow> R (c_world c) (c_world c')"
  using bind_call_frame findBindName_world [of _ n s c] refl
  by (fastforce simp: SetZeroBlob_def BindZeroBlob_def SetInt64_def BindInt64_def case_prod_beta split: if_splits)+

lemma conn_prepare_frame:
  assumes "conn_prepare K L query flags c = (r, c')"
  shows "R (c_world c) (c_world c')"
proof -
  obtain e0 c0 where c0: "Conn_interrupted K L c = (e0, c0)" by fastforce
  note r0 = interrupted_frame [OF c0]
  obtain e1 c1 where c1: "lib_call (x_cstring L query) c0 = (e1, c1)" by fastforce
  note r1 = call_frame [OF c1 cstring r0]
  obtain ok2 c2 where c2: "lib_call (x_malloc L 8) c1 = (ok2, c2)" by fastforce
  note r2 = call_frame [OF c2 malloc r1]
  obtain ok3 c3 where c3: "lib_call (x_malloc L 8) c2 = (ok3, c3)" by fastforce
  note r3 = call_frame [OF c3 malloc r2]
  obtain res p n c4 where c4: "lib_call (x_prepare_v3 L query flags) c3 = ((res, p, n), c4)" by (metis surj_pair)
  note r4 = call_frame [OF c4 prepare r3]
  have "c_world c' \<in> {c_world c0, c_world c1, c_world c2, c_world c3, c_world c4}"
    using assms by (simp add: conn_prepare_def c0 c1 c2 c3 c4 Let_def case_prod_beta alloc_Stmt_def split: if_splits) auto
  then show ?thesis using r0 r1 r2 r3 r4 by auto
qed

lemma Prepare_frame:
  assumes "Prepare K L query c = Some (r, c')"
  shows "R (c_world c) (c_world c')"
proof (cases "map_of (c_stmts c) query")
  case (Some s)
  then obtain e1 c1 where r: "Reset K L s c = Some (e1, c1)" and rest: "c' = c1 \<or> (\<exists>e2. ClearBindings K L s c1 = Some (e2, c'))"
    using assms by (auto simp: Prepare_def bind_eq_Some_conv split: if_splits)
  note r1 = Reset_frame [OF r]
  show ?thesis using rest r1 trans [OF r1 ClearBindings_frame] by auto
next
  case None
  obtain so tr e c1 where p: "conn_prepare K L query (PREPARE_PERSISTENT K) c = ((so, tr, e), c1)" by (metis surj_pair)
  note r1 = conn_prepare_frame [OF p]
  have "c_world c' = c_world c1 \<or> (\<exists>s e2. Finalize K L s c1 = Some (e2, c'))"
    using assms None p by (auto simp: Prepare_def bind_eq_Some_conv split: option.splits if_splits)
  then show ?thesis using r1 trans [OF r1 Finalize_frame] by auto
qed

lemma Prep_frame:
  assumes "Prep K L query c = Some (r, c')"
  shows "R (c_world c) (c_world c')"
proof -
  obtain r1 c1 where p: "Prepare K L query c = Some (r1, c1)" and "c_world c' = c_world c1"
    using assms by (auto simp: Prep_def bind_eq_Some_conv alloc_Stmt_def split: if_splits)
  then show ?thesis using Prepare_frame [OF p] by simp
qed

text \<open>A handle that was opened: the call that opened it.\<close>

lemma openBlob_loop_frame:
  assumes "openBlob_loop K L dbn tbl col row wr c = Some r"
  shows "R (c_world c) (c_world (snd r)) \<and> (\<forall>b. fst (fst r) = Some b \<longrightarrow>
    (\<exists>w. R (c_world c) w \<and> opened_by K L tbl col row wr w b (c_world (snd r)))) \<and> (fst (fst r) = None \<longrightarrow> snd (fst r) \<noteq> None)"
proof -
  let ?Q = "\<lambda>dbn :: gostring. \<lambda>tbl col row wr. \<lambda>c :: 'w Conn. \<lambda>r :: (Blob option \<times> error) \<times> 'w Conn. R (c_world c) (c_world (snd r)) \<and> (\<forall>b. fst (fst r) = Some b \<longrightarrow>
    (\<exists>w. R (c_world c) w \<and> opened_by K L tbl col row wr w b (c_world (snd r)))) \<and> (fst (fst r) = None \<longrightarrow> snd (fst r) \<noteq> None)"
  have step: "?Q dbn tbl col row wr c r" if "R (c_world c) (c_world c1)" "?Q dbn tbl col row wr c1 r" for dbn tbl col row wr c c1 r
    using that trans [OF that(1)] by blast
  have "K = K \<and> L = L \<longrightarrow> ?Q dbn tbl col row wr c r"
  proof (rule openBlob_loop.raw_induct [where P = "\<lambda>K' L' dbn tbl col row wr c r. K' = K \<and> L' = L \<longrightarrow> ?Q dbn tbl col row wr c r", OF _ assms], intro impI)
    fix f :: "lib_consts \<Rightarrow> ('w, 'm) blob_lib_scheme \<Rightarrow> gostring \<Rightarrow> gostring \<Rightarrow> gostring \<Rightarrow> int \<Rightarrow> bool \<Rightarrow> 'w Conn \<Rightarrow> ((Blob option \<times> error) \<times> 'w Conn) option"
      and K' and L' :: "('w, 'm) blob_lib_scheme" and dbn tbl col row wr and c :: "'w Conn" and r
    assume IH: "\<And>K' L' dbn tbl col row wr c r. f K' L' dbn tbl col row wr c = Some r \<Longrightarrow> K' = K \<and> L' = L \<longrightarrow> ?Q dbn tbl col row wr c r"
      and eq: "(case Conn_interrupted K' L' c of (err, c) \<Rightarrow>
        if err \<noteq> None then Some ((None, wrap_error fmt_open_blob err), c)
        else case lib_call (x_blob_open L' dbn tbl col row wr) c of ((res, p), c) \<Rightarrow>
          if res = ResultLockedSharedCache K' then Conn_wait K' L' c \<bind> (\<lambda>(r, c).
            if ToError K' r \<noteq> None then Some ((None, wrap_error fmt_open_blob (ToError K' r)), c)
            else f K' L' dbn tbl col row wr c)
          else if res = ResultOK K' then
            Some ((Some \<lparr>b_blob = p, b_buf = replicate blobBufSize (CHR 0x00), b_off = 0, b_size = x_blob_bytes L' p (c_world c)\<rparr>, None), c)
          else Some ((None, errorf_w fmt_open_blob (conn_extreserr K' L' res c)), c)) = Some r"
      and KL: "K' = K \<and> L' = L"
    obtain e c0 where i: "Conn_interrupted K L c = (e, c0)" by fastforce
    note r0 = interrupted_frame [OF i]
    obtain res p c1 where c1: "lib_call (x_blob_open L dbn tbl col row wr) c0 = ((res, p), c1)" by (metis surj_pair)
    note r1 = call_frame [OF c1 blob_open r0]
    have x: "x_blob_open L dbn tbl col row wr (c_world c0) = ((res, p), c_world c1)" using c1 by (auto simp: lib_call_def split: prod.splits)
    show "?Q dbn tbl col row wr c r"
    proof (cases "e = None \<and> res = ResultLockedSharedCache K")
      case False
      moreover have "opened_by K L tbl col row wr (c_world c0) \<lparr>b_blob = p, b_buf = replicate blobBufSize (CHR 0x00), b_off = 0,
          b_size = x_blob_bytes L p (c_world c1)\<rparr> (c_world c1)" if "res = ResultOK K"
        using x that by (auto simp: opened_by_def)
      ultimately show ?thesis using eq KL i c1 r0 r1 by (auto simp: wrap_error_def errorf_w_def split: if_splits)
    next
      case True
      then obtain r2 c2 where w: "Conn_wait K L c1 = Some (r2, c2)"
        and rest: "fst (fst r) = None \<and> snd (fst r) \<noteq> None \<and> snd r = c2 \<or> f K L dbn tbl col row wr c2 = Some r"
        using eq KL i c1 by (auto simp: bind_eq_Some_conv wrap_error_def split: if_splits)
      note r2 = trans [OF r1 wait_frame [OF w]]
      from rest show ?thesis
      proof
        assume "f K L dbn tbl col row wr c2 = Some r"
        from IH [OF this] have "?Q dbn tbl col row wr c2 r" by blast
        with r2 show ?thesis by (rule step)
      qed (use r2 in simp)
    qed
  qed
  then show ?thesis by simp
qed

lemma openBlob_frame:
  assumes "openBlob K L dbn tbl col row wr c = Some ((bo, e), c')"
  shows "R (c_world c) (c_world c') \<and> (\<forall>b. bo = Some b \<longrightarrow>
    (\<exists>w. R (c_world c) w \<and> opened_by K L tbl col row wr w b (c_world c'))) \<and> (bo = None \<longrightarrow> e \<noteq> None)"
proof -
  obtain cdb e0 c0 where c0: "cDBName L dbn c = ((cdb, e0), c0)" by (metis surj_pair)
  have r0: "R (c_world c) (c_world c0)" using c0 refl cstring by (auto simp: cDBName_def lib_call_eq split: if_splits)
  obtain e1 c1 where c1: "x_alloc L blobBufSize c0 = (e1, c1)" by fastforce
  have r1: "R (c_world c) (c_world c1)" using c1 trans [OF r0 malloc] by (auto simp: x_alloc_def lib_call_eq)
  obtain e2 c2 where c2: "lib_call (x_cstring L tbl) c1 = (e2, c2)" by fastforce
  note r2 = call_frame [OF c2 cstring r1]
  obtain e3 c3 where c3: "lib_call (x_cstring L col) c2 = (e3, c3)" by fastforce
  note r3 = call_frame [OF c3 cstring r2]
  obtain e4 c4 where c4: "x_alloc L 8 c3 = (e4, c4)" by fastforce
  have r4: "R (c_world c) (c_world c4)" using c4 trans [OF r3 malloc] by (auto simp: x_alloc_def lib_call_eq)
  have "bo = None \<and> e \<noteq> None \<and> c' \<in> {c0, c1, c2, c3, c4} \<or> openBlob_loop K L cdb tbl col row wr c4 = Some ((bo, e), c')"
    using assms by (auto simp: openBlob_def c0 c1 c2 c3 c4 wrap_error_def split: if_splits)
  then consider "bo = None" "e \<noteq> None" "c' \<in> {c0, c1, c2, c3, c4}" | (run) "openBlob_loop K L cdb tbl col row wr c4 = Some ((bo, e), c')" by blast
  then show ?thesis
  proof cases
    case run
    from openBlob_loop_frame [OF run] show ?thesis using trans [OF r4] by fastforce
  qed (use r0 r1 r2 r3 r4 in auto)
qed

end

end
