(* ===== verification/TempBlobs.thy ===== *)
theory TempBlobs
  imports Frame
begin

text \<open>
  The temporary table \<open>BlobBuffer\<close>, which buffers and files share (sqlitefile/buffer.go and sqlitefile/file.go): creating it, inserting a row of zero bytes
  and opening its BLOB, closing the handles and deleting the rows again.
\<close>

section \<open>Operations\<close>

definition sql_create :: gostring where "sql_create = ''CREATE TEMP TABLE IF NOT EXISTS BlobBuffer (blob BLOB);''"
definition sql_insert :: gostring where "sql_insert = ''INSERT INTO BlobBuffer (blob) VALUES ($blob);''"
definition sql_delete :: gostring where "sql_delete = ''DELETE FROM BlobBuffer WHERE rowid = $rowid;''"

text \<open>\<open>Prep\<close>, where \<open>None\<close> is its panic.\<close>

definition prep_stmt :: "lib_consts \<Rightarrow> ('w, 'm) sqlite_lib_scheme \<Rightarrow> gostring \<Rightarrow> 'w Conn \<Rightarrow> (nat \<times> 'w Conn) option" where
  "prep_stmt K L query c = do {
     (r, c) \<leftarrow> Prep K L query c;
     (case r of Inr (Some s) \<Rightarrow> Some (s, c) | _ \<Rightarrow> None)
   }"

definition create_table :: "lib_consts \<Rightarrow> ('w, 'm) sqlite_lib_scheme \<Rightarrow> 'w Conn \<Rightarrow> (error \<times> 'w Conn) option" where
  "create_table K L c = do {
     (s, c) \<leftarrow> prep_stmt K L sql_create c;
     ((_, err), c) \<leftarrow> Step K L s c;
     Some (err, c)
   }"

definition insert_blob :: "lib_consts \<Rightarrow> ('w, 'm) blob_lib_scheme \<Rightarrow> int \<Rightarrow> 'w Conn \<Rightarrow> (((Blob \<times> int) option \<times> error) \<times> 'w Conn) option" where
  "insert_blob K L n c = do {
     (s, c) \<leftarrow> prep_stmt K L sql_insert c;
     c \<leftarrow> SetZeroBlob K L s ''$blob'' n c;
     ((_, err), c) \<leftarrow> Step K L s c;
     if err \<noteq> None then Some ((None, err), c)
     else let rowid = LastInsertRowID L c in do {
       ((bo, err), c) \<leftarrow> openBlob K L ''temp'' ''BlobBuffer'' ''blob'' rowid True c;
       Some (case bo of None \<Rightarrow> (None, err) | Some b \<Rightarrow> (Some (b, rowid), None), c)
     }
   }"

text \<open>The first error is kept.\<close>

fun close_blobs :: "lib_consts \<Rightarrow> ('w, 'm) blob_lib_scheme \<Rightarrow> Blob list \<Rightarrow> error \<Rightarrow> 'w Conn \<Rightarrow> error \<times> 'w Conn" where
  "close_blobs K L [] err c = (err, c)"
| "close_blobs K L (b # bs) err c = (case Blob_Close K L b c of (e, _, c) \<Rightarrow> close_blobs K L bs (if err = None then e else err) c)"

fun delete_rows :: "lib_consts \<Rightarrow> ('w, 'm) sqlite_lib_scheme \<Rightarrow> nat \<Rightarrow> int list \<Rightarrow> error \<Rightarrow> 'w Conn \<Rightarrow> (error \<times> 'w Conn) option" where
  "delete_rows K L s [] err c = Some (err, c)"
| "delete_rows K L s (rowid # rs) err c = do {
     (_, c) \<leftarrow> Reset K L s c;
     c \<leftarrow> SetInt64 K L s ''$rowid'' rowid c;
     ((_, e), c) \<leftarrow> Step K L s c;
     delete_rows K L s rs (if e \<noteq> None \<and> err = None then e else err) c
   }"

text \<open>\<open>io.ReadFull\<close> on a blob: \<open>acc\<close> has been read, \<open>p\<close> is the rest of the slice.  The loop ends since each \<open>Read\<close> makes progress or fails.\<close>

definition io_ErrUnexpectedEOF :: go_error where "io_ErrUnexpectedEOF = ErrorString ''unexpected EOF''"

partial_function (option) ReadFull :: "lib_consts \<Rightarrow> ('w, 'm) blob_lib_scheme \<Rightarrow> gostring \<Rightarrow> gostring \<Rightarrow> Blob \<Rightarrow> 'w Conn \<Rightarrow>
    (((nat \<times> error) \<times> gostring) \<times> Blob \<times> 'w Conn) option" where
  "ReadFull K L acc p b c =
     (if p = [] then Some (((length acc, None), acc), b, c)
      else case Blob_Read K L p b c of (((n, err), p), b, c) \<Rightarrow>
        if err = None then ReadFull K L (acc @ take n p) (drop n p) b c
        else let got = length acc + n in
          Some (((got, if n = length p then None else if 0 < got \<and> err = Some io_EOF then Some io_ErrUnexpectedEOF else err), acc @ p), b, c))"

section \<open>What the database promises of the table\<close>

text \<open>The contents of open handles: a world keeps those of another.\<close>

definition kept :: "(nat \<Rightarrow> 'w \<Rightarrow> gostring option) \<Rightarrow> 'w \<Rightarrow> 'w \<Rightarrow> bool" where
  "kept D w w' \<longleftrightarrow> (\<forall>p d. D p w = Some d \<longrightarrow> D p w' = Some d)"

text \<open>Statements on the connection leave the rows alone whose BLOBs are open: SQLite itself allocates nothing in them, and only this package names the table.\<close>

definition calls_keep :: "('w, 'm) blob_lib_scheme \<Rightarrow> (nat \<Rightarrow> 'w \<Rightarrow> gostring option) \<Rightarrow> bool" where
  "calls_keep L D \<longleftrightarrow>
     (\<forall>p w. kept D w (snd (x_step L p w)) \<and> kept D w (snd (x_reset L p w)) \<and> kept D w (snd (x_finalize L p w)) \<and>
        kept D w (snd (x_clear_bindings L p w))) \<and>
     (\<forall>p i a w. kept D w (snd (x_bind L p i a w))) \<and> (\<forall>n w. kept D w (snd (x_malloc L n w))) \<and>
     (\<forall>q w. kept D w (snd (x_cstring L q w))) \<and> (\<forall>q f w. kept D w (snd (x_prepare_v3 L q f w))) \<and>
     (\<forall>w. kept D w (snd (snd (x_unlock_notify L w)))) \<and> (\<forall>w w'. un_block L w = Some w' \<longrightarrow> kept D w w') \<and>
     (\<forall>ch w. kept D w (snd (x_done L ch w))) \<and> (\<forall>dbn tbl col row wr w. kept D w (snd (x_blob_open L dbn tbl col row wr w)))"

text \<open>A new handle is not one that is open, and knows the size of its contents, which is below the limit of SQLite for a BLOB.\<close>

definition lib_store_ok :: "lib_consts \<Rightarrow> ('w, 'm) blob_lib_scheme \<Rightarrow> (nat \<Rightarrow> 'w \<Rightarrow> gostring option) \<Rightarrow> bool" where
  "lib_store_ok K L D \<longleftrightarrow> lib_blob_ok K L D \<and> calls_keep L D \<and>
     (\<forall>dbn tbl col row wr w p w'. x_blob_open L dbn tbl col row wr w = ((ResultOK K, p), w') \<longrightarrow>
        p \<noteq> 0 \<and> D p w = None \<and> (\<exists>d. D p w' = Some d \<and> length d < 2 ^ 31 \<and> x_blob_bytes L p w' = int (length d)))"

lemma kept_refl: "kept D w w"
  by (simp add: kept_def)

lemma kept_trans: "kept D w1 w2 \<Longrightarrow> kept D w2 w3 \<Longrightarrow> kept D w1 w3"
  by (simp add: kept_def)

lemma keptD: "kept D w w' \<Longrightarrow> D p w = Some d \<Longrightarrow> D p w' = Some d"
  by (simp add: kept_def)

interpretation store: world_frame K L "\<lambda>w w'. calls_keep L D \<longrightarrow> kept D w w'" for K L D
  by unfold_locales (auto simp: calls_keep_def kept_refl intro: kept_trans)

lemma lib_store_okD:
  assumes "lib_store_ok K L D"
  shows "lib_blob_ok K L D" and "calls_keep L D"
    and "opened_by K L tbl col row wr w b w' \<Longrightarrow> D (b_blob b) w = None \<and> (\<exists>d. D (b_blob b) w' = Some d \<and> blob_over d b)"
  using assms unfolding lib_store_ok_def opened_by_def blob_over_def by fastforce+

section \<open>Lemmas\<close>

lemma store_kept:
  assumes "calls_keep L D"
  shows "Prep K L query c = Some (r, c') \<Longrightarrow> kept D (c_world c) (c_world c')"
    and "Step K L s c = Some (rs, c') \<Longrightarrow> kept D (c_world c) (c_world c')"
    and "Reset K L s c = Some (e, c') \<Longrightarrow> kept D (c_world c) (c_world c')"
    and "SetZeroBlob K L s n v c = Some c' \<Longrightarrow> kept D (c_world c) (c_world c')"
    and "SetInt64 K L s n v c = Some c' \<Longrightarrow> kept D (c_world c) (c_world c')"
  using store.Prep_frame [of K L query c r c' D] store.Step_frame [of K L s c rs c' D] store.Reset_frame [of K L s c e c' D]
    store.Set_frame [of K L s n v c c' D] assms by simp_all

lemma prep_stmt_kept:
  assumes "calls_keep L D" and "prep_stmt K L query c = Some (s, c')"
  shows "kept D (c_world c) (c_world c')"
proof -
  obtain r c1 where p: "Prep K L query c = Some (r, c1)" using assms(2) by (auto simp: prep_stmt_def bind_eq_Some_conv)
  then have "c1 = c'" using assms(2) by (cases r) (auto simp: prep_stmt_def split: option.splits)
  then show ?thesis using store_kept(1) [OF assms(1) p] by simp
qed

lemma create_table_kept:
  assumes "calls_keep L D" and "create_table K L c = Some (err, c')"
  shows "kept D (c_world c) (c_world c')"
proof -
  obtain s c1 r where p: "prep_stmt K L sql_create c = Some (s, c1)" and s: "Step K L s c1 = Some (r, c')"
    using assms(2) by (auto simp: create_table_def bind_eq_Some_conv)
  show ?thesis using kept_trans [OF prep_stmt_kept [OF assms(1) p] store_kept(2) [OF assms(1) s]] .
qed

lemma insert_blob_result:
  assumes "lib_store_ok K L D" and "insert_blob K L n c = Some ((r, err), c')"
  shows "kept D (c_world c) (c_world c')"
    and "r = Some (b, rowid) \<Longrightarrow> D (b_blob b) (c_world c) = None \<and> (\<exists>d. D (b_blob b) (c_world c') = Some d \<and> blob_over d b)"
    and "r = None \<Longrightarrow> err \<noteq> None"
proof -
  note ck = lib_store_okD(2) [OF assms(1)]
  obtain s c1 c2 row e c3 where p: "prep_stmt K L sql_insert c = Some (s, c1)" and z: "SetZeroBlob K L s ''$blob'' n c1 = Some c2"
    and st: "Step K L s c2 = Some ((row, e), c3)"
    using assms(2) by (auto simp: insert_blob_def bind_eq_Some_conv)
  have k3: "kept D (c_world c) (c_world c3)"
    using kept_trans [OF kept_trans [OF prep_stmt_kept [OF ck p] store_kept(4) [OF ck z]] store_kept(2) [OF ck st]] .
  have "(r = None \<and> err \<noteq> None \<and> c' = c3) \<or> (\<exists>bo e2. openBlob K L ''temp'' ''BlobBuffer'' ''blob'' (LastInsertRowID L c3) True c3 = Some ((bo, e2), c') \<and>
      map_option fst r = bo \<and> (bo = None \<longrightarrow> err = e2))"
    using assms(2) p z st by (auto simp: insert_blob_def bind_eq_Some_conv Let_def split: if_splits option.splits)
  then consider "r = None" "err \<noteq> None" "c' = c3" | (opened) bo e2 where "openBlob K L ''temp'' ''BlobBuffer'' ''blob'' (LastInsertRowID L c3) True c3 = Some ((bo, e2), c')"
    "map_option fst r = bo" "bo = None \<longrightarrow> err = e2" by blast
  then have "kept D (c_world c) (c_world c') \<and> (r = None \<longrightarrow> err \<noteq> None) \<and> (\<forall>b rowid. r = Some (b, rowid) \<longrightarrow>
      D (b_blob b) (c_world c) = None \<and> (\<exists>d. D (b_blob b) (c_world c') = Some d \<and> blob_over d b))"
  proof cases
    case (opened bo e2)
    note f = store.openBlob_frame [OF opened(1), of D]
    have "D (b_blob b) (c_world c) = None \<and> (\<exists>d. D (b_blob b) (c_world c') = Some d \<and> blob_over d b)" if b: "bo = Some b" for b
    proof -
      obtain w where w: "kept D (c_world c3) w" and o: "opened_by K L ''BlobBuffer'' ''blob'' (LastInsertRowID L c3) True w b (c_world c')"
        using f b ck by blast
      note new = lib_store_okD(3) [OF assms(1) o]
      have "D (b_blob b) (c_world c) = None" using new keptD [OF kept_trans [OF k3 w]] by (cases "D (b_blob b) (c_world c)") auto
      with new show ?thesis by blast
    qed
    then show ?thesis using kept_trans [OF k3] f ck opened(2,3) by auto
  qed (use k3 in auto)
  then show "kept D (c_world c) (c_world c')"
    and "r = Some (b, rowid) \<Longrightarrow> D (b_blob b) (c_world c) = None \<and> (\<exists>d. D (b_blob b) (c_world c') = Some d \<and> blob_over d b)"
    and "r = None \<Longrightarrow> err \<noteq> None" by blast+
qed

lemma Seek_to:
  assumes "blob_over d b" and "0 \<le> x" and "x \<le> int (length d)" and "Blob_Seek x 0 b = ((o', err), b')"
  shows "err = None" and "blob_over d b'" and "b_blob b' = b_blob b" and "b_off b' = x"
proof -
  have "in_int32 x" "b_size b = int (length d)" using assms(1-3) by (auto simp: blob_over_def in_int32_def)
  then have "err = None" "b' = b\<lparr>b_off := x\<rparr>" using assms(2-4) by (auto simp: Blob_Seek_def Let_def)
  then show "err = None" "blob_over d b'" "b_blob b' = b_blob b" "b_off b' = x" using assms(1-3) by (auto simp: blob_over_def)
qed

text \<open>Reading a whole slice of an open handle returns, and fails unless it has read everything.\<close>

lemma ReadFull_result:
  assumes "lib_blob_ok K L D" and "D (b_blob b) (c_world c) = Some d" and "blob_over d b"
  shows "\<exists>n err bytes b' c'. ReadFull K L [] p b c = Some (((n, err), bytes), b', c') \<and> (\<forall>q. D q (c_world c') = D q (c_world c)) \<and>
    b_blob b' = b_blob b \<and> blob_over d b' \<and> length bytes = length p \<and> n \<le> length p \<and> b_off b' = b_off b + int n \<and> take n bytes = take n (drop (nat (b_off b)) d) \<and>
    (err = None \<longrightarrow> n = length p \<and> nat (b_off b) + length p \<le> length d \<and> bytes = take (length p) (drop (nat (b_off b)) d))"
proof (cases "p = []")
  case True
  then show ?thesis using assms by (subst ReadFull.simps) (auto simp: blob_over_def)
next
  case False
  obtain n err p' b1 c1 where r: "Blob_Read K L p b c = (((n, err), p'), b1, c1)" by (metis surj_pair)
  note s = Blob_Read_result [OF assms r]
  have len: "length p' = length p" using s by (auto simp: splice_def)
  have part: "take n p' = take n (drop (nat (b_off b)) d)" using s by (auto simp: splice_def min_def)
  show ?thesis
  proof (cases err)
    case (Some e)
    then have f: "ReadFull K L [] p b c = Some (((n, if n = length p' then None else if 0 < n \<and> err = Some io_EOF then Some io_ErrUnexpectedEOF else err), p'), b1, c1)"
      using False r by (subst ReadFull.simps) simp
    have "p' = take (length p) (drop (nat (b_off b)) d)" if "n = length p" using s that by (auto simp: splice_def)
    then show ?thesis using f s len part Some by (auto simp del: split_paired_Ex)
  next
    case None
    then have n: "n = min (length p) (length d - nat (b_off b))" using s by simp
    have f: "ReadFull K L [] p b c = ReadFull K L (take n p') (drop n p') b1 c1" using False r None by (subst ReadFull.simps) simp
    show ?thesis
    proof (cases "n = length p")
      case True
      then have "ReadFull K L [] p b c = Some (((length p, None), take n p'), b1, c1)" using f len by (subst (asm) (2) ReadFull.simps) simp
      then show ?thesis using s part True n by auto
    next
      case short: False
      then have e: "drop n p' \<noteq> []" "b_off b1 = b_size b1" using s n len assms(3) by (auto simp: blob_over_def)
      have "b_blob b1 \<noteq> 0" using s by (simp add: blob_over_def)
      then have "Blob_Read K L (drop n p') b1 c1 = (((0, Some io_EOF), drop n p'), b1, c1)" using e by (simp add: Blob_Read_def)
      then have "\<exists>e1. ReadFull K L (take n p') (drop n p') b1 c1 = Some (((n, Some e1), p'), b1, c1)"
        using e len short n by (subst ReadFull.simps) (auto simp: min_def)
      then obtain e1 where "ReadFull K L (take n p') (drop n p') b1 c1 = Some (((n, Some e1), p'), b1, c1)" by blast
      then show ?thesis using f s len part n by auto
    qed
  qed
qed

end
