(* ===== verification/Buffer.thy ===== *)
theory Buffer
  imports TempBlobs "HOL-Library.Sublist"
begin

text \<open>
  Byte queues that spill into the database (sqlitefile/buffer.go).  The first and the last page are in memory, the pages between them in BLOBs of a
  temporary table.  The abstract contents are the bytes that were written and not yet read.
\<close>

section \<open>State\<close>

record tblob =
  t_blob :: Blob
  t_rowid :: int

text \<open>\<open>bf_cap\<close> is the capacity of both slices; the code swaps them but never grows them.\<close>

record Buffer =
  bf_err :: error
  bf_cap :: nat
  bf_rbuf :: gostring
  bf_roff :: nat
  bf_blobs :: "tblob list"
  bf_wbuf :: gostring
  bf_free :: "tblob list"

section \<open>Operations\<close>

text \<open>\<open>make\<close> panics on a negative size.\<close>

definition NewBufferSize :: "lib_consts \<Rightarrow> ('w, 'm) sqlite_lib_scheme \<Rightarrow> int \<Rightarrow> 'w Conn \<Rightarrow> ((Buffer option \<times> error) \<times> 'w Conn) option" where
  "NewBufferSize K L pageSize c =
     (if pageSize < 0 then None
      else do {
        (err, c) \<leftarrow> create_table K L c;
        if err \<noteq> None then Some ((None, err), c)
        else Some ((Some \<lparr>bf_err = None, bf_cap = nat pageSize, bf_rbuf = [], bf_roff = 0, bf_blobs = [], bf_wbuf = [], bf_free = []\<rparr>, None), c)
      })"

definition NewBuffer :: "lib_consts \<Rightarrow> ('w, 'm) sqlite_lib_scheme \<Rightarrow> 'w Conn \<Rightarrow> ((Buffer option \<times> error) \<times> 'w Conn) option" where
  "NewBuffer K L c = NewBufferSize K L (16 * 1024) c"

text \<open>A new blob gets the length, not the capacity, of the read buffer.\<close>

definition Buffer_alloc :: "lib_consts \<Rightarrow> ('w, 'm) blob_lib_scheme \<Rightarrow> Buffer \<Rightarrow> 'w Conn \<Rightarrow> ((tblob option \<times> error) \<times> Buffer \<times> 'w Conn) option" where
  "Buffer_alloc K L bb c =
     (if 0 < length (bf_free bb)
      then Some ((Some (last (bf_free bb)), None), bb\<lparr>bf_free := butlast (bf_free bb)\<rparr>, c)
      else do {
        ((r, err), c) \<leftarrow> insert_blob K L (int (length (bf_rbuf bb))) c;
        Some ((map_option (\<lambda>(b, rowid). \<lparr>t_blob = b, t_rowid = rowid\<rparr>) r, err), bb, c)
      })"

definition wbufEnsureSpace :: "lib_consts \<Rightarrow> ('w, 'm) blob_lib_scheme \<Rightarrow> Buffer \<Rightarrow> 'w Conn \<Rightarrow> (error \<times> Buffer \<times> 'w Conn) option" where
  "wbufEnsureSpace K L bb c =
     (if length (bf_wbuf bb) < bf_cap bb then Some (None, bb, c)
      else if bf_blobs bb = [] \<and> bf_roff bb = length (bf_rbuf bb)
      then Some (None, bb\<lparr>bf_rbuf := bf_wbuf bb, bf_wbuf := [], bf_roff := 0\<rparr>, c)
      else do {
        ((r, err), bb, c) \<leftarrow> Buffer_alloc K L bb c;
        (case r of
           None \<Rightarrow> Some (err, bb\<lparr>bf_err := err\<rparr>, c)
         | Some t \<Rightarrow>
             (case Blob_Seek 0 0 (t_blob t) of ((_, err), b) \<Rightarrow>
                if err \<noteq> None then Some (err, bb\<lparr>bf_err := err\<rparr>, c)
                else case Blob_Write K L (bf_wbuf bb) b c of ((_, err), b, c) \<Rightarrow>
                  if err \<noteq> None then Some (err, bb\<lparr>bf_err := err\<rparr>, c)
                  else Some (None, bb\<lparr>bf_blobs := bf_blobs bb @ [t\<lparr>t_blob := b\<rparr>], bf_wbuf := []\<rparr>, c)))
      })"

definition Buffer_WriteByte :: "lib_consts \<Rightarrow> ('w, 'm) blob_lib_scheme \<Rightarrow> char \<Rightarrow> Buffer \<Rightarrow> 'w Conn \<Rightarrow> (error \<times> Buffer \<times> 'w Conn) option" where
  "Buffer_WriteByte K L x bb c =
     (if bf_err bb \<noteq> None then Some (bf_err bb, bb, c)
      else do {
        (err, bb, c) \<leftarrow> wbufEnsureSpace K L bb c;
        if err \<noteq> None then Some (err, bb, c) else Some (None, bb\<lparr>bf_wbuf := bf_wbuf bb @ [x]\<rparr>, c)
      })"

definition err_unread :: go_error where "err_unread = ErrorString ''sqlitex.Buffer: UnreadByte: no byte to unread''"

definition Buffer_UnreadByte :: "Buffer \<Rightarrow> error \<times> Buffer" where
  "Buffer_UnreadByte bb =
     (if bf_err bb \<noteq> None then (bf_err bb, bb)
      else if bf_roff bb = 0 then (Some err_unread, bb)
      else (None, bb\<lparr>bf_roff := bf_roff bb - 1\<rparr>))"

text \<open>With pages of no bytes the loop does not end.\<close>

partial_function (option) Buffer_write_loop :: "lib_consts \<Rightarrow> ('w, 'm) blob_lib_scheme \<Rightarrow> nat \<Rightarrow> gostring \<Rightarrow> Buffer \<Rightarrow> 'w Conn \<Rightarrow>
    ((nat \<times> error) \<times> Buffer \<times> 'w Conn) option" where
  "Buffer_write_loop K L n p bb c =
     (if \<not> 0 < length p then Some ((n, None), bb, c)
      else do {
        (err, bb, c) \<leftarrow> wbufEnsureSpace K L bb c;
        if err \<noteq> None then Some ((n, err), bb, c)
        else let rem = bf_cap bb - length (bf_wbuf bb); nn = (if rem < length p then rem else length p)
             in Buffer_write_loop K L (n + nn) (drop nn p) (bb\<lparr>bf_wbuf := bf_wbuf bb @ take nn p\<rparr>) c
      })"

definition Buffer_Write :: "lib_consts \<Rightarrow> ('w, 'm) blob_lib_scheme \<Rightarrow> gostring \<Rightarrow> Buffer \<Rightarrow> 'w Conn \<Rightarrow> ((nat \<times> error) \<times> Buffer \<times> 'w Conn) option" where
  "Buffer_Write K L p bb c = (if bf_err bb \<noteq> None then Some ((0, bf_err bb), bb, c) else Buffer_write_loop K L 0 p bb c)"

definition Buffer_WriteString :: "lib_consts \<Rightarrow> ('w, 'm) blob_lib_scheme \<Rightarrow> gostring \<Rightarrow> Buffer \<Rightarrow> 'w Conn \<Rightarrow> ((nat \<times> error) \<times> Buffer \<times> 'w Conn) option" where
  "Buffer_WriteString K L p bb c = (if bf_err bb \<noteq> None then Some ((0, bf_err bb), bb, c) else Buffer_write_loop K L 0 p bb c)"

text \<open>The slice that is read into is \<open>rbuf\<close> up to its capacity.  What it holds before is overwritten, or after an error never read again; the model
  fills it with zeros.\<close>

definition rbufFill :: "lib_consts \<Rightarrow> ('w, 'm) blob_lib_scheme \<Rightarrow> Buffer \<Rightarrow> 'w Conn \<Rightarrow> (error \<times> Buffer \<times> 'w Conn) option" where
  "rbufFill K L bb c =
     (if bf_roff bb < length (bf_rbuf bb) then Some (None, bb, c)
      else case bf_blobs bb of
        t # blobs \<Rightarrow>
          let bb = bb\<lparr>bf_roff := 0, bf_rbuf := replicate (bf_cap bb) (CHR 0x00), bf_blobs := blobs\<rparr> in
          (case Blob_Seek 0 0 (t_blob t) of ((_, err), b) \<Rightarrow>
             if err \<noteq> None then Some (err, bb\<lparr>bf_err := err\<rparr>, c)
             else do {
               (((_, err), bytes), b, c) \<leftarrow> ReadFull K L [] (bf_rbuf bb) b c;
               let bb = bb\<lparr>bf_rbuf := bytes\<rparr> in
               if err \<noteq> None then Some (err, bb\<lparr>bf_err := err\<rparr>, c)
               else Some (None, bb\<lparr>bf_free := bf_free bb @ [t\<lparr>t_blob := b\<rparr>]\<rparr>, c)
             })
      | [] \<Rightarrow>
          let bb = (if 0 < length (bf_wbuf bb) then bb\<lparr>bf_rbuf := bf_wbuf bb, bf_wbuf := [], bf_roff := 0\<rparr> else bb) in
          Some (if bf_roff bb = length (bf_rbuf bb) then Some io_EOF else None, bb, c))"

definition Buffer_ReadByte :: "lib_consts \<Rightarrow> ('w, 'm) blob_lib_scheme \<Rightarrow> Buffer \<Rightarrow> 'w Conn \<Rightarrow> ((char \<times> error) \<times> Buffer \<times> 'w Conn) option" where
  "Buffer_ReadByte K L bb c =
     (if bf_err bb \<noteq> None then Some ((CHR 0x00, bf_err bb), bb, c)
      else do {
        (err, bb, c) \<leftarrow> rbufFill K L bb c;
        if err \<noteq> None then Some ((CHR 0x00, err), bb, c)
        else if bf_roff bb < length (bf_rbuf bb) then Some ((bf_rbuf bb ! bf_roff bb, None), bb\<lparr>bf_roff := bf_roff bb + 1\<rparr>, c)
        else None
      })"

definition Buffer_Read :: "lib_consts \<Rightarrow> ('w, 'm) blob_lib_scheme \<Rightarrow> gostring \<Rightarrow> Buffer \<Rightarrow> 'w Conn \<Rightarrow> (((nat \<times> error) \<times> gostring) \<times> Buffer \<times> 'w Conn) option" where
  "Buffer_Read K L p bb c =
     (if bf_err bb \<noteq> None then Some (((0, bf_err bb), p), bb, c)
      else do {
        (err, bb, c) \<leftarrow> rbufFill K L bb c;
        if err \<noteq> None then Some (((0, err), p), bb, c)
        else if bf_roff bb = length (bf_rbuf bb) then Some (((0, Some io_EOF), p), bb, c)
        else let n = min (length p) (length (bf_rbuf bb) - bf_roff bb) in
          Some (((n, None), splice p 0 (take n (drop (bf_roff bb) (bf_rbuf bb)))), bb\<lparr>bf_roff := bf_roff bb + n\<rparr>, c)
      })"

definition Buffer_Len :: "Buffer \<Rightarrow> int" where
  "Buffer_Len bb = wrap64 (int (length (bf_rbuf bb)) - int (bf_roff bb) + int (bf_cap bb * length (bf_blobs bb)) + int (length (bf_wbuf bb)))"

definition Buffer_Cap :: "Buffer \<Rightarrow> int" where
  "Buffer_Cap bb = wrap64 ((2 + int (length (bf_blobs bb) + length (bf_free bb))) * int (bf_cap bb))"

definition Buffer_Reset :: "Buffer \<Rightarrow> Buffer" where
  "Buffer_Reset bb = bb\<lparr>bf_rbuf := [], bf_wbuf := [], bf_roff := 0, bf_free := bf_free bb @ bf_blobs bb, bf_blobs := []\<rparr>"

definition Buffer_Close :: "lib_consts \<Rightarrow> ('w, 'm) blob_lib_scheme \<Rightarrow> Buffer \<Rightarrow> 'w Conn \<Rightarrow> (error \<times> Buffer \<times> 'w Conn) option" where
  "Buffer_Close K L bb c =
     (case close_blobs K L (map t_blob (bf_blobs bb @ bf_free bb)) (bf_err bb) c of (err, c) \<Rightarrow> do {
        (s, c) \<leftarrow> prep_stmt K L sql_delete c;
        (err, c) \<leftarrow> delete_rows K L s (map t_rowid (bf_blobs bb @ bf_free bb)) err c;
        Some (err, bb\<lparr>bf_err := err, bf_blobs := [], bf_free := []\<rparr>, c)
      })"

section \<open>The contents\<close>

text \<open>The page that a blob holds, and the bytes of the whole buffer.\<close>

definition page :: "(nat \<Rightarrow> 'w \<Rightarrow> gostring option) \<Rightarrow> 'w \<Rightarrow> nat \<Rightarrow> tblob \<Rightarrow> gostring" where
  "page D w n t = take n (the (D (b_blob (t_blob t)) w))"

definition contents :: "(nat \<Rightarrow> 'w \<Rightarrow> gostring option) \<Rightarrow> 'w \<Rightarrow> Buffer \<Rightarrow> gostring" where
  "contents D w bb = drop (bf_roff bb) (bf_rbuf bb) @ concat (map (page D w (bf_cap bb)) (bf_blobs bb)) @ bf_wbuf bb"

text \<open>The handle of a page: open, and at least as long as a page.\<close>

definition page_ok :: "(nat \<Rightarrow> 'w \<Rightarrow> gostring option) \<Rightarrow> 'w \<Rightarrow> nat \<Rightarrow> tblob \<Rightarrow> bool" where
  "page_ok D w n t \<longleftrightarrow> (\<exists>d. D (b_blob (t_blob t)) w = Some d \<and> blob_over d (t_blob t) \<and> n \<le> length d)"

definition buf_ok :: "(nat \<Rightarrow> 'w \<Rightarrow> gostring option) \<Rightarrow> 'w \<Rightarrow> Buffer \<Rightarrow> bool" where
  "buf_ok D w bb \<longleftrightarrow> bf_err bb = None \<and> 0 < bf_cap bb \<and> bf_roff bb \<le> length (bf_rbuf bb) \<and> length (bf_rbuf bb) \<le> bf_cap bb \<and>
     length (bf_wbuf bb) \<le> bf_cap bb \<and> distinct (map (b_blob \<circ> t_blob) (bf_blobs bb @ bf_free bb)) \<and>
     (\<forall>t \<in> set (bf_blobs bb @ bf_free bb). page_ok D w (bf_cap bb) t)"

text \<open>The bytes of the read buffer that have been read already.\<close>

definition consumed :: "Buffer \<Rightarrow> gostring" where
  "consumed bb = take (bf_roff bb) (bf_rbuf bb)"

section \<open>Lemmas: pages\<close>

lemma page_ok_kept: "kept D w w' \<Longrightarrow> page_ok D w n t \<Longrightarrow> page_ok D w' n t \<and> page D w' n t = page D w n t"
  by (auto simp: page_ok_def page_def kept_def)

lemma length_page: "page_ok D w n t \<Longrightarrow> length (page D w n t) = n"
  by (auto simp: page_ok_def page_def)

lemma pages_kept:
  assumes "kept D w w'" and "\<forall>t \<in> set ts. page_ok D w n t"
  shows "\<forall>t \<in> set ts. page_ok D w' n t" and "map (page D w' n) ts = map (page D w n) ts"
  using assms page_ok_kept [OF assms(1)] by auto

lemma buf_ok_kept:
  assumes "buf_ok D w bb" and "kept D w w'"
  shows "buf_ok D w' bb" and "contents D w' bb = contents D w bb"
proof -
  have ok: "\<forall>t \<in> set (bf_blobs bb @ bf_free bb). page_ok D w (bf_cap bb) t" "\<forall>t \<in> set (bf_blobs bb). page_ok D w (bf_cap bb) t"
    using assms(1) by (simp_all add: buf_ok_def)
  show "buf_ok D w' bb" using assms(1) pages_kept(1) [OF assms(2) ok(1)] by (simp add: buf_ok_def)
  show "contents D w' bb = contents D w bb" unfolding contents_def pages_kept(2) [OF assms(2) ok(2)] ..
qed

text \<open>Writing one page: the others are kept.\<close>

lemma page_write:
  assumes "lib_blob_ok K L D" and "D (b_blob b) (c_world c) = Some d" and "blob_over d b" and "b_off b = 0"
    and "Blob_Write K L p b c = ((n, None), b', c')"
  shows "b_blob b' = b_blob b" and "page_ok D (c_world c') (length p) (t\<lparr>t_blob := b'\<rparr>)" and "page D (c_world c') (length p) (t\<lparr>t_blob := b'\<rparr>) = p"
    and "\<forall>q. q \<noteq> b_blob b \<longrightarrow> D q (c_world c') = D q (c_world c)"
proof -
  from Blob_Write_result [OF assms(1-3,5)] assms(4) obtain d' where r: "b_blob b' = b_blob b" "\<forall>q. q \<noteq> b_blob b \<longrightarrow> D q (c_world c') = D q (c_world c)"
    "D (b_blob b) (c_world c') = Some d'" "blob_over d' b'" "length d' = length d" "length p \<le> length d" "d' = splice d 0 p" by auto
  then show "b_blob b' = b_blob b" "page_ok D (c_world c') (length p) (t\<lparr>t_blob := b'\<rparr>)" "\<forall>q. q \<noteq> b_blob b \<longrightarrow> D q (c_world c') = D q (c_world c)"
    by (auto simp: page_ok_def)
  show "page D (c_world c') (length p) (t\<lparr>t_blob := b'\<rparr>) = p" using r by (simp add: page_def splice_def)
qed

lemma pages_other:
  assumes "\<forall>q. q \<noteq> x \<longrightarrow> D q w' = D q w" and "x \<notin> (b_blob \<circ> t_blob) ` set ts" and "\<forall>t \<in> set ts. page_ok D w n t"
  shows "\<forall>t \<in> set ts. page_ok D w' n t" and "map (page D w' n) ts = map (page D w n) ts"
  using assms by (auto simp: page_ok_def page_def image_iff)

section \<open>Lemmas: writing\<close>

lemma alloc_result:
  assumes "lib_store_ok K L D" and "buf_ok D (c_world c) bb" and "Buffer_alloc K L bb c = Some ((r, err), bb', c')"
  shows "kept D (c_world c) (c_world c') \<and> (r = None \<longrightarrow> err \<noteq> None) \<and> (\<exists>fr. bb' = bb\<lparr>bf_free := fr\<rparr> \<and> set fr \<subseteq> set (bf_free bb) \<and> distinct (map (b_blob \<circ> t_blob) (bf_blobs bb @ fr)) \<and>
    (\<forall>t. r = Some t \<longrightarrow> (\<exists>d. D (b_blob (t_blob t)) (c_world c') = Some d \<and> blob_over d (t_blob t)) \<and>
      b_blob (t_blob t) \<notin> (b_blob \<circ> t_blob) ` set (bf_blobs bb @ fr)))"
proof (cases "bf_free bb = []")
  case False
  then obtain fr t where f: "bf_free bb = fr @ [t]" by (cases "bf_free bb" rule: rev_cases) auto
  have r: "r = Some t" "bb' = bb\<lparr>bf_free := fr\<rparr>" "c' = c" using assms(3) f by (auto simp: Buffer_alloc_def)
  have "page_ok D (c_world c) (bf_cap bb) t" using assms(2) f by (simp add: buf_ok_def)
  then obtain d where "D (b_blob (t_blob t)) (c_world c) = Some d" "blob_over d (t_blob t)" by (auto simp: page_ok_def)
  then show ?thesis using assms(2) r f by (auto simp: buf_ok_def kept_refl)
next
  case True
  obtain ro where i: "insert_blob K L (int (length (bf_rbuf bb))) c = Some ((ro, err), c')"
    and r: "r = map_option (\<lambda>(b, rowid). \<lparr>t_blob = b, t_rowid = rowid\<rparr>) ro" "bb' = bb"
    using assms(3) True by (auto simp: Buffer_alloc_def bind_eq_Some_conv)
  note ins = insert_blob_result [OF assms(1) i]
  have open_pages: "\<exists>d. D (b_blob (t_blob t)) (c_world c) = Some d" if "t \<in> set (bf_blobs bb)" for t
    using assms(2) that by (auto simp: buf_ok_def page_ok_def)
  have new: "(\<exists>d. D (b_blob (t_blob t)) (c_world c') = Some d \<and> blob_over d (t_blob t)) \<and> b_blob (t_blob t) \<notin> (b_blob \<circ> t_blob) ` set (bf_blobs bb)"
    if t: "r = Some t" for t
  proof -
    obtain b rowid where "ro = Some (b, rowid)" "t_blob t = b" using r t by (cases ro) auto
    with ins(2) [OF this(1)] open_pages show ?thesis by force
  qed
  show ?thesis
    using ins(1,3) new r True assms(2) by (intro conjI exI [of _ "[]"]) (auto simp: buf_ok_def)
qed

lemma ensure_result:
  assumes "lib_store_ok K L D" and "buf_ok D (c_world c) bb" and "wbufEnsureSpace K L bb c = Some (None, bb', c')"
  shows "buf_ok D (c_world c') bb' \<and> contents D (c_world c') bb' = contents D (c_world c) bb \<and> length (bf_wbuf bb') < bf_cap bb' \<and> suffix (consumed bb') (consumed bb)"
proof -
  note blob = lib_store_okD(1) [OF assms(1)]
  consider (room) "length (bf_wbuf bb) < bf_cap bb"
    | (swap) "length (bf_wbuf bb) = bf_cap bb" "bf_blobs bb = [] \<and> bf_roff bb = length (bf_rbuf bb)"
    | (flush) "length (bf_wbuf bb) = bf_cap bb" "\<not> (bf_blobs bb = [] \<and> bf_roff bb = length (bf_rbuf bb))"
  proof -
    have "length (bf_wbuf bb) \<le> bf_cap bb" using assms(2) by (simp add: buf_ok_def)
    then show thesis using room swap flush by linarith
  qed
  then show ?thesis
  proof cases
    case room
    then show ?thesis using assms(2,3) by (auto simp: wbufEnsureSpace_def)
  next
    case swap
    then have "bb' = bb\<lparr>bf_rbuf := bf_wbuf bb, bf_wbuf := [], bf_roff := 0\<rparr>" "c' = c" using assms(3) by (auto simp: wbufEnsureSpace_def)
    then show ?thesis using swap assms(2) by (auto simp: buf_ok_def contents_def consumed_def)
  next
    case flush
    then obtain r e bb1 c1 where a1: "Buffer_alloc K L bb c = Some ((r, e), bb1, c1)"
      using assms(3) by (cases "Buffer_alloc K L bb c") (auto simp: wbufEnsureSpace_def)
    have "r \<noteq> None" using alloc_result [OF assms(1,2) a1] assms(3) a1 flush by (cases e) (auto simp: wbufEnsureSpace_def)
    then obtain t where a: "Buffer_alloc K L bb c = Some ((Some t, e), bb1, c1)" using a1 by blast
    obtain o1 e1 b where sk1: "Blob_Seek 0 0 (t_blob t) = ((o1, e1), b)" by (metis surj_pair)
    have sk: "Blob_Seek 0 0 (t_blob t) = ((o1, None), b)"
      using assms(3) a flush sk1 by (cases e1) (auto simp: wbufEnsureSpace_def)
    obtain n e2 b2 c2 where wr1: "Blob_Write K L (bf_wbuf bb1) b c1 = ((n, e2), b2, c2)" by (metis surj_pair)
    have wr: "Blob_Write K L (bf_wbuf bb1) b c1 = ((n, None), b2, c')" and bb': "bb' = bb1\<lparr>bf_blobs := bf_blobs bb1 @ [t\<lparr>t_blob := b2\<rparr>], bf_wbuf := []\<rparr>"
      using assms(3) a flush sk wr1 by (cases e2; auto simp: wbufEnsureSpace_def)+
    from alloc_result [OF assms(1,2) a] obtain fr d where k1: "kept D (c_world c) (c_world c1)" and bb1: "bb1 = bb\<lparr>bf_free := fr\<rparr>"
      and fr: "set fr \<subseteq> set (bf_free bb)" "distinct (map (b_blob \<circ> t_blob) (bf_blobs bb @ fr))"
      and d: "D (b_blob (t_blob t)) (c_world c1) = Some d" "blob_over d (t_blob t)"
      and new: "b_blob (t_blob t) \<notin> (b_blob \<circ> t_blob) ` set (bf_blobs bb @ fr)" by auto
    note sk' = Seek_to [OF d(2) _ _ sk, simplified]
    have Db: "D (b_blob b) (c_world c1) = Some d" using d(1) sk'(3) by simp
    note w = page_write [OF blob Db sk'(2,4) wr]
    have pk: "\<forall>t \<in> set (bf_blobs bb @ fr). page_ok D (c_world c) (bf_cap bb) t" "\<forall>t \<in> set (bf_blobs bb). page_ok D (c_world c) (bf_cap bb) t"
      using assms(2) fr(1) by (auto simp: buf_ok_def)
    note pages = pages_kept(1) [OF k1 pk(1)] pages_kept(2) [OF k1 pk(2)]
    have new': "b_blob b \<notin> (b_blob \<circ> t_blob) ` set (bf_blobs bb @ fr)" using new sk'(3) by simp
    note other = pages_other [OF w(4) new' pages(1)]
    have "map (page D (c_world c') (bf_cap bb)) (bf_blobs bb) = map (page D (c_world c1) (bf_cap bb)) (bf_blobs bb)"
      using other(2) by simp
    then have pg: "map (page D (c_world c') (bf_cap bb)) (bf_blobs bb) = map (page D (c_world c) (bf_cap bb)) (bf_blobs bb)" using pages(2) by simp
    have len: "length (bf_wbuf bb1) = bf_cap bb" using flush(1) by (simp add: bb1)
    have "buf_ok D (c_world c') bb'"
      using assms(2) other(1) w(1,2) fr(2) new' len by (auto simp: buf_ok_def bb' bb1)
    moreover have "contents D (c_world c') bb' = contents D (c_world c) bb"
      using w(3) len by (simp add: contents_def bb' bb1 pg)
    moreover have "length (bf_wbuf bb') < bf_cap bb'" "consumed bb' = consumed bb" using assms(2) by (simp_all add: bb' bb1 buf_ok_def consumed_def)
    ultimately show ?thesis by simp
  qed
qed

lemma append_wbuf:
  assumes "buf_ok D w bb" and "length (bf_wbuf bb) + length p \<le> bf_cap bb"
  shows "buf_ok D w (bb\<lparr>bf_wbuf := bf_wbuf bb @ p\<rparr>)" and "contents D w (bb\<lparr>bf_wbuf := bf_wbuf bb @ p\<rparr>) = contents D w bb @ p"
    and "consumed (bb\<lparr>bf_wbuf := bf_wbuf bb @ p\<rparr>) = consumed bb"
  using assms by (simp_all add: buf_ok_def contents_def consumed_def)

lemma write_loop_result:
  fixes L :: "('w, 'm) blob_lib_scheme"
  assumes "Buffer_write_loop K L n p bb c = Some r"
  shows "lib_store_ok K L D \<longrightarrow> buf_ok D (c_world c) bb \<longrightarrow> snd (fst r) = None \<longrightarrow> buf_ok D (c_world (snd (snd r))) (fst (snd r)) \<and>
    fst (fst r) = n + length p \<and> contents D (c_world (snd (snd r))) (fst (snd r)) = contents D (c_world c) bb @ p \<and> suffix (consumed (fst (snd r))) (consumed bb)"
proof (rule Buffer_write_loop.raw_induct [where P = "\<lambda>K L n p bb c r. lib_store_ok K L D \<longrightarrow> buf_ok D (c_world c) bb \<longrightarrow> snd (fst r) = None \<longrightarrow>
    buf_ok D (c_world (snd (snd r))) (fst (snd r)) \<and> fst (fst r) = n + length p \<and>
    contents D (c_world (snd (snd r))) (fst (snd r)) = contents D (c_world c) bb @ p \<and> suffix (consumed (fst (snd r))) (consumed bb)", OF _ assms], intro impI)
  fix f :: "lib_consts \<Rightarrow> ('w, 'm) blob_lib_scheme \<Rightarrow> nat \<Rightarrow> gostring \<Rightarrow> Buffer \<Rightarrow> 'w Conn \<Rightarrow> ((nat \<times> error) \<times> Buffer \<times> 'w Conn) option"
    and K and L :: "('w, 'm) blob_lib_scheme" and n p bb and c :: "'w Conn" and r
  assume IH: "\<And>K L n p bb c r. f K L n p bb c = Some r \<Longrightarrow> lib_store_ok K L D \<longrightarrow> buf_ok D (c_world c) bb \<longrightarrow> snd (fst r) = None \<longrightarrow>
      buf_ok D (c_world (snd (snd r))) (fst (snd r)) \<and> fst (fst r) = n + length p \<and>
      contents D (c_world (snd (snd r))) (fst (snd r)) = contents D (c_world c) bb @ p \<and> suffix (consumed (fst (snd r))) (consumed bb)"
    and eq: "(if \<not> 0 < length p then Some ((n, None), bb, c)
      else wbufEnsureSpace K L bb c \<bind> (\<lambda>(err, bb, c).
        if err \<noteq> None then Some ((n, err), bb, c)
        else let rem = bf_cap bb - length (bf_wbuf bb); nn = (if rem < length p then rem else length p)
             in f K L (n + nn) (drop nn p) (bb\<lparr>bf_wbuf := bf_wbuf bb @ take nn p\<rparr>) c)) = Some r"
    and ok: "lib_store_ok K L D" and bo: "buf_ok D (c_world c) bb" and none: "snd (fst r) = None"
  show "buf_ok D (c_world (snd (snd r))) (fst (snd r)) \<and> fst (fst r) = n + length p \<and>
      contents D (c_world (snd (snd r))) (fst (snd r)) = contents D (c_world c) bb @ p \<and> suffix (consumed (fst (snd r))) (consumed bb)"
  proof (cases "p = []")
    case True
    then show ?thesis using eq bo by auto
  next
    case False
    obtain e bb1 c1 where en: "wbufEnsureSpace K L bb c = Some (e, bb1, c1)" using eq False by (cases "wbufEnsureSpace K L bb c") auto
    have "e = None" using eq False en none by (cases e) auto
    then have en: "wbufEnsureSpace K L bb c = Some (None, bb1, c1)" using en by simp
    define nn where "nn = min (bf_cap bb1 - length (bf_wbuf bb1)) (length p)"
    define bb2 where "bb2 = bb1\<lparr>bf_wbuf := bf_wbuf bb1 @ take nn p\<rparr>"
    have rest: "f K L (n + nn) (drop nn p) bb2 c1 = Some r"
      using eq False en unfolding bb2_def nn_def min_def by (auto simp: Let_def split: if_splits)
    note e = ensure_result [OF ok bo en]
    have fits: "length (bf_wbuf bb1) + length (take nn p) \<le> bf_cap bb1" using e by (auto simp: nn_def)
    have bb2: "buf_ok D (c_world c1) bb2" "contents D (c_world c1) bb2 = contents D (c_world c) bb @ take nn p" "consumed bb2 = consumed bb1"
      using append_wbuf [of D "c_world c1" bb1 "take nn p"] e fits by (simp_all add: bb2_def)
    from IH [OF rest] ok bb2(1) none have i: "buf_ok D (c_world (snd (snd r))) (fst (snd r))" "fst (fst r) = n + nn + length (drop nn p)"
      "contents D (c_world (snd (snd r))) (fst (snd r)) = contents D (c_world c1) bb2 @ drop nn p" "suffix (consumed (fst (snd r))) (consumed bb2)" by blast+
    have "nn \<le> length p" by (simp add: nn_def)
    then show ?thesis using i bb2 e suffix_order.trans [of "consumed (fst (snd r))" "consumed bb1" "consumed bb"] by simp
  qed
qed

section \<open>Lemmas: reading\<close>

text \<open>Filling the read buffer changes no byte of the contents; at the end of the buffer there is none.\<close>

lemma fill_result:
  assumes "lib_store_ok K L D" and "buf_ok D (c_world c) bb" and "rbufFill K L bb c = Some (err, bb', c')" and "err = None \<or> bf_err bb' = None"
  shows "buf_ok D (c_world c') bb' \<and> contents D (c_world c') bb' = contents D (c_world c) bb \<and> suffix (consumed bb') (consumed bb) \<and>
    (err = None \<longrightarrow> bf_roff bb' < length (bf_rbuf bb')) \<and> (err \<noteq> None \<longrightarrow> contents D (c_world c') bb' = [])"
proof (cases "bf_roff bb < length (bf_rbuf bb)")
  case True
  then show ?thesis using assms by (auto simp: rbufFill_def)
next
  case False
  then have full: "bf_roff bb = length (bf_rbuf bb)" using assms(2) by (simp add: buf_ok_def)
  show ?thesis
  proof (cases "bf_blobs bb")
    case Nil
    then have r: "bb' = (if 0 < length (bf_wbuf bb) then bb\<lparr>bf_rbuf := bf_wbuf bb, bf_wbuf := [], bf_roff := 0\<rparr> else bb)" "c' = c"
      "err = (if bf_roff bb' = length (bf_rbuf bb') then Some io_EOF else None)"
      using False assms(3) by (auto simp: rbufFill_def Let_def)
    show ?thesis
    proof (cases "bf_wbuf bb = []")
      case True
      then show ?thesis using r full Nil assms(2) by (simp add: contents_def)
    next
      case nonempty: False
      then have bb': "bb' = bb\<lparr>bf_rbuf := bf_wbuf bb, bf_wbuf := [], bf_roff := 0\<rparr>" using r by simp
      show ?thesis using r(2,3) nonempty full Nil assms(2) unfolding bb' by (simp add: contents_def consumed_def buf_ok_def)
    qed
  next
    case (Cons t ts)
    have pt: "page_ok D (c_world c) (bf_cap bb) t" using assms(2) Cons by (simp add: buf_ok_def)
    then obtain d where d: "D (b_blob (t_blob t)) (c_world c) = Some d" "blob_over d (t_blob t)" "bf_cap bb \<le> length d" by (auto simp: page_ok_def)
    obtain o1 e1 b where sk: "Blob_Seek 0 0 (t_blob t) = ((o1, e1), b)" by (metis surj_pair)
    note s = Seek_to [OF d(2) _ _ sk, simplified]
    have Db: "D (b_blob b) (c_world c) = Some d" using d(1) s(3) by simp
    from ReadFull_result [OF lib_store_okD(1) [OF assms(1)] Db s(2), of "replicate (bf_cap bb) (CHR 0x00)"]
    obtain n e2 bytes b2 c2 where rf: "ReadFull K L [] (replicate (bf_cap bb) (CHR 0x00)) b c = Some (((n, e2), bytes), b2, c2)"
      and r: "\<forall>q. D q (c_world c2) = D q (c_world c)" "b_blob b2 = b_blob b" "blob_over d b2" "e2 = None \<longrightarrow> bytes = take (bf_cap bb) d"
      using s(4) by auto
    let ?bb = "bb\<lparr>bf_roff := 0, bf_rbuf := bytes, bf_blobs := ts\<rparr>"
    have fill: "err = e2 \<and> c' = c2 \<and> bb' = (if e2 \<noteq> None then ?bb\<lparr>bf_err := e2\<rparr> else ?bb\<lparr>bf_free := bf_free bb @ [t\<lparr>t_blob := b2\<rparr>]\<rparr>)"
      using assms(3) False Cons sk s(1) rf by (auto simp: rbufFill_def Let_def split: if_splits)
    then have "e2 = None" using assms(4) by (cases e2) auto
    then have bb': "bb' = ?bb\<lparr>bf_free := bf_free bb @ [t\<lparr>t_blob := b2\<rparr>]\<rparr>" "err = None" "c' = c2" and bytes: "bytes = take (bf_cap bb) d"
      using fill r(4) by auto
    have pages: "page_ok D (c_world c') n u = page_ok D (c_world c) n u" "page D (c_world c') n u = page D (c_world c) n u" for n u
      using r(1) by (simp_all add: page_ok_def page_def bb'(3))
    have "page_ok D (c_world c') (bf_cap bb) (t\<lparr>t_blob := b2\<rparr>)" using r d Db s(3) by (simp add: page_ok_def bb'(3))
    moreover have "b_blob b2 = b_blob (t_blob t)" using r(2) s(3) by simp
    ultimately have "buf_ok D (c_world c') bb'"
      using assms(2) Cons d(3) bytes unfolding buf_ok_def bb'(1) by (simp add: pages)
    moreover have "contents D (c_world c') bb' = contents D (c_world c) bb"
    proof -
      have "map (page D (c_world c') (bf_cap bb)) ts = map (page D (c_world c) (bf_cap bb)) ts" by (simp add: pages(2))
      moreover have "page D (c_world c) (bf_cap bb) t = bytes" using d(1) bytes by (simp add: page_def)
      ultimately show ?thesis using full Cons unfolding contents_def bb'(1) by (simp del: map_eq_conv)
    qed
    moreover have "bf_roff bb' < length (bf_rbuf bb')" "consumed bb' = []"
      using assms(2) d(3) bytes unfolding bb'(1) by (simp_all add: buf_ok_def consumed_def)
    ultimately show ?thesis using bb'(2) by simp
  qed
qed

section \<open>Runs\<close>

text \<open>Operations without failure on a buffer: \<open>ins\<close> are the bytes written so far, \<open>outs\<close> those read.  \<open>io.EOF\<close> is not a failure.\<close>

inductive buf_run :: "lib_consts \<Rightarrow> ('w, 'm) blob_lib_scheme \<Rightarrow> gostring \<Rightarrow> gostring \<Rightarrow> Buffer \<Rightarrow> 'w Conn \<Rightarrow> bool" for K L where
  new: "NewBufferSize K L n c = Some ((Some bb, err), c') \<Longrightarrow> 0 < n \<Longrightarrow> buf_run K L [] [] bb c'"
| wrote: "buf_run K L ins outs bb c \<Longrightarrow> Buffer_Write K L p bb c = Some ((n, None), bb', c') \<Longrightarrow> buf_run K L (ins @ p) outs bb' c'"
| write_string: "buf_run K L ins outs bb c \<Longrightarrow> Buffer_WriteString K L p bb c = Some ((n, None), bb', c') \<Longrightarrow> buf_run K L (ins @ p) outs bb' c'"
| write_byte: "buf_run K L ins outs bb c \<Longrightarrow> Buffer_WriteByte K L x bb c = Some (None, bb', c') \<Longrightarrow> buf_run K L (ins @ [x]) outs bb' c'"
| read: "buf_run K L ins outs bb c \<Longrightarrow> Buffer_Read K L p bb c = Some (((n, None), p'), bb', c') \<Longrightarrow> buf_run K L ins (outs @ take n p') bb' c'"
| read_byte: "buf_run K L ins outs bb c \<Longrightarrow> Buffer_ReadByte K L bb c = Some ((x, None), bb', c') \<Longrightarrow> buf_run K L ins (outs @ [x]) bb' c'"
| read_eof: "buf_run K L ins outs bb c \<Longrightarrow> Buffer_Read K L p bb c = Some (((n, Some io_EOF), p'), bb', c') \<Longrightarrow> bf_err bb' = None \<Longrightarrow> buf_run K L ins outs bb' c'"
| read_byte_eof: "buf_run K L ins outs bb c \<Longrightarrow> Buffer_ReadByte K L bb c = Some ((x, Some io_EOF), bb', c') \<Longrightarrow> bf_err bb' = None \<Longrightarrow> buf_run K L ins outs bb' c'"
| unread: "buf_run K L ins outs bb c \<Longrightarrow> Buffer_UnreadByte bb = (None, bb') \<Longrightarrow> buf_run K L ins (butlast outs) bb' c"
| reset: "buf_run K L ins outs bb c \<Longrightarrow> buf_run K L [] [] (Buffer_Reset bb) c"

text \<open>What all states of a run satisfy.\<close>

definition run_inv :: "(nat \<Rightarrow> 'w \<Rightarrow> gostring option) \<Rightarrow> gostring \<Rightarrow> gostring \<Rightarrow> Buffer \<Rightarrow> 'w \<Rightarrow> bool" where
  "run_inv D ins outs bb w \<longleftrightarrow> buf_ok D w bb \<and> ins = outs @ contents D w bb \<and> suffix (consumed bb) outs"

lemma run_write:
  assumes "lib_store_ok K L D" and "run_inv D ins outs bb (c_world c)" and "Buffer_write_loop K L 0 p bb c = Some ((n, None), bb', c')"
  shows "run_inv D (ins @ p) outs bb' (c_world c')"
  using write_loop_result [OF assms(3), of D] assms(1,2) suffix_order.trans unfolding run_inv_def by auto

text \<open>Taking \<open>n\<close> bytes out of the filled read buffer.\<close>

lemma run_take:
  assumes "run_inv D ins outs bb w" and "bf_roff bb + n \<le> length (bf_rbuf bb)"
  shows "run_inv D ins (outs @ take n (drop (bf_roff bb) (bf_rbuf bb))) (bb\<lparr>bf_roff := bf_roff bb + n\<rparr>) w"
proof -
  have "consumed (bb\<lparr>bf_roff := bf_roff bb + n\<rparr>) = consumed bb @ take n (drop (bf_roff bb) (bf_rbuf bb))"
    by (simp add: consumed_def take_add)
  moreover have "drop (bf_roff bb) (bf_rbuf bb) = take n (drop (bf_roff bb) (bf_rbuf bb)) @ drop (bf_roff bb + n) (bf_rbuf bb)"
    by (metis append_take_drop_id drop_drop add.commute)
  ultimately show ?thesis using assms by (auto simp: run_inv_def buf_ok_def contents_def suffix_def)
qed

lemma run_fill:
  assumes "lib_store_ok K L D" and "run_inv D ins outs bb (c_world c)" and "rbufFill K L bb c = Some (err, bb', c')" and "err = None \<or> bf_err bb' = None"
  shows "run_inv D ins outs bb' (c_world c')" and "err = None \<Longrightarrow> bf_roff bb' < length (bf_rbuf bb')" and "err \<noteq> None \<Longrightarrow> ins = outs"
  using fill_result [OF assms(1) _ assms(3,4)] assms(2) suffix_order.trans unfolding run_inv_def by auto

lemma run_read:
  assumes "lib_store_ok K L D" and "run_inv D ins outs bb (c_world c)" and "Buffer_Read K L p bb c = Some (((n, None), p'), bb', c')"
  shows "run_inv D ins (outs @ take n p') bb' (c_world c')"
proof -
  have "bf_err bb = None" using assms(2) by (simp add: run_inv_def buf_ok_def)
  then obtain e bb1 c1 where f: "rbufFill K L bb c = Some (e, bb1, c1)" using assms(3) by (cases "rbufFill K L bb c") (auto simp: Buffer_Read_def)
  have e: "e = None" using assms(3) f \<open>bf_err bb = None\<close> by (cases e) (auto simp: Buffer_Read_def)
  note r = run_fill [OF assms(1,2) f]
  define k where "k = min (length p) (length (bf_rbuf bb1) - bf_roff bb1)"
  have eq: "n = k" "p' = splice p 0 (take k (drop (bf_roff bb1) (bf_rbuf bb1)))" "bb' = bb1\<lparr>bf_roff := bf_roff bb1 + k\<rparr>" "c' = c1"
    using assms(3) f e \<open>bf_err bb = None\<close> by (auto simp: Buffer_Read_def Let_def k_def split: if_splits)
  have fits: "bf_roff bb1 + k \<le> length (bf_rbuf bb1)" using r(2) e by (simp add: k_def)
  then have "take n p' = take k (drop (bf_roff bb1) (bf_rbuf bb1))" using eq by (simp add: splice_def)
  then show ?thesis using run_take [OF r(1) fits] e eq by simp
qed

lemma run_read_byte:
  assumes "lib_store_ok K L D" and "run_inv D ins outs bb (c_world c)" and "Buffer_ReadByte K L bb c = Some ((x, None), bb', c')"
  shows "run_inv D ins (outs @ [x]) bb' (c_world c')"
proof -
  have "bf_err bb = None" using assms(2) by (simp add: run_inv_def buf_ok_def)
  then obtain e bb1 c1 where f: "rbufFill K L bb c = Some (e, bb1, c1)" using assms(3) by (cases "rbufFill K L bb c") (auto simp: Buffer_ReadByte_def)
  have e: "e = None" using assms(3) f \<open>bf_err bb = None\<close> by (cases e) (auto simp: Buffer_ReadByte_def)
  note r = run_fill [OF assms(1,2) f]
  have lt: "bf_roff bb1 < length (bf_rbuf bb1)" using r(2) e by simp
  have eq: "x = bf_rbuf bb1 ! bf_roff bb1" "bb' = bb1\<lparr>bf_roff := bf_roff bb1 + 1\<rparr>" "c' = c1"
    using assms(3) f e lt \<open>bf_err bb = None\<close> by (auto simp: Buffer_ReadByte_def)
  have "take 1 (drop (bf_roff bb1) (bf_rbuf bb1)) = [x]" using lt by (simp add: eq(1) take_Suc hd_drop_conv_nth)
  then show ?thesis using run_take [OF r(1), of 1] e lt eq by simp
qed

lemma run_eof:
  assumes "lib_store_ok K L D" and "run_inv D ins outs bb (c_world c)" and "bf_err bb' = None"
  shows "Buffer_Read K L p bb c = Some (((n, Some io_EOF), p'), bb', c') \<Longrightarrow> run_inv D ins outs bb' (c_world c') \<and> ins = outs"
    and "Buffer_ReadByte K L bb c = Some ((x, Some io_EOF), bb', c') \<Longrightarrow> run_inv D ins outs bb' (c_world c') \<and> ins = outs"
proof -
  have ne: "bf_err bb = None" using assms(2) by (simp add: run_inv_def buf_ok_def)
  have fill: "run_inv D ins outs bb' (c_world c') \<and> ins = outs" if "rbufFill K L bb c = Some (Some e, bb', c')" for e
    using run_fill [OF assms(1,2) that] assms(3) by simp
  have no_eof: "bf_roff bb1 \<noteq> length (bf_rbuf bb1)" if "rbufFill K L bb c = Some (None, bb1, c1)" for bb1 c1
    using run_fill(2) [OF assms(1,2) that] by simp
  show "run_inv D ins outs bb' (c_world c') \<and> ins = outs" if r: "Buffer_Read K L p bb c = Some (((n, Some io_EOF), p'), bb', c')"
  proof -
    obtain e bb1 c1 where f: "rbufFill K L bb c = Some (e, bb1, c1)" using r ne by (cases "rbufFill K L bb c") (auto simp: Buffer_Read_def)
    then show ?thesis using r ne no_eof fill by (cases e) (auto simp: Buffer_Read_def Let_def split: if_splits)
  qed
  show "run_inv D ins outs bb' (c_world c') \<and> ins = outs" if r: "Buffer_ReadByte K L bb c = Some ((x, Some io_EOF), bb', c')"
  proof -
    obtain e bb1 c1 where f: "rbufFill K L bb c = Some (e, bb1, c1)" using r ne by (cases "rbufFill K L bb c") (auto simp: Buffer_ReadByte_def)
    then show ?thesis using r ne fill by (cases e) (auto simp: Buffer_ReadByte_def split: if_splits)
  qed
qed

lemma buf_run_inv:
  assumes "lib_store_ok K L D" and "buf_run K L ins outs bb c"
  shows "run_inv D ins outs bb (c_world c)"
  using assms(2)
proof (induction rule: buf_run.induct)
  case (new n c bb err c')
  then obtain e c1 where "create_table K L c = Some (e, c1)" by (cases "create_table K L c") (auto simp: NewBufferSize_def split: if_splits)
  then have "bb = \<lparr>bf_err = None, bf_cap = nat n, bf_rbuf = [], bf_roff = 0, bf_blobs = [], bf_wbuf = [], bf_free = []\<rparr>"
    using new by (simp add: NewBufferSize_def split: if_splits)
  then show ?case using new by (simp add: run_inv_def buf_ok_def contents_def consumed_def)
next
  case (wrote ins outs bb c p n bb' c')
  then have "bf_err bb = None" by (simp add: run_inv_def buf_ok_def)
  then show ?case using wrote.hyps(2) by (intro run_write [OF assms(1) wrote.IH]) (simp add: Buffer_Write_def)
next
  case (write_string ins outs bb c p n bb' c')
  then have "bf_err bb = None" by (simp add: run_inv_def buf_ok_def)
  then show ?case using write_string.hyps(2) by (intro run_write [OF assms(1) write_string.IH]) (simp add: Buffer_WriteString_def)
next
  case (write_byte ins outs bb c x bb' c')
  have "bf_err bb = None" using write_byte.IH by (simp add: run_inv_def buf_ok_def)
  then obtain e bb1 where f: "wbufEnsureSpace K L bb c = Some (e, bb1, c')" and e: "e = None" "bb' = bb1\<lparr>bf_wbuf := bf_wbuf bb1 @ [x]\<rparr>"
    using write_byte.hyps(2) by (auto simp: Buffer_WriteByte_def bind_eq_Some_conv split: if_splits)
  have ok: "buf_ok D (c_world c) bb" using write_byte.IH by (simp add: run_inv_def)
  note r = ensure_result [OF assms(1) ok f [unfolded e(1)]]
  show ?case
    using write_byte.IH r append_wbuf [of D "c_world c'" bb1 "[x]"] suffix_order.trans by (auto simp: run_inv_def e(2))
next
  case (read ins outs bb c p n p' bb' c')
  then show ?case using run_read [OF assms(1)] by blast
next
  case (read_byte ins outs bb c x bb' c')
  then show ?case using run_read_byte [OF assms(1)] by blast
next
  case (read_eof ins outs bb c p n p' bb' c')
  then show ?case using run_eof(1) [OF assms(1)] by blast
next
  case (read_byte_eof ins outs bb c x bb' c')
  then show ?case using run_eof(2) [OF assms(1)] by blast
next
  case (unread ins outs bb c bb')
  have bb': "bb' = bb\<lparr>bf_roff := bf_roff bb - 1\<rparr>" "0 < bf_roff bb" using unread.hyps(2) by (auto simp: Buffer_UnreadByte_def split: if_splits)
  have ok: "bf_roff bb \<le> length (bf_rbuf bb)" using unread.IH by (simp add: run_inv_def buf_ok_def)
  define x where "x = bf_rbuf bb ! (bf_roff bb - 1)"
  have "take (bf_roff bb) (bf_rbuf bb) = take (bf_roff bb - 1) (bf_rbuf bb) @ [x]" using bb'(2) ok take_Suc_conv_app_nth [of "bf_roff bb - 1" "bf_rbuf bb"] by (simp add: x_def)
  then have c: "consumed bb = consumed bb' @ [x]" by (simp add: consumed_def bb')
  have d: "drop (bf_roff bb - 1) (bf_rbuf bb) = x # drop (bf_roff bb) (bf_rbuf bb)" using bb'(2) ok Cons_nth_drop_Suc [of "bf_roff bb - 1" "bf_rbuf bb"] by (simp add: x_def)
  obtain pre where "outs = pre @ consumed bb" using unread.IH by (auto simp: run_inv_def suffix_def)
  then have o: "outs = pre @ consumed bb' @ [x]" using c by simp
  then have b: "butlast outs = pre @ consumed bb'" by (simp add: butlast_append)
  have "buf_ok D (c_world c) bb'" "contents D (c_world c) bb' = x # contents D (c_world c) bb" "ins = outs @ contents D (c_world c) bb"
    using unread.IH ok d by (simp_all add: run_inv_def buf_ok_def contents_def bb'(1))
  then show ?case using b o by (simp add: run_inv_def suffix_def)
next
  case (reset ins outs bb c)
  then show ?case by (auto simp: run_inv_def buf_ok_def contents_def consumed_def Buffer_Reset_def)
qed

lemma length_contents:
  assumes "buf_ok D w bb"
  shows "int (length (contents D w bb)) = int (length (bf_rbuf bb)) - int (bf_roff bb) + int (bf_cap bb * length (bf_blobs bb)) + int (length (bf_wbuf bb))"
proof -
  have "length (concat (map (page D w (bf_cap bb)) ts)) = bf_cap bb * length ts" if "\<forall>t \<in> set ts. page_ok D w (bf_cap bb) t" for ts
    using that by (induction ts) (auto simp: length_page)
  from this [of "bf_blobs bb"] assms show ?thesis by (simp add: contents_def buf_ok_def)
qed

section \<open>Properties\<close>

text \<open>C3: a buffer is a queue of bytes.  After any sequence of operations that succeeded, whatever the page size and however the writes and reads were
  cut, the bytes read followed by the contents are the bytes written, in order; \<open>Len\<close> is the number of bytes that are left, and \<open>io.EOF\<close> says
  that everything written has been read.\<close>

theorem Buffer_fifo:
  assumes "lib_store_ok K L D" and "buf_run K L ins outs bb c"
  shows "ins = outs @ contents D (c_world c) bb \<and> (length ins < 2 ^ 63 \<longrightarrow> Buffer_Len bb = int (length ins - length outs)) \<and>
    (\<forall>x bb' c'. Buffer_ReadByte K L bb c = Some ((x, Some io_EOF), bb', c') \<and> bf_err bb' = None \<longrightarrow> ins = outs)"
proof -
  have inv: "run_inv D ins outs bb (c_world c)" using buf_run_inv [OF assms] .
  then have i: "ins = outs @ contents D (c_world c) bb" and "buf_ok D (c_world c) bb" by (simp_all add: run_inv_def)
  then have "Buffer_Len bb = int (length ins - length outs)" if "length ins < 2 ^ 63"
    using length_contents [of D "c_world c" bb] that by (simp add: Buffer_Len_def in_int64_def)
  then show ?thesis using i run_eof(2) [OF assms(1) inv] by blast
qed

section \<open>Witnesses\<close>

text \<open>A small database with just the table: every statement succeeds; the size bound last is that of the next blob.\<close>

record store =
  sw_next :: nat
  sw_zero :: nat
  sw_data :: "nat \<Rightarrow> gostring"

definition store_view :: "nat \<Rightarrow> store \<Rightarrow> gostring option" where
  "store_view p w = (if 0 < p \<and> p \<le> sw_next w then Some (sw_data w p) else None)"

definition store_bind :: "nat \<Rightarrow> int \<Rightarrow> bind_arg \<Rightarrow> store \<Rightarrow> int \<times> store" where
  "store_bind p i a w = (0, case a of B_zeroblob n \<Rightarrow> w\<lparr>sw_zero := min (unat n) 1000\<rparr> | _ \<Rightarrow> w)"

definition store_open :: "store \<Rightarrow> (int \<times> nat) \<times> store" where
  "store_open w = (let p = Suc (sw_next w) in ((0, p), w\<lparr>sw_next := p, sw_data := (sw_data w)(p := replicate (min (sw_zero w) 1000) (CHR 0x00))\<rparr>))"

definition store_read :: "nat \<Rightarrow> nat \<Rightarrow> int \<Rightarrow> store \<Rightarrow> (int \<times> gostring) \<times> store" where
  "store_read p n off w = (if off < 0 \<or> length (sw_data w p) < nat off + n then ((1, []), w) else ((0, take n (drop (nat off) (sw_data w p))), w))"

definition store_write :: "nat \<Rightarrow> gostring \<Rightarrow> int \<Rightarrow> store \<Rightarrow> int \<times> store" where
  "store_write p data off w = (if off < 0 \<or> length (sw_data w p) < nat off + length data then (1, w)
     else (0, w\<lparr>sw_data := (sw_data w)(p := splice (sw_data w p) (nat off) data)\<rparr>))"

definition store_lib :: "store blob_lib" where
  "store_lib = sqlite_lib.extend
     (null_lib\<lparr>x_prepare_v3 := (\<lambda>q f w. ((0, 1, length q), w)), x_bind := store_bind, x_bind_parameter_count := (\<lambda>p w. 1),
        x_bind_parameter_name := (\<lambda>p i w. Some ''$blob'')\<rparr>)
     \<lparr>x_blob_open = (\<lambda>dbn tbl col row wr w. store_open w), x_blob_bytes = (\<lambda>p w. int (length (sw_data w p))), x_blob_read = store_read,
       x_blob_write = store_write, x_blob_close = (\<lambda>p w. (0, w)), x_last_insert_rowid = (\<lambda>w. 1)\<rparr>"

lemma store_lib_sel [simp]:
  "x_prepare_v3 store_lib q f w = ((0, 1, length q), w)" "x_bind store_lib = store_bind" "x_bind_parameter_count store_lib p w = 1"
  "x_bind_parameter_name store_lib p i w = Some ''$blob''" "x_blob_open store_lib dbn tbl col row wr w = store_open w"
  "x_blob_bytes store_lib p w = int (length (sw_data w p))" "x_blob_read store_lib = store_read" "x_blob_write store_lib = store_write"
  "x_step store_lib p w = (101, w)" "x_reset store_lib p w = (0, w)" "x_finalize store_lib p w = (0, w)" "x_clear_bindings store_lib p w = (0, w)"
  "x_malloc store_lib n w = (True, w)" "x_cstring store_lib q w = (None, w)" "x_unlock_notify store_lib w = (0, False, w)" "un_block store_lib w = Some w"
  "x_done store_lib ch w = (False, w)" "x_last_insert_rowid store_lib w = 1" "x_column_count store_lib p w = 0"
  by (simp_all add: store_lib_def sqlite_lib.defs null_lib_def)

lemma store_ok: "lib_store_ok demo_K store_lib store_view"
proof -
  have "lib_blob_ok demo_K store_lib store_view"
    unfolding lib_blob_ok_def by (auto simp: store_view_def store_read_def store_write_def IsSuccess_def)
  moreover have "calls_keep store_lib store_view"
    unfolding calls_keep_def kept_def by (auto simp: store_view_def store_bind_def store_open_def Let_def split: bind_arg.splits if_splits)
  ultimately show ?thesis unfolding lib_store_ok_def by (auto simp: store_view_def store_open_def Let_def)
qed

definition store_conn :: "store Conn" where
  "store_conn = \<lparr>c_stmts = [], c_closed = False, c_cancelCh = False, c_doneCh = None, c_note = allocUnlockNote, c_heap = (\<lambda>_. demo_Stmt), c_next = 0,
     c_registered = True, c_busyHandler = True, c_authorizer = False, c_world = \<lparr>sw_next = 0, sw_zero = 0, sw_data = (\<lambda>_. [])\<rparr>\<rparr>"

text \<open>Preparing and running a statement there.\<close>

definition store_Stmt :: "gostring \<Rightarrow> Stmt" where
  "store_Stmt q = \<lparr>s_conn = True, s_ptr = 1, s_query = q, s_bindNames = [''$blob''], s_colNames = [], s_bindErr = None, s_prepInterrupt = False,
     s_lastHasRow = False\<rparr>"

lemma store_prep:
  assumes "c_doneCh c = None" and "map_of (c_stmts c) q = None"
  shows "prep_stmt demo_K store_lib q c = Some (c_next c, c\<lparr>c_heap := (c_heap c)(c_next c := store_Stmt q), c_next := Suc (c_next c),
    c_stmts := map_insert q (c_next c) (c_stmts c)\<rparr>)"
  using assms
  by (simp add: prep_stmt_def Prep_def Prepare_def conn_prepare_def Conn_interrupted_def lib_call_eq conn_extreserr_def extreserr_def IsSuccess_def Let_def
      alloc_Stmt_def new_Stmt_def bind_names_def col_names_def store_Stmt_def)

lemma store_step:
  assumes "c_doneCh c = None" and "stmt_at c s = store_Stmt q"
  shows "Step demo_K store_lib s c = Some ((False, None), c)"
proof -
  have "step_loop demo_K store_lib s c = Some ((False, None), c)"
    using assms by (subst step_loop.simps) (simp add: Stmt_interrupted_def Conn_interrupted_def store_Stmt_def lib_call_eq)
  then show ?thesis using assms by (simp add: Step_def store_Stmt_def upd_stmt_def fun_upd_idem)
qed

definition store_created :: "store Conn" where
  "store_created = store_conn\<lparr>c_heap := (c_heap store_conn)(0 := store_Stmt sql_create), c_next := 1, c_stmts := [(sql_create, 0)]\<rparr>"

lemma store_create: "create_table demo_K store_lib store_conn = Some (None, store_created)"
  by (simp add: create_table_def store_prep store_step [where q = sql_create] store_conn_def store_created_def map_insert_def map_delete_def)

definition small_buffer :: "nat \<Rightarrow> Buffer" where
  "small_buffer n = \<lparr>bf_err = None, bf_cap = n, bf_rbuf = [], bf_roff = 0, bf_blobs = [], bf_wbuf = [], bf_free = []\<rparr>"

lemma store_new: "0 \<le> n \<Longrightarrow> NewBufferSize demo_K store_lib n store_conn = Some ((Some (small_buffer (nat n)), None), store_created)"
  by (simp add: NewBufferSize_def store_create small_buffer_def)

text \<open>Three bytes written into a buffer of pages of two bytes, and one read: the first page has moved to the front.\<close>

lemma store_run:
  "buf_run demo_K store_lib ''abc'' ''a'' ((small_buffer 2)\<lparr>bf_rbuf := ''ab'', bf_roff := 1, bf_wbuf := ''c''\<rparr>) store_created"
proof -
  let ?b = "(small_buffer 2)\<lparr>bf_rbuf := ''ab'', bf_wbuf := ''c''\<rparr>"
  have 0: "buf_run demo_K store_lib [] [] (small_buffer 2) store_created" using buf_run.new [OF store_new [of 2]] by simp
  have "Buffer_Write demo_K store_lib ''abc'' (small_buffer 2) store_created = Some ((3, None), ?b, store_created)"
    by (simp add: Buffer_Write_def small_buffer_def Buffer_write_loop.simps wbufEnsureSpace_def Let_def)
  from buf_run.wrote [OF 0 this] have 1: "buf_run demo_K store_lib ''abc'' [] ?b store_created" by simp
  have "Buffer_ReadByte demo_K store_lib ?b store_created = Some ((CHR ''a'', None), ?b\<lparr>bf_roff := 1\<rparr>, store_created)"
    by (simp add: Buffer_ReadByte_def rbufFill_def small_buffer_def)
  from buf_run.read_byte [OF 1 this] show ?thesis by (simp add: small_buffer_def)
qed

theorem Buffer_fifo_witness:
  "\<exists>bb c. buf_run demo_K store_lib ''abc'' ''a'' bb c \<and> contents store_view (c_world c) bb = ''bc'' \<and> Buffer_Len bb = 2"
  using store_run Buffer_fifo [OF store_ok store_run] by (intro exI conjI) auto

section \<open>A short page\<close>

text \<open>The blob that \<open>alloc\<close> makes has the length of the read buffer.  After two bytes were written to a buffer of pages of four bytes and one was read, the read
  buffer holds two bytes, and the next write that fills a page fails.\<close>

lemma store_insert:
  "\<exists>c'. insert_blob demo_K store_lib 2 store_created = Some ((Some (\<lparr>b_blob = 1, b_buf = replicate blobBufSize (CHR 0x00), b_off = 0, b_size = 2\<rparr>, 1), None), c') \<and>
     c_doneCh c' = None \<and> length (sw_data (c_world c') 1) = 2"
proof -
  have ne: "sql_insert \<noteq> sql_create" by (simp add: sql_insert_def sql_create_def)
  let ?c1 = "store_created\<lparr>c_heap := (c_heap store_created)(1 := store_Stmt sql_insert), c_next := 2, c_stmts := map_insert sql_insert 1 (c_stmts store_created)\<rparr>"
  have p: "prep_stmt demo_K store_lib sql_insert store_created = Some (1, ?c1)"
    using ne by (subst store_prep) (simp_all add: store_created_def store_conn_def numeral_2_eq_2)
  let ?c2 = "?c1\<lparr>c_world := (c_world ?c1)\<lparr>sw_zero := 2\<rparr>\<rparr>"
  have z: "SetZeroBlob demo_K store_lib 1 ''$blob'' 2 ?c1 = Some ?c2"
    by (simp add: SetZeroBlob_def findBindName_def store_Stmt_def BindZeroBlob_def bind_call_def lib_call_eq store_bind_def handleBindErr_def IsSuccess_def)
  have st: "Step demo_K store_lib 1 ?c2 = Some ((False, None), ?c2)"
    by (rule store_step [where q = sql_insert]) (simp_all add: store_created_def store_conn_def)
  have w: "sw_next (c_world store_created) = 0" by (simp add: store_created_def store_conn_def)
  have d: "c_doneCh store_created = None" by (simp add: store_created_def store_conn_def)
  have "\<exists>c'. openBlob demo_K store_lib ''temp'' ''BlobBuffer'' ''blob'' 1 True ?c2 =
      Some ((Some \<lparr>b_blob = 1, b_buf = replicate blobBufSize (CHR 0x00), b_off = 0, b_size = 2\<rparr>, None), c') \<and> c_doneCh c' = None \<and> length (sw_data (c_world c') 1) = 2"
    using w d by (simp add: openBlob_def cDBName_def x_alloc_def lib_call_eq openBlob_loop.simps Conn_interrupted_def store_open_def Let_def)
  then show ?thesis using p z st by (fastforce simp: insert_blob_def LastInsertRowID_def)
qed

lemma Buffer_short_page_fails:
  "\<exists>e bb c. Buffer_Write demo_K store_lib ''cdefg'' ((small_buffer 4)\<lparr>bf_rbuf := ''ab'', bf_roff := 1\<rparr>) store_created = Some ((4, Some e), bb, c) \<and> bf_err bb = Some e"
proof -
  let ?b = "(small_buffer 4)\<lparr>bf_rbuf := ''ab'', bf_roff := 1, bf_wbuf := ''cdef''\<rparr>"
  let ?h = "\<lparr>b_blob = 1, b_buf = replicate blobBufSize (CHR 0x00), b_off = 0, b_size = 2\<rparr>"
  obtain c' where i: "insert_blob demo_K store_lib 2 store_created = Some ((Some (?h, 1), None), c')" and d: "c_doneCh c' = None" "length (sw_data (c_world c') 1) = 2"
    using store_insert by blast
  have a: "Buffer_alloc demo_K store_lib ?b store_created = Some ((Some \<lparr>t_blob = ?h, t_rowid = 1\<rparr>, None), ?b, c')"
    using i by (simp add: Buffer_alloc_def small_buffer_def)
  have "\<exists>e b c2. Blob_Write demo_K store_lib ''cdef'' ?h c' = ((0, Some e), b, c2)"
    using d by (subst Blob_Write_def) (simp add: Conn_interrupted_def blob_write_loop.simps Let_def lib_call_eq store_write_def blobBufSize_def splice_def
        ToError_def IsSuccess_def wrap_error_def)
  then obtain e b c2 where w: "Blob_Write demo_K store_lib ''cdef'' ?h c' = ((0, Some e), b, c2)" by blast
  have "wbufEnsureSpace demo_K store_lib ?b store_created = Some (Some e, ?b\<lparr>bf_err := Some e\<rparr>, c2)"
    using a w by (simp add: wbufEnsureSpace_def small_buffer_def Blob_Seek_def in_int32_def)
  then have "Buffer_write_loop demo_K store_lib 4 ''g'' ?b store_created = Some ((4, Some e), ?b\<lparr>bf_err := Some e\<rparr>, c2)"
    by (subst Buffer_write_loop.simps) simp
  moreover have "Buffer_Write demo_K store_lib ''cdefg'' ((small_buffer 4)\<lparr>bf_rbuf := ''ab'', bf_roff := 1\<rparr>) store_created =
      Buffer_write_loop demo_K store_lib 4 ''g'' ?b store_created"
    by (simp add: Buffer_Write_def small_buffer_def Buffer_write_loop.simps [of _ _ 0] wbufEnsureSpace_def Let_def)
  ultimately show ?thesis by auto
qed

end
