(* ===== verification/TempFile.thy ===== *)
theory TempFile
  imports Buffer
begin

text \<open>
  Files of temporary BLOBs (sqlitefile/file.go): a sequence of BLOBs, each twice as long as the one before, with a position for reading and writing and
  the position of the end.  The contents are the bytes of the BLOBs one after the other, up to the end.
\<close>

section \<open>State\<close>

record bbpos =
  bp_index :: nat
  bp_pos :: int

record File =
  f_err :: error
  f_blobs :: "Blob list"
  f_rowids :: "int list"
  f_off :: bbpos
  f_len :: bbpos

definition start_pos :: bbpos where "start_pos = \<lparr>bp_index = 0, bp_pos = 0\<rparr>"

section \<open>Opening and growing\<close>

definition addblob :: "lib_consts \<Rightarrow> ('w, 'm) blob_lib_scheme \<Rightarrow> int \<Rightarrow> File \<Rightarrow> 'w Conn \<Rightarrow> (error \<times> File \<times> 'w Conn) option" where
  "addblob K L n f c = do {
     ((r, err), c) \<leftarrow> insert_blob K L n c;
     Some (case r of None \<Rightarrow> (err, f, c) | Some (b, rowid) \<Rightarrow> (None, f\<lparr>f_blobs := f_blobs f @ [b], f_rowids := f_rowids f @ [rowid]\<rparr>, c))
   }"

definition NewFileSize :: "lib_consts \<Rightarrow> ('w, 'm) blob_lib_scheme \<Rightarrow> int \<Rightarrow> 'w Conn \<Rightarrow> ((File option \<times> error) \<times> 'w Conn) option" where
  "NewFileSize K L initSize c = do {
     (err, c) \<leftarrow> create_table K L c;
     if err \<noteq> None then Some ((None, err), c)
     else do {
       (err, f, c) \<leftarrow> addblob K L initSize \<lparr>f_err = None, f_blobs = [], f_rowids = [], f_off = start_pos, f_len = start_pos\<rparr> c;
       if err \<noteq> None then Some ((None, err), c) else Some ((Some f, None), c)
     }
   }"

definition NewFile :: "lib_consts \<Rightarrow> ('w, 'm) blob_lib_scheme \<Rightarrow> 'w Conn \<Rightarrow> ((File option \<times> error) \<times> 'w Conn) option" where
  "NewFile K L c = NewFileSize K L (16 * 1024) c"

text \<open>An index out of range panics: \<open>None\<close>.\<close>

definition blob_at :: "File \<Rightarrow> nat \<Rightarrow> Blob option" where
  "blob_at f i = (if i < length (f_blobs f) then Some (f_blobs f ! i) else None)"

definition File_grow :: "lib_consts \<Rightarrow> ('w, 'm) blob_lib_scheme \<Rightarrow> File \<Rightarrow> 'w Conn \<Rightarrow> (error \<times> File \<times> 'w Conn) option" where
  "File_grow K L f c =
     (if f_blobs f = [] then None else addblob K L (wrap64 (Blob_Size (last (f_blobs f)) * 2)) f c)"

section \<open>Positions\<close>

definition File_rem :: "File \<Rightarrow> bbpos \<Rightarrow> int option" where
  "File_rem f p = map_option (\<lambda>b. Blob_Size b - bp_pos p) (blob_at f (bp_index p))"

text \<open>\<open>a && bb.rem(p1) == 0 && p2.pos == 0\<close>, where \<open>rem\<close> is only called if \<open>a\<close> holds.\<close>

definition rem_zero :: "File \<Rightarrow> bool \<Rightarrow> bbpos \<Rightarrow> bbpos \<Rightarrow> bool option" where
  "rem_zero f a p1 p2 = (if a then map_option (\<lambda>r. r = 0 \<and> bp_pos p2 = 0) (File_rem f p1) else Some False)"

definition File_eq :: "File \<Rightarrow> bbpos \<Rightarrow> bbpos \<Rightarrow> bool option" where
  "File_eq f p1 p2 =
     (if p1 = p2 then Some True
      else do {
        a \<leftarrow> rem_zero f (bp_index p1 = bp_index p2 + 1) p1 p2;
        if a then Some True else rem_zero f (bp_index p2 = bp_index p1 + 1) p2 p1
      })"

definition File_gt :: "File \<Rightarrow> bbpos \<Rightarrow> bbpos \<Rightarrow> bool option" where
  "File_gt f p1 p2 = do {
     e \<leftarrow> File_eq f p1 p2;
     Some (if e then False else if bp_index p1 \<noteq> bp_index p2 then bp_index p2 < bp_index p1 else bp_pos p2 < bp_pos p1)
   }"

text \<open>The end of a blob is also the start of the next one.\<close>

definition next_blob :: "File \<Rightarrow> bbpos \<Rightarrow> (bbpos \<times> int) option" where
  "next_blob f p = do {
     w \<leftarrow> File_rem f p;
     if w = 0 then let p = \<lparr>bp_index = bp_index p + 1, bp_pos = 0\<rparr> in do { w \<leftarrow> File_rem f p; Some (p, w) }
     else Some (p, w)
   }"

definition set_blob :: "nat \<Rightarrow> Blob \<Rightarrow> File \<Rightarrow> File" where
  "set_blob i b f = f\<lparr>f_blobs := (f_blobs f)[i := b]\<rparr>"

section \<open>Reading and writing\<close>

text \<open>The zeros of a gap.  A negative width panics.\<close>

partial_function (option) File_zero :: "lib_consts \<Rightarrow> ('w, 'm) blob_lib_scheme \<Rightarrow> bbpos \<Rightarrow> bbpos \<Rightarrow> File \<Rightarrow> 'w Conn \<Rightarrow> (error \<times> File \<times> 'w Conn) option" where
  "File_zero K L p1 p2 f c = do {
     g \<leftarrow> File_gt f p2 p1;
     if \<not> g then Some (None, f, c)
     else do {
       (p1, w) \<leftarrow> next_blob f p1;
       b \<leftarrow> blob_at f (bp_index p1);
       let w = (if bp_index p1 = bp_index p2 then bp_pos p2 else w); w = (if 4096 < w then 4096 else w) in
       (case Blob_Seek (bp_pos p1) 0 b of ((_, err), b) \<Rightarrow>
          if err \<noteq> None then Some (err, set_blob (bp_index p1) b f, c)
          else if w < 0 then None
          else case Blob_Write K L (replicate (nat w) (CHR 0x00)) b c of ((nn, err), b, c) \<Rightarrow>
            let f = set_blob (bp_index p1) b f in
            if err \<noteq> None then Some (err, f, c) else File_zero K L (p1\<lparr>bp_pos := bp_pos p1 + int nn\<rparr>) p2 f c)
     }
   }"

text \<open>The loop of \<open>Write\<close>: where the blobs end, one is added.\<close>

definition write_space :: "lib_consts \<Rightarrow> ('w, 'm) blob_lib_scheme \<Rightarrow> File \<Rightarrow> 'w Conn \<Rightarrow> ((error \<times> int) \<times> File \<times> 'w Conn) option" where
  "write_space K L f c = do {
     w \<leftarrow> File_rem f (f_off f);
     if w = 0 then do {
       (err, f, c) \<leftarrow> (if bp_index (f_off f) = length (f_blobs f) - 1
          then do { (err, f, c) \<leftarrow> File_grow K L f c; Some (err, f\<lparr>f_err := err\<rparr>, c) } else Some (None, f, c));
       if err \<noteq> None then Some ((err, 0), f, c)
       else let f = f\<lparr>f_off := \<lparr>bp_index = bp_index (f_off f) + 1, bp_pos = 0\<rparr>\<rparr> in do { w \<leftarrow> File_rem f (f_off f); Some ((None, w), f, c) }
     }
     else Some ((None, w), f, c)
   }"

partial_function (option) File_write_loop :: "lib_consts \<Rightarrow> ('w, 'm) blob_lib_scheme \<Rightarrow> nat \<Rightarrow> gostring \<Rightarrow> File \<Rightarrow> 'w Conn \<Rightarrow>
    ((nat \<times> error) \<times> File \<times> 'w Conn) option" where
  "File_write_loop K L n p f c =
     (if \<not> 0 < length p then Some ((n, f_err f), f, c)
      else do {
        ((err, w), f, c) \<leftarrow> write_space K L f c;
        if err \<noteq> None then Some ((n, err), f, c)
        else let w = (if int (length p) < w then int (length p) else w); i = bp_index (f_off f) in do {
          b \<leftarrow> blob_at f i;
          (case Blob_Seek (bp_pos (f_off f)) 0 b of ((_, err), b) \<Rightarrow>
             if err \<noteq> None then let f = (set_blob i b f)\<lparr>f_err := err\<rparr> in Some ((n, err), f, c)
             else if w < 0 then None
             else case Blob_Write K L (take (nat w) p) b c of ((nn, err), b, c) \<Rightarrow>
               let f = set_blob i b f; f = f\<lparr>f_off := (f_off f)\<lparr>bp_pos := bp_pos (f_off f) + int nn\<rparr>\<rparr> in do {
                 g \<leftarrow> File_gt f (f_off f) (f_len f);
                 let f = (if g then f\<lparr>f_len := f_off f\<rparr> else f) in
                 if err \<noteq> None then Some ((n + nn, err), f\<lparr>f_err := err\<rparr>, c)
                 else File_write_loop K L (n + nn) (drop nn p) f c
               })
        }
      })"

definition File_Write :: "lib_consts \<Rightarrow> ('w, 'm) blob_lib_scheme \<Rightarrow> gostring \<Rightarrow> File \<Rightarrow> 'w Conn \<Rightarrow> ((nat \<times> error) \<times> File \<times> 'w Conn) option" where
  "File_Write K L p f c =
     (if f_err f \<noteq> None then Some ((0, f_err f), f, c)
      else do {
        g \<leftarrow> File_gt f (f_off f) (f_len f);
        (err, f, c) \<leftarrow> (if g then File_zero K L (f_len f) (f_off f) f c else Some (None, f, c));
        if err \<noteq> None then Some ((0, err), f\<lparr>f_err := err\<rparr>, c) else File_write_loop K L 0 p f c
      })"

text \<open>The body of the loop of \<open>Read\<close>: the bytes of one blob.\<close>

definition read_part :: "lib_consts \<Rightarrow> ('w, 'm) blob_lib_scheme \<Rightarrow> gostring \<Rightarrow> File \<Rightarrow> 'w Conn \<Rightarrow> (((nat \<times> error) \<times> gostring) \<times> File \<times> 'w Conn) option" where
  "read_part K L p f c = (let i = bp_index (f_off f) in do {
     b \<leftarrow> blob_at f i;
     let bsize = (if bp_index (f_len f) = i then bp_pos (f_len f) else Blob_Size b);
         w = bsize - bp_pos (f_off f);
         w = (if int (length p) < w then int (length p) else w) in
     (case Blob_Seek (bp_pos (f_off f)) 0 b of ((_, err), b) \<Rightarrow>
        if err \<noteq> None then Some (((0, err), p), (set_blob i b f)\<lparr>f_err := err\<rparr>, c)
        else if w < 0 then None
        else do {
          (((nn, err), bytes), b, c) \<leftarrow> ReadFull K L [] (take (nat w) p) b c;
          let f = set_blob i b f; f = f\<lparr>f_off := (f_off f)\<lparr>bp_pos := bp_pos (f_off f) + int nn\<rparr>\<rparr> in
          Some (((nn, err), bytes @ drop (nat w) p), if err \<noteq> None then f\<lparr>f_err := err\<rparr> else f, c)
        })
   })"

text \<open>\<open>acc\<close> has been read, \<open>p\<close> is the rest of the slice.\<close>

partial_function (option) File_read_loop :: "lib_consts \<Rightarrow> ('w, 'm) blob_lib_scheme \<Rightarrow> gostring \<Rightarrow> gostring \<Rightarrow> File \<Rightarrow> 'w Conn \<Rightarrow>
    ((gostring \<times> error) \<times> gostring \<times> File \<times> 'w Conn) option" where
  "File_read_loop K L acc p f c = do {
     g \<leftarrow> (if 0 < length p then File_gt f (f_len f) (f_off f) else Some False);
     if \<not> g then Some ((acc, None), p, f, c)
     else do {
       w0 \<leftarrow> File_rem f (f_off f);
       let f = (if w0 = 0 then f\<lparr>f_off := \<lparr>bp_index = bp_index (f_off f) + 1, bp_pos = 0\<rparr>\<rparr> else f) in do {
         (((nn, err), p), f, c) \<leftarrow> read_part K L p f c;
         if err \<noteq> None then Some ((acc @ take nn p, err), drop nn p, f, c) else File_read_loop K L (acc @ take nn p) (drop nn p) f c
       }
     }
   }"

definition File_Read :: "lib_consts \<Rightarrow> ('w, 'm) blob_lib_scheme \<Rightarrow> gostring \<Rightarrow> File \<Rightarrow> 'w Conn \<Rightarrow> (((nat \<times> error) \<times> gostring) \<times> File \<times> 'w Conn) option" where
  "File_Read K L p f c =
     (if f_err f \<noteq> None then Some (((0, f_err f), p), f, c)
      else do {
        ((acc, err), p, f, c) \<leftarrow> File_read_loop K L [] p f c;
        if err \<noteq> None then Some (((length acc, err), acc @ p), f, c)
        else do {
          eof \<leftarrow> (if acc = [] then do { e \<leftarrow> File_eq f (f_off f) (f_len f); if e then Some True else File_gt f (f_off f) (f_len f) } else Some False);
          Some (((length acc, if eof then Some io_EOF else None), acc @ p), f, c)
        }
      })"

section \<open>Seeking, truncating, closing\<close>

definition File_Len :: "File \<Rightarrow> int" where
  "File_Len f = wrap64 (sum_list (map Blob_Size (take (bp_index (f_len f)) (f_blobs f))) + bp_pos (f_len f))"

definition File_Cap :: "File \<Rightarrow> int" where
  "File_Cap f = wrap64 (sum_list (map Blob_Size (f_blobs f)))"

partial_function (option) Seek_loop :: "lib_consts \<Rightarrow> ('w, 'm) blob_lib_scheme \<Rightarrow> int \<Rightarrow> nat \<Rightarrow> int \<Rightarrow> File \<Rightarrow> 'w Conn \<Rightarrow>
    ((int \<times> error) \<times> File \<times> 'w Conn) option" where
  "Seek_loop K L offset i rem f c = do {
     b \<leftarrow> blob_at f i;
     if \<not> Blob_Size b < rem then Some ((offset, None), f\<lparr>f_off := (f_off f)\<lparr>bp_pos := rem\<rparr>\<rparr>, c)
     else let rem = rem - Blob_Size b; f = f\<lparr>f_off := (f_off f)\<lparr>bp_index := i + 1\<rparr>\<rparr> in
       if i = length (f_blobs f) - 1 then do {
         (err, f, c) \<leftarrow> File_grow K L f c;
         if err \<noteq> None then Some ((wrap64 (offset - rem), err), f, c) else Seek_loop K L offset (i + 1) rem f c
       }
       else Seek_loop K L offset (i + 1) rem f c
   }"

definition err_file_seek :: "int \<Rightarrow> error" where
  "err_file_seek offset = Some (ErrorString (''sqlitex.File: attempting to seek before beginning of blob ('' @ FormatInt offset @ '')''))"

definition File_Seek :: "lib_consts \<Rightarrow> ('w, 'm) blob_lib_scheme \<Rightarrow> int \<Rightarrow> int \<Rightarrow> File \<Rightarrow> 'w Conn \<Rightarrow> ((int \<times> error) \<times> File \<times> 'w Conn) option" where
  "File_Seek K L offset whence f c =
     (if f_err f \<noteq> None then Some ((0, f_err f), f, c)
      else let offset =
          (if whence = 1 then wrap64 (offset + sum_list (map Blob_Size (take (bp_index (f_off f)) (f_blobs f))) + bp_pos (f_off f))
           else if whence = 2 then wrap64 (offset + File_Len f) else offset) in
        if offset < 0 then Some ((-1, err_file_seek offset), f, c)
        else Seek_loop K L offset 0 offset (f\<lparr>f_off := (f_off f)\<lparr>bp_index := 0\<rparr>\<rparr>) c)"

text \<open>The inner loop of \<open>Truncate\<close>: the blob in which the new end lies, or what is left of the size after all of them.\<close>

fun truncate_in :: "Blob list \<Rightarrow> nat \<Rightarrow> int \<Rightarrow> bbpos + int" where
  "truncate_in [] i n = Inr n"
| "truncate_in (b # bs) i n = (if n < Blob_Size b then Inl \<lparr>bp_index = i, bp_pos = n\<rparr> else truncate_in bs (i + 1) (wrap64 (n - Blob_Size b)))"

partial_function (option) File_Truncate :: "lib_consts \<Rightarrow> ('w, 'm) blob_lib_scheme \<Rightarrow> int \<Rightarrow> File \<Rightarrow> 'w Conn \<Rightarrow> (error \<times> File \<times> 'w Conn) option" where
  "File_Truncate K L n f c =
     (case truncate_in (f_blobs f) 0 n of
        Inl newlen \<Rightarrow> do {
          (err, f, c) \<leftarrow> File_zero K L (f_len f) newlen f c;
          if err \<noteq> None then Some (err, f, c) else Some (None, f\<lparr>f_len := newlen\<rparr>, c)
        }
      | Inr n \<Rightarrow> do {
          (err, f, c) \<leftarrow> File_grow K L f c;
          if err \<noteq> None then Some (err, f, c) else File_Truncate K L n f c
        })"

definition File_Close :: "lib_consts \<Rightarrow> ('w, 'm) blob_lib_scheme \<Rightarrow> File \<Rightarrow> 'w Conn \<Rightarrow> (error \<times> File \<times> 'w Conn) option" where
  "File_Close K L f c =
     (if f_err f \<noteq> None then Some (f_err f, f, c)
      else case close_blobs K L (f_blobs f) None c of (err, c) \<Rightarrow> do {
        (s, c) \<leftarrow> prep_stmt K L sql_delete c;
        (err, c) \<leftarrow> delete_rows K L s (f_rowids f) err c;
        Some (err, f\<lparr>f_err := err, f_blobs := [], f_rowids := []\<rparr>, c)
      })"

section \<open>The contents\<close>

text \<open>The bytes of each blob; a position as an offset into all of them; the bytes of the file.\<close>

definition fdata :: "(nat \<Rightarrow> 'w \<Rightarrow> gostring option) \<Rightarrow> 'w \<Rightarrow> File \<Rightarrow> gostring list" where
  "fdata D w f = map (\<lambda>b. the (D (b_blob b) w)) (f_blobs f)"

definition offset_in :: "gostring list \<Rightarrow> bbpos \<Rightarrow> nat" where
  "offset_in ds p = length (concat (take (bp_index p) ds)) + nat (bp_pos p)"

definition fcontents :: "(nat \<Rightarrow> 'w \<Rightarrow> gostring option) \<Rightarrow> 'w \<Rightarrow> File \<Rightarrow> gostring" where
  "fcontents D w f = take (offset_in (fdata D w f) (f_len f)) (concat (fdata D w f))"

definition pos_ok :: "gostring list \<Rightarrow> bbpos \<Rightarrow> bool" where
  "pos_ok ds p \<longleftrightarrow> bp_index p < length ds \<and> 0 \<le> bp_pos p \<and> bp_pos p \<le> int (length (ds ! bp_index p))"

definition file_ok :: "(nat \<Rightarrow> 'w \<Rightarrow> gostring option) \<Rightarrow> 'w \<Rightarrow> File \<Rightarrow> bool" where
  "file_ok D w f \<longleftrightarrow> f_err f = None \<and> distinct (map b_blob (f_blobs f)) \<and>
     (\<forall>b \<in> set (f_blobs f). \<exists>d. D (b_blob b) w = Some d \<and> blob_over d b \<and> 0 < length d) \<and>
     pos_ok (fdata D w f) (f_off f) \<and> pos_ok (fdata D w f) (f_len f)"

text \<open>The positions that \<open>eq\<close> wrongly takes to be equal: the start of a blob, and the end of the file where that is the end of the next blob.\<close>

definition misjudged :: "gostring list \<Rightarrow> bbpos \<Rightarrow> bbpos \<Rightarrow> bool" where
  "misjudged ds p len \<longleftrightarrow> bp_index len = bp_index p + 1 \<and> bp_pos len = int (length (ds ! bp_index len)) \<and> bp_pos p = 0"

section \<open>Lemmas: positions\<close>

lemma file_blob:
  assumes "file_ok D w f" and "i < length (f_blobs f)"
  shows "blob_at f i = Some (f_blobs f ! i)" and "D (b_blob (f_blobs f ! i)) w = Some (fdata D w f ! i)"
    and "blob_over (fdata D w f ! i) (f_blobs f ! i)" and "0 < length (fdata D w f ! i)" and "Blob_Size (f_blobs f ! i) = int (length (fdata D w f ! i))"
proof -
  obtain d where "D (b_blob (f_blobs f ! i)) w = Some d" "blob_over d (f_blobs f ! i)" "0 < length d"
    using assms nth_mem [OF assms(2)] unfolding file_ok_def by blast
  then show "D (b_blob (f_blobs f ! i)) w = Some (fdata D w f ! i)" "blob_over (fdata D w f ! i) (f_blobs f ! i)" "0 < length (fdata D w f ! i)"
    "Blob_Size (f_blobs f ! i) = int (length (fdata D w f ! i))" using assms(2) by (simp_all add: fdata_def blob_over_def Blob_Size_def)
  show "blob_at f i = Some (f_blobs f ! i)" using assms(2) by (simp add: blob_at_def)
qed

lemma length_fdata [simp]: "length (fdata D w f) = length (f_blobs f)"
  by (simp add: fdata_def)

lemma file_rem:
  assumes "file_ok D w f" and "pos_ok (fdata D w f) p"
  shows "File_rem f p = Some (int (length (fdata D w f ! bp_index p)) - bp_pos p)"
  using assms file_blob [OF assms(1), of "bp_index p"] by (simp add: File_rem_def pos_ok_def)

lemma concat_take_mono: "i \<le> j \<Longrightarrow> length (concat (take i ds)) \<le> length (concat (take j ds))"
  by (metis append_take_drop_id concat_append le_add1 length_append min.absorb1 take_take)

lemma concat_take_Suc: "i < length ds \<Longrightarrow> concat (take (Suc i) ds) = concat (take i ds) @ ds ! i"
  by (simp add: take_Suc_conv_app_nth)

text \<open>A position in an earlier blob is not past one in a later blob.\<close>

lemma offset_mono:
  assumes "pos_ok ds p" and "bp_index p < bp_index q"
  shows "offset_in ds p \<le> offset_in ds q"
proof -
  have "offset_in ds p \<le> length (concat (take (Suc (bp_index p)) ds))"
    using assms(1) concat_take_Suc [of "bp_index p" ds] by (auto simp: offset_in_def pos_ok_def)
  also have "\<dots> \<le> length (concat (take (bp_index q) ds))" using assms(2) by (intro concat_take_mono) simp
  finally show ?thesis by (simp add: offset_in_def)
qed

lemma bbpos_eqI: "bp_index p = bp_index q \<Longrightarrow> bp_pos p = bp_pos q \<Longrightarrow> p = (q :: bbpos)"
  by simp

lemma file_gt:
  assumes "file_ok D w f" and "pos_ok (fdata D w f) p" and "pos_ok (fdata D w f) q" and "\<not> misjudged (fdata D w f) q p"
  shows "\<exists>g. File_gt f p q = Some g \<and>
    (if g then bp_index q < bp_index p \<or> bp_index q = bp_index p \<and> bp_pos q < bp_pos p else offset_in (fdata D w f) p \<le> offset_in (fdata D w f) q)"
proof -
  let ?ds = "fdata D w f"
  note rp = file_rem [OF assms(1,2)] and rq = file_rem [OF assms(1,3)]
  define e2 where "e2 = (bp_index q = bp_index p + 1 \<and> bp_pos q = int (length (?ds ! bp_index q)) \<and> bp_pos p = 0)"
  have e: "File_eq f p q = Some (p = q \<or> e2)"
  proof (cases "p = q")
    case False
    have "rem_zero f (bp_index p = bp_index q + 1) p q = Some False" using assms(4) rp by (auto simp: rem_zero_def misjudged_def)
    moreover have "rem_zero f (bp_index q = bp_index p + 1) q p = Some e2" using rq by (auto simp: rem_zero_def e2_def)
    ultimately show ?thesis using False by (simp add: File_eq_def)
  qed (simp add: File_eq_def)
  have "offset_in ?ds p \<le> offset_in ?ds q" if "p = q \<or> e2 \<or> bp_index p < bp_index q \<or> bp_index p = bp_index q \<and> bp_pos p \<le> bp_pos q"
    using that offset_mono [OF assms(2), of q] by (auto simp: e2_def offset_in_def)
  then show ?thesis using e bbpos_eqI [of p q] by (auto simp: File_gt_def)
qed

text \<open>What lies behind a position.\<close>

lemma drop_offset:
  assumes "pos_ok ds p"
  shows "drop (offset_in ds p) (concat ds) = drop (nat (bp_pos p)) (ds ! bp_index p) @ concat (drop (Suc (bp_index p)) ds)"
proof -
  let ?i = "bp_index p"
  have i: "?i < length ds" and le: "nat (bp_pos p) \<le> length (ds ! ?i)" using assms by (auto simp: pos_ok_def)
  have "ds = take ?i ds @ ds ! ?i # drop (Suc ?i) ds" using i by (rule id_take_nth_drop)
  then have "concat ds = concat (take ?i ds) @ ds ! ?i @ concat (drop (Suc ?i) ds)" by (metis concat.simps(2) concat_append)
  then show ?thesis using le by (simp add: offset_in_def)
qed

lemma offset_next: "i < length ds \<Longrightarrow> offset_in ds \<lparr>bp_index = i, bp_pos = int (length (ds ! i))\<rparr> = offset_in ds \<lparr>bp_index = Suc i, bp_pos = 0\<rparr>"
  using concat_take_Suc [of i ds] by (simp add: offset_in_def)

section \<open>Lemmas: reading\<close>

text \<open>Moving a position and a handle changes no bytes.\<close>

lemma map_update_same: "g b = g (xs ! i) \<Longrightarrow> map g (xs[i := b]) = map g xs"
  by (cases "i < length xs") (simp_all add: map_update list_update_same_conv list_update_beyond)

lemma set_blob_fdata: "b_blob b = b_blob (f_blobs f ! i) \<Longrightarrow> fdata D w (set_blob i b f) = fdata D w f"
  unfolding fdata_def set_blob_def by (simp add: map_update_same del: map_eq_conv)

lemma file_ok_set:
  assumes "file_ok D w f" and "i < length (f_blobs f)" and "b_blob b = b_blob (f_blobs f ! i)" and "blob_over (fdata D w f ! i) b"
    and "pos_ok (fdata D w f) p" and "\<forall>q. D q w' = D q w"
  shows "file_ok D w' ((set_blob i b f)\<lparr>f_off := p\<rparr>)" and "fdata D w' ((set_blob i b f)\<lparr>f_off := p\<rparr>) = fdata D w f"
proof -
  have d: "fdata D w' ((set_blob i b f)\<lparr>f_off := p\<rparr>) = fdata D w f"
    using set_blob_fdata [OF assms(3), of D w] assms(6) by (simp add: fdata_def)
  then show "fdata D w' ((set_blob i b f)\<lparr>f_off := p\<rparr>) = fdata D w f" .
  have "map b_blob ((f_blobs f)[i := b]) = map b_blob (f_blobs f)" using assms(3) by (rule map_update_same)
  moreover have "\<exists>d. D (b_blob x) w' = Some d \<and> blob_over d x \<and> 0 < length d" if "x \<in> set ((f_blobs f)[i := b])" for x
  proof -
    have "x = b \<or> x \<in> set (f_blobs f)" using that set_update_subset_insert by (metis insertE subsetD)
    then show ?thesis
      using assms(1,3,4,6) file_blob(2,4) [OF assms(1,2)] by (auto simp: file_ok_def)
  qed
  ultimately show "file_ok D w' ((set_blob i b f)\<lparr>f_off := p\<rparr>)"
    using assms(1,5) d unfolding file_ok_def by (simp add: set_blob_def)
qed

text \<open>The position from which the next bytes are read, past the end of a blob in the next one.\<close>

definition norm_off :: "gostring list \<Rightarrow> bbpos \<Rightarrow> bbpos" where
  "norm_off ds p = (if bp_pos p = int (length (ds ! bp_index p)) then \<lparr>bp_index = bp_index p + 1, bp_pos = 0\<rparr> else p)"

lemma norm_off_props:
  assumes "pos_ok ds p" and "pos_ok ds len" and "bp_index p < bp_index len \<or> bp_index p = bp_index len \<and> bp_pos p < bp_pos len"
  shows "pos_ok ds (norm_off ds p)" and "offset_in ds (norm_off ds p) = offset_in ds p" and "bp_index p \<le> bp_index (norm_off ds p)"
    and "bp_index (norm_off ds p) \<le> bp_index len" and "bp_index (norm_off ds p) = bp_index len \<Longrightarrow> bp_pos (norm_off ds p) \<le> bp_pos len"
    and "bp_pos (norm_off ds p) < int (length (ds ! bp_index (norm_off ds p))) \<or> norm_off ds p = \<lparr>bp_index = bp_index p + 1, bp_pos = 0\<rparr>"
  using assms offset_next [of "bp_index p" ds] by (auto simp: norm_off_def pos_ok_def offset_in_def)

text \<open>One blob: \<open>w\<close> bytes at the position, up to the end of the blob or of the file.\<close>

lemma read_part_result:
  fixes p :: gostring
  assumes "lib_blob_ok K L D" and "file_ok D (c_world c) f"
    and "bp_index (f_off f) = bp_index (f_len f) \<Longrightarrow> bp_pos (f_off f) \<le> bp_pos (f_len f)"
  defines "ds \<equiv> fdata D (c_world c) f"
  defines "i \<equiv> bp_index (f_off f)"
  defines "w \<equiv> nat (min (int (length p)) ((if bp_index (f_len f) = i then bp_pos (f_len f) else int (length (ds ! i))) - bp_pos (f_off f)))"
  obtains n e p' b c1 where "read_part K L p f c = Some (((n, e), p'), (set_blob i b f)\<lparr>f_off := (f_off f)\<lparr>bp_pos := bp_pos (f_off f) + int n\<rparr>, f_err := e\<rparr>, c1)"
    and "n \<le> w" "e = None \<Longrightarrow> n = w" "length p' = length p" "take n p' = take n (drop (nat (bp_pos (f_off f))) (ds ! i))" "\<forall>x. D x (c_world c1) = D x (c_world c)"
    and "b_blob b = b_blob (f_blobs f ! i)" "blob_over (ds ! i) b"
proof -
  have po: "pos_ok ds (f_off f)" "pos_ok ds (f_len f)" "f_err f = None" using assms(2) by (simp_all add: file_ok_def ds_def)
  have q: "i < length (f_blobs f)" "0 \<le> bp_pos (f_off f)" "bp_pos (f_off f) \<le> int (length (ds ! i))" using po(1) by (auto simp: pos_ok_def ds_def i_def)
  note fb = file_blob [OF assms(2) q(1), folded ds_def]
  define w0 where "w0 = (if bp_index (f_len f) = i then bp_pos (f_len f) else int (length (ds ! i))) - bp_pos (f_off f)"
  have w0: "0 \<le> w0" using assms(3) q(3) by (auto simp: w0_def i_def)
  have w: "(if int (length p) < w0 then int (length p) else w0) = int w" "w \<le> length p" using w0 by (auto simp: w_def w0_def)
  obtain o1 e1 b0 where sk: "Blob_Seek (bp_pos (f_off f)) 0 (f_blobs f ! i) = ((o1, e1), b0)" by (metis surj_pair)
  note sk' = Seek_to [OF fb(3) q(2,3) sk]
  have Db: "D (b_blob b0) (c_world c) = Some (ds ! i)" using fb(2) sk'(3) by simp
  from ReadFull_result [OF assms(1) Db sk'(2), of "take w p"] obtain n e bytes b c1 where
    rf: "ReadFull K L [] (take w p) b0 c = Some (((n, e), bytes), b, c1)" and D1: "\<forall>x. D x (c_world c1) = D x (c_world c)" and b: "b_blob b = b_blob b0" "blob_over (ds ! i) b"
    and bs: "length bytes = w" "n \<le> w" "e = None \<longrightarrow> n = w" "take n bytes = take n (drop (nat (bp_pos (f_off f))) (ds ! i))"
    using w(2) sk'(4) by auto
  have sz: "(if bp_index (f_len f) = i then bp_pos (f_len f) else Blob_Size (f_blobs f ! i)) - bp_pos (f_off f) = w0" using fb(5) by (simp add: w0_def)
  have "read_part K L p f c = Some (((n, e), bytes @ drop w p), (set_blob i b f)\<lparr>f_off := (f_off f)\<lparr>bp_pos := bp_pos (f_off f) + int n\<rparr>, f_err := e\<rparr>, c1)"
    using fb(1) sk sk'(1) rf po(3) w0 w(1) unfolding read_part_def i_def [symmetric] Let_def
    by (cases e; cases "int (length p) < w0") (auto simp: sz set_blob_def)
  then show thesis using that bs w(2) D1 b sk'(3) by simp
qed

text \<open>The bytes of one blob are the next bytes of the file.\<close>

lemma part_of_file:
  fixes p :: gostring
  assumes "pos_ok ds q" and "pos_ok ds len" and "bp_index q \<le> bp_index len" and "bp_index q = bp_index len \<Longrightarrow> bp_pos q \<le> bp_pos len"
  defines "w \<equiv> nat (min (int (length p)) ((if bp_index len = bp_index q then bp_pos len else int (length (ds ! bp_index q))) - bp_pos q))"
  shows "w \<le> offset_in ds len - offset_in ds q" and "w \<le> length p" and "offset_in ds (q\<lparr>bp_pos := bp_pos q + int w\<rparr>) = offset_in ds q + w"
    and "pos_ok ds (q\<lparr>bp_pos := bp_pos q + int w\<rparr>)"
    and "n \<le> w \<Longrightarrow> take n (drop (nat (bp_pos q)) (ds ! bp_index q)) = take n (drop (offset_in ds q) (take (offset_in ds len) (concat ds)))"
proof -
  let ?i = "bp_index q"
  have i: "?i < length ds" "0 \<le> bp_pos q" "bp_pos q \<le> int (length (ds ! ?i))" and l: "0 \<le> bp_pos len" "bp_pos len \<le> int (length (ds ! bp_index len))"
    using assms(1,2) by (auto simp: pos_ok_def)
  show le: "w \<le> offset_in ds len - offset_in ds q"
  proof (cases "bp_index len = ?i")
    case True
    then show ?thesis using i l assms(4) by (auto simp: w_def offset_in_def)
  next
    case False
    then have "length (concat (take (Suc ?i) ds)) \<le> length (concat (take (bp_index len) ds))" using assms(3) by (intro concat_take_mono) simp
    then show ?thesis using False i concat_take_Suc [OF i(1)] by (auto simp: w_def offset_in_def)
  qed
  have wl: "int w \<le> int (length (ds ! ?i)) - bp_pos q" "w \<le> length p" using i l assms(4) by (auto simp: w_def split: if_splits)
  show "w \<le> length p" using wl(2) .
  show "offset_in ds (q\<lparr>bp_pos := bp_pos q + int w\<rparr>) = offset_in ds q + w" using i by (simp add: offset_in_def nat_add_distrib)
  show "pos_ok ds (q\<lparr>bp_pos := bp_pos q + int w\<rparr>)" using i wl by (simp add: pos_ok_def)
  show "take n (drop (nat (bp_pos q)) (ds ! ?i)) = take n (drop (offset_in ds q) (take (offset_in ds len) (concat ds)))" if "n \<le> w"
  proof -
    have "n \<le> length (drop (nat (bp_pos q)) (ds ! ?i))" "n \<le> offset_in ds len - offset_in ds q" using that wl le i(2) by auto
    then show ?thesis using drop_offset [OF assms(1)] by (simp add: drop_take min_def)
  qed
qed

text \<open>What \<open>Read\<close> makes of a file, up to an error.\<close>

definition read_to :: "(nat \<Rightarrow> 'w \<Rightarrow> gostring option) \<Rightarrow> 'w \<Rightarrow> File \<Rightarrow> gostring \<Rightarrow> gostring \<Rightarrow> error \<Rightarrow> gostring \<Rightarrow> File \<Rightarrow> 'w \<Rightarrow> bool" where
  "read_to D w f p bytes e p' f' w' \<longleftrightarrow> (let ds = fdata D w f in
     length bytes + length p' = length p \<and> bytes = take (length bytes) (drop (offset_in ds (f_off f)) (fcontents D w f)) \<and>
     offset_in ds (f_off f') = offset_in ds (f_off f) + length bytes \<and> f_len f' = f_len f \<and> fdata D w' f' = ds \<and> (\<forall>x. D x w' = D x w) \<and>
     (e \<noteq> None \<longrightarrow> f_err f' = e) \<and>
     (e = None \<longrightarrow> file_ok D w' f' \<and> length bytes = min (length p) (offset_in ds (f_len f) - offset_in ds (f_off f)) \<and>
        (p' \<noteq> [] \<longrightarrow> File_gt f' (f_len f') (f_off f') = Some False \<and> \<not> misjudged ds (f_off f') (f_len f'))))"

lemma read_to_stop:
  assumes "file_ok D w f" and "\<not> misjudged (fdata D w f) (f_off f) (f_len f)" and "p = [] \<or> File_gt f (f_len f) (f_off f) = Some False"
  shows "read_to D w f p [] None p f w"
proof (cases "p = []")
  case True
  then show ?thesis using assms(1) by (simp add: read_to_def Let_def)
next
  case False
  have "offset_in (fdata D w f) (f_len f) \<le> offset_in (fdata D w f) (f_off f)"
    using file_gt [OF assms(1) _ _ assms(2)] assms(1,3) False by (auto simp: file_ok_def)
  then show ?thesis using assms False by (simp add: read_to_def Let_def)
qed

lemma read_to_turn:
  assumes "read_to D w1 f1 (drop n p1) bytes e p' f' w'" and "length p1 = length p" and "n \<le> length p"
    and "fdata D w1 f1 = fdata D w f" and "f_len f1 = f_len f" and "\<forall>x. D x w1 = D x w"
    and "offset_in (fdata D w f) (f_off f1) = offset_in (fdata D w f) (f_off f) + n"
    and "n \<le> offset_in (fdata D w f) (f_len f) - offset_in (fdata D w f) (f_off f)"
    and "part = take n (drop (offset_in (fdata D w f) (f_off f)) (fcontents D w f))" and "length part = n"
  shows "read_to D w f p (part @ bytes) e p' f' w'"
proof -
  let ?ds = "fdata D w f" and ?T = "fcontents D w f"
  let ?o = "offset_in ?ds (f_off f)"
  have T: "fcontents D w1 f1 = ?T" using assms(4,5) by (simp add: fcontents_def)
  note to = assms(1) [unfolded read_to_def Let_def T assms(4,5,7) length_drop assms(2)]
  have r: "length bytes + length p' = length p - n" "bytes = take (length bytes) (drop (?o + n) ?T)"
    "offset_in ?ds (f_off f') = ?o + n + length bytes" "f_len f' = f_len f" "fdata D w' f' = ?ds" "\<forall>x. D x w' = D x w1" "e \<noteq> None \<longrightarrow> f_err f' = e"
    and ok: "e = None \<longrightarrow> file_ok D w' f' \<and> length bytes = min (length p - n) (offset_in ?ds (f_len f) - (?o + n)) \<and>
        (p' \<noteq> [] \<longrightarrow> File_gt f' (f_len f') (f_off f') = Some False \<and> \<not> misjudged ?ds (f_off f') (f_len f'))"
    by (insert to) (elim conjE, assumption)+
  have pb: "part @ bytes = take (n + length bytes) (drop ?o ?T)"
  proof -
    have "take (n + length bytes) (drop ?o ?T) = part @ take (length bytes) (drop (?o + n) ?T)"
      by (simp add: take_add assms(9) add.commute)
    then show ?thesis using r(2) by simp
  qed
  have len: "length (part @ bytes) = n + length bytes" using assms(10) by simp
  have mn: "n + length bytes = min (length p) (offset_in ?ds (f_len f) - ?o)" if "e = None" using ok that assms(3,8) by simp
  show ?thesis
    unfolding read_to_def Let_def len
  proof (intro conjI impI)
    show "n + length bytes + length p' = length p" using r(1) assms(3) by simp
    show "offset_in ?ds (f_off f') = ?o + (n + length bytes)" using r(3) by simp
    show "fdata D w' f' = ?ds" "f_len f' = f_len f" using r(4,5) by simp_all
    show "\<forall>x. D x w' = D x w" using r(6) assms(6) by simp
    show "e = None \<Longrightarrow> n + length bytes = min (length p) (offset_in ?ds (f_len f) - ?o)" using mn .
    show "file_ok D w' f'" if "e = None" using ok that by blast
    show "f_err f' = e" if "e \<noteq> None" using r(7) that by blast
    show "File_gt f' (f_len f') (f_off f') = Some False" "\<not> misjudged ?ds (f_off f') (f_len f')" if "e = None" "p' \<noteq> []" using ok that by blast+
  qed (rule pb)
qed

lemma read_loop_result:
  assumes "lib_blob_ok K L D" and "file_ok D (c_world c) f" and "\<not> misjudged (fdata D (c_world c) f) (f_off f) (f_len f)"
  shows "\<exists>bytes e p' f' c'. File_read_loop K L acc p f c = Some ((acc @ bytes, e), p', f', c') \<and> read_to D (c_world c) f p bytes e p' f' (c_world c')"
  using assms(2,3)
proof (induction "length p + (bp_index (f_len f) - bp_index (f_off f))" arbitrary: acc p f c rule: less_induct)
  case less
  let ?ds = "fdata D (c_world c) f"
  have po: "pos_ok ?ds (f_off f)" "pos_ok ?ds (f_len f)" "f_err f = None" using less.prems(1) by (simp_all add: file_ok_def)
  obtain g where g: "File_gt f (f_len f) (f_off f) = Some g"
    and gt: "g \<Longrightarrow> bp_index (f_off f) < bp_index (f_len f) \<or> bp_index (f_off f) = bp_index (f_len f) \<and> bp_pos (f_off f) < bp_pos (f_len f)"
    using file_gt [OF less.prems(1) po(2,1) less.prems(2)] by auto
  show ?case
  proof (cases "p \<noteq> [] \<and> g")
    case False
    then have "File_read_loop K L acc p f c = Some ((acc @ [], None), p, f, c)"
      using g by (subst File_read_loop.simps) (cases "p = []"; simp)
    moreover have "read_to D (c_world c) f p [] None p f (c_world c)" using read_to_stop [OF less.prems, of p] False g by (cases g) simp_all
    ultimately show ?thesis by (intro exI conjI)
  next
    case True
    define q where "q = norm_off ?ds (f_off f)"
    define f1 where "f1 = f\<lparr>f_off := q\<rparr>"
    have gt: "bp_index (f_off f) < bp_index (f_len f) \<or> bp_index (f_off f) = bp_index (f_len f) \<and> bp_pos (f_off f) < bp_pos (f_len f)" using gt True by blast
    note n = norm_off_props [OF po(1,2) gt, folded q_def]
    have ok1: "file_ok D (c_world c) f1" and ds1: "fdata D (c_world c) f1 = ?ds"
      using less.prems(1) n(1) by (simp_all add: file_ok_def f1_def fdata_def)
    have le1: "bp_index (f_off f1) = bp_index (f_len f1) \<Longrightarrow> bp_pos (f_off f1) \<le> bp_pos (f_len f1)" using n(5) by (simp add: f1_def)
    have f1s: "f_off f1 = q" "f_len f1 = f_len f" "f_blobs f1 = f_blobs f" by (simp_all add: f1_def)
    define w where "w = nat (min (int (length p)) ((if bp_index (f_len f) = bp_index q then bp_pos (f_len f) else int (length (?ds ! bp_index q))) - bp_pos q))"
    obtain k e p1 b c1 where rp: "read_part K L p f1 c = Some (((k, e), p1), (set_blob (bp_index q) b f1)\<lparr>f_off := q\<lparr>bp_pos := bp_pos q + int k\<rparr>, f_err := e\<rparr>, c1)"
      and k: "k \<le> w" "e = None \<Longrightarrow> k = w" "length p1 = length p" "take k p1 = take k (drop (nat (bp_pos q)) (?ds ! bp_index q))"
      and D1: "\<forall>x. D x (c_world c1) = D x (c_world c)" and b: "b_blob b = b_blob (f_blobs f ! bp_index q)" "blob_over (?ds ! bp_index q) b"
      using read_part_result [OF assms(1) ok1 le1, of p, unfolded ds1 f1s, folded w_def] by metis
    note pf = part_of_file [OF n(1) po(2) n(4,5), where p = p, folded w_def]
    define f2 where "f2 = (set_blob (bp_index q) b f1)\<lparr>f_off := q\<lparr>bp_pos := bp_pos q + int k\<rparr>, f_err := e\<rparr>"
    have rem: "File_rem f (f_off f) = Some (int (length (?ds ! bp_index (f_off f))) - bp_pos (f_off f))" using file_rem [OF less.prems(1) po(1)] .
    have norm: "int (length (?ds ! bp_index (f_off f))) = bp_pos (f_off f) \<Longrightarrow> f\<lparr>f_off := \<lparr>bp_index = Suc (bp_index (f_off f)), bp_pos = 0\<rparr>\<rparr> = f1"
      "int (length (?ds ! bp_index (f_off f))) \<noteq> bp_pos (f_off f) \<Longrightarrow> read_part K L p f c = read_part K L p f1 c"
      by (simp_all add: f1_def q_def norm_off_def)
    have turn: "File_read_loop K L acc p f c =
        (if e \<noteq> None then Some ((acc @ take k p1, e), drop k p1, f2, c1) else File_read_loop K L (acc @ take k p1) (drop k p1) f2 c1)"
      using True g by (subst File_read_loop.simps) (simp add: rem norm rp f2_def del: not_None_eq)
    have qi: "bp_index q < length (f_blobs f1)" using n(1) by (simp add: pos_ok_def f1_def)
    have kp: "pos_ok ?ds (q\<lparr>bp_pos := bp_pos q + int k\<rparr>)" using pf(4) n(1) k(1) by (auto simp: pos_ok_def)
    have b1: "b_blob b = b_blob (f_blobs f1 ! bp_index q)" using b(1) by (simp add: f1_def)
    note set2 = file_ok_set [OF ok1 qi b1 _ _ D1, unfolded ds1, OF b(2) kp]
    have f2: "fdata D (c_world c1) f2 = ?ds" "f_len f2 = f_len f" "e = None \<Longrightarrow> file_ok D (c_world c1) f2"
      using set2 po(3) by (simp_all add: f2_def fdata_def f1_def set_blob_def file_ok_def)
    have part: "take k p1 = take k (drop (offset_in ?ds (f_off f)) (fcontents D (c_world c) f))"
      using k(4) pf(5) [of k, OF _ k(1)] n(2) by (simp add: fcontents_def)
    have o2: "offset_in ?ds (f_off f2) = offset_in ?ds (f_off f) + k"
      using n(1,2) by (simp add: f2_def offset_in_def pos_ok_def nat_add_distrib)
    have len: "k \<le> length p" "k \<le> offset_in ?ds (f_len f) - offset_in ?ds (f_off f)" "length (take k p1) = k" using pf(1,2) k(1,3) n(2) by simp_all
    note go = read_to_turn [OF _ k(3) len(1) f2(1,2) D1 o2 len(2) part len(3)]
    show ?thesis
    proof (cases e)
      case (Some x)
      have "read_to D (c_world c1) f2 (drop k p1) [] e (drop k p1) f2 (c_world c1)" using Some by (simp add: read_to_def f2_def)
      then have "read_to D (c_world c) f p (take k p1 @ []) e (drop k p1) f2 (c_world c1)" by (rule go)
      then show ?thesis using turn Some by (intro exI conjI) simp_all
    next
      case None
      have w: "0 < w \<or> bp_index q = bp_index (f_len f) \<and> bp_index (f_off f) < bp_index q" 
        using True gt n(1,4,6) file_blob(4) [OF ok1 qi] ds1 by (auto simp: w_def q_def norm_off_def pos_ok_def split: if_splits)
      have kw: "k = w" and off2: "f_off f2 = q\<lparr>bp_pos := bp_pos q + int k\<rparr>" using k(2) None by (simp_all add: f2_def)
      have m: "length (drop k p1) + (bp_index (f_len f2) - bp_index (f_off f2)) < length p + (bp_index (f_len f) - bp_index (f_off f))"
        unfolding f2(2) off2 using w kw k(3) len(1) n(3,4) by auto
      have nm: "\<not> misjudged (fdata D (c_world c1) f2) (f_off f2) (f_len f2)"
      proof
        assume "misjudged (fdata D (c_world c1) f2) (f_off f2) (f_len f2)"
        then have "bp_index (f_len f) = bp_index q + 1" "bp_pos q + int k = 0" unfolding misjudged_def f2(1,2) off2 by simp_all
        moreover have "0 \<le> bp_pos q" using n(1) unfolding pos_ok_def by (elim conjE)
        ultimately show False using w kw by linarith
      qed
      have "\<exists>bytes e' p' f' c'. File_read_loop K L (acc @ take k p1) (drop k p1) f2 c1 = Some (((acc @ take k p1) @ bytes, e'), p', f', c') \<and>
          read_to D (c_world c1) f2 (drop k p1) bytes e' p' f' (c_world c')"
        by (rule less.hyps [OF m f2(3) [OF None] nm])
      then obtain bytes e' p' f' c' where
        r: "File_read_loop K L (acc @ take k p1) (drop k p1) f2 c1 = Some (((acc @ take k p1) @ bytes, e'), p', f', c') \<and>
          read_to D (c_world c1) f2 (drop k p1) bytes e' p' f' (c_world c')"
        by (elim exE)
      note to = go [OF conjunct2 [OF r]]
      have "File_read_loop K L acc p f c = Some ((acc @ take k p1 @ bytes, e'), p', f', c')" using turn conjunct1 [OF r] None by simp
      with to show ?thesis by (intro exI conjI)
    qed
  qed
qed

text \<open>What the comparisons say of positions in the file.\<close>

lemma file_eq:
  assumes "file_ok D w f" and "pos_ok (fdata D w f) p" and "pos_ok (fdata D w f) q"
  shows "File_eq f p q = Some (p = q \<or> misjudged (fdata D w f) p q \<or> misjudged (fdata D w f) q p)"
  using file_rem [OF assms(1,2)] file_rem [OF assms(1,3)] by (auto simp: File_eq_def rem_zero_def misjudged_def)

lemma offset_le: "pos_ok ds p \<Longrightarrow> offset_in ds p \<le> length (concat ds)"
  using concat_take_mono [of "Suc (bp_index p)" "length ds" ds] concat_take_Suc [of "bp_index p" ds]
  by (auto simp: offset_in_def pos_ok_def)

lemma length_fcontents: "file_ok D w f \<Longrightarrow> length (fcontents D w f) = offset_in (fdata D w f) (f_len f)"
  using offset_le [of "fdata D w f" "f_len f"] by (simp add: fcontents_def file_ok_def)

text \<open>The test for the end of the file.\<close>

lemma file_eof:
  assumes "file_ok D w f"
  shows "\<exists>b. do { e \<leftarrow> File_eq f (f_off f) (f_len f); if e then Some True else File_gt f (f_off f) (f_len f) } = Some b \<and>
    (\<not> misjudged (fdata D w f) (f_off f) (f_len f) \<longrightarrow> b \<longrightarrow> offset_in (fdata D w f) (f_len f) \<le> offset_in (fdata D w f) (f_off f)) \<and>
    (File_gt f (f_len f) (f_off f) = Some False \<longrightarrow> b)"
proof -
  have po: "pos_ok (fdata D w f) (f_off f)" "pos_ok (fdata D w f) (f_len f)" using assms by (auto simp: file_ok_def)
  note e = file_eq [OF assms po] and e' = file_eq [OF assms po(2,1)]
  have "offset_in (fdata D w f) (f_len f) \<le> offset_in (fdata D w f) (f_off f)"
    if "f_off f = f_len f \<or> bp_index (f_len f) < bp_index (f_off f) \<or> bp_index (f_len f) = bp_index (f_off f) \<and> bp_pos (f_len f) < bp_pos (f_off f)"
    using that offset_mono [OF po(2)] by (auto simp: offset_in_def)
  moreover have "f_off f = f_len f \<longleftrightarrow> bp_index (f_off f) = bp_index (f_len f) \<and> bp_pos (f_off f) = bp_pos (f_len f)" by (auto intro: bbpos_eqI)
  ultimately show ?thesis unfolding File_gt_def e e' by (auto simp: misjudged_def)
qed

lemma File_Read_result:
  assumes "lib_blob_ok K L D" and "file_ok D (c_world c) f" and "\<not> misjudged (fdata D (c_world c) f) (f_off f) (f_len f)"
  shows "\<exists>bytes e p' f' c' eof. File_Read K L p f c = Some (((length bytes, if e = None \<and> eof then Some io_EOF else e), bytes @ p'), f', c') \<and>
    read_to D (c_world c) f p bytes e p' f' (c_world c') \<and>
    (eof \<longrightarrow> e = None \<longrightarrow> bytes = [] \<and> length (fcontents D (c_world c) f) \<le> offset_in (fdata D (c_world c) f) (f_off f)) \<and>
    (e = None \<longrightarrow> p \<noteq> [] \<longrightarrow> bytes = [] \<longrightarrow> eof)"
proof -
  obtain bytes e p' f' c' where r: "File_read_loop K L [] p f c = Some (([] @ bytes, e), p', f', c') \<and> read_to D (c_world c) f p bytes e p' f' (c_world c')"
    using read_loop_result [OF assms, of "[]" p] by (elim exE)
  note to = conjunct2 [OF r]
  have run: "File_read_loop K L [] p f c = Some ((bytes, e), p', f', c')" "f_err f = None" using r assms(2) by (simp_all add: file_ok_def)
  show ?thesis
  proof (cases "e = None \<and> bytes = []")
    case False
    then have "File_Read K L p f c = Some (((length bytes, if e = None \<and> False then Some io_EOF else e), bytes @ p'), f', c')"
      using run unfolding File_Read_def by (cases e) simp_all
    moreover have "(e = None \<longrightarrow> p \<noteq> [] \<longrightarrow> bytes = [] \<longrightarrow> False)" using False by blast
    ultimately show ?thesis using to by (intro exI conjI) (assumption | simp)+
  next
    case True
    have ok: "file_ok D (c_world c') f'" "fdata D (c_world c') f' = fdata D (c_world c) f" "f_len f' = f_len f"
      and off: "offset_in (fdata D (c_world c) f) (f_off f') = offset_in (fdata D (c_world c) f) (f_off f)" and p': "length p' = length p"
      and gt: "p' \<noteq> [] \<longrightarrow> File_gt f' (f_len f') (f_off f') = Some False \<and> \<not> misjudged (fdata D (c_world c) f) (f_off f') (f_len f')"
      using to True by (auto simp: read_to_def Let_def)
    have nm: "\<not> misjudged (fdata D (c_world c') f') (f_off f') (f_len f')"
    proof (cases "p = []")
      case True
      then have "f' = f" using run(1) by (subst (asm) File_read_loop.simps) simp
      then show ?thesis using assms(3) ok by simp
    next
      case False
      then show ?thesis using gt p' ok by auto
    qed
    obtain b where b: "do { e \<leftarrow> File_eq f' (f_off f') (f_len f'); if e then Some True else File_gt f' (f_off f') (f_len f') } = Some b"
      "b \<longrightarrow> offset_in (fdata D (c_world c') f') (f_len f') \<le> offset_in (fdata D (c_world c') f') (f_off f')"
      "File_gt f' (f_len f') (f_off f') = Some False \<longrightarrow> b"
      using file_eof [OF ok(1)] nm by blast
    have "File_Read K L p f c = Some (((length bytes, if e = None \<and> b then Some io_EOF else e), bytes @ p'), f', c')"
      using run True b(1) by (auto simp: File_Read_def simp del: Option.bind_assoc)
    moreover have "b \<longrightarrow> length (fcontents D (c_world c) f) \<le> offset_in (fdata D (c_world c) f) (f_off f)"
      using b(2) ok(2,3) off length_fcontents [OF assms(2)] by simp
    then have "(b \<longrightarrow> e = None \<longrightarrow> bytes = [] \<and> length (fcontents D (c_world c) f) \<le> offset_in (fdata D (c_world c) f) (f_off f))" using True by simp
    moreover have "(e = None \<longrightarrow> p \<noteq> [] \<longrightarrow> bytes = [] \<longrightarrow> b)" using b(3) gt p' by auto
    ultimately show ?thesis using to by (intro exI conjI)
  qed
qed


section \<open>A file of two blobs\<close>

definition two_conn :: "store Conn" where
  "two_conn = store_conn\<lparr>c_world := (c_world store_conn)\<lparr>sw_next := 2, sw_data := (sw_data (c_world store_conn))(1 := ''ab'', 2 := ''cdef'')\<rparr>\<rparr>"

definition two_file :: "bbpos \<Rightarrow> bbpos \<Rightarrow> File" where
  "two_file off len = \<lparr>f_err = None,
     f_blobs = [\<lparr>b_blob = 1, b_buf = replicate blobBufSize (CHR 0x00), b_off = 0, b_size = 2\<rparr>, \<lparr>b_blob = 2, b_buf = replicate blobBufSize (CHR 0x00), b_off = 0, b_size = 4\<rparr>],
     f_rowids = [1, 2], f_off = off, f_len = len\<rparr>"

lemma two_data: "fdata store_view (c_world two_conn) (two_file off len) = [''ab'', ''cdef'']"
  by (simp add: fdata_def two_file_def two_conn_def store_view_def)

lemma two_ok:
  assumes "pos_ok [''ab'', ''cdef''] off" and "pos_ok [''ab'', ''cdef''] len"
  shows "file_ok store_view (c_world two_conn) (two_file off len)"
  using assms unfolding file_ok_def two_data by (simp add: two_file_def two_conn_def store_view_def blob_over_def)


section \<open>Where the comparison goes wrong\<close>

text \<open>At the start of a file that fills its two blobs, \<open>Read\<close> reports the end of the file.\<close>

lemma File_Read_loses_contents:
  "File_Read demo_K store_lib p (two_file start_pos \<lparr>bp_index = 1, bp_pos = 4\<rparr>) two_conn =
     Some (((0, Some io_EOF), p), two_file start_pos \<lparr>bp_index = 1, bp_pos = 4\<rparr>, two_conn)"
proof -
  let ?f = "two_file start_pos \<lparr>bp_index = 1, bp_pos = 4\<rparr>"
  have e: "File_eq ?f (f_len ?f) (f_off ?f) = Some True" "File_eq ?f (f_off ?f) (f_len ?f) = Some True"
    by (simp_all add: File_eq_def rem_zero_def File_rem_def blob_at_def two_file_def start_pos_def Blob_Size_def)
  then have "File_read_loop demo_K store_lib [] p ?f two_conn = Some (([], None), p, ?f, two_conn)"
    by (subst File_read_loop.simps) (simp add: File_gt_def)
  then show ?thesis using e by (simp add: File_Read_def two_file_def)
qed

text \<open>A size past the capacity is reduced by it before the search starts again: a file of six bytes that is to have seven gets the length one.\<close>

lemma Truncate_wrong_size:
  assumes "Blob_Size b1 = 2" and "Blob_Size b2 = 4" and "Blob_Size b3 = 8" and "f_blobs f = [b1, b2]" and "File_grow K L f c = Some (None, f', c')"
    and "f_blobs f' = [b1, b2, b3]"
  shows "File_Truncate K L 7 f c = do {
    (err, f, c) \<leftarrow> File_zero K L (f_len f') \<lparr>bp_index = 0, bp_pos = 1\<rparr> f' c';
    if err \<noteq> None then Some (err, f, c) else Some (None, f\<lparr>f_len := \<lparr>bp_index = 0, bp_pos = 1\<rparr>\<rparr>, c)
  }"
  using assms by (subst File_Truncate.simps, simp add: wrap64_def) (subst File_Truncate.simps, simp)

end
