(* ===== verification/IdGen.thy ===== *)
theory IdGen
  imports Prelude
begin

text \<open>
  The ID generator of func.go (type \<open>idGen\<close>) and the handle registries built on it.  SQLite
  hands back to Go only a \<open>void*\<close>, so every Go value that C code must name (scalar functions,
  aggregate factories and contexts, collations, auxiliary data in func.go; change readers and
  writers and apply callbacks in session.go) is filed in a map under an ID of an \<open>idGen\<close>.
  An ID in use must never be handed out again.
\<close>

section \<open>The generator\<close>

record idGen =
  bitset :: "uint64 list"

text \<open>\<open>bits.TrailingZeros64\<close> of Go's library: the position of the lowest set bit, 64 for 0.\<close>

definition TrailingZeros64 :: "uint64 \<Rightarrow> nat" where
  "TrailingZeros64 w = (case find (bit w) [0..<64] of None \<Rightarrow> 64 | Some n \<Rightarrow> n)"

text \<open>The loop of \<open>next\<close>: the first word that is not full gives its lowest clear bit; when
  every word is full, a word with only its low bit set is appended.\<close>

fun idGen_scan :: "nat \<Rightarrow> uint64 list \<Rightarrow> nat \<times> uint64 list" where
  "idGen_scan base [] = (base, [1])"
| "idGen_scan base (b # bs) =
     (if b \<noteq> - 1
      then let n = TrailingZeros64 (NOT b) in (base + n, (b OR push_bit n 1) # bs)
      else let (i, bs') = idGen_scan (base + 64) bs in (i, b # bs'))"

definition idGen_next :: "idGen \<Rightarrow> nat \<times> idGen" where
  "idGen_next gen = (let (i, bs) = idGen_scan 1 (bitset gen) in (i, gen\<lparr>bitset := bs\<rparr>))"

text \<open>\<open>reclaim\<close> clears the bit of an ID; \<open>None\<close> is the index-out-of-range panic (ID 0 wraps
  around to the largest \<open>uintptr\<close>, whose word no slice has).\<close>

definition idGen_reclaim :: "idGen \<Rightarrow> nat \<Rightarrow> idGen option" where
  "idGen_reclaim gen i =
     (if i = 0 \<or> length (bitset gen) \<le> (i - 1) div 64 then None
      else let k = (i - 1) div 64
           in Some (gen\<lparr>bitset := (bitset gen)[k := bitset gen ! k AND NOT (push_bit ((i - 1) mod 64) 1)]\<rparr>))"

text \<open>The IDs in use.\<close>

definition idGen_live :: "idGen \<Rightarrow> nat set" where
  "idGen_live gen = {i. 1 \<le> i \<and> word_bit (bitset gen) (i - 1)}"

lemma find_upt_Some_iff:
  "find P [0..<n] = Some k \<longleftrightarrow> k < n \<and> P k \<and> (\<forall>j < k. \<not> P j)"
  by (auto simp: find_Some_iff)

lemma TrailingZeros64_spec:
  assumes "w \<noteq> 0"
  shows "TrailingZeros64 w < 64 \<and> bit w (TrailingZeros64 w) \<and> (\<forall>j < TrailingZeros64 w. \<not> bit w j)"
proof -
  from assms obtain i where "bit w i" by (auto simp: bit_eq_iff)
  then have "i < 64" by (auto dest: bit_imp_le_length)
  with \<open>bit w i\<close> have "find (bit w) [0..<64] \<noteq> None" by (auto simp: find_None_iff)
  then obtain n where "find (bit w) [0..<64] = Some n" by blast
  moreover from this have "n < 64 \<and> bit w n \<and> (\<forall>j < n. \<not> bit w j)"
    by (simp add: find_upt_Some_iff)
  ultimately show ?thesis by (simp add: TrailingZeros64_def)
qed

text \<open>The scan takes the lowest clear bit of the vector and sets it.\<close>

lemma idGen_scan_spec:
  assumes "idGen_scan base bs = (i, bs')"
  shows "\<exists>k. i = base + k \<and> \<not> word_bit bs k \<and> (\<forall>j < k. word_bit bs j) \<and>
    (\<forall>j. word_bit bs' j \<longleftrightarrow> j = k \<or> word_bit bs j)"
  using assms
proof (induction base bs arbitrary: i bs' rule: idGen_scan.induct)
  case (1 base)
  then show ?case by (auto simp: bits_simps bit_1_iff split: if_splits)
next
  case (2 base b bs)
  show ?case
  proof (cases "b = - 1")
    case False
    then have "NOT b \<noteq> 0" by (metis bit.compl_zero bit.double_compl)
    from TrailingZeros64_spec [OF this] obtain n where n: "n = TrailingZeros64 (NOT b)"
      "n < 64" "\<not> bit b n" "\<forall>j < n. bit b j"
      by (auto simp: bit_not_iff)
    from 2(2) False n(1) have "i = base + n" "bs' = (b OR push_bit n 1) # bs"
      by (auto simp: Let_def)
    with n show ?thesis by (intro exI [of _ n]) (auto simp: bits_simps)
  next
    case True
    with 2(2) obtain bs2 where bs2: "idGen_scan (base + 64) bs = (i, bs2)" "bs' = b # bs2"
      by (auto simp: Let_def split: prod.splits)
    from 2(1) [of "i" bs2] True bs2(1) obtain k where k: "i = base + 64 + k" "\<not> word_bit bs k"
      "\<forall>j < k. word_bit bs j" "\<forall>j. word_bit bs2 j \<longleftrightarrow> j = k \<or> word_bit bs j"
      by auto
    have "\<forall>j < 64. bit b j" using True by simp
    with k bs2(2) show ?thesis by (intro exI [of _ "64 + k"]) (auto simp: bits_simps)
  qed
qed

lemma idGen_next_spec:
  assumes "idGen_next g = (i, g')"
  shows "1 \<le> i" "i \<notin> idGen_live g" "idGen_live g' = insert i (idGen_live g)"
    "1 \<le> j \<Longrightarrow> j < i \<Longrightarrow> j \<in> idGen_live g"
proof -
  from assms obtain bs where "idGen_scan 1 (bitset g) = (i, bs)" and g': "g' = g\<lparr>bitset := bs\<rparr>"
    by (auto simp: idGen_next_def Let_def split: prod.splits)
  from idGen_scan_spec [OF this(1)] obtain k where k: "i = 1 + k" "\<not> word_bit (bitset g) k"
    "\<forall>j < k. word_bit (bitset g) j" "\<forall>j. word_bit bs j \<longleftrightarrow> j = k \<or> word_bit (bitset g) j"
    by blast
  from k g' show "1 \<le> i" "i \<notin> idGen_live g" "idGen_live g' = insert i (idGen_live g)"
    "1 \<le> j \<Longrightarrow> j < i \<Longrightarrow> j \<in> idGen_live g"
    by (auto simp: idGen_live_def)
qed

lemma idGen_reclaim_spec:
  assumes "i \<in> idGen_live g"
  shows "\<exists>g'. idGen_reclaim g i = Some g' \<and> idGen_live g' = idGen_live g - {i}"
proof -
  define k where "k = (i - 1) div 64"
  from assms have i: "1 \<le> i" and k: "k < length (bitset g)"
    by (auto simp: idGen_live_def word_bit_def k_def)
  define bs where "bs = (bitset g)[k := bitset g ! k AND NOT (push_bit ((i - 1) mod 64) 1)]"
  have bs_bit: "word_bit bs j \<longleftrightarrow> word_bit (bitset g) j \<and> j \<noteq> i - 1" for j
  proof -
    have "j = i - 1 \<longleftrightarrow> j div 64 = k \<and> j mod 64 = (i - 1) mod 64"
      by (metis div_mult_mod_eq k_def)
    with k show ?thesis
      by (auto simp: bs_def word_bit_list_update bits_simps) (auto simp: word_bit_def)
  qed
  have "idGen_live (g\<lparr>bitset := bs\<rparr>) = idGen_live g - {i}"
  proof (rule set_eqI)
    fix j
    from i have "j - 1 = i - 1 \<longleftrightarrow> j = i" if "1 \<le> j" using that by arith
    then show "j \<in> idGen_live (g\<lparr>bitset := bs\<rparr>) \<longleftrightarrow> j \<in> idGen_live g - {i}"
      by (auto simp: idGen_live_def bs_bit)
  qed
  moreover have "idGen_reclaim g i = Some (g\<lparr>bitset := bs\<rparr>)"
    using i k by (simp add: idGen_reclaim_def Let_def bs_def k_def)
  ultimately show ?thesis by blast
qed

section \<open>The allocator interface and its clients\<close>

text \<open>What the registries rely on: a fresh ID is not in use, IDs are positive, and the set of
  IDs in use changes by exactly the ID handed out or taken back.\<close>

locale id_allocator =
  fixes nxt :: "'g \<Rightarrow> nat \<times> 'g"
    and rec :: "'g \<Rightarrow> nat \<Rightarrow> 'g option"
    and live :: "'g \<Rightarrow> nat set"
  assumes nxt_fresh: "nxt g = (i, g') \<Longrightarrow> i \<notin> live g"
    and nxt_pos: "nxt g = (i, g') \<Longrightarrow> 0 < i"
    and nxt_live: "nxt g = (i, g') \<Longrightarrow> live g' = insert i (live g)"
    and rec_live: "i \<in> live g \<Longrightarrow> \<exists>g'. rec g i = Some g' \<and> live g' = live g - {i}"

interpretation idgen: id_allocator idGen_next idGen_reclaim idGen_live
proof unfold_locales
  fix g i g'
  assume "idGen_next g = (i, g')"
  from idGen_next_spec [OF this] show "i \<notin> idGen_live g" "0 < i" "idGen_live g' = insert i (idGen_live g)"
    by simp_all
next
  fix i g
  assume "i \<in> idGen_live g"
  then show "\<exists>g'. idGen_reclaim g i = Some g' \<and> idGen_live g' = idGen_live g - {i}"
    by (rule idGen_reclaim_spec)
qed

section \<open>Handle registries\<close>

text \<open>A registry is a Go map from IDs to values beside the generator of its IDs; the mutex that
  guards both makes each operation atomic.  \<open>reg_add\<close> is the common shape of every
  registration in the source (an ID is drawn and the value stored under it), \<open>reg_del\<close> of every
  removal (the entry is deleted and the ID given back).\<close>

record ('a, 'g) registry =
  reg_m :: "nat \<rightharpoonup> 'a"
  reg_ids :: 'g

definition reg_add :: "('g \<Rightarrow> nat \<times> 'g) \<Rightarrow> 'a \<Rightarrow> ('a, 'g) registry \<Rightarrow> nat \<times> ('a, 'g) registry" where
  "reg_add nxt v r = (let (i, g) = nxt (reg_ids r) in (i, r\<lparr>reg_m := (reg_m r)(i \<mapsto> v), reg_ids := g\<rparr>))"

definition reg_del :: "('g \<Rightarrow> nat \<Rightarrow> 'g option) \<Rightarrow> nat \<Rightarrow> ('a, 'g) registry \<Rightarrow> ('a, 'g) registry option" where
  "reg_del rec i r =
     (case rec (reg_ids r) i of
        None \<Rightarrow> None
      | Some g \<Rightarrow> Some (r\<lparr>reg_m := (reg_m r)(i := None), reg_ids := g\<rparr>))"

text \<open>The registries of the library: the zero generator and an empty map at start.\<close>

type_synonym 'a handles = "('a, idGen) registry"

definition handles_init :: "'a handles" where
  "handles_init = \<lparr>reg_m = Map.empty, reg_ids = \<lparr>bitset = []\<rparr>\<rparr>"

definition registerStreamReader :: "'r \<Rightarrow> 'r handles \<Rightarrow> nat \<times> 'r handles" where
  "registerStreamReader r streamReaders = reg_add idGen_next r streamReaders"

definition unregisterStreamReader :: "nat \<Rightarrow> 'r handles \<Rightarrow> 'r handles option" where
  "unregisterStreamReader pIn streamReaders = reg_del idGen_reclaim pIn streamReaders"

definition registerStreamWriter :: "'r \<Rightarrow> 'r handles \<Rightarrow> nat \<times> 'r handles" where
  "registerStreamWriter w streamWriters = reg_add idGen_next w streamWriters"

definition unregisterStreamWriter :: "nat \<Rightarrow> 'r handles \<Rightarrow> 'r handles option" where
  "unregisterStreamWriter pOut streamWriters = reg_del idGen_reclaim pOut streamWriters"

definition destroyScalarFunc :: "nat \<Rightarrow> 'f handles \<Rightarrow> 'f handles option" where
  "destroyScalarFunc i xfuncs = reg_del idGen_reclaim i xfuncs"

definition destroyAggregateFunc :: "nat \<Rightarrow> 'f handles \<Rightarrow> 'f handles option" where
  "destroyAggregateFunc i xAggregateFactories = reg_del idGen_reclaim i xAggregateFactories"

definition destroyCollation :: "nat \<Rightarrow> 'f handles \<Rightarrow> 'f handles option" where
  "destroyCollation i xcollations = reg_del idGen_reclaim i xcollations"

definition freeAuxData :: "nat \<Rightarrow> 'd handles \<Rightarrow> 'd handles option" where
  "freeAuxData i auxdata = reg_del idGen_reclaim i auxdata"

text \<open>The states a registry can reach: registrations at any time, removals of handles that are
  registered.\<close>

inductive handles_reachable :: "'a handles \<Rightarrow> bool" where
  init: "handles_reachable handles_init"
| add: "handles_reachable r \<Longrightarrow> reg_add idGen_next v r = (i, r') \<Longrightarrow> handles_reachable r'"
| del: "handles_reachable r \<Longrightarrow> reg_m r i \<noteq> None \<Longrightarrow> reg_del idGen_reclaim i r = Some r' \<Longrightarrow>
    handles_reachable r'"

inductive_cases handles_reachableE: "handles_reachable r"

text \<open>The representation invariant: the entries are exactly the IDs in use.\<close>

definition reg_inv :: "('g \<Rightarrow> nat set) \<Rightarrow> ('a, 'g) registry \<Rightarrow> bool" where
  "reg_inv live r \<longleftrightarrow> dom (reg_m r) = live (reg_ids r)"

context id_allocator
begin

lemma add_inv:
  assumes "reg_inv live r" and "reg_add nxt v r = (i, r')"
  shows "reg_inv live r'" and "0 < i" and "reg_m r i = None" and "reg_m r' = (reg_m r)(i \<mapsto> v)"
proof -
  from assms(2) obtain g where g: "nxt (reg_ids r) = (i, g)"
    and r': "r' = r\<lparr>reg_m := (reg_m r)(i \<mapsto> v), reg_ids := g\<rparr>"
    by (auto simp: reg_add_def Let_def split: prod.splits)
  from nxt_live [OF g] nxt_fresh [OF g] assms(1) r'
  show "reg_inv live r'" "reg_m r i = None" "reg_m r' = (reg_m r)(i \<mapsto> v)"
    by (auto simp: reg_inv_def)
  from nxt_pos [OF g] show "0 < i" .
qed

lemma del_inv:
  assumes "reg_inv live r" and "reg_m r i \<noteq> None"
  shows "\<exists>r'. reg_del rec i r = Some r' \<and> reg_inv live r' \<and> reg_m r' = (reg_m r)(i := None)"
proof -
  from assms have "i \<in> live (reg_ids r)" by (auto simp: reg_inv_def)
  from rec_live [OF this] assms(1) show ?thesis
    by (auto simp: reg_del_def reg_inv_def)
qed

end

lemma handles_reachable_inv: "handles_reachable r \<Longrightarrow> reg_inv idGen_live r"
proof (induction rule: handles_reachable.induct)
  case init
  show ?case by (simp add: reg_inv_def handles_init_def idGen_live_def bits_simps)
next
  case (add r v i r')
  then show ?case by (blast intro: idgen.add_inv)
next
  case (del r i r')
  with idgen.del_inv [of r i] show ?case by auto
qed

section \<open>Properties\<close>

text \<open>C29: \<open>idGen.next\<close> returns a positive ID that is not in use, the smallest such, and the IDs
  in use afterwards are those before and that one.\<close>

theorem idGen_next_smallest_fresh:
  assumes "idGen_next g = (i, g')"
  shows "1 \<le> i \<and> i \<notin> idGen_live g \<and> idGen_live g' = insert i (idGen_live g) \<and>
    (\<forall>j. 1 \<le> j \<and> j < i \<longrightarrow> j \<in> idGen_live g)"
  using idGen_next_spec [OF assms] by blast

theorem idGen_next_smallest_fresh_witness:
  "idGen_next \<lparr>bitset = [5]\<rparr> = (2, \<lparr>bitset = [7]\<rparr>) \<and> 2 \<notin> idGen_live \<lparr>bitset = [5]\<rparr>"
proof -
  have "idGen_next \<lparr>bitset = [5]\<rparr> = (2, \<lparr>bitset = [7]\<rparr>)" by code_simp
  with idGen_next_smallest_fresh [OF this] show ?thesis by blast
qed

text \<open>C5: in every state a handle registry can reach, registering a value hands out a handle that
  is not in use, stores the value under it and leaves every other handle alone; removing a
  registered handle never panics, frees exactly that handle, and leaves the others alone.\<close>

theorem handles_never_shared:
  assumes "handles_reachable r"
  shows "(\<forall>v i r'. reg_add idGen_next v r = (i, r') \<longrightarrow>
        0 < i \<and> reg_m r i = None \<and> reg_m r' = (reg_m r)(i \<mapsto> v) \<and> handles_reachable r') \<and>
    (\<forall>j. reg_m r j \<noteq> None \<longrightarrow> (\<exists>r'. reg_del idGen_reclaim j r = Some r' \<and>
        reg_m r' = (reg_m r)(j := None) \<and> handles_reachable r'))"
proof -
  note inv = handles_reachable_inv [OF assms]
  have "0 < i \<and> reg_m r i = None \<and> reg_m r' = (reg_m r)(i \<mapsto> v) \<and> handles_reachable r'"
    if "reg_add idGen_next v r = (i, r')" for v i r'
    using idgen.add_inv [OF inv that] handles_reachable.add [OF assms that] by blast
  moreover have "\<exists>r'. reg_del idGen_reclaim j r = Some r' \<and> reg_m r' = (reg_m r)(j := None) \<and>
      handles_reachable r'" if "reg_m r j \<noteq> None" for j
    using idgen.del_inv [OF inv that] handles_reachable.del [OF assms that] by blast
  ultimately show ?thesis by blast
qed

theorem handles_never_shared_witness:
  "handles_reachable (snd (registerStreamReader (7::nat) handles_init)) \<and>
   (\<exists>r'. reg_del idGen_reclaim 1 (snd (registerStreamReader (7::nat) handles_init)) = Some r' \<and>
      reg_m r' = Map.empty)"
proof -
  let ?r = "snd (registerStreamReader (7::nat) handles_init)"
  have m: "reg_m ?r = [1 \<mapsto> 7]"
    by (simp add: registerStreamReader_def reg_add_def handles_init_def idGen_next_def)
  have r: "handles_reachable ?r"
    unfolding registerStreamReader_def
    by (rule handles_reachable.add [OF handles_reachable.init]) (rule surjective_pairing)
  have "reg_m ?r 1 \<noteq> None" by (simp add: m)
  with handles_never_shared [OF r] obtain r' where
    "reg_del idGen_reclaim 1 ?r = Some r'" "reg_m r' = (reg_m ?r)(1 := None)" by blast
  with r m show ?thesis by auto
qed

end
