(* ===== verification/Funcs.thy ===== *)
theory Funcs
  imports Blob IdGen
begin

text \<open>
  Application-defined SQL functions, collations and auxiliary data (func.go).  SQLite knows a Go function only by its handle, the ID under which it is filed in a
  table of the package, and calls it through a trampoline.  Go functions and aggregate objects are references (numbers); what they do is the parameter \<open>go_code\<close>.
  SQLite is the parameter \<open>fn_lib\<close>; a call in which SQLite runs destructors returns the list of their handles.
\<close>

section \<open>State and parameters\<close>

record Context =
  cx_tls :: nat
  cx_ptr :: nat

datatype fn_handle = H_scalar nat | H_aggregate nat | H_collation nat | H_aux nat

text \<open>The calls of the \<open>sqlite3_result\<close> family; \<open>R_error\<close> stands for the text of the error and its code.\<close>

datatype sql_result =
    R_value nat
  | R_null
  | R_int64 int
  | R_double uint64
  | R_text gostring int
  | R_blob gostring int
  | R_error go_error int

text \<open>\<open>error_text\<close> is the method \<open>Error\<close>.  A collation without handle is removed.\<close>

record 'w fn_lib = "'w sqlite_lib" +
  error_text :: "go_error \<Rightarrow> gostring"
  x_user_data :: "nat \<Rightarrow> 'w \<Rightarrow> nat"
  x_aggregate_context :: "nat \<Rightarrow> 'w \<Rightarrow> nat \<times> 'w"
  x_result :: "nat \<Rightarrow> sql_result \<Rightarrow> 'w \<Rightarrow> 'w"
  x_create_function :: "gostring \<Rightarrow> int \<Rightarrow> int \<Rightarrow> nat \<Rightarrow> 'w \<Rightarrow> (int \<times> fn_handle list) \<times> 'w"
  x_create_window_function :: "gostring \<Rightarrow> int \<Rightarrow> int \<Rightarrow> nat \<Rightarrow> 'w \<Rightarrow> (int \<times> fn_handle list) \<times> 'w"
  x_create_collation :: "gostring \<Rightarrow> nat option \<Rightarrow> 'w \<Rightarrow> (int \<times> fn_handle list) \<times> 'w"
  x_get_auxdata :: "nat \<Rightarrow> int \<Rightarrow> 'w \<Rightarrow> nat"
  x_set_auxdata :: "nat \<Rightarrow> int \<Rightarrow> nat \<Rightarrow> 'w \<Rightarrow> fn_handle list \<times> 'w"

text \<open>The tables of the package; \<open>fn_cells\<close> is the memory that \<open>sqlite3_aggregate_context\<close> hands out, by address, zero at first.\<close>

record 'w fn_state =
  fn_xfuncs :: "nat handles"
  fn_factories :: "nat handles"
  fn_aggs :: "nat handles"
  fn_collations :: "nat handles"
  fn_auxdata :: "nat handles"
  fn_cells :: "nat \<Rightarrow> nat"
  fn_world :: 'w

text \<open>What the Go functions do: they may run SQL themselves, so they work on the whole state.  \<open>None\<close> is a panic.\<close>

record 'w go_code =
  g_scalar :: "nat \<Rightarrow> Context \<Rightarrow> Value list \<Rightarrow> 'w fn_state \<Rightarrow> ((Value \<times> error) \<times> 'w fn_state) option"
  g_factory :: "nat \<Rightarrow> Context \<Rightarrow> 'w fn_state \<Rightarrow> ((nat option \<times> error) \<times> 'w fn_state) option"
  g_Step :: "nat \<Rightarrow> Context \<Rightarrow> Value list \<Rightarrow> 'w fn_state \<Rightarrow> (error \<times> 'w fn_state) option"
  g_WindowInverse :: "nat \<Rightarrow> Context \<Rightarrow> Value list \<Rightarrow> 'w fn_state \<Rightarrow> (error \<times> 'w fn_state) option"
  g_WindowValue :: "nat \<Rightarrow> Context \<Rightarrow> 'w fn_state \<Rightarrow> ((Value \<times> error) \<times> 'w fn_state) option"
  g_Finalize :: "nat \<Rightarrow> Context \<Rightarrow> 'w fn_state \<Rightarrow> 'w fn_state option"
  g_compare :: "nat \<Rightarrow> gostring \<Rightarrow> gostring \<Rightarrow> int"

section \<open>Results\<close>

definition set_result :: "('w, 'm) fn_lib_scheme \<Rightarrow> Context \<Rightarrow> sql_result \<Rightarrow> 'w fn_state \<Rightarrow> 'w fn_state" where
  "set_result L ctx r s = s\<lparr>fn_world := x_result L (cx_ptr ctx) r (fn_world s)\<rparr>"

definition resultError :: "lib_consts \<Rightarrow> ('w, 'm) fn_lib_scheme \<Rightarrow> Context \<Rightarrow> go_error \<Rightarrow> 'w fn_state \<Rightarrow> 'w fn_state option" where
  "resultError K L ctx e s = (case x_cstring L (error_text L e) (fn_world s) of (err, w) \<Rightarrow>
     if err \<noteq> None then None else Some (set_result L ctx (R_error e (wrap32 (ErrCode K (Some e)))) (s\<lparr>fn_world := w\<rparr>)))"

text \<open>A text or a blob is copied into memory of C, unless it is empty.\<close>

definition result_bytes :: "lib_consts \<Rightarrow> ('w, 'm) fn_lib_scheme \<Rightarrow> Context \<Rightarrow> gostring \<Rightarrow> (gostring \<Rightarrow> int \<Rightarrow> sql_result) \<Rightarrow>
    ('w \<Rightarrow> error \<times> 'w) \<Rightarrow> 'w fn_state \<Rightarrow> 'w fn_state option" where
  "result_bytes K L ctx bytes mk alloc s =
     (if length bytes = 0 then Some (set_result L ctx (mk '''' 0) s)
      else case alloc (fn_world s) of (err, w) \<Rightarrow> let s = s\<lparr>fn_world := w\<rparr> in
        if err \<noteq> None then resultError K L ctx (Errorf ''alloc function result: %w'' (the err)) s
        else Some (set_result L ctx (mk bytes (wrap32 (int (length bytes)))) s))"

definition malloc :: "('w, 'm) sqlite_lib_scheme \<Rightarrow> nat \<Rightarrow> 'w \<Rightarrow> error \<times> 'w" where
  "malloc L n w = (case x_malloc L n w of (ok, w) \<Rightarrow> (if ok then None else Some (ErrorString ''out of memory''), w))"

definition Context_result :: "lib_consts \<Rightarrow> ('w, 'm) fn_lib_scheme \<Rightarrow> Context \<Rightarrow> Value \<Rightarrow> error \<Rightarrow> 'w fn_state \<Rightarrow> 'w fn_state option" where
  "Context_result K L ctx v err s =
     (case err of
        Some e \<Rightarrow> resultError K L ctx e s
      | None \<Rightarrow>
          (case v_tls v of
             Some tls \<Rightarrow>
               if cx_tls ctx \<noteq> tls then resultError K L ctx (ErrorString ''function result Value from different connection'') s
               else Some (set_result L ctx (R_value (ptrOrType v)) s)
           | None \<Rightarrow>
               let t = int (ptrOrType v) in
               if t = 0 \<or> t = TypeNull K then Some (set_result L ctx R_null s)
               else if t = TypeInteger K then Some (set_result L ctx (R_int64 (v_n v)) s)
               else if t = TypeFloat K then Some (set_result L ctx (R_double (Value_float v)) s)
               else if t = TypeText K then result_bytes K L ctx (v_s v) R_text (x_cstring L (v_s v)) s
               else if t = TypeBlob K then result_bytes K L ctx (v_s v) R_blob (malloc L (length (v_s v))) s
               else None))"

section \<open>Destructors\<close>

definition destroy :: "fn_handle \<Rightarrow> 'w fn_state \<Rightarrow> 'w fn_state option" where
  "destroy h s = (case h of
     H_scalar i \<Rightarrow> map_option (\<lambda>r. s\<lparr>fn_xfuncs := r\<rparr>) (destroyScalarFunc i (fn_xfuncs s))
   | H_aggregate i \<Rightarrow> map_option (\<lambda>r. s\<lparr>fn_factories := r\<rparr>) (destroyAggregateFunc i (fn_factories s))
   | H_collation i \<Rightarrow> map_option (\<lambda>r. s\<lparr>fn_collations := r\<rparr>) (destroyCollation i (fn_collations s))
   | H_aux i \<Rightarrow> map_option (\<lambda>r. s\<lparr>fn_auxdata := r\<rparr>) (freeAuxData i (fn_auxdata s)))"

fun destroy_all :: "fn_handle list \<Rightarrow> 'w fn_state \<Rightarrow> 'w fn_state option" where
  "destroy_all [] s = Some s"
| "destroy_all (h # hs) s = do { s \<leftarrow> destroy h s; destroy_all hs s }"

text \<open>A call during which SQLite runs destructors.\<close>

definition calls_back :: "('w \<Rightarrow> ('r \<times> fn_handle list) \<times> 'w) \<Rightarrow> 'w fn_state \<Rightarrow> ('r \<times> 'w fn_state) option" where
  "calls_back f s = (case f (fn_world s) of ((r, hs), w) \<Rightarrow> map_option (\<lambda>s. (r, s)) (destroy_all hs (s\<lparr>fn_world := w\<rparr>)))"

section \<open>Registering functions\<close>

record FunctionImpl =
  fi_NArgs :: int
  fi_Scalar :: "nat option"
  fi_MakeAggregate :: "nat option"
  fi_Deterministic :: bool
  fi_AllowIndirect :: bool

definition text_rep :: "lib_consts \<Rightarrow> FunctionImpl \<Rightarrow> int" where
  "text_rep K impl =
     (let r = K ''SQLITE_UTF8'';
          r = (if fi_Deterministic impl then r OR K ''SQLITE_DETERMINISTIC'' else r)
      in if \<not> fi_AllowIndirect impl then r OR K ''SQLITE_DIRECTONLY'' else r)"

definition create_prefix :: "gostring \<Rightarrow> gostring" where "create_prefix name = ''sqlite: create function '' @ name @ '': ''"

text \<open>The checks before anything is registered.\<close>

definition function_error :: "bool \<Rightarrow> gostring \<Rightarrow> FunctionImpl \<Rightarrow> error" where
  "function_error nilConn name impl =
     (if nilConn then Some (ErrorString ''sqlite: create function: nil connection'')
      else if name = '''' then Some (ErrorString ''sqlite: create function: no name provided'')
      else if 127 < fi_NArgs impl then Some (ErrorString (create_prefix name @ ''too many permitted arguments ('' @ FormatInt (fi_NArgs impl) @ '')''))
      else if fi_Scalar impl = None \<and> fi_MakeAggregate impl = None then Some (ErrorString (create_prefix name @ ''must specify one of Scalar or MakeAggregate''))
      else if fi_Scalar impl \<noteq> None \<and> fi_MakeAggregate impl \<noteq> None then Some (ErrorString (create_prefix name @ ''both Scalar and MakeAggregate specified''))
      else None)"

definition CreateFunction :: "lib_consts \<Rightarrow> ('w, 'm) fn_lib_scheme \<Rightarrow> bool \<Rightarrow> gostring \<Rightarrow> FunctionImpl \<Rightarrow> 'w fn_state \<Rightarrow> (error \<times> 'w fn_state) option" where
  "CreateFunction K L nilConn name impl s =
     (if function_error nilConn name impl \<noteq> None then Some (function_error nilConn name impl, s)
      else case x_cstring L name (fn_world s) of (err, w) \<Rightarrow> let s = s\<lparr>fn_world := w\<rparr> in
        if err \<noteq> None then Some (errorf_w (create_prefix name @ ''%w'') err, s)
        else let numArgs = (if fi_NArgs impl < 0 then -1 else fi_NArgs impl) in do {
          (res, s) \<leftarrow> (case fi_Scalar impl of
             Some f \<Rightarrow> (case reg_add idGen_next f (fn_xfuncs s) of (i, r) \<Rightarrow>
               calls_back (x_create_function L name numArgs (text_rep K impl) i) (s\<lparr>fn_xfuncs := r\<rparr>))
           | None \<Rightarrow> (case reg_add idGen_next (the (fi_MakeAggregate impl)) (fn_factories s) of (i, r) \<Rightarrow>
               calls_back (x_create_window_function L name numArgs (text_rep K impl) i) (s\<lparr>fn_factories := r\<rparr>)));
          Some (wrap_error (create_prefix name @ ''%w'') (ToError K res), s)
        })"

definition collation_text :: "nat option \<Rightarrow> gostring \<Rightarrow> gostring" where
  "collation_text compare rest = ''sqlite: '' @ (if compare = None then ''remove'' else ''create'') @ '' collation'' @ rest"

text \<open>When SQLite refuses a collation it does not run the destructor, so the code does.\<close>

definition SetCollation :: "lib_consts \<Rightarrow> ('w, 'm) fn_lib_scheme \<Rightarrow> bool \<Rightarrow> gostring \<Rightarrow> nat option \<Rightarrow> 'w fn_state \<Rightarrow> (error \<times> 'w fn_state) option" where
  "SetCollation K L nilConn name compare s =
     (if nilConn then Some (Some (ErrorString (collation_text compare '': nil connection'')), s)
      else if name = '''' then Some (Some (ErrorString (collation_text compare '': no name provided'')), s)
      else case x_cstring L name (fn_world s) of (err, w) \<Rightarrow> let s = s\<lparr>fn_world := w\<rparr>; fmt = collation_text compare ('' '' @ name @ '': %w'') in
        if err \<noteq> None then Some (Some (ErrorString (collation_text compare '': no name provided'')), s)
        else case compare of
          None \<Rightarrow> do {
            (res, s) \<leftarrow> calls_back (x_create_collation L name None) s;
            Some (wrap_error fmt (ToError K res), s)
          }
        | Some f \<Rightarrow> (case reg_add idGen_next f (fn_collations s) of (i, r) \<Rightarrow> do {
            (res, s) \<leftarrow> calls_back (x_create_collation L name (Some i)) (s\<lparr>fn_collations := r\<rparr>);
            (case ToError K res of
               None \<Rightarrow> Some (None, s)
             | Some e \<Rightarrow> do { s \<leftarrow> destroy (H_collation i) s; Some (Some (Errorf fmt e), s) })
          }))"

definition AuxData :: "('w, 'm) fn_lib_scheme \<Rightarrow> Context \<Rightarrow> int \<Rightarrow> 'w fn_state \<Rightarrow> nat option" where
  "AuxData L ctx arg s = (let i = x_get_auxdata L (cx_ptr ctx) (wrap32 arg) (fn_world s) in if i = 0 then None else reg_m (fn_auxdata s) i)"

definition SetAuxData :: "('w, 'm) fn_lib_scheme \<Rightarrow> Context \<Rightarrow> int \<Rightarrow> nat \<Rightarrow> 'w fn_state \<Rightarrow> 'w fn_state option" where
  "SetAuxData L ctx arg data s = (case reg_add idGen_next data (fn_auxdata s) of (i, r) \<Rightarrow>
     map_option snd (calls_back (\<lambda>w. case x_set_auxdata L (cx_ptr ctx) (wrap32 arg) i w of (hs, w) \<Rightarrow> (((), hs), w)) (s\<lparr>fn_auxdata := r\<rparr>)))"

section \<open>Trampolines\<close>

text \<open>The arguments: \<open>n\<close> pointers to values of SQLite.\<close>

definition args_of :: "nat \<Rightarrow> nat list \<Rightarrow> Value list" where
  "args_of tls valarray = map (\<lambda>p. zero_Value\<lparr>v_tls := Some tls, ptrOrType := p\<rparr>) valarray"

text \<open>A call of a function that is not in the table is the panic of a nil function.\<close>

definition funcTrampoline :: "lib_consts \<Rightarrow> ('w, 'm) fn_lib_scheme \<Rightarrow> 'w go_code \<Rightarrow> Context \<Rightarrow> nat list \<Rightarrow> 'w fn_state \<Rightarrow> 'w fn_state option" where
  "funcTrampoline K L G ctx valarray s = do {
     x \<leftarrow> reg_m (fn_xfuncs s) (x_user_data L (cx_ptr ctx) (fn_world s));
     ((v, err), s) \<leftarrow> g_scalar G x ctx (args_of (cx_tls ctx) valarray) s;
     Context_result K L ctx v err s
   }"

definition no_aggregate :: "lib_consts \<Rightarrow> ('w, 'm) fn_lib_scheme \<Rightarrow> Context \<Rightarrow> go_error \<Rightarrow> 'w fn_state \<Rightarrow> ((nat option \<times> nat) \<times> 'w fn_state) option" where
  "no_aggregate K L ctx e s = map_option (\<lambda>s. ((None, 0), s)) (resultError K L ctx e s)"

definition makeAggregate :: "lib_consts \<Rightarrow> ('w, 'm) fn_lib_scheme \<Rightarrow> 'w go_code \<Rightarrow> Context \<Rightarrow> 'w fn_state \<Rightarrow> ((nat option \<times> nat) \<times> 'w fn_state) option" where
  "makeAggregate K L G ctx s = (case x_aggregate_context L (cx_ptr ctx) (fn_world s) of (aggCtx, w) \<Rightarrow> let s = s\<lparr>fn_world := w\<rparr> in
     if aggCtx = 0 then no_aggregate K L ctx (ErrorString ''insufficient memory for aggregate'') s
     else if fn_cells s aggCtx \<noteq> 0 then Some ((reg_m (fn_aggs s) (fn_cells s aggCtx), fn_cells s aggCtx), s)
     else do {
       factory \<leftarrow> reg_m (fn_factories s) (x_user_data L (cx_ptr ctx) (fn_world s));
       ((f, err), s) \<leftarrow> g_factory G factory ctx s;
       (case err of
          Some e \<Rightarrow> no_aggregate K L ctx e s
        | None \<Rightarrow> (case f of
            None \<Rightarrow> no_aggregate K L ctx (ErrorString ''MakeAggregate function returned nil'') s
          | Some x \<Rightarrow> (case reg_add idGen_next x (fn_aggs s) of (i, r) \<Rightarrow> Some ((Some x, i), s\<lparr>fn_aggs := r, fn_cells := (fn_cells s)(aggCtx := i)\<rparr>))))
     })"

definition report :: "lib_consts \<Rightarrow> ('w, 'm) fn_lib_scheme \<Rightarrow> Context \<Rightarrow> error \<Rightarrow> 'w fn_state \<Rightarrow> 'w fn_state option" where
  "report K L ctx err s = (case err of Some e \<Rightarrow> resultError K L ctx e s | None \<Rightarrow> Some s)"

definition stepTrampoline :: "lib_consts \<Rightarrow> ('w, 'm) fn_lib_scheme \<Rightarrow> 'w go_code \<Rightarrow> Context \<Rightarrow> nat list \<Rightarrow> 'w fn_state \<Rightarrow> 'w fn_state option" where
  "stepTrampoline K L G ctx valarray s = do {
     ((x, _), s) \<leftarrow> makeAggregate K L G ctx s;
     (case x of
        None \<Rightarrow> Some s
      | Some x \<Rightarrow> do {
          (err, s) \<leftarrow> g_Step G x ctx (args_of (cx_tls ctx) valarray) s;
          report K L ctx err s
        })
   }"

definition finalTrampoline :: "lib_consts \<Rightarrow> ('w, 'm) fn_lib_scheme \<Rightarrow> 'w go_code \<Rightarrow> Context \<Rightarrow> 'w fn_state \<Rightarrow> 'w fn_state option" where
  "finalTrampoline K L G ctx s = do {
     ((x, i), s) \<leftarrow> makeAggregate K L G ctx s;
     (case x of
        None \<Rightarrow> Some s
      | Some x \<Rightarrow> do {
          ((v, err), s) \<leftarrow> g_WindowValue G x ctx s;
          s \<leftarrow> Context_result K L ctx v err s;
          s \<leftarrow> g_Finalize G x ctx s;
          r \<leftarrow> reg_del idGen_reclaim i (fn_aggs s);
          Some (s\<lparr>fn_aggs := r\<rparr>)
        })
   }"

definition valueTrampoline :: "lib_consts \<Rightarrow> ('w, 'm) fn_lib_scheme \<Rightarrow> 'w go_code \<Rightarrow> Context \<Rightarrow> 'w fn_state \<Rightarrow> 'w fn_state option" where
  "valueTrampoline K L G ctx s = do {
     ((x, _), s) \<leftarrow> makeAggregate K L G ctx s;
     (case x of
        None \<Rightarrow> Some s
      | Some x \<Rightarrow> do {
          ((v, err), s) \<leftarrow> g_WindowValue G x ctx s;
          Context_result K L ctx v err s
        })
   }"

definition inverseTrampoline :: "lib_consts \<Rightarrow> ('w, 'm) fn_lib_scheme \<Rightarrow> 'w go_code \<Rightarrow> Context \<Rightarrow> nat list \<Rightarrow> 'w fn_state \<Rightarrow> 'w fn_state option" where
  "inverseTrampoline K L G ctx valarray s = do {
     ((x, _), s) \<leftarrow> makeAggregate K L G ctx s;
     (case x of
        None \<Rightarrow> Some s
      | Some x \<Rightarrow> do {
          (err, s) \<leftarrow> g_WindowInverse G x ctx (args_of (cx_tls ctx) valarray) s;
          report K L ctx err s
        })
   }"

definition collationTrampoline :: "'w go_code \<Rightarrow> nat \<Rightarrow> gostring \<Rightarrow> gostring \<Rightarrow> 'w fn_state \<Rightarrow> int option" where
  "collationTrampoline G i s1 s2 s = map_option (\<lambda>f. let x = g_compare G f s1 s2 in if 0 < x then 1 else if x < 0 then -1 else 0) (reg_m (fn_collations s) i)"

section \<open>Handles of SQLite and entries of the tables\<close>

definition fn_find :: "'w fn_state \<Rightarrow> fn_handle \<Rightarrow> nat option" where
  "fn_find s h = (case h of
     H_scalar i \<Rightarrow> reg_m (fn_xfuncs s) i | H_aggregate i \<Rightarrow> reg_m (fn_factories s) i
   | H_collation i \<Rightarrow> reg_m (fn_collations s) i | H_aux i \<Rightarrow> reg_m (fn_auxdata s) i)"

definition tables_ok :: "'w fn_state \<Rightarrow> bool" where
  "tables_ok s \<longleftrightarrow> reg_inv idGen_live (fn_xfuncs s) \<and> reg_inv idGen_live (fn_factories s) \<and> reg_inv idGen_live (fn_collations s) \<and>
     reg_inv idGen_live (fn_auxdata s)"

text \<open>\<open>R w\<close> are the handles that SQLite holds: every one has its entry, and there are no others.\<close>

definition fn_inv :: "('w \<Rightarrow> fn_handle set) \<Rightarrow> 'w fn_state \<Rightarrow> bool" where
  "fn_inv R s \<longleftrightarrow> tables_ok s \<and> (\<forall>h. fn_find s h \<noteq> None \<longleftrightarrow> h \<in> R (fn_world s))"

text \<open>What SQLite documents of destructors.  Registering a function replaces others, whose destructors run; if it fails the destructor of the new one runs.  That is not so for
  collations.  The destructor of auxiliary data may run at once.\<close>

definition registers :: "('w \<Rightarrow> fn_handle set) \<Rightarrow> fn_handle \<Rightarrow> bool \<Rightarrow> fn_handle list \<Rightarrow> 'w \<Rightarrow> 'w \<Rightarrow> bool" where
  "registers R h ok hs w w' \<longleftrightarrow> distinct hs \<and> set hs \<subseteq> insert h (R w) \<and> R w' = insert h (R w) - set hs \<and> (ok \<longleftrightarrow> h \<notin> set hs)"

definition lib_fn_ok :: "lib_consts \<Rightarrow> ('w, 'm) fn_lib_scheme \<Rightarrow> ('w \<Rightarrow> fn_handle set) \<Rightarrow> bool" where
  "lib_fn_ok K L R \<longleftrightarrow>
     (\<forall>name n r i w res hs w'. x_create_function L name n r i w = ((res, hs), w') \<longrightarrow> H_scalar i \<notin> R w \<longrightarrow> registers R (H_scalar i) (IsSuccess K res) hs w w') \<and>
     (\<forall>name n r i w res hs w'. x_create_window_function L name n r i w = ((res, hs), w') \<longrightarrow> H_aggregate i \<notin> R w \<longrightarrow>
        registers R (H_aggregate i) (IsSuccess K res) hs w w') \<and>
     (\<forall>name i w res hs w'. x_create_collation L name (Some i) w = ((res, hs), w') \<longrightarrow> H_collation i \<notin> R w \<longrightarrow>
        (if IsSuccess K res then registers R (H_collation i) True hs w w' else distinct hs \<and> set hs \<subseteq> R w \<and> R w' = R w - set hs)) \<and>
     (\<forall>name w res hs w'. x_create_collation L name None w = ((res, hs), w') \<longrightarrow> distinct hs \<and> set hs \<subseteq> R w \<and> R w' = R w - set hs) \<and>
     (\<forall>p n i w hs w'. x_set_auxdata L p n i w = (hs, w') \<longrightarrow> H_aux i \<notin> R w \<longrightarrow> registers R (H_aux i) (H_aux i \<notin> set hs) hs w w') \<and>
     (\<forall>q w e w'. x_cstring L q w = (e, w') \<longrightarrow> R w' = R w)"

lemma lib_fn_okD:
  assumes "lib_fn_ok K L R"
  shows "x_create_function L name n r i w = ((res, hs), w') \<Longrightarrow> H_scalar i \<notin> R w \<Longrightarrow> registers R (H_scalar i) (IsSuccess K res) hs w w'"
    and "x_create_window_function L name n r i w = ((res, hs), w') \<Longrightarrow> H_aggregate i \<notin> R w \<Longrightarrow> registers R (H_aggregate i) (IsSuccess K res) hs w w'"
    and "x_create_collation L name (Some i) w = ((res, hs), w') \<Longrightarrow> H_collation i \<notin> R w \<Longrightarrow>
      (if IsSuccess K res then registers R (H_collation i) True hs w w' else distinct hs \<and> set hs \<subseteq> R w \<and> R w' = R w - set hs)"
    and "x_create_collation L name None w = ((res, hs), w') \<Longrightarrow> distinct hs \<and> set hs \<subseteq> R w \<and> R w' = R w - set hs"
    and "x_set_auxdata L p j i w = (hs, w') \<Longrightarrow> H_aux i \<notin> R w \<Longrightarrow> registers R (H_aux i) (H_aux i \<notin> set hs) hs w w'"
    and "x_cstring L q w = (e, w') \<Longrightarrow> R w' = R w"
  using assms unfolding lib_fn_ok_def by (elim conjE; metis)+

section \<open>Lemmas: destructors\<close>

lemma fn_find_world [simp]: "fn_find (s\<lparr>fn_world := w\<rparr>) h = fn_find s h" "tables_ok (s\<lparr>fn_world := w\<rparr>) = tables_ok s"
  by (simp_all add: fn_find_def tables_ok_def split: fn_handle.split)

lemma destroy_find:
  assumes "tables_ok s" and "fn_find s h \<noteq> None"
  shows "\<exists>s'. destroy h s = Some s' \<and> tables_ok s' \<and> (\<forall>k. fn_find s' k = (if k = h then None else fn_find s k)) \<and>
    fn_world s' = fn_world s \<and> fn_aggs s' = fn_aggs s \<and> fn_cells s' = fn_cells s"
proof (cases h)
  case (H_scalar i)
  with idgen.del_inv [of "fn_xfuncs s" i] assms obtain r where "destroyScalarFunc i (fn_xfuncs s) = Some r" "reg_inv idGen_live r" "reg_m r = (reg_m (fn_xfuncs s))(i := None)"
    by (auto simp: tables_ok_def fn_find_def destroyScalarFunc_def)
  then show ?thesis using H_scalar assms(1) by (auto simp: destroy_def tables_ok_def fn_find_def split: fn_handle.split)
next
  case (H_aggregate i)
  with idgen.del_inv [of "fn_factories s" i] assms obtain r where "destroyAggregateFunc i (fn_factories s) = Some r" "reg_inv idGen_live r"
    "reg_m r = (reg_m (fn_factories s))(i := None)" by (auto simp: tables_ok_def fn_find_def destroyAggregateFunc_def)
  then show ?thesis using H_aggregate assms(1) by (auto simp: destroy_def tables_ok_def fn_find_def split: fn_handle.split)
next
  case (H_collation i)
  with idgen.del_inv [of "fn_collations s" i] assms obtain r where "destroyCollation i (fn_collations s) = Some r" "reg_inv idGen_live r"
    "reg_m r = (reg_m (fn_collations s))(i := None)" by (auto simp: tables_ok_def fn_find_def destroyCollation_def)
  then show ?thesis using H_collation assms(1) by (auto simp: destroy_def tables_ok_def fn_find_def split: fn_handle.split)
next
  case (H_aux i)
  with idgen.del_inv [of "fn_auxdata s" i] assms obtain r where "freeAuxData i (fn_auxdata s) = Some r" "reg_inv idGen_live r"
    "reg_m r = (reg_m (fn_auxdata s))(i := None)" by (auto simp: tables_ok_def fn_find_def freeAuxData_def)
  then show ?thesis using H_aux assms(1) by (auto simp: destroy_def tables_ok_def fn_find_def split: fn_handle.split)
qed

lemma destroy_all_find:
  assumes "tables_ok s" and "distinct hs" and "\<forall>h \<in> set hs. fn_find s h \<noteq> None"
  shows "\<exists>s'. destroy_all hs s = Some s' \<and> tables_ok s' \<and> (\<forall>k. fn_find s' k = (if k \<in> set hs then None else fn_find s k)) \<and>
    fn_world s' = fn_world s \<and> fn_aggs s' = fn_aggs s \<and> fn_cells s' = fn_cells s"
  using assms
proof (induction hs arbitrary: s)
  case (Cons h hs)
  obtain s1 where d: "destroy h s = Some s1" and s1: "tables_ok s1" "\<forall>k. fn_find s1 k = (if k = h then None else fn_find s k)"
    "fn_world s1 = fn_world s" "fn_aggs s1 = fn_aggs s" "fn_cells s1 = fn_cells s" using destroy_find [of s h] Cons.prems by auto
  have "\<forall>k \<in> set hs. fn_find s1 k \<noteq> None" using s1(2) Cons.prems(2,3) by auto
  from Cons.IH [OF s1(1) _ this] Cons.prems(2) obtain s2 where "destroy_all hs s1 = Some s2" "tables_ok s2"
    "\<forall>k. fn_find s2 k = (if k \<in> set hs then None else fn_find s1 k)" "fn_world s2 = fn_world s1" "fn_aggs s2 = fn_aggs s1" "fn_cells s2 = fn_cells s1" by auto
  then show ?case using d s1(2-) by (auto intro!: exI [of _ s2])
qed auto

text \<open>Registering: an entry is made under a new handle, then SQLite is called.\<close>

lemma calls_back_ok:
  assumes "tables_ok s" and "\<And>h. fn_find s h \<noteq> None \<longleftrightarrow> h \<in> H" and "f (fn_world s) = ((res, hs), w')"
    and "distinct hs" and "set hs \<subseteq> H" and "R w' = H - set hs"
  shows "\<exists>s'. calls_back f s = Some (res, s') \<and> fn_inv R s' \<and> fn_world s' = w' \<and> (\<forall>h. fn_find s' h = (if h \<in> set hs then None else fn_find s h)) \<and>
    fn_aggs s' = fn_aggs s \<and> fn_cells s' = fn_cells s"
proof -
  have "tables_ok (s\<lparr>fn_world := w'\<rparr>)" "\<forall>h \<in> set hs. fn_find (s\<lparr>fn_world := w'\<rparr>) h \<noteq> None" using assms by auto
  from destroy_all_find [OF this(1) assms(4) this(2)] obtain s' where d: "destroy_all hs (s\<lparr>fn_world := w'\<rparr>) = Some s'" "tables_ok s'"
    "\<forall>k. fn_find s' k = (if k \<in> set hs then None else fn_find s k)" "fn_world s' = w'" "fn_aggs s' = fn_aggs s" "fn_cells s' = fn_cells s" by auto
  have "fn_inv R s'" using d(2-4) assms(2,6) by (auto simp: fn_inv_def)
  then show ?thesis using d assms(3) by (auto simp: calls_back_def)
qed

text \<open>The four tables behave alike: a new entry is found under a new handle, and the others as before.\<close>

definition filed :: "fn_handle \<Rightarrow> nat \<Rightarrow> 'w fn_state \<Rightarrow> 'w fn_state \<Rightarrow> bool" where
  "filed h f s s' \<longleftrightarrow> tables_ok s' \<and> fn_find s h = None \<and> (\<forall>k. fn_find s' k = (if k = h then Some f else fn_find s k)) \<and> fn_world s' = fn_world s \<and>
     fn_aggs s' = fn_aggs s \<and> fn_cells s' = fn_cells s"

lemma reg_add_filed:
  assumes "tables_ok s"
  shows "reg_add idGen_next f (fn_xfuncs s) = (i, r) \<Longrightarrow> filed (H_scalar i) f s (s\<lparr>fn_xfuncs := r\<rparr>)"
    and "reg_add idGen_next f (fn_factories s) = (i, r) \<Longrightarrow> filed (H_aggregate i) f s (s\<lparr>fn_factories := r\<rparr>)"
    and "reg_add idGen_next f (fn_collations s) = (i, r) \<Longrightarrow> filed (H_collation i) f s (s\<lparr>fn_collations := r\<rparr>)"
    and "reg_add idGen_next f (fn_auxdata s) = (i, r) \<Longrightarrow> filed (H_aux i) f s (s\<lparr>fn_auxdata := r\<rparr>)"
  using assms idgen.add_inv [of "fn_xfuncs s" f i r] idgen.add_inv [of "fn_factories s" f i r] idgen.add_inv [of "fn_collations s" f i r]
    idgen.add_inv [of "fn_auxdata s" f i r]
  by (auto simp: filed_def tables_ok_def fn_find_def split: fn_handle.split)

lemma filed_calls_back:
  assumes "fn_inv R s" and "filed h f s s1" and "g (fn_world s) = ((res, hs), w')" and "registers R h ok hs (fn_world s) w'"
  shows "\<exists>s'. calls_back g s1 = Some (res, s') \<and> fn_inv R s' \<and> fn_world s' = w' \<and>
    (\<forall>k. fn_find s' k = (if k \<in> set hs then None else if k = h then Some f else fn_find s k)) \<and> fn_aggs s' = fn_aggs s \<and> fn_cells s' = fn_cells s"
proof -
  have f: "tables_ok s1" "fn_find s1 k = (if k = h then Some f else fn_find s k)" "fn_world s1 = fn_world s" "fn_aggs s1 = fn_aggs s" "fn_cells s1 = fn_cells s" for k
    using assms(2) by (auto simp: filed_def)
  have "fn_find s1 k \<noteq> None \<longleftrightarrow> k \<in> insert h (R (fn_world s))" for k using assms(1) by (simp add: f(2) fn_inv_def)
  from calls_back_ok [OF f(1) this, of g res hs w' R] assms(3,4) f show ?thesis by (auto simp: registers_def)
qed

section \<open>Lemmas: registering\<close>

text \<open>The outcome of a registration: what SQLite still holds it finds as before; on success there is one new handle, for the new function, and after an error none.\<close>

definition registered :: "('w \<Rightarrow> fn_handle set) \<Rightarrow> nat option \<Rightarrow> error \<Rightarrow> 'w fn_state \<Rightarrow> 'w fn_state \<Rightarrow> bool" where
  "registered R fo err s s' \<longleftrightarrow> (\<forall>h \<in> R (fn_world s) \<inter> R (fn_world s'). fn_find s' h = fn_find s h) \<and>
     (case fo of
        Some f \<Rightarrow> if err = None then \<exists>h. R (fn_world s') - R (fn_world s) = {h} \<and> fn_find s' h = Some f else R (fn_world s') \<subseteq> R (fn_world s)
      | None \<Rightarrow> R (fn_world s') \<subseteq> R (fn_world s))"

lemma registered_same: "err \<noteq> None \<or> fo = None \<Longrightarrow> R w = R (fn_world s) \<Longrightarrow> registered R fo err s (s\<lparr>fn_world := w\<rparr>)"
  by (auto simp: registered_def split: option.split)

lemma fn_inv_world: "fn_inv R s \<Longrightarrow> R w = R (fn_world s) \<Longrightarrow> fn_inv R (s\<lparr>fn_world := w\<rparr>)"
  by (simp add: fn_inv_def)

lemma registers_registered:
  assumes "fn_inv R s" and "fn_find s h = None" and "registers R h ok hs (fn_world s) (fn_world s')"
    and "\<forall>k. fn_find s' k = (if k \<in> set hs then None else if k = h then Some f else fn_find s k)" and "err = None \<longleftrightarrow> ok"
  shows "registered R (Some f) err s s'"
proof -
  have h: "h \<notin> R (fn_world s)" using assms(1,2) unfolding fn_inv_def by blast
  have R': "R (fn_world s') = insert h (R (fn_world s)) - set hs" "ok \<longleftrightarrow> h \<notin> set hs" using assms(3) by (auto simp: registers_def)
  have "\<forall>k \<in> R (fn_world s) \<inter> R (fn_world s'). fn_find s' k = fn_find s k" using h R'(1) assms(4) by auto
  moreover have "R (fn_world s') - R (fn_world s) = {h} \<and> fn_find s' h = Some f" if ok using h R' assms(4) that by auto
  moreover have "R (fn_world s') \<subseteq> R (fn_world s)" if "\<not> ok" using R' that by auto
  ultimately show ?thesis using assms(5) by (auto simp: registered_def)
qed

lemma filed_new: "fn_inv R s \<Longrightarrow> filed h f s s1 \<Longrightarrow> h \<notin> R (fn_world s)"
  unfolding filed_def fn_inv_def by blast

lemma register_with:
  assumes "fn_inv R s" and "filed h f s s1" and "\<And>res hs w'. g (fn_world s) = ((res, hs), w') \<Longrightarrow> h \<notin> R (fn_world s) \<Longrightarrow> registers R h (IsSuccess K res) hs (fn_world s) w'"
  shows "\<exists>res s'. calls_back g s1 = Some (res, s') \<and> fn_inv R s' \<and> registered R (Some f) (wrap_error fmt (ToError K res)) s s' \<and>
    fn_aggs s' = fn_aggs s \<and> fn_cells s' = fn_cells s"
proof -
  obtain res hs w' where g: "g (fn_world s) = ((res, hs), w')" by (metis surj_pair)
  note rg = assms(3) [OF g filed_new [OF assms(1,2)]]
  obtain s' where s': "calls_back g s1 = Some (res, s')" "fn_inv R s'" "fn_world s' = w'"
    "\<forall>k. fn_find s' k = (if k \<in> set hs then None else if k = h then Some f else fn_find s k)" "fn_aggs s' = fn_aggs s" "fn_cells s' = fn_cells s"
    using filed_calls_back [where g = g, OF assms(1,2) g rg] by blast
  have "fn_find s h = None" using assms(2) by (simp add: filed_def)
  from registers_registered [OF assms(1) this _ s'(4), of "IsSuccess K res"] rg s'(3)
  have "registered R (Some f) (wrap_error fmt (ToError K res)) s s'" by (simp add: wrap_error_def ToError_def)
  then show ?thesis using s' by blast
qed

lemma CreateFunction_ok:
  assumes "lib_fn_ok K L R" and "fn_inv R s"
  shows "\<exists>err s'. CreateFunction K L nilConn name impl s = Some (err, s') \<and> fn_inv R s' \<and>
    registered R (case fi_Scalar impl of Some f \<Rightarrow> Some f | None \<Rightarrow> fi_MakeAggregate impl) err s s' \<and> fn_aggs s' = fn_aggs s \<and> fn_cells s' = fn_cells s"
proof (cases "function_error nilConn name impl = None")
  case False
  then show ?thesis using assms(2) registered_same [of "function_error nilConn name impl" _ R "fn_world s" s] by (auto simp: CreateFunction_def)
next
  case None: True
  obtain e w where x: "x_cstring L name (fn_world s) = (e, w)" by fastforce
  note Rw = lib_fn_okD(6) [OF assms(1) x]
  define s0 where "s0 = s\<lparr>fn_world := w\<rparr>"
  have inv: "fn_inv R s0" "tables_ok s0" using fn_inv_world [OF assms(2) Rw] by (simp_all add: s0_def fn_inv_def)
  have same: "registered R fo err s s' = registered R fo err s0 s'" for fo err s' using Rw by (cases fo) (simp_all add: registered_def s0_def)
  have s0: "fn_aggs s0 = fn_aggs s" "fn_cells s0 = fn_cells s" by (simp_all add: s0_def)
  let ?n = "if fi_NArgs impl < 0 then -1 else fi_NArgs impl" and ?fmt = "create_prefix name @ ''%w''"
  show ?thesis
  proof (cases "e = None")
    case False
    then show ?thesis using None x inv registered_same [OF _ Rw] by (auto simp: CreateFunction_def errorf_w_def s0_def)
  next
    case True
    show ?thesis
    proof (cases "fi_Scalar impl")
      case (Some f)
      obtain i r where a: "reg_add idGen_next f (fn_xfuncs s0) = (i, r)" by fastforce
      note fl = reg_add_filed(1) [OF inv(2) a]
      obtain res s' where s': "calls_back (x_create_function L name ?n (text_rep K impl) i) (s0\<lparr>fn_xfuncs := r\<rparr>) = Some (res, s')" "fn_inv R s'"
        "registered R (Some f) (wrap_error ?fmt (ToError K res)) s0 s'" "fn_aggs s' = fn_aggs s0" "fn_cells s' = fn_cells s0"
        using register_with [where g = "x_create_function L name ?n (text_rep K impl) i" and fmt = ?fmt and K = K, OF inv(1) fl] lib_fn_okD(1) [OF assms(1)] by blast
      have "CreateFunction K L nilConn name impl s = Some (wrap_error ?fmt (ToError K res), s')"
        using None x True Some a s'(1) by (auto simp: CreateFunction_def s0_def)
      then show ?thesis using s'(2-) same s0 Some by simp
    next
      case agg: None
      then obtain f where f: "fi_MakeAggregate impl = Some f" using None by (auto simp: function_error_def split: if_splits)
      obtain i r where a: "reg_add idGen_next f (fn_factories s0) = (i, r)" by fastforce
      note fl = reg_add_filed(2) [OF inv(2) a]
      obtain res s' where s': "calls_back (x_create_window_function L name ?n (text_rep K impl) i) (s0\<lparr>fn_factories := r\<rparr>) = Some (res, s')" "fn_inv R s'"
        "registered R (Some f) (wrap_error ?fmt (ToError K res)) s0 s'" "fn_aggs s' = fn_aggs s0" "fn_cells s' = fn_cells s0"
        using register_with [where g = "x_create_window_function L name ?n (text_rep K impl) i" and fmt = ?fmt and K = K, OF inv(1) fl] lib_fn_okD(2) [OF assms(1)] by blast
      have "CreateFunction K L nilConn name impl s = Some (wrap_error ?fmt (ToError K res), s')"
        using None x True agg f a s'(1) by (auto simp: CreateFunction_def s0_def)
      then show ?thesis using s'(2-) same s0 agg f by simp
    qed
  qed
qed

text \<open>Calls in which SQLite only drops handles.\<close>

lemma drops:
  assumes "fn_inv R s" and "g (fn_world s) = ((res, hs), w')" and "distinct hs \<and> set hs \<subseteq> R (fn_world s) \<and> R w' = R (fn_world s) - set hs"
  shows "\<exists>s'. calls_back g s = Some (res, s') \<and> fn_inv R s' \<and> registered R None err s s' \<and> fn_aggs s' = fn_aggs s \<and> fn_cells s' = fn_cells s"
proof -
  have ok: "tables_ok s" and f: "\<And>h. fn_find s h \<noteq> None \<longleftrightarrow> h \<in> R (fn_world s)" using assms(1) by (simp_all add: fn_inv_def)
  obtain s' where s': "calls_back g s = Some (res, s')" "fn_inv R s'" "fn_world s' = w'" "\<forall>h. fn_find s' h = (if h \<in> set hs then None else fn_find s h)"
    "fn_aggs s' = fn_aggs s" "fn_cells s' = fn_cells s"
    using calls_back_ok [where f = g, OF ok f assms(2)] assms(3) by blast
  have "registered R None err s s'" using s'(3,4) assms(3) by (auto simp: registered_def)
  then show ?thesis using s' by blast
qed

lemma refused_collation:
  assumes "fn_inv R s" and "filed (H_collation i) f s s1" and "g (fn_world s) = ((res, hs), w')"
    and "distinct hs \<and> set hs \<subseteq> R (fn_world s) \<and> R w' = R (fn_world s) - set hs"
  shows "\<exists>s2 s'. calls_back g s1 = Some (res, s2) \<and> destroy (H_collation i) s2 = Some s' \<and> fn_inv R s' \<and> registered R None err s s' \<and>
    fn_aggs s' = fn_aggs s \<and> fn_cells s' = fn_cells s"
proof -
  let ?h = "H_collation i"
  note new = filed_new [OF assms(1,2)]
  have f: "tables_ok s1" "fn_world s1 = fn_world s" "fn_aggs s1 = fn_aggs s" "fn_cells s1 = fn_cells s"
    and find: "fn_find s1 k = (if k = ?h then Some f else fn_find s k)" for k using assms(2) by (auto simp: filed_def)
  have ex: "fn_find s k \<noteq> None \<longleftrightarrow> k \<in> R (fn_world s)" for k using assms(1) by (simp add: fn_inv_def)
  let ?R' = "\<lambda>w. insert ?h (R w)"
  have 1: "fn_find s1 k \<noteq> None \<longleftrightarrow> k \<in> insert ?h (R (fn_world s))" for k using ex by (simp add: find)
  have g1: "g (fn_world s1) = ((res, hs), w')" using assms(3) f(2) by simp
  have sub: "set hs \<subseteq> insert ?h (R (fn_world s))" "?R' w' = insert ?h (R (fn_world s)) - set hs" "?h \<notin> set hs" using assms(4) new by auto
  obtain s2 where s2: "calls_back g s1 = Some (res, s2)" "fn_inv ?R' s2" "fn_world s2 = w'" "\<forall>k. fn_find s2 k = (if k \<in> set hs then None else fn_find s1 k)"
    "fn_aggs s2 = fn_aggs s" "fn_cells s2 = fn_cells s"
    using calls_back_ok [where R = ?R' and f = g, OF f(1) 1 g1 _ sub(1,2)] assms(4) f(3,4) by auto
  have "tables_ok s2" "fn_find s2 ?h \<noteq> None" using s2(2,4) sub(3) find by (simp_all add: fn_inv_def)
  from destroy_find [OF this] obtain s' where d: "destroy ?h s2 = Some s'" "tables_ok s'" "\<forall>k. fn_find s' k = (if k = ?h then None else fn_find s2 k)"
    "fn_world s' = fn_world s2" "fn_aggs s' = fn_aggs s2" "fn_cells s' = fn_cells s2" by blast
  have fs: "fn_find s' k = (if k = ?h \<or> k \<in> set hs then None else fn_find s k)" for k using d(3) s2(4) find by auto
  have "fn_inv R s'" using d(2,4) s2(3) assms(4) ex new by (auto simp: fn_inv_def fs)
  moreover have "registered R None err s s'" using d(4) s2(3) assms(4) new by (auto simp: registered_def fs)
  ultimately show ?thesis using s2 d by auto
qed

lemma registered_error: "registered R None err s s' \<Longrightarrow> err \<noteq> None \<Longrightarrow> registered R fo err s s'"
  by (cases fo) (auto simp: registered_def)

lemma SetCollation_ok:
  assumes "lib_fn_ok K L R" and "fn_inv R s"
  shows "\<exists>err s'. SetCollation K L nilConn name compare s = Some (err, s') \<and> fn_inv R s' \<and> registered R compare err s s' \<and>
    fn_aggs s' = fn_aggs s \<and> fn_cells s' = fn_cells s"
proof (cases "nilConn \<or> name = ''''")
  case True
  then show ?thesis using assms(2) registered_same [of _ compare R "fn_world s" s] by (auto simp: SetCollation_def)
next
  case False
  obtain e w where x: "x_cstring L name (fn_world s) = (e, w)" by fastforce
  note Rw = lib_fn_okD(6) [OF assms(1) x]
  define s0 where "s0 = s\<lparr>fn_world := w\<rparr>"
  have inv: "fn_inv R s0" "tables_ok s0" using fn_inv_world [OF assms(2) Rw] by (simp_all add: s0_def fn_inv_def)
  have same: "registered R fo err s s' = registered R fo err s0 s'" for fo err s' using Rw by (cases fo) (simp_all add: registered_def s0_def)
  have s0: "fn_aggs s0 = fn_aggs s" "fn_cells s0 = fn_cells s" by (simp_all add: s0_def)
  let ?fmt = "collation_text compare ('' '' @ name @ '': %w'')"
  show ?thesis
  proof (cases "e = None")
    case e: False
    then show ?thesis using False x inv registered_same [OF _ Rw] by (auto simp: SetCollation_def s0_def)
  next
    case e: True
    show ?thesis
    proof (cases compare)
      case None
      obtain res hs w' where c: "x_create_collation L name None (fn_world s0) = ((res, hs), w')" by (metis surj_pair)
      from drops [where g = "x_create_collation L name None", OF inv(1) c lib_fn_okD(4) [OF assms(1) c]] obtain s' where s': "calls_back (x_create_collation L name None) s0 = Some (res, s')" "fn_inv R s'"
        "registered R None (wrap_error ?fmt (ToError K res)) s0 s'" "fn_aggs s' = fn_aggs s0" "fn_cells s' = fn_cells s0" by blast
      have "SetCollation K L nilConn name compare s = Some (wrap_error ?fmt (ToError K res), s')" using False x e None s'(1) by (simp add: SetCollation_def s0_def)
      then show ?thesis using s'(2-) same s0 None by simp
    next
      case (Some f)
      obtain i r where a: "reg_add idGen_next f (fn_collations s0) = (i, r)" by fastforce
      note fl = reg_add_filed(3) [OF inv(2) a]
      let ?g = "x_create_collation L name (Some i)"
      obtain res hs w' where c: "?g (fn_world s0) = ((res, hs), w')" by (metis surj_pair)
      note law = lib_fn_okD(3) [OF assms(1) c filed_new [OF inv(1) fl]]
      show ?thesis
      proof (cases "IsSuccess K res")
        case True
        have "registers R (H_collation i) (IsSuccess K res') hs' (fn_world s0) w''" if "?g (fn_world s0) = ((res', hs'), w'')" for res' hs' w''
          using that c law True by auto
        with register_with [where g = ?g and fmt = ?fmt and K = K, OF inv(1) fl] obtain s' where s': "calls_back ?g (s0\<lparr>fn_collations := r\<rparr>) = Some (res, s')" "fn_inv R s'"
          "registered R (Some f) (wrap_error ?fmt (ToError K res)) s0 s'" "fn_aggs s' = fn_aggs s0" "fn_cells s' = fn_cells s0"
          using c by (fastforce simp: calls_back_def)
        have "SetCollation K L nilConn name compare s = Some (None, s')" using False x e Some a s'(1) True by (auto simp: SetCollation_def s0_def ToError_def)
        then show ?thesis using s'(2-) same s0 Some True by (simp add: ToError_def wrap_error_def)
      next
        case refused: False
        let ?e = "Some (Errorf ?fmt (sqliteError res))"
        have l: "distinct hs \<and> set hs \<subseteq> R (fn_world s0) \<and> R w' = R (fn_world s0) - set hs" using law refused by simp
        from refused_collation [where g = ?g, OF inv(1) fl c l] obtain s2 s' where s': "calls_back ?g (s0\<lparr>fn_collations := r\<rparr>) = Some (res, s2)" "destroy (H_collation i) s2 = Some s'"
          "fn_inv R s'" "registered R None ?e s0 s'" "fn_aggs s' = fn_aggs s0" "fn_cells s' = fn_cells s0" by blast
        have "SetCollation K L nilConn name compare s = Some (?e, s')" using False x e Some a s'(1,2) refused by (auto simp: SetCollation_def s0_def ToError_def)
        then show ?thesis using s'(3-) same s0 registered_error by fastforce
      qed
    qed
  qed
qed

lemma SetAuxData_ok:
  assumes "lib_fn_ok K L R" and "fn_inv R s"
  shows "\<exists>s'. SetAuxData L ctx arg d s = Some s' \<and> fn_inv R s' \<and> fn_aggs s' = fn_aggs s \<and> fn_cells s' = fn_cells s"
proof -
  obtain i r where a: "reg_add idGen_next d (fn_auxdata s) = (i, r)" by fastforce
  have ok: "tables_ok s" using assms(2) by (simp add: fn_inv_def)
  note fl = reg_add_filed(4) [OF ok a]
  obtain hs w' where c: "x_set_auxdata L (cx_ptr ctx) (wrap32 arg) i (fn_world s) = (hs, w')" by fastforce
  note rg = lib_fn_okD(5) [OF assms(1) c filed_new [OF assms(2) fl]]
  let ?g = "\<lambda>w. case x_set_auxdata L (cx_ptr ctx) (wrap32 arg) i w of (hs, w) \<Rightarrow> (((), hs), w)"
  have "?g (fn_world s) = (((), hs), w')" using c by simp
  from filed_calls_back [where g = ?g, OF assms(2) fl this rg] show ?thesis using a by (auto simp: SetAuxData_def)
qed

section \<open>The tables and SQLite in step\<close>

text \<open>What may happen to the tables: registrations in any order, SQLite dropping handles (replaced functions, closed connections), and anything that leaves the handles alone.\<close>

inductive fn_run :: "lib_consts \<Rightarrow> ('w, 'm) fn_lib_scheme \<Rightarrow> ('w \<Rightarrow> fn_handle set) \<Rightarrow> 'w fn_state \<Rightarrow> bool" for K L R where
  start: "R w = {} \<Longrightarrow> fn_run K L R \<lparr>fn_xfuncs = handles_init, fn_factories = handles_init, fn_aggs = handles_init, fn_collations = handles_init,
    fn_auxdata = handles_init, fn_cells = (\<lambda>_. 0), fn_world = w\<rparr>"
| created: "fn_run K L R s \<Longrightarrow> CreateFunction K L nilConn name impl s = Some (err, s') \<Longrightarrow> fn_run K L R s'"
| collated: "fn_run K L R s \<Longrightarrow> SetCollation K L nilConn name compare s = Some (err, s') \<Longrightarrow> fn_run K L R s'"
| aux_set: "fn_run K L R s \<Longrightarrow> SetAuxData L ctx arg d s = Some s' \<Longrightarrow> fn_run K L R s'"
| dropped: "fn_run K L R s \<Longrightarrow> distinct hs \<Longrightarrow> set hs \<subseteq> R (fn_world s) \<Longrightarrow> R w = R (fn_world s) - set hs \<Longrightarrow>
    destroy_all hs (s\<lparr>fn_world := w\<rparr>) = Some s' \<Longrightarrow> fn_run K L R s'"
| other: "fn_run K L R s \<Longrightarrow> R w = R (fn_world s) \<Longrightarrow> fn_run K L R (s\<lparr>fn_world := w, fn_aggs := as, fn_cells := m\<rparr>)"

lemma fn_find_other: "fn_find (s\<lparr>fn_world := w, fn_aggs := as, fn_cells := m\<rparr>) h = fn_find s h"
  by (cases h) (simp_all add: fn_find_def)

lemma drop_ok:
  assumes "fn_inv R s" and "distinct hs" and "set hs \<subseteq> R (fn_world s)" and "R w = R (fn_world s) - set hs"
  shows "\<exists>s'. destroy_all hs (s\<lparr>fn_world := w\<rparr>) = Some s' \<and> fn_inv R s'"
  using drops [where g = "\<lambda>_. (((), hs), w)" and err = None, OF assms(1) refl] assms(2-) by (auto simp: calls_back_def)

lemma fn_run_inv:
  assumes "lib_fn_ok K L R" and "fn_run K L R s"
  shows "fn_inv R s"
  using assms(2)
proof (induction rule: fn_run.induct)
  case (start w)
  then show ?case using handles_reachable_inv [OF handles_reachable.init]
    by (auto simp: fn_inv_def tables_ok_def fn_find_def handles_init_def split: fn_handle.split)
next
  case (created s nilConn name impl err s')
  then show ?case using CreateFunction_ok [OF assms(1), of s nilConn name impl] by auto
next
  case (collated s nilConn name compare err s')
  then show ?case using SetCollation_ok [OF assms(1), of s nilConn name compare] by auto
next
  case (aux_set s ctx arg d s')
  then show ?case using SetAuxData_ok [OF assms(1), of s ctx arg d] by auto
next
  case (dropped s hs w s')
  then show ?case using drop_ok [of R s hs w] by auto
next
  case (other s w as m)
  then show ?case by (simp add: fn_inv_def tables_ok_def fn_find_other)
qed

text \<open>C19: the tables of Go functions and SQLite stay in step.  After any sequence of registrations and removals every handle that SQLite holds has its entry, so that no trampoline
  meets a nil function, and every entry has its handle, so that nothing leaks; registering never panics, replaces no function but those whose handles SQLite gave up, and
  after an error leaves no new entry; what SQLite drops is removed without a panic.\<close>

theorem functions_in_step:
  assumes "lib_fn_ok K L R" and "fn_run K L R s"
  shows "(\<forall>h. h \<in> R (fn_world s) \<longleftrightarrow> fn_find s h \<noteq> None) \<and>
    (\<forall>nilConn name impl. \<exists>err s'. CreateFunction K L nilConn name impl s = Some (err, s') \<and>
       registered R (case fi_Scalar impl of Some f \<Rightarrow> Some f | None \<Rightarrow> fi_MakeAggregate impl) err s s') \<and>
    (\<forall>nilConn name compare. \<exists>err s'. SetCollation K L nilConn name compare s = Some (err, s') \<and> registered R compare err s s') \<and>
    (\<forall>hs w. distinct hs \<and> set hs \<subseteq> R (fn_world s) \<and> R w = R (fn_world s) - set hs \<longrightarrow> destroy_all hs (s\<lparr>fn_world := w\<rparr>) \<noteq> None)"
proof -
  note inv = fn_run_inv [OF assms]
  have "\<exists>err s'. CreateFunction K L nilConn name impl s = Some (err, s') \<and>
       registered R (case fi_Scalar impl of Some f \<Rightarrow> Some f | None \<Rightarrow> fi_MakeAggregate impl) err s s'" for nilConn name impl
    using CreateFunction_ok [OF assms(1) inv] by meson
  moreover have "\<exists>err s'. SetCollation K L nilConn name compare s = Some (err, s') \<and> registered R compare err s s'" for nilConn name compare
    using SetCollation_ok [OF assms(1) inv] by meson
  moreover have "destroy_all hs (s\<lparr>fn_world := w\<rparr>) \<noteq> None" if "distinct hs \<and> set hs \<subseteq> R (fn_world s) \<and> R w = R (fn_world s) - set hs" for hs w
    using drop_ok [OF inv, of hs w] that by (metis option.distinct(1))
  moreover have "h \<in> R (fn_world s) \<longleftrightarrow> fn_find s h \<noteq> None" for h using inv by (simp add: fn_inv_def)
  ultimately show ?thesis by (intro conjI allI impI)
qed

text \<open>A small SQLite: its world is the set of handles; a function named \<open>bad\<close> is refused.\<close>

definition fn_demo :: "fn_handle set fn_lib" where
  "fn_demo = sqlite_lib.extend null_lib
     \<lparr>error_text = (\<lambda>_. ''error''), x_user_data = (\<lambda>p w. p), x_aggregate_context = (\<lambda>p w. (p, w)), x_result = (\<lambda>p r w. w),
       x_create_function = (\<lambda>name n r i w. if name = ''bad'' then ((1, [H_scalar i]), w) else ((0, []), insert (H_scalar i) w)),
       x_create_window_function = (\<lambda>name n r i w. ((0, []), insert (H_aggregate i) w)),
       x_create_collation = (\<lambda>name io w. ((0, []), case io of None \<Rightarrow> w | Some i \<Rightarrow> insert (H_collation i) w)),
       x_get_auxdata = (\<lambda>p n w. 0), x_set_auxdata = (\<lambda>p n i w. ([H_aux i], w))\<rparr>"

lemma fn_demo_sel [simp]:
  "error_text fn_demo e = ''error''" "x_user_data fn_demo p w = p" "x_aggregate_context fn_demo p w = (p, w)" "x_result fn_demo p sr w = w"
  "x_create_function fn_demo name n r i w = (if name = ''bad'' then ((1, [H_scalar i]), w) else ((0, []), insert (H_scalar i) w))"
  "x_create_window_function fn_demo name n r i w = ((0, []), insert (H_aggregate i) w)"
  "x_create_collation fn_demo name io w = ((0, []), case io of None \<Rightarrow> w | Some i \<Rightarrow> insert (H_collation i) w)"
  "x_set_auxdata fn_demo p k i w = ([H_aux i], w)" "x_cstring fn_demo q w = (None, w)" "x_malloc fn_demo sz w = (True, w)"
  by (simp_all add: fn_demo_def sqlite_lib.defs null_lib_def)

lemma fn_demo_ok: "lib_fn_ok demo_K fn_demo id"
  unfolding lib_fn_ok_def registers_def by (auto simp: IsSuccess_def result_consts demo_K_def split: if_splits)

definition fn_start :: "fn_handle set fn_state" where
  "fn_start = \<lparr>fn_xfuncs = handles_init, fn_factories = handles_init, fn_aggs = handles_init, fn_collations = handles_init,
    fn_auxdata = handles_init, fn_cells = (\<lambda>_. 0), fn_world = {}\<rparr>"

definition demo_impl :: FunctionImpl where
  "demo_impl = \<lparr>fi_NArgs = 2, fi_Scalar = Some 7, fi_MakeAggregate = None, fi_Deterministic = True, fi_AllowIndirect = False\<rparr>"

text \<open>After one function was registered a second one is refused, and the first is still there.\<close>

theorem functions_in_step_witness:
  "\<exists>s1 err s2. CreateFunction demo_K fn_demo False ''f'' demo_impl fn_start = Some (None, s1) \<and> fn_find s1 (H_scalar 1) = Some 7 \<and>
     CreateFunction demo_K fn_demo False ''bad'' demo_impl s1 = Some (err, s2) \<and> err \<noteq> None \<and> fn_world s2 \<subseteq> {H_scalar 1}"
proof -
  have 0: "fn_run demo_K fn_demo id fn_start" using fn_run.start [of id "{}" demo_K fn_demo] by (simp add: fn_start_def)
  have fe: "function_error False ''f'' demo_impl = None" "function_error False ''bad'' demo_impl = None" by (simp_all add: function_error_def demo_impl_def)
  have sc: "fi_Scalar demo_impl = Some 7" by (simp add: demo_impl_def)
  obtain s1 where 1: "CreateFunction demo_K fn_demo False ''f'' demo_impl fn_start = Some (None, s1)" "fn_find s1 (H_scalar 1) = Some 7" "fn_world s1 = {H_scalar 1}"
    using fe(1) sc by (simp add: CreateFunction_def fn_start_def reg_add_def handles_init_def idGen_next_def calls_back_def wrap_error_def ToError_def IsSuccess_def result_consts
        demo_K_def fn_find_def)
  note r1 = fn_run.created [OF 0 1(1)]
  obtain err s2 where 2: "CreateFunction demo_K fn_demo False ''bad'' demo_impl s1 = Some (err, s2)" "registered id (Some 7) err s1 s2"
    using conjunct1 [OF conjunct2 [OF functions_in_step [OF fn_demo_ok r1]], rule_format, of False "''bad''" demo_impl] sc by auto
  obtain i r where a: "reg_add idGen_next 7 (fn_xfuncs s1) = (i, r)" by fastforce
  have "err \<noteq> None" using 2(1) fe(2) sc a
    by (auto simp: CreateFunction_def calls_back_def wrap_error_def ToError_def IsSuccess_def result_consts demo_K_def bind_eq_Some_conv)
  then show ?thesis using 1 2 by (auto simp: registered_def)
qed

section \<open>Aggregates\<close>

text \<open>The object of a group of rows, by the address of the memory SQLite keeps for the group.\<close>

definition obj_of :: "'w fn_state \<Rightarrow> nat \<Rightarrow> nat option" where
  "obj_of s a = (if fn_cells s a = 0 then None else reg_m (fn_aggs s) (fn_cells s a))"

text \<open>Each ID in the table is in the memory of one group, and no other ID is.\<close>

definition agg_inv :: "'w fn_state \<Rightarrow> bool" where
  "agg_inv s \<longleftrightarrow> reg_inv idGen_live (fn_aggs s) \<and> (\<forall>a b. fn_cells s a \<noteq> 0 \<longrightarrow> fn_cells s b = fn_cells s a \<longrightarrow> b = a) \<and>
     (\<forall>i. reg_m (fn_aggs s) i \<noteq> None \<longleftrightarrow> i \<noteq> 0 \<and> (\<exists>a. fn_cells s a = i))"

text \<open>What happens inside a call for the group at \<open>a\<close>: other groups may come and go, those that exist stay, and the memory of the group itself is left alone.\<close>

definition calm :: "nat \<Rightarrow> 'w fn_state \<Rightarrow> 'w fn_state \<Rightarrow> bool" where
  "calm a s s' \<longleftrightarrow> agg_inv s' \<and> fn_cells s' a = fn_cells s a \<and> (\<forall>b. obj_of s b \<noteq> None \<longrightarrow> obj_of s' b = obj_of s b)"

text \<open>\<open>A p\<close> is the address of the memory of the group that the context \<open>p\<close> belongs to.  Go functions do not touch the tables of the package.\<close>

definition tame :: "(nat \<Rightarrow> nat) \<Rightarrow> 'w go_code \<Rightarrow> bool" where
  "tame A G \<longleftrightarrow>
     (\<forall>f ctx s r s'. agg_inv s \<longrightarrow> g_factory G f ctx s = Some (r, s') \<longrightarrow> calm (A (cx_ptr ctx)) s s') \<and>
     (\<forall>x ctx vs s r s'. agg_inv s \<longrightarrow> g_Step G x ctx vs s = Some (r, s') \<longrightarrow> calm (A (cx_ptr ctx)) s s') \<and>
     (\<forall>x ctx vs s r s'. agg_inv s \<longrightarrow> g_WindowInverse G x ctx vs s = Some (r, s') \<longrightarrow> calm (A (cx_ptr ctx)) s s') \<and>
     (\<forall>x ctx s r s'. agg_inv s \<longrightarrow> g_WindowValue G x ctx s = Some (r, s') \<longrightarrow> calm (A (cx_ptr ctx)) s s') \<and>
     (\<forall>x ctx s s'. agg_inv s \<longrightarrow> g_Finalize G x ctx s = Some s' \<longrightarrow> calm (A (cx_ptr ctx)) s s')"

lemma tameD:
  assumes "tame A G" and "agg_inv s"
  shows "g_factory G f ctx s = Some (fr, s') \<Longrightarrow> calm (A (cx_ptr ctx)) s s'" and "g_Step G x ctx vs s = Some (e, s') \<Longrightarrow> calm (A (cx_ptr ctx)) s s'"
    and "g_WindowInverse G x ctx vs s = Some (e, s') \<Longrightarrow> calm (A (cx_ptr ctx)) s s'" and "g_WindowValue G x ctx s = Some (vr, s') \<Longrightarrow> calm (A (cx_ptr ctx)) s s'"
    and "g_Finalize G x ctx s = Some s' \<Longrightarrow> calm (A (cx_ptr ctx)) s s'"
  using assms unfolding tame_def by (elim conjE; metis)+

lemma calm_trans: "calm a s s1 \<Longrightarrow> calm a s1 s2 \<Longrightarrow> calm a s s2"
  by (auto simp: calm_def)

lemma agg_world [simp]: "agg_inv (s\<lparr>fn_world := w\<rparr>) = agg_inv s" "obj_of (s\<lparr>fn_world := w\<rparr>) = obj_of s"
  by (auto simp: agg_inv_def obj_of_def)

lemma calm_world: "agg_inv s \<Longrightarrow> calm a s (s\<lparr>fn_world := w\<rparr>)"
  by (simp add: calm_def)

text \<open>Setting a result changes SQLite only.\<close>

lemma resultError_calm: "resultError K L ctx e s = Some s' \<Longrightarrow> \<exists>w. s' = s\<lparr>fn_world := w\<rparr>"
  by (auto simp: resultError_def set_result_def split: prod.splits if_splits)

lemma result_calm: "Context_result K L ctx v err s = Some s' \<Longrightarrow> \<exists>w. s' = s\<lparr>fn_world := w\<rparr>"
  by (fastforce simp: Context_result_def set_result_def result_bytes_def Let_def dest: resultError_calm split: option.splits if_splits prod.splits)

lemma report_calm: "report K L ctx err s = Some s' \<Longrightarrow> \<exists>w. s' = s\<lparr>fn_world := w\<rparr>"
  by (cases err) (auto simp: report_def dest: resultError_calm intro: exI [of _ "fn_world s"])

lemma no_aggregate_calm: "no_aggregate K L ctx e s = Some ((x, i), s') \<Longrightarrow> x = None \<and> (\<exists>w. s' = s\<lparr>fn_world := w\<rparr>)"
  by (auto simp: no_aggregate_def dest: resultError_calm)

text \<open>A new object for a group that had none.\<close>

lemma new_object:
  assumes "agg_inv s" and "fn_cells s a = 0" and "reg_add idGen_next x (fn_aggs s) = (i, r)"
  defines "s' \<equiv> s\<lparr>fn_aggs := r, fn_cells := (fn_cells s)(a := i)\<rparr>"
  shows "agg_inv s'" and "obj_of s' a = Some x" and "b \<noteq> a \<Longrightarrow> obj_of s' b = obj_of s b" and "fn_cells s' a = i" and "0 < i"
proof -
  have inv: "reg_inv idGen_live (fn_aggs s)" and inj: "\<And>b c. fn_cells s b \<noteq> 0 \<Longrightarrow> fn_cells s c = fn_cells s b \<Longrightarrow> c = b"
    and ex: "\<And>j. reg_m (fn_aggs s) j \<noteq> None \<longleftrightarrow> j \<noteq> 0 \<and> (\<exists>a. fn_cells s a = j)"
    using assms(1) by (auto simp: agg_inv_def)
  note add = idgen.add_inv [OF inv assms(3)]
  show "0 < i" using add(2) .
  show "fn_cells s' a = i" by (simp add: s'_def)
  show "obj_of s' a = Some x" using add(2,4) by (simp add: obj_of_def s'_def)
  have cells: "fn_cells s' c = (if c = a then i else fn_cells s c)" for c by (simp add: s'_def)
  have ne: "fn_cells s b \<noteq> i" for b using ex [of i] add(2,3) by auto
  show "obj_of s' b = obj_of s b" if "b \<noteq> a" using that ne add(4) by (simp add: obj_of_def s'_def)
  have "c = b" if "fn_cells s' b \<noteq> 0" "fn_cells s' c = fn_cells s' b" for b c
    using that inj ne by (auto simp: s'_def split: if_splits)
  moreover have "reg_m (fn_aggs s') j \<noteq> None \<longleftrightarrow> j \<noteq> 0 \<and> (\<exists>c. fn_cells s' c = j)" for j
  proof (cases "j = i")
    case True
    then show ?thesis using add(2,4) by (auto simp: s'_def)
  next
    case False
    have "(\<exists>c. fn_cells s' c = j) \<longleftrightarrow> (\<exists>c. fn_cells s c = j)" if "j \<noteq> 0"
      using False assms(2) that cells by metis
    moreover have "reg_m (fn_aggs s') j = reg_m (fn_aggs s) j" using add(4) False by (simp add: s'_def)
    ultimately show ?thesis using ex [of j] by metis
  qed
  moreover have "reg_inv idGen_live (fn_aggs s')" using add(1) by (simp add: s'_def)
  ultimately show "agg_inv s'" unfolding agg_inv_def by (intro conjI allI impI)
qed

text \<open>The end of a group: its entry is removed, and SQLite frees its memory.\<close>

lemma object_removed:
  assumes "agg_inv s" and "obj_of s a \<noteq> None"
  obtains r where "reg_del idGen_reclaim (fn_cells s a) (fn_aggs s) = Some r" and "agg_inv (s\<lparr>fn_aggs := r, fn_cells := (fn_cells s)(a := 0)\<rparr>)"
    and "\<And>b. obj_of (s\<lparr>fn_aggs := r, fn_cells := (fn_cells s)(a := 0)\<rparr>) b = (if b = a then None else obj_of s b)"
proof -
  have inv: "reg_inv idGen_live (fn_aggs s)" and inj: "\<And>b c. fn_cells s b \<noteq> 0 \<Longrightarrow> fn_cells s c = fn_cells s b \<Longrightarrow> c = b"
    and ex: "\<And>j. reg_m (fn_aggs s) j \<noteq> None \<longleftrightarrow> j \<noteq> 0 \<and> (\<exists>a. fn_cells s a = j)"
    using assms(1) by (auto simp: agg_inv_def)
  have a: "fn_cells s a \<noteq> 0" "reg_m (fn_aggs s) (fn_cells s a) \<noteq> None" using assms(2) by (auto simp: obj_of_def split: if_splits)
  obtain r where r: "reg_del idGen_reclaim (fn_cells s a) (fn_aggs s) = Some r" "reg_inv idGen_live r" "reg_m r = (reg_m (fn_aggs s))(fn_cells s a := None)"
    using idgen.del_inv [OF inv a(2)] by blast
  let ?s = "s\<lparr>fn_aggs := r, fn_cells := (fn_cells s)(a := 0)\<rparr>"
  have "c = b" if "fn_cells ?s b \<noteq> 0" "fn_cells ?s c = fn_cells ?s b" for b c
    using that inj by (auto split: if_splits)
  moreover have "reg_m (fn_aggs ?s) j \<noteq> None \<longleftrightarrow> j \<noteq> 0 \<and> (\<exists>c. fn_cells ?s c = j)" for j
  proof (cases "j = fn_cells s a")
    case True
    then show ?thesis using r(3) inj [OF a(1)] by auto
  next
    case False
    have "(\<exists>c. fn_cells ?s c = j) \<longleftrightarrow> (\<exists>c. fn_cells s c = j)" if "j \<noteq> 0" using False that by auto
    then show ?thesis using ex [of j] r(3) False by auto
  qed
  moreover have "reg_inv idGen_live (fn_aggs ?s)" using r(2) by simp
  ultimately have "agg_inv ?s" unfolding agg_inv_def by (intro conjI allI impI)
  moreover have "obj_of ?s b = (if b = a then None else obj_of s b)" for b using r(3) inj [OF a(1), of b] by (auto simp: obj_of_def)
  ultimately show thesis using that r(1) by blast
qed

definition keeps_groups :: "'w fn_state \<Rightarrow> 'w fn_state \<Rightarrow> bool" where
  "keeps_groups s s' \<longleftrightarrow> agg_inv s' \<and> (\<forall>b. obj_of s b \<noteq> None \<longrightarrow> obj_of s' b = obj_of s b)"

lemma calm_keeps: "calm a s s' \<Longrightarrow> keeps_groups s s'"
  by (simp add: calm_def keeps_groups_def)

lemma keeps_groups_trans: "keeps_groups s s1 \<Longrightarrow> keeps_groups s1 s2 \<Longrightarrow> keeps_groups s s2"
  by (auto simp: keeps_groups_def)

lemma keeps_groups_world: "keeps_groups s s1 \<Longrightarrow> \<exists>w. s2 = s1\<lparr>fn_world := w\<rparr> \<Longrightarrow> keeps_groups s s2"
  by (auto simp: keeps_groups_def)

lemma no_object: "agg_inv s \<Longrightarrow> obj_of s a = None \<longleftrightarrow> fn_cells s a = 0"
  unfolding agg_inv_def obj_of_def by (metis option.discI)

text \<open>The address that SQLite gives for a context: that of its group, or none if memory is short; a group that has its memory keeps it.\<close>

definition addr_ok :: "('w, 'm) fn_lib_scheme \<Rightarrow> Context \<Rightarrow> nat \<Rightarrow> 'w fn_state \<Rightarrow> bool" where
  "addr_ok L ctx a s \<longleftrightarrow> a \<noteq> 0 \<and> (let b = fst (x_aggregate_context L (cx_ptr ctx) (fn_world s)) in b = a \<or> b = 0 \<and> obj_of s a = None)"

lemma makeAggregate_object:
  assumes "agg_inv s" and "addr_ok L ctx a s" and "obj_of s a = Some x"
  shows "\<exists>w. makeAggregate K L G ctx s = Some ((Some x, fn_cells s a), s\<lparr>fn_world := w\<rparr>)"
proof -
  obtain b w where b: "x_aggregate_context L (cx_ptr ctx) (fn_world s) = (b, w)" by fastforce
  then have "b = a" "a \<noteq> 0" using assms(2,3) by (auto simp: addr_ok_def)
  moreover have "fn_cells s a \<noteq> 0" "reg_m (fn_aggs s) (fn_cells s a) = Some x" using assms(3) by (auto simp: obj_of_def split: if_splits)
  ultimately show ?thesis using b by (auto simp: makeAggregate_def)
qed

lemma makeAggregate_result:
  assumes "tame A G" and "agg_inv s" and "addr_ok L ctx a s" and "a = A (cx_ptr ctx)" and "makeAggregate K L G ctx s = Some ((xo, i), s')"
  shows "keeps_groups s s' \<and> obj_of s' a = xo \<and> (xo \<noteq> None \<longrightarrow> i = fn_cells s' a)"
proof (cases "obj_of s a")
  case (Some x)
  then show ?thesis using makeAggregate_object [OF assms(2,3) Some, of K G] assms(2,5) by (auto simp: keeps_groups_def)
next
  case None
  obtain b w where b: "x_aggregate_context L (cx_ptr ctx) (fn_world s) = (b, w)" by fastforce
  let ?s = "s\<lparr>fn_world := w\<rparr>"
  have z: "fn_cells s a = 0" "b = a \<or> b = 0" "a \<noteq> 0" using None assms(2,3) b no_object by (auto simp: addr_ok_def)
  have failed: "keeps_groups s s' \<and> obj_of s' a = xo \<and> (xo \<noteq> None \<longrightarrow> i = fn_cells s' a)"
    if "calm a s s1" "no_aggregate K L ctx e s1 = Some ((xo, i), s')" for s1 e
  proof -
    have "xo = None \<and> (\<exists>w. s' = s1\<lparr>fn_world := w\<rparr>)" using no_aggregate_calm [OF that(2)] .
    moreover have "obj_of s1 a = None" using that(1) z(1) by (simp add: calm_def obj_of_def)
    ultimately show ?thesis using keeps_groups_world [OF calm_keeps [OF that(1)]] by auto
  qed
  show ?thesis
  proof (cases "b = 0")
    case True
    have run: "no_aggregate K L ctx (ErrorString ''insufficient memory for aggregate'') ?s = Some ((xo, i), s')" using assms(5) b True by (simp add: makeAggregate_def)
    show ?thesis by (rule failed [OF calm_world [OF assms(2)] run])
  next
    case False
    then obtain factory f err s1 where fac: "g_factory G factory ctx ?s = Some ((f, err), s1)"
      and rest: "(case err of Some e \<Rightarrow> no_aggregate K L ctx e s1 | None \<Rightarrow> (case f of
            None \<Rightarrow> no_aggregate K L ctx (ErrorString ''MakeAggregate function returned nil'') s1
          | Some x \<Rightarrow> (case reg_add idGen_next x (fn_aggs s1) of (i, r) \<Rightarrow> Some ((Some x, i), s1\<lparr>fn_aggs := r, fn_cells := (fn_cells s1)(a := i)\<rparr>)))) = Some ((xo, i), s')"
      using assms(5) b z by (auto simp: makeAggregate_def bind_eq_Some_conv)
    have c1: "calm a s s1" using tameD(1) [OF assms(1) _ fac] assms(2,4) calm_trans [OF calm_world [OF assms(2), of a w]] by simp
    show ?thesis
    proof (cases "err = None \<and> f \<noteq> None")
      case False
      then obtain e where "no_aggregate K L ctx e s1 = Some ((xo, i), s')" using rest by (auto split: option.splits)
      then show ?thesis by (rule failed [OF c1])
    next
      case True
      then obtain x r where x: "f = Some x" "reg_add idGen_next x (fn_aggs s1) = (i, r)" "xo = Some x" "s' = s1\<lparr>fn_aggs := r, fn_cells := (fn_cells s1)(a := i)\<rparr>"
        using rest by (auto split: prod.splits)
      have i1: "agg_inv s1" "fn_cells s1 a = 0" using c1 z(1) by (simp_all add: calm_def)
      note n = new_object [OF i1 x(2), folded x(4)]
      have "obj_of s' b = obj_of s b" if "obj_of s b \<noteq> None" for b using n(3) [of b] c1 that None by (cases "b = a") (auto simp: calm_def)
      then show ?thesis using n(1,2,4) x(3) by (auto simp: keeps_groups_def)
    qed
  qed
qed

lemma calls_keep_groups:
  assumes "tame A G" and "agg_inv s" and "addr_ok L ctx (A (cx_ptr ctx)) s"
  shows "stepTrampoline K L G ctx vs s = Some s' \<Longrightarrow> keeps_groups s s'" and "inverseTrampoline K L G ctx vs s = Some s' \<Longrightarrow> keeps_groups s s'"
    and "valueTrampoline K L G ctx s = Some s' \<Longrightarrow> keeps_groups s s'"
proof -
  have gen: "keeps_groups s s'"
    if run: "makeAggregate K L G ctx s \<bind> (\<lambda>((x, _), s). case x of None \<Rightarrow> Some s | Some x \<Rightarrow> f x s \<bind> (\<lambda>(r, s). h r s)) = Some s'"
      and f: "\<And>x s r s'. agg_inv s \<Longrightarrow> f x s = Some (r, s') \<Longrightarrow> calm (A (cx_ptr ctx)) s s'" and h: "\<And>r s s'. h r s = Some s' \<Longrightarrow> \<exists>w. s' = s\<lparr>fn_world := w\<rparr>"
    for f :: "nat \<Rightarrow> 'a fn_state \<Rightarrow> ('r \<times> 'a fn_state) option" and h
  proof -
    obtain xo i s1 where m: "makeAggregate K L G ctx s = Some ((xo, i), s1)"
      and r: "(case xo of None \<Rightarrow> Some s1 | Some x \<Rightarrow> f x s1 \<bind> (\<lambda>(r, s). h r s)) = Some s'" using run by (auto simp: bind_eq_Some_conv)
    have k: "keeps_groups s s1" using makeAggregate_result [OF assms refl m] by blast
    show ?thesis
    proof (cases xo)
      case None
      then show ?thesis using r k by simp
    next
      case (Some x)
      then obtain y s2 where fx: "f x s1 = Some (y, s2)" and hy: "h y s2 = Some s'" using r by (auto simp: bind_eq_Some_conv)
      have "keeps_groups s1 s2" using f [OF _ fx] k calm_keeps by (auto simp: keeps_groups_def)
      from keeps_groups_world [OF keeps_groups_trans [OF k this] h [OF hy]] show ?thesis .
    qed
  qed
  show "keeps_groups s s'" if "stepTrampoline K L G ctx vs s = Some s'"
    by (rule gen [OF that [unfolded stepTrampoline_def]]) (rule tameD(2) [OF assms(1)], assumption+, rule report_calm)
  show "keeps_groups s s'" if "inverseTrampoline K L G ctx vs s = Some s'"
    by (rule gen [OF that [unfolded inverseTrampoline_def]]) (rule tameD(3) [OF assms(1)], assumption+, rule report_calm)
  show "keeps_groups s s'" if "valueTrampoline K L G ctx s = Some s'"
  proof (rule gen [where f = "\<lambda>x s. g_WindowValue G x ctx s" and h = "\<lambda>(v, err) s. Context_result K L ctx v err s"])
    show "makeAggregate K L G ctx s \<bind> (\<lambda>((x, _), s). case x of None \<Rightarrow> Some s | Some x \<Rightarrow> g_WindowValue G x ctx s \<bind>
      (\<lambda>(r, s). (case r of (v, err) \<Rightarrow> \<lambda>s. Context_result K L ctx v err s) s)) = Some s'"
      using that by (simp add: valueTrampoline_def split_def)
  qed (use tameD(4) [OF assms(1)] result_calm in \<open>auto split: prod.splits\<close>)
qed

lemma final_removes:
  assumes "tame A G" and "agg_inv s" and "addr_ok L ctx a s" and "a = A (cx_ptr ctx)" and "finalTrampoline K L G ctx s = Some s'"
  shows "agg_inv (s'\<lparr>fn_cells := (fn_cells s')(a := 0)\<rparr>) \<and> obj_of (s'\<lparr>fn_cells := (fn_cells s')(a := 0)\<rparr>) a = None \<and>
    (\<forall>b. b \<noteq> a \<longrightarrow> obj_of s b \<noteq> None \<longrightarrow> obj_of (s'\<lparr>fn_cells := (fn_cells s')(a := 0)\<rparr>) b = obj_of s b)"
proof -
  obtain xo i s1 where m: "makeAggregate K L G ctx s = Some ((xo, i), s1)" using assms(5) by (auto simp: finalTrampoline_def bind_eq_Some_conv)
  have k: "keeps_groups s s1" and o: "obj_of s1 a = xo" and i: "xo \<noteq> None \<longrightarrow> i = fn_cells s1 a" using makeAggregate_result [OF assms(1-4) m] by auto
  show ?thesis
  proof (cases xo)
    case None
    then have s': "s' = s1" using assms(5) m by (simp add: finalTrampoline_def)
    have "fn_cells s1 a = 0" using o None k no_object by (auto simp: keeps_groups_def)
    then have "s'\<lparr>fn_cells := (fn_cells s')(a := 0)\<rparr> = s1" using s' by (simp add: fun_upd_idem)
    then show ?thesis using k o None by (simp add: keeps_groups_def)
  next
    case (Some x)
    obtain v err s2 s3 s4 r where run: "g_WindowValue G x ctx s1 = Some ((v, err), s2)" "Context_result K L ctx v err s2 = Some s3"
      "g_Finalize G x ctx s3 = Some s4" "reg_del idGen_reclaim i (fn_aggs s4) = Some r" "s' = s4\<lparr>fn_aggs := r\<rparr>"
      using assms(5) m Some by (auto simp: finalTrampoline_def bind_eq_Some_conv)
    have c2: "calm a s1 s2" using tameD(4) [OF assms(1) _ run(1)] k assms(4) by (simp add: keeps_groups_def)
    obtain w where "s3 = s2\<lparr>fn_world := w\<rparr>" using result_calm [OF run(2)] by blast
    then have c3: "calm a s1 s3" using c2 by (simp add: calm_def)
    then have c4: "calm a s1 s4" using tameD(5) [OF assms(1) _ run(3)] assms(4) calm_trans by (auto simp: calm_def)
    have cell: "fn_cells s4 a = i" "obj_of s4 a \<noteq> None" "agg_inv s4" using c4 i o Some by (auto simp: calm_def)
    from object_removed [OF cell(3,2)] run(4) cell(1) have rem: "agg_inv (s4\<lparr>fn_aggs := r, fn_cells := (fn_cells s4)(a := 0)\<rparr>)"
      "obj_of (s4\<lparr>fn_aggs := r, fn_cells := (fn_cells s4)(a := 0)\<rparr>) b = (if b = a then None else obj_of s4 b)" for b by (metis option.inject)+
    have old: "obj_of s4 b = obj_of s b" if "obj_of s b \<noteq> None" for b using keeps_groups_trans [OF k calm_keeps [OF c4]] that by (simp add: keeps_groups_def)
    have "s'\<lparr>fn_cells := (fn_cells s')(a := 0)\<rparr> = s4\<lparr>fn_aggs := r, fn_cells := (fn_cells s4)(a := 0)\<rparr>" using run(5) by simp
    then show ?thesis using rem old by simp
  qed
qed

text \<open>C20: groups of rows that SQLite aggregates at the same time have objects of their own.  All calls for a group reach the object that was made for it; no call changes the object
  of another group; and the final call of a group, after which SQLite frees its memory, removes the object of that group and no other, so that none leaks.\<close>

theorem aggregates_separate:
  assumes "tame A G" and "agg_inv s" and "a = A (cx_ptr ctx)" and "addr_ok L ctx a s"
  shows "(\<forall>x. obj_of s a = Some x \<longrightarrow> (\<exists>w. makeAggregate K L G ctx s = Some ((Some x, fn_cells s a), s\<lparr>fn_world := w\<rparr>))) \<and>
    (\<forall>vs s'. stepTrampoline K L G ctx vs s = Some s' \<or> inverseTrampoline K L G ctx vs s = Some s' \<or> valueTrampoline K L G ctx s = Some s' \<longrightarrow>
       agg_inv s' \<and> (\<forall>b. obj_of s b \<noteq> None \<longrightarrow> obj_of s' b = obj_of s b)) \<and>
    (\<forall>s'. finalTrampoline K L G ctx s = Some s' \<longrightarrow> (let t = s'\<lparr>fn_cells := (fn_cells s')(a := 0)\<rparr> in
       agg_inv t \<and> obj_of t a = None \<and> (\<forall>b. b \<noteq> a \<longrightarrow> obj_of s b \<noteq> None \<longrightarrow> obj_of t b = obj_of s b)))"
proof (intro conjI allI impI)
  show "\<exists>w. makeAggregate K L G ctx s = Some ((Some x, fn_cells s a), s\<lparr>fn_world := w\<rparr>)" if "obj_of s a = Some x" for x
    using makeAggregate_object [OF assms(2,4) that] .
  have ad: "addr_ok L ctx (A (cx_ptr ctx)) s" using assms(3,4) by simp
  have kept: "keeps_groups s s'"
    if "stepTrampoline K L G ctx vs s = Some s' \<or> inverseTrampoline K L G ctx vs s = Some s' \<or> valueTrampoline K L G ctx s = Some s'" for vs s'
    using calls_keep_groups [OF assms(1,2) ad] that by blast
  show "agg_inv s'" if "stepTrampoline K L G ctx vs s = Some s' \<or> inverseTrampoline K L G ctx vs s = Some s' \<or> valueTrampoline K L G ctx s = Some s'" for vs s'
    using kept [OF that] by (simp add: keeps_groups_def)
  show "obj_of s' b = obj_of s b"
    if "stepTrampoline K L G ctx vs s = Some s' \<or> inverseTrampoline K L G ctx vs s = Some s' \<or> valueTrampoline K L G ctx s = Some s'" "obj_of s b \<noteq> None" for vs s' b
    using kept [OF that(1)] that(2) by (simp add: keeps_groups_def)
  show "let t = s'\<lparr>fn_cells := (fn_cells s')(a := 0)\<rparr> in agg_inv t \<and> obj_of t a = None \<and> (\<forall>b. b \<noteq> a \<longrightarrow> obj_of s b \<noteq> None \<longrightarrow> obj_of t b = obj_of s b)"
    if "finalTrampoline K L G ctx s = Some s'" for s'
    using final_removes [OF assms(1,2,4,3) that] by (simp add: Let_def)
qed

text \<open>Go code that makes one object for each context; SQLite as above.\<close>

definition demo_code :: "fn_handle set go_code" where
  "demo_code = \<lparr>g_scalar = (\<lambda>f ctx vs s. Some ((zero_Value, None), s)), g_factory = (\<lambda>f ctx s. Some ((Some (40 + cx_ptr ctx), None), s)),
     g_Step = (\<lambda>x ctx vs s. Some (None, s)), g_WindowInverse = (\<lambda>x ctx vs s. Some (None, s)), g_WindowValue = (\<lambda>x ctx s. Some ((zero_Value, None), s)),
     g_Finalize = (\<lambda>x ctx s. Some s), g_compare = (\<lambda>f s1 s2. 0)\<rparr>"

lemma demo_tame: "tame id demo_code"
  by (auto simp: tame_def demo_code_def calm_def)

text \<open>One row, then the end.\<close>

theorem aggregates_separate_witness:
  "\<exists>s1 s2. stepTrampoline demo_K fn_demo demo_code \<lparr>cx_tls = 0, cx_ptr = 1\<rparr> [] (fn_start\<lparr>fn_factories := snd (reg_add idGen_next 5 handles_init)\<rparr>) = Some s1 \<and>
     obj_of s1 1 = Some 41 \<and> finalTrampoline demo_K fn_demo demo_code \<lparr>cx_tls = 0, cx_ptr = 1\<rparr> s1 = Some s2 \<and> obj_of (s2\<lparr>fn_cells := (fn_cells s2)(1 := 0)\<rparr>) 1 = None"
proof -
  let ?ctx = "\<lparr>cx_tls = 0, cx_ptr = 1\<rparr>" and ?s = "fn_start\<lparr>fn_factories := snd (reg_add idGen_next 5 handles_init)\<rparr>"
  have inv: "agg_inv ?s" using handles_reachable_inv [OF handles_reachable.init] by (auto simp: agg_inv_def fn_start_def handles_init_def)
  have ad: "addr_ok fn_demo ?ctx 1 ?s" by (simp add: addr_ok_def)
  obtain s1 where s1: "stepTrampoline demo_K fn_demo demo_code ?ctx [] ?s = Some s1" "obj_of s1 1 = Some 41"
    by (simp add: stepTrampoline_def makeAggregate_def fn_start_def reg_add_def handles_init_def idGen_next_def demo_code_def report_def obj_of_def)
  have "agg_inv s1" using aggregates_separate [OF demo_tame inv _ ad, of demo_K] s1(1) by (metis Context.select_convs(2) id_apply)
  moreover have ad1: "addr_ok fn_demo ?ctx 1 s1" by (simp add: addr_ok_def)
  ultimately obtain w where m: "makeAggregate demo_K fn_demo demo_code ?ctx s1 = Some ((Some 41, fn_cells s1 1), s1\<lparr>fn_world := w\<rparr>)" and inv1: "agg_inv s1"
    using makeAggregate_object [OF _ ad1 s1(2)] by blast
  have "obj_of (s1\<lparr>fn_world := w\<rparr>) 1 \<noteq> None" "agg_inv (s1\<lparr>fn_world := w\<rparr>)" using s1(2) inv1 by simp_all
  from object_removed [OF this(2,1)] obtain r where "reg_del idGen_reclaim (fn_cells s1 1) (fn_aggs s1) = Some r" by auto
  then obtain s2 where f: "finalTrampoline demo_K fn_demo demo_code ?ctx s1 = Some s2"
    using m by (simp add: finalTrampoline_def demo_code_def Context_result_def zero_Value_def set_result_def)
  have "obj_of (s2\<lparr>fn_cells := (fn_cells s2)(1 := 0)\<rparr>) 1 = None"
    using aggregates_separate [OF demo_tame inv1 _ ad1, of demo_K] f by (simp add: Let_def)
  then show ?thesis using s1 f by blast
qed

end
