(* ===== verification/VTable.thy ===== *)
theory VTable
  imports Funcs Series Savepoint
begin

text \<open>
  Virtual tables (vtable.go and the copying of constraints in index\_constraint.go).  SQLite keeps, for each virtual table and each cursor, a piece of memory whose layout is shared with
  Go: it holds the ID under which the Go object is filed.  SQLite calls the objects through trampolines, with the addresses of these pieces.

  Tables, cursors and connect functions are references; what their methods do is the parameter \<open>vt_code\<close>.  \<open>None\<close> is a panic or an access to memory that has been freed.
\<close>

section \<open>State and parameters\<close>

record VTableConnectOptions =
  vo_ModuleName :: gostring
  vo_DatabaseName :: gostring
  vo_VTableName :: gostring
  vo_Args :: "gostring list"

record VTableConfig =
  vc_Declaration :: gostring
  vc_ConstraintSupport :: bool
  vc_AllowIndirect :: bool

record VTableUpdateParams =
  up_OldRowID :: Value
  up_NewRowID :: Value
  up_Columns :: "Value list"

record Module =
  md_Connect :: "nat option"
  md_Create :: "nat option"
  md_UseConnectAsCreate :: bool

text \<open>Which of the optional interfaces a table implements is the parameter \<open>k_implements\<close>.\<close>

datatype vt_interface = WritableVTable | TransactionVTable | SavepointVTable | RenameVTable

record assertedVTable =
  av_VTable :: "nat option"
  av_Write :: "nat option"
  av_Transaction :: "nat option"
  av_Savepoint :: "nat option"
  av_Rename :: "nat option"

text \<open>The shared memory: \<open>zErrMsg\<close> of a table, an address and the text there; the table of a cursor, which SQLite sets.\<close>

record vtabWrapper =
  vw_errmsg :: "(nat \<times> gostring) option"
  vw_id :: nat

record cursorWrapper =
  cw_vtab :: nat
  cw_id :: nat

record 'w vt_state =
  vt_modules :: "nat \<rightharpoonup> Module"
  vt_tables :: "assertedVTable handles"
  vt_cursors :: "nat option handles"
  vt_vtabs :: "nat \<rightharpoonup> vtabWrapper"
  vt_curs :: "nat \<rightharpoonup> cursorWrapper"
  vt_world :: 'w

text \<open>The methods that return just an error.\<close>

datatype vt_method =
    M_Disconnect | M_Destroy | M_Begin | M_Sync | M_Commit | M_Rollback
  | M_Savepoint int | M_Release int | M_RollbackTo int | M_Rename gostring | M_DeleteRow Value
  | M_Filter IndexID "Value list" | M_Next | M_Close

record 'w vt_code =
  k_implements :: "nat \<Rightarrow> vt_interface \<Rightarrow> bool"
  k_connect :: "nat \<Rightarrow> VTableConnectOptions \<Rightarrow> 'w vt_state \<Rightarrow> ((nat option \<times> VTableConfig option \<times> error) \<times> 'w vt_state) option"
  k_call :: "vt_method \<Rightarrow> nat \<Rightarrow> 'w vt_state \<Rightarrow> (error \<times> 'w vt_state) option"
  k_BestIndex :: "nat \<Rightarrow> IndexInputs \<Rightarrow> 'w vt_state \<Rightarrow> ((IndexOutputs option \<times> error) \<times> 'w vt_state) option"
  k_Open :: "nat \<Rightarrow> 'w vt_state \<Rightarrow> ((nat option \<times> error) \<times> 'w vt_state) option"
  k_Update :: "nat \<Rightarrow> VTableUpdateParams \<Rightarrow> 'w vt_state \<Rightarrow> ((int \<times> error) \<times> 'w vt_state) option"
  k_EOF :: "nat \<Rightarrow> 'w vt_state \<Rightarrow> (bool \<times> 'w vt_state) option"
  k_Column :: "nat \<Rightarrow> int \<Rightarrow> bool \<Rightarrow> 'w vt_state \<Rightarrow> ((Value \<times> error) \<times> 'w vt_state) option"
  k_RowID :: "nat \<Rightarrow> 'w vt_state \<Rightarrow> ((int \<times> error) \<times> 'w vt_state) option"

text \<open>The function that a module has for \<open>CREATE VIRTUAL TABLE\<close>.\<close>

datatype create_fn = No_create | Create_trampoline | Connect_trampoline

text \<open>SQLite: \<open>x_sqlite_malloc\<close> gives an address or 0; \<open>x_create_module\<close> returns the modules whose destructor it ran.
  \<open>type_name\<close> is the verb \<open>%T\<close>, \<open>sizeof\<close> the size of a structure.\<close>

record 'w vt_lib = "'w fn_lib" +
  x_sqlite_malloc :: "int \<Rightarrow> 'w \<Rightarrow> nat \<times> 'w"
  x_sqlite_free :: "nat \<Rightarrow> 'w \<Rightarrow> 'w"
  x_declare_vtab :: "gostring \<Rightarrow> 'w \<Rightarrow> int \<times> 'w"
  x_vtab_config :: "int \<Rightarrow> bool \<Rightarrow> 'w \<Rightarrow> 'w"
  x_vtab_nochange :: "nat \<Rightarrow> 'w \<Rightarrow> bool"
  x_create_module :: "gostring \<Rightarrow> (nat \<times> create_fn) option \<Rightarrow> 'w \<Rightarrow> (int \<times> nat list) \<times> 'w"
  type_name :: "nat option \<Rightarrow> gostring"
  sizeof :: "gostring \<Rightarrow> int"

section \<open>C strings\<close>

text \<open>\<open>isCStringEqual\<close> walks the bytes of C, which end with 0.\<close>

fun cstring_loop :: "gostring \<Rightarrow> gostring \<Rightarrow> bool" where
  "cstring_loop [] s = (length s = 0)"
| "cstring_loop (cc # c) s = (if cc = CHR 0x00 then length s = 0 else if length s = 0 \<or> cc \<noteq> hd s then False else cstring_loop c (tl s))"

definition isCStringEqual :: "gostring option \<Rightarrow> gostring \<Rightarrow> bool" where
  "isCStringEqual c s = (case c of None \<Rightarrow> s = '''' | Some c \<Rightarrow> cstring_loop c s)"

definition GoString_C :: "gostring option \<Rightarrow> gostring" where
  "GoString_C c = (case c of None \<Rightarrow> '''' | Some c \<Rightarrow> takeWhile (\<lambda>ch. ch \<noteq> CHR 0x00) c)"

text \<open>A copy in memory of SQLite: its address and the text, or the error.\<close>

definition sqliteCString :: "lib_consts \<Rightarrow> ('w, 'm) vt_lib_scheme \<Rightarrow> (nat \<Rightarrow> bool) \<Rightarrow> gostring \<Rightarrow> 'w \<Rightarrow> ((nat \<times> gostring) option \<times> error) \<times> 'w" where
  "sqliteCString K L isPrint s w =
     (if CHR 0x00 \<in> set s then ((None, Some (ErrorString (Quote isPrint s @ '' contains NUL bytes''))), w)
      else case x_sqlite_malloc L (wrap32 (int (length s) + 1)) w of (c, w) \<Rightarrow>
        if c = 0 then ((None, errorf_w (''%w: cannot allocate '' @ FormatInt (int (length s)) @ '' bytes'') (ToError K (K ''SQLITE_NOMEM''))), w)
        else ((Some (c, s), None), w))"

section \<open>Planning\<close>

text \<open>The structure that SQLite passes to \<open>xBestIndex\<close>.  With each constraint go the answers of \<open>sqlite3_vtab_collation\<close> and \<open>sqlite3_vtab_rhs_value\<close>.\<close>

record c_constraint =
  cc_iColumn :: int
  cc_op :: int
  cc_usable :: int
  cc_collation :: "gostring option"
  cc_rhs :: "int \<times> nat"

record index_info =
  ii_constraints :: "c_constraint list"
  ii_orderby :: "(int \<times> int) list"
  ii_colUsed :: uint64
  ii_usage :: "(int \<times> int) list"
  ii_idxNum :: int
  ii_idxStr :: "gostring option"
  ii_needToFreeIdxStr :: int
  ii_orderByConsumed :: int
  ii_estimatedCost :: int
  ii_estimatedRows :: int
  ii_idxFlags :: int

definition binaryCollation :: gostring where "binaryCollation = ''BINARY''"

text \<open>\<open>room\<close>: whether there was memory for the pointer to a value.\<close>

definition copyFromC :: "lib_consts \<Rightarrow> nat \<Rightarrow> bool \<Rightarrow> c_constraint \<Rightarrow> IndexConstraint" where
  "copyFromC K tls room src =
     (let known = room \<and> fst (cc_rhs src) = ResultOK K in
      \<lparr>ic_Column = cc_iColumn src, ic_Op = cc_op src, ic_Usable = (cc_usable src \<noteq> 0),
       ic_Collation = (if isCStringEqual (cc_collation src) binaryCollation then binaryCollation else GoString_C (cc_collation src)),
       ic_RValue = (if known then zero_Value\<lparr>v_tls := Some tls, ptrOrType := snd (cc_rhs src)\<rparr> else zero_Value),
       ic_RValueKnown = known\<rparr>)"

definition newIndexInputs :: "lib_consts \<Rightarrow> ('w, 'm) vt_lib_scheme \<Rightarrow> nat \<Rightarrow> index_info \<Rightarrow> 'w \<Rightarrow> IndexInputs \<times> 'w" where
  "newIndexInputs K L tls info w = (case x_sqlite_malloc L 8 w of (ppVal, w) \<Rightarrow>
     (\<lparr>in_Constraints = map (copyFromC K tls (ppVal \<noteq> 0)) (ii_constraints info),
       in_OrderBy = map (\<lambda>(col, desc). \<lparr>ob_Column = col, ob_Desc = (desc \<noteq> 0)\<rparr>) (ii_orderby info),
       in_ColumnsUsed = ii_colUsed info\<rparr>,
      if ppVal \<noteq> 0 then x_sqlite_free L ppVal w else w))"

definition copyToC :: "lib_consts \<Rightarrow> ('w, 'm) vt_lib_scheme \<Rightarrow> (nat \<Rightarrow> bool) \<Rightarrow> IndexOutputs \<Rightarrow> index_info \<Rightarrow> 'w \<Rightarrow> (error \<times> index_info) \<times> 'w" where
  "copyToC K L isPrint outputs info w =
     (let us = out_ConstraintUsage outputs;
          info = info\<lparr>ii_usage := map (\<lambda>u. (wrap32 (cu_ArgvIndex u), if cu_Omit u then 1 else 0)) us @ drop (length us) (ii_usage info), ii_idxNum := id_Num (out_ID outputs)\<rparr>;
          str = id_String (out_ID outputs) in
      case (if length str = 0 then ((None, None), w) else sqliteCString K L isPrint str w) of ((idxStr, err), w) \<Rightarrow>
        let info = info\<lparr>ii_idxStr := map_option snd idxStr\<rparr> in
        if err \<noteq> None then ((err, info), w)
        else let info = info\<lparr>ii_needToFreeIdxStr := (if length str = 0 then 0 else 1), ii_orderByConsumed := (if out_OrderByConsumed outputs then 1 else 0)\<rparr>;
             info = (if 0 < out_EstimatedCost outputs \<or> out_UseZeroEstimates outputs then info\<lparr>ii_estimatedCost := out_EstimatedCost outputs\<rparr> else info);
             info = (if 0 < out_EstimatedRows outputs \<or> out_UseZeroEstimates outputs then info\<lparr>ii_estimatedRows := out_EstimatedRows outputs\<rparr> else info)
          in ((None, info\<lparr>ii_idxFlags := wrap32 (out_IndexFlags outputs)\<rparr>), w))"

section \<open>Error messages and lookups\<close>

text \<open>The message of a table is freed and replaced; without memory, or if it contains a zero byte, it is gone.\<close>

definition setErrorMessage :: "lib_consts \<Rightarrow> ('w, 'm) vt_lib_scheme \<Rightarrow> (nat \<Rightarrow> bool) \<Rightarrow> nat \<Rightarrow> gostring \<Rightarrow> 'w vt_state \<Rightarrow> 'w vt_state option" where
  "setErrorMessage K L isPrint pVTab msg s = do {
     vw \<leftarrow> vt_vtabs s pVTab;
     (case sqliteCString K L isPrint msg (case vw_errmsg vw of None \<Rightarrow> vt_world s | Some (old, _) \<Rightarrow> x_sqlite_free L old (vt_world s)) of ((text, _), w) \<Rightarrow>
        Some (s\<lparr>vt_vtabs := (vt_vtabs s)(pVTab \<mapsto> vw\<lparr>vw_errmsg := text\<rparr>), vt_world := w\<rparr>))
   }"

text \<open>How a trampoline returns: the code of the error, after its text was left in the table.\<close>

definition vtab_return :: "lib_consts \<Rightarrow> ('w, 'm) vt_lib_scheme \<Rightarrow> (nat \<Rightarrow> bool) \<Rightarrow> nat \<Rightarrow> error \<Rightarrow> 'w vt_state \<Rightarrow> (int \<times> 'w vt_state) option" where
  "vtab_return K L isPrint pVTab err s = (case err of
     None \<Rightarrow> Some (ResultOK K, s)
   | Some e \<Rightarrow> do { s \<leftarrow> setErrorMessage K L isPrint pVTab (error_text L e) s; Some (wrap32 (ErrCode K err), s) })"

text \<open>A missing entry of a Go map is the zero value: all interfaces nil.\<close>

definition no_vtable :: assertedVTable where
  "no_vtable = \<lparr>av_VTable = None, av_Write = None, av_Transaction = None, av_Savepoint = None, av_Rename = None\<rparr>"

definition find_vtable :: "nat \<Rightarrow> 'w vt_state \<Rightarrow> assertedVTable option" where
  "find_vtable pVTab s = map_option (\<lambda>vw. case reg_m (vt_tables s) (vw_id vw) of Some v \<Rightarrow> v | None \<Rightarrow> no_vtable) (vt_vtabs s pVTab)"

definition find_cursor :: "nat \<Rightarrow> 'w vt_state \<Rightarrow> (cursorWrapper \<times> nat) option" where
  "find_cursor pCursor s = do { cw \<leftarrow> vt_curs s pCursor; c \<leftarrow> reg_m (vt_cursors s) (cw_id cw); cur \<leftarrow> c; Some (cw, cur) }"

definition assertVTable :: "'w vt_code \<Rightarrow> nat option \<Rightarrow> assertedVTable" where
  "assertVTable G vtab = (let as = (\<lambda>i. case vtab of None \<Rightarrow> None | Some v \<Rightarrow> if k_implements G v i then Some v else None) in
     \<lparr>av_VTable = vtab, av_Write = as WritableVTable, av_Transaction = as TransactionVTable, av_Savepoint = as SavepointVTable, av_Rename = as RenameVTable\<rparr>)"

section \<open>Modules\<close>

text \<open>A module is known by the address of its C structure, of which only the field \<open>xCreate\<close> depends on the module.\<close>

definition module_prefix :: "(nat \<Rightarrow> bool) \<Rightarrow> gostring \<Rightarrow> gostring" where
  "module_prefix isPrint name = ''sqlite: set module '' @ Quote isPrint name @ '': ''"

definition xCreate :: "Module \<Rightarrow> create_fn" where
  "xCreate m = (if md_Create m \<noteq> None then Create_trampoline else if md_UseConnectAsCreate m then Connect_trampoline else No_create)"

definition destroyModule :: "('w, 'm) vt_lib_scheme \<Rightarrow> nat \<Rightarrow> 'w vt_state \<Rightarrow> 'w vt_state" where
  "destroyModule L pAux s = s\<lparr>vt_modules := (vt_modules s)(pAux := None), vt_world := x_sqlite_free L pAux (vt_world s)\<rparr>"

definition create_module :: "lib_consts \<Rightarrow> ('w, 'm) vt_lib_scheme \<Rightarrow> (nat \<Rightarrow> bool) \<Rightarrow> gostring \<Rightarrow> (nat \<times> create_fn) option \<Rightarrow> 'w vt_state \<Rightarrow> error \<times> 'w vt_state" where
  "create_module K L isPrint name cmod s = (case x_create_module L name cmod (vt_world s) of ((res, gone), w) \<Rightarrow>
     (wrap_error (module_prefix isPrint name @ ''%w'') (ToError K res), foldl (\<lambda>s p. destroyModule L p s) (s\<lparr>vt_world := w\<rparr>) gone))"

definition SetModule :: "lib_consts \<Rightarrow> ('w, 'm) vt_lib_scheme \<Rightarrow> (nat \<Rightarrow> bool) \<Rightarrow> bool \<Rightarrow> gostring \<Rightarrow> Module option \<Rightarrow> 'w vt_state \<Rightarrow> error \<times> 'w vt_state" where
  "SetModule K L isPrint nilConn name module s =
     (if nilConn then (Some (ErrorString (module_prefix isPrint name @ ''nil connection'')), s)
      else case x_cstring L name (vt_world s) of (err, w) \<Rightarrow> let s = s\<lparr>vt_world := w\<rparr> in
        (case err of
           Some e \<Rightarrow> (Some (ErrorString (module_prefix isPrint name @ error_text L e)), s)
         | None \<Rightarrow> (case module of
             None \<Rightarrow> create_module K L isPrint name None s
           | Some m \<Rightarrow>
               if md_Connect m = None then (Some (ErrorString (module_prefix isPrint name @ ''connect not provided'')), s)
               else case x_sqlite_malloc L (sizeof L ''sqlite3_module'') (vt_world s) of (cmod, w) \<Rightarrow> let s = s\<lparr>vt_world := w\<rparr> in
                 if cmod = 0 then (errorf_w (module_prefix isPrint name @ ''%w'') (ToError K (K ''SQLITE_NOMEM'')), s)
                 else create_module K L isPrint name (Some (cmod, xCreate m)) (s\<lparr>vt_modules := (vt_modules s)(cmod \<mapsto> m)\<rparr>))))"

section \<open>Connecting\<close>

definition connect_options :: "gostring list \<Rightarrow> VTableConnectOptions" where
  "connect_options argv =
     (let get = (\<lambda>i. if i < length argv then argv ! i else '''') in
      \<lparr>vo_ModuleName = get 0, vo_DatabaseName = get 1, vo_VTableName = get 2, vo_Args = drop 3 argv\<rparr>)"

text \<open>The configuration of a table: both calls pass the same option.\<close>

definition configure :: "lib_consts \<Rightarrow> ('w, 'm) vt_lib_scheme \<Rightarrow> VTableConfig \<Rightarrow> 'w \<Rightarrow> 'w" where
  "configure K L cfg w =
     (let w = (if \<not> vc_AllowIndirect cfg then x_vtab_config L (K ''SQLITE_VTAB_DIRECTONLY'') False w else w)
      in if vc_ConstraintSupport cfg then x_vtab_config L (K ''SQLITE_VTAB_DIRECTONLY'') True w else w)"

text \<open>After \<open>connect\<close> succeeded: the code to return and the address of the new memory, 0 if there is none.\<close>

definition install_vtable :: "lib_consts \<Rightarrow> ('w, 'm) vt_lib_scheme \<Rightarrow> 'w vt_code \<Rightarrow> nat option \<Rightarrow> VTableConfig \<Rightarrow> 'w vt_state \<Rightarrow> (int \<times> nat) \<times> 'w vt_state" where
  "install_vtable K L G vtab cfg s =
     (case x_cstring L (vc_Declaration cfg) (vt_world s) of (err, w) \<Rightarrow>
        if err \<noteq> None then ((K ''SQLITE_NOMEM'', 0), s\<lparr>vt_world := w\<rparr>)
        else case x_declare_vtab L (vc_Declaration cfg) w of (res, w) \<Rightarrow>
          if \<not> IsSuccess K res then ((wrap32 res, 0), s\<lparr>vt_world := w\<rparr>)
          else case x_sqlite_malloc L (sizeof L ''vtabWrapper'') (configure K L cfg w) of (pvtab, w) \<Rightarrow>
            if pvtab = 0 then ((K ''SQLITE_NOMEM'', 0), s\<lparr>vt_world := w\<rparr>)
            else case reg_add idGen_next (assertVTable G vtab) (vt_tables s) of (i, r) \<Rightarrow>
              ((ResultOK K, pvtab), s\<lparr>vt_tables := r, vt_vtabs := (vt_vtabs s)(pvtab \<mapsto> \<lparr>vw_errmsg = None, vw_id = i\<rparr>), vt_world := w\<rparr>))"

text \<open>A nil connect function, and a nil configuration without an error, panic.  The deferred call disconnects a table that could not be installed.\<close>

definition callConnectFunc :: "lib_consts \<Rightarrow> ('w, 'm) vt_lib_scheme \<Rightarrow> (nat \<Rightarrow> bool) \<Rightarrow> 'w vt_code \<Rightarrow> nat option \<Rightarrow> gostring list \<Rightarrow> 'w vt_state \<Rightarrow>
    ((int \<times> nat \<times> (nat \<times> gostring) option) \<times> 'w vt_state) option" where
  "callConnectFunc K L isPrint G connect argv s = do {
     f \<leftarrow> connect;
     ((vtab, cfg, err), s) \<leftarrow> k_connect G f (connect_options argv) s;
     (case err of
        Some e \<Rightarrow> (case sqliteCString K L isPrint (error_text L e) (vt_world s) of ((zerr, _), w) \<Rightarrow> Some ((wrap32 (ErrCode K err), 0, zerr), s\<lparr>vt_world := w\<rparr>))
      | None \<Rightarrow> do {
          cfg \<leftarrow> cfg;
          (case install_vtable K L G vtab cfg s of ((code, pvtab), s) \<Rightarrow>
             if code \<noteq> ResultOK K then do { v \<leftarrow> vtab; (_, s) \<leftarrow> k_call G M_Disconnect v s; Some ((code, pvtab, None), s) } else Some ((code, pvtab, None), s))
        })
   }"

definition vtabCreateTrampoline :: "lib_consts \<Rightarrow> ('w, 'm) vt_lib_scheme \<Rightarrow> (nat \<Rightarrow> bool) \<Rightarrow> 'w vt_code \<Rightarrow> nat \<Rightarrow> gostring list \<Rightarrow> 'w vt_state \<Rightarrow>
    ((int \<times> nat \<times> (nat \<times> gostring) option) \<times> 'w vt_state) option" where
  "vtabCreateTrampoline K L isPrint G pAux argv s = do { m \<leftarrow> vt_modules s pAux; callConnectFunc K L isPrint G (md_Create m) argv s }"

definition vtabConnectTrampoline :: "lib_consts \<Rightarrow> ('w, 'm) vt_lib_scheme \<Rightarrow> (nat \<Rightarrow> bool) \<Rightarrow> 'w vt_code \<Rightarrow> nat \<Rightarrow> gostring list \<Rightarrow> 'w vt_state \<Rightarrow>
    ((int \<times> nat \<times> (nat \<times> gostring) option) \<times> 'w vt_state) option" where
  "vtabConnectTrampoline K L isPrint G pAux argv s = do { m \<leftarrow> vt_modules s pAux; callConnectFunc K L isPrint G (md_Connect m) argv s }"

text \<open>Both ends of a table: its memory is freed and its entry removed, then the method is called.\<close>

definition end_vtable :: "lib_consts \<Rightarrow> ('w, 'm) vt_lib_scheme \<Rightarrow> 'w vt_code \<Rightarrow> vt_method \<Rightarrow> nat \<Rightarrow> 'w vt_state \<Rightarrow> (int \<times> 'w vt_state) option" where
  "end_vtable K L G method pVTab s = do {
     vw \<leftarrow> vt_vtabs s pVTab;
     avt \<leftarrow> find_vtable pVTab s;
     r \<leftarrow> reg_del idGen_reclaim (vw_id vw) (vt_tables s);
     v \<leftarrow> av_VTable avt;
     (err, s) \<leftarrow> k_call G method v (s\<lparr>vt_vtabs := (vt_vtabs s)(pVTab := None), vt_tables := r, vt_world := x_sqlite_free L pVTab (vt_world s)\<rparr>);
     Some (wrap32 (ErrCode K err), s)
   }"

definition vtabDisconnect :: "lib_consts \<Rightarrow> ('w, 'm) vt_lib_scheme \<Rightarrow> 'w vt_code \<Rightarrow> nat \<Rightarrow> 'w vt_state \<Rightarrow> (int \<times> 'w vt_state) option" where
  "vtabDisconnect K L G pVTab s = end_vtable K L G M_Disconnect pVTab s"

definition vtabDestroy :: "lib_consts \<Rightarrow> ('w, 'm) vt_lib_scheme \<Rightarrow> 'w vt_code \<Rightarrow> nat \<Rightarrow> 'w vt_state \<Rightarrow> (int \<times> 'w vt_state) option" where
  "vtabDestroy K L G pVTab s = end_vtable K L G M_Destroy pVTab s"

section \<open>Calls on tables\<close>

definition vtabBestIndexTrampoline :: "lib_consts \<Rightarrow> ('w, 'm) vt_lib_scheme \<Rightarrow> (nat \<Rightarrow> bool) \<Rightarrow> 'w vt_code \<Rightarrow> nat \<Rightarrow> nat \<Rightarrow> index_info \<Rightarrow> 'w vt_state \<Rightarrow>
    ((int \<times> index_info) \<times> 'w vt_state) option" where
  "vtabBestIndexTrampoline K L isPrint G tls pVTab info s = do {
     avt \<leftarrow> find_vtable pVTab s;
     v \<leftarrow> av_VTable avt;
     (case newIndexInputs K L tls info (vt_world s) of (inputs, w) \<Rightarrow> do {
        ((outputs, err), s) \<leftarrow> k_BestIndex G v inputs (s\<lparr>vt_world := w\<rparr>);
        if err \<noteq> None then do { (code, s) \<leftarrow> vtab_return K L isPrint pVTab err s; Some ((code, info), s) }
        else do {
          outputs \<leftarrow> outputs;
          if length (ii_constraints info) < length (out_ConstraintUsage outputs) then do {
            s \<leftarrow> setErrorMessage K L isPrint pVTab (''len(ConstraintUsage) = '' @ FormatInt (int (length (out_ConstraintUsage outputs))) @ '' (> '' @
              FormatInt (int (length (ii_constraints info))) @ '')'') s;
            Some ((K ''SQLITE_MISUSE'', info), s)
          }
          else case copyToC K L isPrint outputs info (vt_world s) of ((err, info), w) \<Rightarrow> do {
            (code, s) \<leftarrow> vtab_return K L isPrint pVTab err (s\<lparr>vt_world := w\<rparr>);
            Some ((code, info), s)
          }
        }
      })
   }"

text \<open>The memory of a cursor has the size of that of a table.  SQLite enters the table of the cursor after the call.\<close>

definition vtabOpenTrampoline :: "lib_consts \<Rightarrow> ('w, 'm) vt_lib_scheme \<Rightarrow> (nat \<Rightarrow> bool) \<Rightarrow> 'w vt_code \<Rightarrow> nat \<Rightarrow> 'w vt_state \<Rightarrow> ((int \<times> nat) \<times> 'w vt_state) option" where
  "vtabOpenTrampoline K L isPrint G pVTab s = do {
     avt \<leftarrow> find_vtable pVTab s;
     v \<leftarrow> av_VTable avt;
     ((cursor, err), s) \<leftarrow> k_Open G v s;
     if err \<noteq> None then do { (code, s) \<leftarrow> vtab_return K L isPrint pVTab err s; Some ((code, 0), s) }
     else case x_sqlite_malloc L (sizeof L ''vtabWrapper'') (vt_world s) of (pcursor, w) \<Rightarrow> let s = s\<lparr>vt_world := w\<rparr> in
       if pcursor = 0 then do {
         cur \<leftarrow> cursor;
         (_, s) \<leftarrow> k_call G M_Close cur s;
         s \<leftarrow> setErrorMessage K L isPrint pVTab ''no memory for cursor wrapper'' s;
         Some ((K ''SQLITE_NOMEM'', 0), s)
       }
       else case reg_add idGen_next cursor (vt_cursors s) of (i, r) \<Rightarrow>
         Some ((ResultOK K, pcursor), s\<lparr>vt_cursors := r, vt_curs := (vt_curs s)(pcursor \<mapsto> \<lparr>cw_vtab = 0, cw_id = i\<rparr>)\<rparr>)
   }"

text \<open>The rows of a table: one argument is a deletion.\<close>

definition update_params :: "nat \<Rightarrow> nat list \<Rightarrow> VTableUpdateParams" where
  "update_params tls argv = (let vs = args_of tls argv in \<lparr>up_OldRowID = vs ! 0, up_NewRowID = vs ! 1, up_Columns = drop 2 vs\<rparr>)"

definition vtabUpdateTrampoline :: "lib_consts \<Rightarrow> ('w, 'm) vt_lib_scheme \<Rightarrow> (nat \<Rightarrow> bool) \<Rightarrow> 'w vt_code \<Rightarrow> nat \<Rightarrow> nat \<Rightarrow> nat list \<Rightarrow> 'w vt_state \<Rightarrow>
    ((int \<times> int option) \<times> 'w vt_state) option" where
  "vtabUpdateTrampoline K L isPrint G tls pVTab argv s = do {
     avt \<leftarrow> find_vtable pVTab s;
     (case av_Write avt of
        None \<Rightarrow> do {
          s \<leftarrow> setErrorMessage K L isPrint pVTab (type_name L (av_VTable avt) @ '' does not implement WritableVTable'') s;
          Some ((K ''SQLITE_READONLY'', None), s)
        }
      | Some v \<Rightarrow>
          if length argv < 1 then None
          else if length argv = 1 then do {
            (err, s) \<leftarrow> k_call G (M_DeleteRow (args_of tls argv ! 0)) v s;
            (code, s) \<leftarrow> vtab_return K L isPrint pVTab err s;
            Some ((code, None), s)
          }
          else do {
            ((rowid, err), s) \<leftarrow> k_Update G v (update_params tls argv) s;
            (code, s) \<leftarrow> vtab_return K L isPrint pVTab err s;
            Some ((code, if err = None then Some rowid else None), s)
          })
   }"

text \<open>The calls that control transactions are made if the table implements them.\<close>

definition call_if :: "lib_consts \<Rightarrow> ('w, 'm) vt_lib_scheme \<Rightarrow> (nat \<Rightarrow> bool) \<Rightarrow> 'w vt_code \<Rightarrow> (assertedVTable \<Rightarrow> nat option) \<Rightarrow> vt_method \<Rightarrow> nat \<Rightarrow> 'w vt_state \<Rightarrow>
    (int \<times> 'w vt_state) option" where
  "call_if K L isPrint G as method pVTab s = do {
     avt \<leftarrow> find_vtable pVTab s;
     (case as avt of
        None \<Rightarrow> Some (ResultOK K, s)
      | Some v \<Rightarrow> do { (err, s) \<leftarrow> k_call G method v s; vtab_return K L isPrint pVTab err s })
   }"

definition vtabBeginTrampoline :: "lib_consts \<Rightarrow> ('w, 'm) vt_lib_scheme \<Rightarrow> (nat \<Rightarrow> bool) \<Rightarrow> 'w vt_code \<Rightarrow> nat \<Rightarrow> 'w vt_state \<Rightarrow> (int \<times> 'w vt_state) option" where
  "vtabBeginTrampoline K L isPrint G pVTab s = call_if K L isPrint G av_Transaction M_Begin pVTab s"

definition vtabSyncTrampoline :: "lib_consts \<Rightarrow> ('w, 'm) vt_lib_scheme \<Rightarrow> (nat \<Rightarrow> bool) \<Rightarrow> 'w vt_code \<Rightarrow> nat \<Rightarrow> 'w vt_state \<Rightarrow> (int \<times> 'w vt_state) option" where
  "vtabSyncTrampoline K L isPrint G pVTab s = call_if K L isPrint G av_Transaction M_Sync pVTab s"

definition vtabCommitTrampoline :: "lib_consts \<Rightarrow> ('w, 'm) vt_lib_scheme \<Rightarrow> (nat \<Rightarrow> bool) \<Rightarrow> 'w vt_code \<Rightarrow> nat \<Rightarrow> 'w vt_state \<Rightarrow> (int \<times> 'w vt_state) option" where
  "vtabCommitTrampoline K L isPrint G pVTab s = call_if K L isPrint G av_Transaction M_Commit pVTab s"

definition vtabRollbackTrampoline :: "lib_consts \<Rightarrow> ('w, 'm) vt_lib_scheme \<Rightarrow> (nat \<Rightarrow> bool) \<Rightarrow> 'w vt_code \<Rightarrow> nat \<Rightarrow> 'w vt_state \<Rightarrow> (int \<times> 'w vt_state) option" where
  "vtabRollbackTrampoline K L isPrint G pVTab s = call_if K L isPrint G av_Transaction M_Rollback pVTab s"

definition vtabSavepointTrampoline :: "lib_consts \<Rightarrow> ('w, 'm) vt_lib_scheme \<Rightarrow> (nat \<Rightarrow> bool) \<Rightarrow> 'w vt_code \<Rightarrow> nat \<Rightarrow> int \<Rightarrow> 'w vt_state \<Rightarrow> (int \<times> 'w vt_state) option" where
  "vtabSavepointTrampoline K L isPrint G pVTab n s = call_if K L isPrint G av_Savepoint (M_Savepoint n) pVTab s"

definition vtabReleaseTrampoline :: "lib_consts \<Rightarrow> ('w, 'm) vt_lib_scheme \<Rightarrow> (nat \<Rightarrow> bool) \<Rightarrow> 'w vt_code \<Rightarrow> nat \<Rightarrow> int \<Rightarrow> 'w vt_state \<Rightarrow> (int \<times> 'w vt_state) option" where
  "vtabReleaseTrampoline K L isPrint G pVTab n s = call_if K L isPrint G av_Savepoint (M_Release n) pVTab s"

definition vtabRollbackToTrampoline :: "lib_consts \<Rightarrow> ('w, 'm) vt_lib_scheme \<Rightarrow> (nat \<Rightarrow> bool) \<Rightarrow> 'w vt_code \<Rightarrow> nat \<Rightarrow> int \<Rightarrow> 'w vt_state \<Rightarrow> (int \<times> 'w vt_state) option" where
  "vtabRollbackToTrampoline K L isPrint G pVTab n s = call_if K L isPrint G av_Savepoint (M_RollbackTo n) pVTab s"

definition vtabRenameTrampoline :: "lib_consts \<Rightarrow> ('w, 'm) vt_lib_scheme \<Rightarrow> (nat \<Rightarrow> bool) \<Rightarrow> 'w vt_code \<Rightarrow> nat \<Rightarrow> gostring \<Rightarrow> 'w vt_state \<Rightarrow> (int \<times> 'w vt_state) option" where
  "vtabRenameTrampoline K L isPrint G pVTab zNew s = do {
     avt \<leftarrow> find_vtable pVTab s;
     (case av_Rename avt of
        None \<Rightarrow> do { s \<leftarrow> setErrorMessage K L isPrint pVTab (''no Rename method for '' @ type_name L (av_VTable avt)) s; Some (K ''SQLITE_READONLY'', s) }
      | Some v \<Rightarrow> do { (err, s) \<leftarrow> k_call G (M_Rename zNew) v s; vtab_return K L isPrint pVTab err s })
   }"

section \<open>Calls on cursors\<close>

definition vtabCloseTrampoline :: "lib_consts \<Rightarrow> ('w, 'm) vt_lib_scheme \<Rightarrow> (nat \<Rightarrow> bool) \<Rightarrow> 'w vt_code \<Rightarrow> nat \<Rightarrow> 'w vt_state \<Rightarrow> (int \<times> 'w vt_state) option" where
  "vtabCloseTrampoline K L isPrint G pCursor s = do {
     (cw, cur) \<leftarrow> find_cursor pCursor s;
     r \<leftarrow> reg_del idGen_reclaim (cw_id cw) (vt_cursors s);
     (err, s) \<leftarrow> k_call G M_Close cur (s\<lparr>vt_cursors := r, vt_curs := (vt_curs s)(pCursor := None), vt_world := x_sqlite_free L pCursor (vt_world s)\<rparr>);
     vtab_return K L isPrint (cw_vtab cw) err s
   }"

definition call_cursor :: "lib_consts \<Rightarrow> ('w, 'm) vt_lib_scheme \<Rightarrow> (nat \<Rightarrow> bool) \<Rightarrow> 'w vt_code \<Rightarrow> vt_method \<Rightarrow> nat \<Rightarrow> 'w vt_state \<Rightarrow> (int \<times> 'w vt_state) option" where
  "call_cursor K L isPrint G method pCursor s = do {
     (cw, cur) \<leftarrow> find_cursor pCursor s;
     (err, s) \<leftarrow> k_call G method cur s;
     vtab_return K L isPrint (cw_vtab cw) err s
   }"

definition vtabFilterTrampoline :: "lib_consts \<Rightarrow> ('w, 'm) vt_lib_scheme \<Rightarrow> (nat \<Rightarrow> bool) \<Rightarrow> 'w vt_code \<Rightarrow> nat \<Rightarrow> nat \<Rightarrow> int \<Rightarrow> gostring option \<Rightarrow> nat list \<Rightarrow> 'w vt_state \<Rightarrow>
    (int \<times> 'w vt_state) option" where
  "vtabFilterTrampoline K L isPrint G tls pCursor idxNum idxStr argv s =
     call_cursor K L isPrint G (M_Filter \<lparr>id_Num = idxNum, id_String = GoString_C idxStr\<rparr> (args_of tls argv)) pCursor s"

definition vtabNextTrampoline :: "lib_consts \<Rightarrow> ('w, 'm) vt_lib_scheme \<Rightarrow> (nat \<Rightarrow> bool) \<Rightarrow> 'w vt_code \<Rightarrow> nat \<Rightarrow> 'w vt_state \<Rightarrow> (int \<times> 'w vt_state) option" where
  "vtabNextTrampoline K L isPrint G pCursor s = call_cursor K L isPrint G M_Next pCursor s"

definition vtabEOFTrampoline :: "'w vt_code \<Rightarrow> nat \<Rightarrow> 'w vt_state \<Rightarrow> (int \<times> 'w vt_state) option" where
  "vtabEOFTrampoline G pCursor s = do {
     (_, cur) \<leftarrow> find_cursor pCursor s;
     (eof, s) \<leftarrow> k_EOF G cur s;
     Some (if eof then 1 else 0, s)
   }"

text \<open>Results are set as for functions; only SQLite is concerned.\<close>

definition column_result :: "lib_consts \<Rightarrow> ('w, 'm) vt_lib_scheme \<Rightarrow> Context \<Rightarrow> Value \<Rightarrow> 'w vt_state \<Rightarrow> 'w vt_state option" where
  "column_result K L ctx v s = map_option (\<lambda>f. s\<lparr>vt_world := fn_world f\<rparr>)
     (Context_result K L ctx v None \<lparr>fn_xfuncs = handles_init, fn_factories = handles_init, fn_aggs = handles_init, fn_collations = handles_init,
        fn_auxdata = handles_init, fn_cells = (\<lambda>_. 0), fn_world = vt_world s\<rparr>)"

definition vtabColumnTrampoline :: "lib_consts \<Rightarrow> ('w, 'm) vt_lib_scheme \<Rightarrow> 'w vt_code \<Rightarrow> nat \<Rightarrow> Context \<Rightarrow> int \<Rightarrow> 'w vt_state \<Rightarrow> (int \<times> 'w vt_state) option" where
  "vtabColumnTrampoline K L G pCursor ctx n s = do {
     (_, cur) \<leftarrow> find_cursor pCursor s;
     let noChange = x_vtab_nochange L (cx_ptr ctx) (vt_world s) in do {
       ((v, err), s) \<leftarrow> k_Column G cur n noChange s;
       (case err of
          Some e \<Rightarrow> do { s \<leftarrow> column_result K L ctx (TextValue K (error_text L e)) s; Some (wrap32 (ErrCode K err), s) }
        | None \<Rightarrow>
            if noChange \<and> v_tls v = None \<and> ptrOrType v = 0 \<and> v_n v \<noteq> 0 then Some (ResultOK K, s)
            else do { s \<leftarrow> column_result K L ctx v s; Some (ResultOK K, s) })
     }
   }"

definition vtabRowIDTrampoline :: "lib_consts \<Rightarrow> ('w, 'm) vt_lib_scheme \<Rightarrow> (nat \<Rightarrow> bool) \<Rightarrow> 'w vt_code \<Rightarrow> nat \<Rightarrow> 'w vt_state \<Rightarrow> ((int \<times> int option) \<times> 'w vt_state) option" where
  "vtabRowIDTrampoline K L isPrint G pCursor s = do {
     (cw, cur) \<leftarrow> find_cursor pCursor s;
     ((rowid, err), s) \<leftarrow> k_RowID G cur s;
     (code, s) \<leftarrow> vtab_return K L isPrint (cw_vtab cw) err s;
     Some ((code, if err = None then Some rowid else None), s)
   }"

definition IsInsert :: "lib_consts \<Rightarrow> value_lib \<Rightarrow> VTableUpdateParams \<Rightarrow> bool" where
  "IsInsert K VL p \<longleftrightarrow> Value_Type K VL (up_OldRowID p) = TypeNull K"

text \<open>The comparison without a copy is the comparison with one.\<close>

lemma cstring_loop_takeWhile: "cstring_loop c s \<longleftrightarrow> takeWhile (\<lambda>ch. ch \<noteq> CHR 0x00) c = s"
  by (induction c s rule: cstring_loop.induct) (auto simp: neq_Nil_conv)

lemma isCStringEqual_iff: "isCStringEqual c s \<longleftrightarrow> GoString_C c = s"
  by (auto simp: isCStringEqual_def GoString_C_def cstring_loop_takeWhile split: option.splits)

lemma copyFromC_Collation: "ic_Collation (copyFromC K tls room src) = GoString_C (cc_collation src)"
  by (simp add: copyFromC_def Let_def isCStringEqual_iff)

end
