(* ===== verification/VTableSafe.thy ===== *)
theory VTableSafe
  imports VTable
begin

text \<open>
  Memory safety of virtual tables.  SQLite keeps its own record of the tables and cursors it has (\<open>vt_view\<close>) and makes the calls of \<open>vt_event\<close> in an order that this record allows.
  Then every trampoline returns: it never follows a nil interface, never touches memory that was freed and never reclaims an ID twice; and no entry of the Go tables leaks.
\<close>

section \<open>SQLite's side\<close>

record vt_view =
  v_tables :: "nat set"
  v_cursors :: "nat \<rightharpoonup> nat"

datatype vt_event =
    E_SetModule gostring "Module option"
  | E_Create nat "gostring list" | E_Connect nat "gostring list" | E_Disconnect nat | E_Destroy nat
  | E_BestIndex nat index_info | E_Update nat "nat list" | E_Rename nat gostring
  | E_Begin nat | E_Sync nat | E_Commit nat | E_Rollback nat | E_Savepoint nat int | E_Release nat int | E_RollbackTo nat int
  | E_Open nat | E_Close nat | E_Filter nat int "gostring option" "nat list" | E_Next nat | E_EOF nat | E_Column nat nat int | E_RowID nat
  | E_Import nat

text \<open>SQLite calls \<open>xCreate\<close> only if there is one, and ends a table only when it has no cursors.\<close>

fun v_allows :: "vt_view \<Rightarrow> 'w vt_state \<Rightarrow> vt_event \<Rightarrow> bool" where
  "v_allows v s (E_SetModule _ _) = True"
| "v_allows v s (E_Create a _) = (\<exists>m. vt_modules s a = Some m \<and> xCreate m = Create_trampoline)"
| "v_allows v s (E_Connect a _) = (\<exists>m. vt_modules s a = Some m)"
| "v_allows v s (E_Disconnect p) = (p \<in> v_tables v \<and> p \<notin> ran (v_cursors v))"
| "v_allows v s (E_Destroy p) = (p \<in> v_tables v \<and> p \<notin> ran (v_cursors v))"
| "v_allows v s (E_BestIndex p _) = (p \<in> v_tables v)"
| "v_allows v s (E_Update p argv) = (p \<in> v_tables v \<and> argv \<noteq> [])"
| "v_allows v s (E_Rename p _) = (p \<in> v_tables v)"
| "v_allows v s (E_Begin p) = (p \<in> v_tables v)"
| "v_allows v s (E_Sync p) = (p \<in> v_tables v)"
| "v_allows v s (E_Commit p) = (p \<in> v_tables v)"
| "v_allows v s (E_Rollback p) = (p \<in> v_tables v)"
| "v_allows v s (E_Savepoint p _) = (p \<in> v_tables v)"
| "v_allows v s (E_Release p _) = (p \<in> v_tables v)"
| "v_allows v s (E_RollbackTo p _) = (p \<in> v_tables v)"
| "v_allows v s (E_Open p) = (p \<in> v_tables v)"
| "v_allows v s (E_Close c) = (v_cursors v c \<noteq> None)"
| "v_allows v s (E_Filter c _ _ _) = (v_cursors v c \<noteq> None)"
| "v_allows v s (E_Next c) = (v_cursors v c \<noteq> None)"
| "v_allows v s (E_EOF c) = (v_cursors v c \<noteq> None)"
| "v_allows v s (E_Column c _ _) = (v_cursors v c \<noteq> None)"
| "v_allows v s (E_RowID c) = (v_cursors v c \<noteq> None)"
| "v_allows v s (E_Import p) = (p \<in> v_tables v)"

text \<open>SQLite records a new table, and enters the table into the memory of a new cursor; it keeps a table whose \<open>xDestroy\<close> failed.
  After a failed call it takes the error message out of the table (\<open>E_Import\<close>).\<close>

definition v_connected :: "lib_consts \<Rightarrow> vt_view \<Rightarrow> int \<times> nat \<times> (nat \<times> gostring) option \<Rightarrow> vt_view" where
  "v_connected K v r = (case r of (code, p, _) \<Rightarrow> if code = ResultOK K then v\<lparr>v_tables := insert p (v_tables v)\<rparr> else v)"

definition v_opened :: "lib_consts \<Rightarrow> nat \<Rightarrow> vt_view \<Rightarrow> (int \<times> nat) \<times> 'w vt_state \<Rightarrow> vt_view \<times> 'w vt_state" where
  "v_opened K p v r = (case r of ((code, c), s) \<Rightarrow>
     if code = ResultOK K then (v\<lparr>v_cursors := (v_cursors v)(c \<mapsto> p)\<rparr>, s\<lparr>vt_curs := (vt_curs s)(c := map_option (\<lambda>cw. cw\<lparr>cw_vtab := p\<rparr>) (vt_curs s c))\<rparr>) else (v, s))"

definition v_import :: "('w, 'm) vt_lib_scheme \<Rightarrow> nat \<Rightarrow> 'w vt_state \<Rightarrow> 'w vt_state option" where
  "v_import L p s = do {
     vw \<leftarrow> vt_vtabs s p;
     (case vw_errmsg vw of
        None \<Rightarrow> Some s
      | Some (a, _) \<Rightarrow> Some (s\<lparr>vt_vtabs := (vt_vtabs s)(p \<mapsto> vw\<lparr>vw_errmsg := None\<rparr>), vt_world := x_sqlite_free L a (vt_world s)\<rparr>))
   }"

definition v_same :: "vt_view \<Rightarrow> ('r \<times> 'w vt_state) option \<Rightarrow> (vt_view \<times> 'w vt_state) option" where
  "v_same v r = map_option (\<lambda>(_, s). (v, s)) r"

fun v_event :: "lib_consts \<Rightarrow> ('w, 'm) vt_lib_scheme \<Rightarrow> (nat \<Rightarrow> bool) \<Rightarrow> 'w vt_code \<Rightarrow> nat \<Rightarrow> vt_event \<Rightarrow> vt_view \<Rightarrow> 'w vt_state \<Rightarrow> (vt_view \<times> 'w vt_state) option" where
  "v_event K L pr G tls (E_SetModule name m) v s = Some (v, snd (SetModule K L pr False name m s))"
| "v_event K L pr G tls (E_Create a argv) v s = map_option (\<lambda>(r, s). (v_connected K v r, s)) (vtabCreateTrampoline K L pr G a argv s)"
| "v_event K L pr G tls (E_Connect a argv) v s = map_option (\<lambda>(r, s). (v_connected K v r, s)) (vtabConnectTrampoline K L pr G a argv s)"
| "v_event K L pr G tls (E_Disconnect p) v s = map_option (\<lambda>(_, s). (v\<lparr>v_tables := v_tables v - {p}\<rparr>, s)) (vtabDisconnect K L G p s)"
| "v_event K L pr G tls (E_Destroy p) v s =
     map_option (\<lambda>(code, s). (if code = ResultOK K then v\<lparr>v_tables := v_tables v - {p}\<rparr> else v, s)) (vtabDestroy K L G p s)"
| "v_event K L pr G tls (E_BestIndex p info) v s = v_same v (vtabBestIndexTrampoline K L pr G tls p info s)"
| "v_event K L pr G tls (E_Update p argv) v s = v_same v (vtabUpdateTrampoline K L pr G tls p argv s)"
| "v_event K L pr G tls (E_Rename p new) v s = v_same v (vtabRenameTrampoline K L pr G p new s)"
| "v_event K L pr G tls (E_Begin p) v s = v_same v (vtabBeginTrampoline K L pr G p s)"
| "v_event K L pr G tls (E_Sync p) v s = v_same v (vtabSyncTrampoline K L pr G p s)"
| "v_event K L pr G tls (E_Commit p) v s = v_same v (vtabCommitTrampoline K L pr G p s)"
| "v_event K L pr G tls (E_Rollback p) v s = v_same v (vtabRollbackTrampoline K L pr G p s)"
| "v_event K L pr G tls (E_Savepoint p n) v s = v_same v (vtabSavepointTrampoline K L pr G p n s)"
| "v_event K L pr G tls (E_Release p n) v s = v_same v (vtabReleaseTrampoline K L pr G p n s)"
| "v_event K L pr G tls (E_RollbackTo p n) v s = v_same v (vtabRollbackToTrampoline K L pr G p n s)"
| "v_event K L pr G tls (E_Open p) v s = map_option (v_opened K p v) (vtabOpenTrampoline K L pr G p s)"
| "v_event K L pr G tls (E_Close c) v s = map_option (\<lambda>(_, s). (v\<lparr>v_cursors := (v_cursors v)(c := None)\<rparr>, s)) (vtabCloseTrampoline K L pr G c s)"
| "v_event K L pr G tls (E_Filter c n str argv) v s = v_same v (vtabFilterTrampoline K L pr G tls c n str argv s)"
| "v_event K L pr G tls (E_Next c) v s = v_same v (vtabNextTrampoline K L pr G c s)"
| "v_event K L pr G tls (E_EOF c) v s = v_same v (vtabEOFTrampoline G c s)"
| "v_event K L pr G tls (E_Column c ptr n) v s = v_same v (vtabColumnTrampoline K L G c \<lparr>cx_tls = tls, cx_ptr = ptr\<rparr> n s)"
| "v_event K L pr G tls (E_RowID c) v s = v_same v (vtabRowIDTrampoline K L pr G c s)"
| "v_event K L pr G tls (E_Import p) v s = map_option (Pair v) (v_import L p s)"

section \<open>Ownership of memory\<close>

text \<open>The blocks of memory that the package has from SQLite, and their addresses.\<close>

datatype block = B_table nat | B_message nat | B_cursor nat | B_module nat

fun block_addr :: "'w vt_state \<Rightarrow> block \<rightharpoonup> nat" where
  "block_addr s (B_table p) = (if vt_vtabs s p = None then None else Some p)"
| "block_addr s (B_message p) = do { vw \<leftarrow> vt_vtabs s p; map_option fst (vw_errmsg vw) }"
| "block_addr s (B_cursor c) = (if vt_curs s c = None then None else Some c)"
| "block_addr s (B_module a) = (if vt_modules s a = None then None else Some a)"

definition owned :: "('b \<rightharpoonup> nat) \<Rightarrow> nat set \<Rightarrow> bool" where
  "owned f A \<longleftrightarrow> (\<forall>b a. f b = Some a \<longrightarrow> a \<in> A \<and> (\<forall>b'. f b' = Some a \<longrightarrow> b' = b))"

lemma owned_add: "owned f A \<Longrightarrow> f b = None \<Longrightarrow> a \<notin> A \<Longrightarrow> owned (f(b \<mapsto> a)) (insert a A)"
  unfolding owned_def by simp blast

lemma owned_del: "owned f A \<Longrightarrow> f b = Some a \<Longrightarrow> owned (f(b := None)) (A - {a})"
  unfolding owned_def by simp blast

lemma owned_mono: "owned f A \<Longrightarrow> g \<subseteq>\<^sub>m f \<Longrightarrow> A \<subseteq> B \<Longrightarrow> owned g B"
  unfolding owned_def map_le_def dom_def by simp (metis option.discI subset_iff)

text \<open>IDs written in memory and the entries they name correspond one to one.\<close>

definition linked :: "(nat \<rightharpoonup> nat) \<Rightarrow> 'a handles \<Rightarrow> bool" where
  "linked f r \<longleftrightarrow> reg_inv idGen_live r \<and> inj_on f (dom f) \<and> ran f = dom (reg_m r)"

lemma linked_entry: "linked f r \<Longrightarrow> f p = Some i \<Longrightarrow> \<exists>x. reg_m r i = Some x"
  by (auto simp: linked_def ran_def dom_def)

lemma linked_empty: "linked Map.empty handles_init"
  using handles_reachable_inv [OF handles_reachable.init] by (simp add: linked_def handles_init_def)

lemma linked_bij:
  assumes "linked f r"
  shows "bij_betw (\<lambda>p. the (f p)) (dom f) (dom (reg_m r))"
proof (rule bij_betw_imageI)
  have "inj_on f (dom f)" using assms by (simp add: linked_def)
  then show "inj_on (\<lambda>p. the (f p)) (dom f)" unfolding inj_on_def by (metis domD option.sel)
  show "(\<lambda>p. the (f p)) ` dom f = dom (reg_m r)" 
  proof -
    have "ran f \<subseteq> (\<lambda>p. the (f p)) ` dom f"
    proof
      fix i assume "i \<in> ran f"
      then obtain p where p: "f p = Some i" by (auto simp: ran_def)
      then have "i = the (f p)" "p \<in> dom f" by auto
      then show "i \<in> (\<lambda>p. the (f p)) ` dom f" by (rule image_eqI)
    qed
    moreover have "(\<lambda>p. the (f p)) ` dom f \<subseteq> ran f" by (auto intro: ranI)
    ultimately show ?thesis using assms by (simp add: linked_def)
  qed
qed

lemma linked_add:
  assumes "linked f r" and "f p = None" and "reg_add idGen_next x r = (i, r')"
  shows "linked (f(p \<mapsto> i)) r'" and "reg_m r' = (reg_m r)(i \<mapsto> x)" and "reg_m r i = None"
proof -
  have inv: "reg_inv idGen_live r" using assms(1) by (simp add: linked_def)
  note a = idgen.add_inv [OF inv assms(3)]
  show "reg_m r' = (reg_m r)(i \<mapsto> x)" "reg_m r i = None" by (fact a)+
  have "i \<notin> ran f" using a(3) assms(1) by (auto simp: linked_def)
  then have "inj_on (f(p \<mapsto> i)) (dom (f(p \<mapsto> i)))" using assms(1,2) by (auto simp: linked_def inj_on_def ran_def)
  moreover have "ran (f(p \<mapsto> i)) = dom (reg_m r')" using assms(1,2) a(4) by (simp add: linked_def ran_map_upd)
  ultimately show "linked (f(p \<mapsto> i)) r'" using a(1) by (simp add: linked_def)
qed

lemma linked_del:
  assumes "linked f r" and "f p = Some i"
  shows "\<exists>r'. reg_del idGen_reclaim i r = Some r' \<and> linked (f(p := None)) r' \<and> reg_m r' = (reg_m r)(i := None)"
proof -
  obtain x where "reg_m r i = Some x" using linked_entry [OF assms] by blast
  then obtain r' where r': "reg_del idGen_reclaim i r = Some r'" "reg_inv idGen_live r'" "reg_m r' = (reg_m r)(i := None)"
    using idgen.del_inv [of r i] assms(1) by (auto simp: linked_def)
  have inj: "inj_on f (dom f)" using assms(1) by (simp add: linked_def)
  then have "inj_on (f(p := None)) (dom (f(p := None)))" by (auto simp: inj_on_def split: if_splits)
  moreover have "ran (f(p := None)) = ran f - {i}" using inj assms(2) by (auto simp: ran_def inj_on_def dom_def) (metis option.inject)
  ultimately show ?thesis using r' assms(1) by (auto simp: linked_def)
qed

section \<open>What is expected of SQLite and of Go code\<close>

text \<open>\<open>M w\<close> are the addresses in use, \<open>D w\<close> the modules that SQLite has and not yet destroyed.\<close>

definition mem_grows :: "('w \<Rightarrow> nat set) \<Rightarrow> ('w \<Rightarrow> nat set) \<Rightarrow> 'w \<Rightarrow> 'w \<Rightarrow> bool" where
  "mem_grows M D w w' \<longleftrightarrow> M w \<subseteq> M w' \<and> D w' = D w"

text \<open>An allocation fails or gives an address that was not in use; \<open>sqlite3_free\<close> ends the use of one address only.  \<open>sqlite3_create_module_v2\<close> runs the destructors of
  modules that it had, or of the new one when it fails, once each.  Error messages can be copied into C memory (the source panics otherwise).\<close>

definition lib_vt_ok :: "lib_consts \<Rightarrow> ('w, 'm) vt_lib_scheme \<Rightarrow> ('w \<Rightarrow> nat set) \<Rightarrow> ('w \<Rightarrow> nat set) \<Rightarrow> bool" where
  "lib_vt_ok K L M D \<longleftrightarrow>
     K ''SQLITE_OK'' = 0 \<and> K ''SQLITE_NOMEM'' = 7 \<and>
     (\<forall>n w a w'. x_sqlite_malloc L n w = (a, w') \<longrightarrow> mem_grows M D w w' \<and> (a \<noteq> 0 \<longrightarrow> a \<notin> M w \<and> a \<in> M w')) \<and>
     (\<forall>a w. M w - {a} \<subseteq> M (x_sqlite_free L a w) \<and> D (x_sqlite_free L a w) = D w) \<and>
     (\<forall>q w err w'. x_cstring L q w = (err, w') \<longrightarrow> mem_grows M D w w') \<and>
     (\<forall>e w. fst (x_cstring L (error_text L e) w) = None) \<and>
     (\<forall>n w ok w'. x_malloc L n w = (ok, w') \<longrightarrow> mem_grows M D w w') \<and>
     (\<forall>q w res w'. x_declare_vtab L q w = (res, w') \<longrightarrow> mem_grows M D w w' \<and> wrap32 res = res) \<and>
     (\<forall>op b w. mem_grows M D w (x_vtab_config L op b w)) \<and>
     (\<forall>p r w. mem_grows M D w (x_result L p r w)) \<and>
     (\<forall>name cm w res gone w'. x_create_module L name cm w = ((res, gone), w') \<longrightarrow>
        M w \<subseteq> M w' \<and> distinct gone \<and> set gone \<subseteq> D w \<union> fst ` set_option cm \<and> D w' = (D w \<union> fst ` set_option cm) - set gone)"

text \<open>The methods of tables and cursors return; meanwhile they do not use virtual tables themselves; with no error they give a result; an error has a code, and \<open>Destroy\<close> does not fail.\<close>

definition vt_calm :: "('w \<Rightarrow> nat set) \<Rightarrow> ('w \<Rightarrow> nat set) \<Rightarrow> ('r \<Rightarrow> bool) \<Rightarrow> 'w vt_state \<Rightarrow> ('r \<times> 'w vt_state) option \<Rightarrow> bool" where
  "vt_calm M D Q s r \<longleftrightarrow> (\<exists>x w'. r = Some (x, s\<lparr>vt_world := w'\<rparr>) \<and> mem_grows M D (vt_world s) w' \<and> Q x)"

definition has_code :: "lib_consts \<Rightarrow> error \<Rightarrow> bool" where
  "has_code K err \<longleftrightarrow> (err \<noteq> None \<longrightarrow> wrap32 (ErrCode K err) \<noteq> ResultOK K)"

definition proper_value :: "lib_consts \<Rightarrow> Value \<Rightarrow> bool" where
  "proper_value K v \<longleftrightarrow> v_tls v \<noteq> None \<or> int (ptrOrType v) \<in> {0, TypeNull K, TypeInteger K, TypeFloat K, TypeText K, TypeBlob K}"

definition go_vt_ok :: "lib_consts \<Rightarrow> 'w vt_code \<Rightarrow> ('w \<Rightarrow> nat set) \<Rightarrow> ('w \<Rightarrow> nat set) \<Rightarrow> bool" where
  "go_vt_ok K G M D \<longleftrightarrow>
     (\<forall>f opts s. vt_calm M D (\<lambda>(vtab, cfg, err). has_code K err \<and> (err = None \<longrightarrow> vtab \<noteq> None \<and> cfg \<noteq> None)) s (k_connect G f opts s)) \<and>
     (\<forall>m x s. vt_calm M D (\<lambda>err. m = M_Destroy \<longrightarrow> err = None) s (k_call G m x s)) \<and>
     (\<forall>x inputs s. vt_calm M D (\<lambda>(out, err). err = None \<longrightarrow> out \<noteq> None) s (k_BestIndex G x inputs s)) \<and>
     (\<forall>x s. vt_calm M D (\<lambda>(cur, err). has_code K err \<and> (err = None \<longrightarrow> cur \<noteq> None)) s (k_Open G x s)) \<and>
     (\<forall>x ps s. vt_calm M D (\<lambda>_. True) s (k_Update G x ps s)) \<and>
     (\<forall>x s. vt_calm M D (\<lambda>_. True) s (k_EOF G x s)) \<and>
     (\<forall>x n b s. vt_calm M D (\<lambda>(v, err). proper_value K v) s (k_Column G x n b s)) \<and>
     (\<forall>x s. vt_calm M D (\<lambda>_. True) s (k_RowID G x s))"

section \<open>The invariant\<close>

definition vt_inv :: "('w \<Rightarrow> nat set) \<Rightarrow> ('w \<Rightarrow> nat set) \<Rightarrow> vt_view \<Rightarrow> 'w vt_state \<Rightarrow> bool" where
  "vt_inv M D v s \<longleftrightarrow>
     linked (\<lambda>p. map_option vw_id (vt_vtabs s p)) (vt_tables s) \<and> (\<forall>i t. reg_m (vt_tables s) i = Some t \<longrightarrow> av_VTable t \<noteq> None) \<and>
     linked (\<lambda>c. map_option cw_id (vt_curs s c)) (vt_cursors s) \<and> (\<forall>i t. reg_m (vt_cursors s) i = Some t \<longrightarrow> t \<noteq> None) \<and>
     v_tables v = dom (vt_vtabs s) \<and> v_cursors v = (\<lambda>c. map_option cw_vtab (vt_curs s c)) \<and> ran (v_cursors v) \<subseteq> v_tables v \<and>
     D (vt_world s) = dom (vt_modules s) \<and> (\<forall>a m. vt_modules s a = Some m \<longrightarrow> md_Connect m \<noteq> None) \<and>
     owned (block_addr s) (M (vt_world s))"

text \<open>Most calls change only SQLite and the messages of tables.\<close>

definition vt_quiet :: "('w \<Rightarrow> nat set) \<Rightarrow> ('w \<Rightarrow> nat set) \<Rightarrow> 'w vt_state \<Rightarrow> 'w vt_state \<Rightarrow> bool" where
  "vt_quiet M D s s' \<longleftrightarrow> (\<exists>f w'. s' = s\<lparr>vt_vtabs := f, vt_world := w'\<rparr> \<and> (\<forall>p. map_option vw_id (f p) = map_option vw_id (vt_vtabs s p)) \<and>
     D w' = D (vt_world s) \<and> (owned (block_addr s) (M (vt_world s)) \<longrightarrow> owned (block_addr s') (M w')))"

lemma vt_quiet_refl: "vt_quiet M D s s"
  unfolding vt_quiet_def by (intro exI [of _ "vt_vtabs s"] exI [of _ "vt_world s"]) simp

lemma vt_quiet_trans:
  assumes "vt_quiet M D s t" and "vt_quiet M D t u"
  shows "vt_quiet M D s u"
proof -
  obtain f w where t: "t = s\<lparr>vt_vtabs := f, vt_world := w\<rparr>" "\<forall>p. map_option vw_id (f p) = map_option vw_id (vt_vtabs s p)" "D w = D (vt_world s)"
    "owned (block_addr s) (M (vt_world s)) \<longrightarrow> owned (block_addr t) (M w)" using assms(1) unfolding vt_quiet_def by (elim exE conjE)
  obtain g x where u: "u = t\<lparr>vt_vtabs := g, vt_world := x\<rparr>" "\<forall>p. map_option vw_id (g p) = map_option vw_id (vt_vtabs t p)" "D x = D (vt_world t)"
    "owned (block_addr t) (M (vt_world t)) \<longrightarrow> owned (block_addr u) (M x)" using assms(2) unfolding vt_quiet_def by (elim exE conjE)
  show ?thesis unfolding vt_quiet_def
    by (intro exI [of _ g] exI [of _ x] conjI) (use t u in simp_all)
qed

lemma vt_quiet_same:
  assumes "vt_quiet M D s t"
  shows "vt_tables t = vt_tables s" and "vt_cursors t = vt_cursors s" and "vt_curs t = vt_curs s" and "vt_modules t = vt_modules s"
    and "map_option vw_id (vt_vtabs t p) = map_option vw_id (vt_vtabs s p)" and "D (vt_world t) = D (vt_world s)"
  using assms by (auto simp: vt_quiet_def)

lemma vt_quiet_live: "vt_quiet M D s t \<Longrightarrow> vt_vtabs t p = None \<longleftrightarrow> vt_vtabs s p = None"
  using vt_quiet_same(5) by (metis option.map_disc_iff)

lemma vt_quiet_inv:
  assumes "vt_quiet M D s t" and "vt_inv M D v s"
  shows "vt_inv M D v t"
proof -
  note same = vt_quiet_same [OF assms(1)]
  have d: "dom (vt_vtabs t) = dom (vt_vtabs s)" using vt_quiet_live [OF assms(1)] by (simp add: dom_def)
  have "owned (block_addr t) (M (vt_world t))" using assms by (auto simp: vt_quiet_def vt_inv_def)
  then show ?thesis using assms(2) unfolding vt_inv_def same d by (elim conjE) (intro conjI; assumption)
qed

lemma block_addr_world [simp]: "block_addr (s\<lparr>vt_world := w\<rparr>) = block_addr s"
proof
  show "block_addr (s\<lparr>vt_world := w\<rparr>) b = block_addr s b" for b by (cases b) simp_all
qed

lemma mem_grows_refl: "mem_grows M D w w" by (simp add: mem_grows_def)

lemma mem_grows_trans: "mem_grows M D w w' \<Longrightarrow> mem_grows M D w' w'' \<Longrightarrow> mem_grows M D w w''"
  by (auto simp: mem_grows_def)

lemma vt_quiet_world: "mem_grows M D (vt_world s) w \<Longrightarrow> vt_quiet M D s (s\<lparr>vt_world := w\<rparr>)"
  unfolding vt_quiet_def by (intro exI [of _ "vt_vtabs s"] exI [of _ w]) (auto simp: mem_grows_def intro: owned_mono)

lemma block_addr_message:
  assumes "vt_vtabs s p = Some vw"
  shows "block_addr (s\<lparr>vt_vtabs := (vt_vtabs s)(p \<mapsto> vw\<lparr>vw_errmsg := t\<rparr>)\<rparr>) = (block_addr s)(B_message p := map_option fst t)"
proof
  show "block_addr (s\<lparr>vt_vtabs := (vt_vtabs s)(p \<mapsto> vw\<lparr>vw_errmsg := t\<rparr>)\<rparr>) b = ((block_addr s)(B_message p := map_option fst t)) b" for b
    using assms by (cases b) auto
qed

lemma vt_quiet_message:
  assumes "vt_vtabs s p = Some vw" and "D w = D (vt_world s)"
    and "owned (block_addr s) (M (vt_world s)) \<Longrightarrow> owned ((block_addr s)(B_message p := map_option fst t)) (M w)"
  shows "vt_quiet M D s (s\<lparr>vt_vtabs := (vt_vtabs s)(p \<mapsto> vw\<lparr>vw_errmsg := t\<rparr>), vt_world := w\<rparr>)"
  unfolding vt_quiet_def
  by (intro exI [of _ "(vt_vtabs s)(p \<mapsto> vw\<lparr>vw_errmsg := t\<rparr>)"] exI [of _ w] conjI) (use assms in \<open>simp_all add: block_addr_message\<close>)

section \<open>Calls that keep tables and cursors\<close>

definition fine :: "('w \<Rightarrow> nat set) \<Rightarrow> ('w \<Rightarrow> nat set) \<Rightarrow> 'w vt_state \<Rightarrow> ('r \<times> 'w vt_state) option \<Rightarrow> bool" where
  "fine M D s r \<longleftrightarrow> (\<exists>x s'. r = Some (x, s') \<and> vt_quiet M D s s')"

lemma fine_Some: "vt_quiet M D s s' \<Longrightarrow> fine M D s (Some (x, s'))"
  by (simp add: fine_def)

lemma fine_same: "fine M D s (Some (x, s))"
  by (simp add: fine_Some vt_quiet_refl)

lemma fine_bind:
  assumes "fine M D s r" and "\<And>x s'. r = Some (x, s') \<Longrightarrow> vt_quiet M D s s' \<Longrightarrow> fine M D s' (g (x, s'))"
  shows "fine M D s (r \<bind> g)"
proof -
  obtain x s' where r: "r = Some (x, s')" "vt_quiet M D s s'" using assms(1) unfolding fine_def by (elim exE conjE)
  obtain y t where "g (x, s') = Some (y, t)" "vt_quiet M D s' t" using assms(2) [OF r] unfolding fine_def by (elim exE conjE)
  then show ?thesis using r vt_quiet_trans unfolding fine_def by (metis bind.bind_lunit)
qed

lemma fine_first: "vt_quiet M D s s' \<Longrightarrow> fine M D s' r \<Longrightarrow> fine M D s r"
  unfolding fine_def by (metis vt_quiet_trans)

lemma calm_fine: "vt_calm M D Q s r \<Longrightarrow> fine M D s r"
  unfolding vt_calm_def fine_def by (metis vt_quiet_world)

lemma calm_result: "vt_calm M D Q s r \<Longrightarrow> r = Some (x, s') \<Longrightarrow> Q x"
  unfolding vt_calm_def by auto

lemma lib_vt_okD:
  assumes "lib_vt_ok K L M D"
  shows "ResultOK K = 0" and "K ''SQLITE_NOMEM'' = 7"
    and "x_sqlite_malloc L n w = (a, w') \<Longrightarrow> mem_grows M D w w'" and "x_sqlite_malloc L n w = (a, w') \<Longrightarrow> a \<noteq> 0 \<Longrightarrow> a \<notin> M w \<and> a \<in> M w'"
    and "M w - {a} \<subseteq> M (x_sqlite_free L a w)" and "D (x_sqlite_free L a w) = D w"
    and "x_cstring L q w = (err, w') \<Longrightarrow> mem_grows M D w w'" and "fst (x_cstring L (error_text L e) w) = None" and "x_malloc L sz w = (ok, w') \<Longrightarrow> mem_grows M D w w'"
    and "x_declare_vtab L q w = (res, w') \<Longrightarrow> mem_grows M D w w'" and "x_declare_vtab L q w = (res, w') \<Longrightarrow> wrap32 res = res"
    and "mem_grows M D w (x_vtab_config L op b w)" and "mem_grows M D w (x_result L ptr r w)"
    and "x_create_module L name cm w = ((res, gone), w') \<Longrightarrow>
      M w \<subseteq> M w' \<and> distinct gone \<and> set gone \<subseteq> D w \<union> fst ` set_option cm \<and> D w' = (D w \<union> fst ` set_option cm) - set gone"
  using assms unfolding lib_vt_ok_def result_consts by (elim conjE; simp only: simp_thms; metis)+

lemma sqliteCString_result:
  assumes "lib_vt_ok K L M D" and "sqliteCString K L pr msg w = ((z, err), w')"
  shows "mem_grows M D w w'" and "z = Some (a, q) \<Longrightarrow> a \<notin> M w \<and> a \<in> M w'"
proof -
  obtain c w1 where m: "x_sqlite_malloc L (wrap32 (int (length msg) + 1)) w = (c, w1)" by (cases "x_sqlite_malloc L (wrap32 (int (length msg) + 1)) w")
  note l = lib_vt_okD(3,4) [OF assms(1) m]
  show "mem_grows M D w w'" using assms(2) m l mem_grows_refl [of M D w] by (auto simp: sqliteCString_def split: if_splits)
  show "z = Some (a, q) \<Longrightarrow> a \<notin> M w \<and> a \<in> M w'" using assms(2) m l by (auto simp: sqliteCString_def split: if_splits)
qed

lemma setErrorMessage_quiet:
  assumes "lib_vt_ok K L M D" and "vt_vtabs s p \<noteq> None"
  shows "\<exists>s'. setErrorMessage K L pr p msg s = Some s' \<and> vt_quiet M D s s'"
proof -
  obtain vw where vw: "vt_vtabs s p = Some vw" using assms(2) by blast
  define w1 where "w1 = (case vw_errmsg vw of None \<Rightarrow> vt_world s | Some (old, _) \<Rightarrow> x_sqlite_free L old (vt_world s))"
  obtain z err w where c: "sqliteCString K L pr msg w1 = ((z, err), w)" by (metis prod.collapse)
  note r = sqliteCString_result [OF assms(1) c]
  let ?g = "(block_addr s)(B_message p := None)"
  have g: "owned ?g (M w1)" if "owned (block_addr s) (M (vt_world s))"
  proof (cases "vw_errmsg vw")
    case None
    then have "block_addr s (B_message p) = None" using vw by simp
    then show ?thesis using that None by (simp add: w1_def fun_upd_idem)
  next
    case (Some m)
    then have "block_addr s (B_message p) = Some (fst m)" using vw by simp
    from owned_del [OF that this] show ?thesis
      by (rule owned_mono) (use lib_vt_okD(5) [OF assms(1)] Some in \<open>auto simp: w1_def split: prod.splits\<close>)
  qed
  have d: "D w = D (vt_world s)" using r(1) lib_vt_okD(6) [OF assms(1)] by (auto simp: mem_grows_def w1_def split: option.splits)
  have "owned ((block_addr s)(B_message p := map_option fst z)) (M w)" if o: "owned (block_addr s) (M (vt_world s))"
  proof (cases z)
    case None
    then show ?thesis using g [OF o] r(1) owned_mono [of ?g "M w1" ?g "M w"] by (simp add: mem_grows_def)
  next
    case (Some a)
    have "fst a \<notin> M w1 \<and> fst a \<in> M w" using r(2) [of "fst a" "snd a"] Some by simp
    then have "owned ((block_addr s)(B_message p \<mapsto> fst a)) (insert (fst a) (M w1))" "insert (fst a) (M w1) \<subseteq> M w"
      using owned_add [OF g [OF o], of "B_message p" "fst a"] r(1) by (auto simp: mem_grows_def)
    from owned_mono [OF this(1) map_le_refl this(2)] show ?thesis using Some by simp
  qed
  from vt_quiet_message [of s p vw D w M z, OF vw d this] show ?thesis
    using vw c by (simp add: setErrorMessage_def w1_def)
qed

lemma vtab_return_fine:
  assumes "lib_vt_ok K L M D" and "vt_vtabs s p \<noteq> None"
  shows "fine M D s (vtab_return K L pr p err s)"
proof (cases err)
  case (Some e)
  then show ?thesis using setErrorMessage_quiet [OF assms, of pr "error_text L e"] by (auto simp: vtab_return_def intro: fine_Some)
qed (simp add: vtab_return_def fine_same)

text \<open>A table or cursor that SQLite knows is there.\<close>

lemma find_vtable_live:
  assumes "vt_inv M D v s" and "p \<in> v_tables v"
  shows "\<exists>avt x. find_vtable p s = Some avt \<and> av_VTable avt = Some x \<and> vt_vtabs s p \<noteq> None"
proof -
  obtain vw where vw: "vt_vtabs s p = Some vw" using assms by (auto simp: vt_inv_def)
  have "linked (\<lambda>p. map_option vw_id (vt_vtabs s p)) (vt_tables s)" using assms(1) by (simp add: vt_inv_def)
  then obtain t where t: "reg_m (vt_tables s) (vw_id vw) = Some t" using linked_entry [where p = p] vw by fastforce
  then have "av_VTable t \<noteq> None" using assms(1) unfolding vt_inv_def by blast
  then show ?thesis using vw t by (simp add: find_vtable_def)
qed

lemma find_cursor_live:
  assumes "vt_inv M D v s" and "v_cursors v c \<noteq> None"
  shows "\<exists>cw x. find_cursor c s = Some (cw, x) \<and> vt_curs s c = Some cw \<and> vt_vtabs s (cw_vtab cw) \<noteq> None"
proof -
  obtain cw where cw: "vt_curs s c = Some cw" using assms by (auto simp: vt_inv_def)
  have "linked (\<lambda>c. map_option cw_id (vt_curs s c)) (vt_cursors s)" using assms(1) by (simp add: vt_inv_def)
  then obtain t where t: "reg_m (vt_cursors s) (cw_id cw) = Some t" using linked_entry [where p = c] cw by fastforce
  then have "t \<noteq> None" using assms(1) unfolding vt_inv_def by blast
  moreover have "cw_vtab cw \<in> ran (v_cursors v)" using assms(1) cw by (auto simp: vt_inv_def ran_def)
  then have "vt_vtabs s (cw_vtab cw) \<noteq> None" using assms(1) by (auto simp: vt_inv_def)
  ultimately show ?thesis using cw t by (auto simp: find_cursor_def)
qed

lemma go_vt_okD:
  assumes "go_vt_ok K G M D"
  shows "vt_calm M D (\<lambda>(vtab, cfg, err). has_code K err \<and> (err = None \<longrightarrow> vtab \<noteq> None \<and> cfg \<noteq> None)) s (k_connect G f opts s)"
    and "vt_calm M D (\<lambda>err. m = M_Destroy \<longrightarrow> err = None) s (k_call G m x s)"
    and "vt_calm M D (\<lambda>(out, err). err = None \<longrightarrow> out \<noteq> None) s (k_BestIndex G x inputs s)"
    and "vt_calm M D (\<lambda>(cur, err). has_code K err \<and> (err = None \<longrightarrow> cur \<noteq> None)) s (k_Open G x s)"
    and "vt_calm M D (\<lambda>_. True) s (k_Update G x ps s)" and "vt_calm M D (\<lambda>_. True) s (k_EOF G x s)"
    and "vt_calm M D (\<lambda>(v, err). proper_value K v) s (k_Column G x n b s)" and "vt_calm M D (\<lambda>_. True) s (k_RowID G x s)"
  using assms unfolding go_vt_ok_def by simp_all

lemmas go_fine = calm_fine [OF go_vt_okD(2)] calm_fine [OF go_vt_okD(5)] calm_fine [OF go_vt_okD(6)] calm_fine [OF go_vt_okD(8)]

text \<open>The common end of a call: a method, then the report of its error.\<close>

lemma call_return_fine:
  assumes "lib_vt_ok K L M D" and "go_vt_ok K G M D" and "vt_vtabs s p \<noteq> None"
  shows "fine M D s (k_call G m x s \<bind> (\<lambda>(err, s). vtab_return K L pr p err s))"
  by (rule fine_bind [OF go_fine(1) [OF assms(2)]]) (simp add: vtab_return_fine [OF assms(1)] vt_quiet_live assms(3))

lemma table_calls_fine:
  assumes lib: "lib_vt_ok K L M D" and go: "go_vt_ok K G M D" and inv: "vt_inv M D v s" and "p \<in> v_tables v"
  shows "fine M D s (call_if K L pr G as m p s)" and "fine M D s (vtabRenameTrampoline K L pr G p new s)"
proof -
  obtain avt x where a: "find_vtable p s = Some avt" "av_VTable avt = Some x" "vt_vtabs s p \<noteq> None" using find_vtable_live [OF inv assms(4)] by blast
  note c = call_return_fine [OF lib go a(3)]
  show "fine M D s (call_if K L pr G as m p s)"
    using a c by (cases "as avt") (simp_all add: call_if_def fine_same)
  obtain s' where "setErrorMessage K L pr p (''no Rename method for '' @ type_name L (av_VTable avt)) s = Some s'" "vt_quiet M D s s'"
    using setErrorMessage_quiet [OF lib a(3)] by metis
  then show "fine M D s (vtabRenameTrampoline K L pr G p new s)"
    using a c by (cases "av_Rename avt") (simp_all add: vtabRenameTrampoline_def fine_Some)
qed

lemma update_fine:
  assumes lib: "lib_vt_ok K L M D" and go: "go_vt_ok K G M D" and inv: "vt_inv M D v s" and "p \<in> v_tables v" and "argv \<noteq> []"
  shows "fine M D s (vtabUpdateTrampoline K L pr G tls p argv s)"
proof -
  obtain avt x where a: "find_vtable p s = Some avt" "av_VTable avt = Some x" "vt_vtabs s p \<noteq> None" using find_vtable_live [OF inv assms(4)] by blast
  show ?thesis
  proof (cases "av_Write avt")
    case None
    obtain s' where "setErrorMessage K L pr p (type_name L (av_VTable avt) @ '' does not implement WritableVTable'') s = Some s'" "vt_quiet M D s s'"
      using setErrorMessage_quiet [OF lib a(3)] by metis
    then show ?thesis using a None by (simp add: vtabUpdateTrampoline_def fine_Some)
  next
    case (Some y)
    have ret: "fine M D t (vtab_return K L pr p err t \<bind> (\<lambda>(code, s). Some ((code, r), s)))" if "vt_quiet M D s t" for t err and r :: "int option"
      by (rule fine_bind [OF vtab_return_fine [OF lib]]) (use a(3) vt_quiet_live [OF that] in \<open>auto simp: fine_same\<close>)
    have del: "fine M D s (k_call G m y s \<bind> (\<lambda>(err, s). vtab_return K L pr p err s \<bind> (\<lambda>(code, s). Some ((code, None :: int option), s))))" for m
      by (rule fine_bind [OF go_fine(1) [OF go]]) (simp add: ret)
    have upd: "fine M D s (k_Update G y ps s \<bind> (\<lambda>((rowid, err), s). vtab_return K L pr p err s \<bind> (\<lambda>(code, s). Some ((code, if err = None then Some rowid else None), s))))" for ps
      by (rule fine_bind [OF go_fine(2) [OF go]]) (auto simp: ret)
    show ?thesis using a Some assms(5) del upd by (cases "length argv = 1") (simp_all add: vtabUpdateTrampoline_def)
  qed
qed

lemma best_index_fine:
  assumes lib: "lib_vt_ok K L M D" and go: "go_vt_ok K G M D" and inv: "vt_inv M D v s" and "p \<in> v_tables v"
  shows "fine M D s (vtabBestIndexTrampoline K L pr G tls p info s)"
proof -
  obtain avt x where a: "find_vtable p s = Some avt" "av_VTable avt = Some x" "vt_vtabs s p \<noteq> None" using find_vtable_live [OF inv assms(4)] by blast
  obtain ins w where n: "newIndexInputs K L tls info (vt_world s) = (ins, w)" by (metis prod.collapse)
  obtain c w1 where m: "x_sqlite_malloc L 8 (vt_world s) = (c, w1)" by (metis prod.collapse)
  have w: "w = (if c \<noteq> 0 then x_sqlite_free L c w1 else w1)" using n m by (simp add: newIndexInputs_def)
  have "mem_grows M D (vt_world s) w"
    using lib_vt_okD(3,4) [OF lib m] lib_vt_okD(5,6) [OF lib, where w = w1 and a = c] by (auto simp: w mem_grows_def)
  then have q: "vt_quiet M D s (s\<lparr>vt_world := w\<rparr>)" by (rule vt_quiet_world)
  have live: "vt_vtabs t p \<noteq> None" if "vt_quiet M D (s\<lparr>vt_world := w\<rparr>) t" for t using vt_quiet_live [OF that] a(3) by simp
  have ret: "fine M D t (vtab_return K L pr p err t \<bind> (\<lambda>(code, s). Some ((code, i), s)))" if "vt_vtabs t p \<noteq> None" for t err and i :: index_info
    by (rule fine_bind [OF vtab_return_fine [OF lib that]]) (simp add: fine_same)
  have copy: "fine M D t (case copyToC K L pr outs info (vt_world t) of ((err, i), w) \<Rightarrow>
      vtab_return K L pr p err (t\<lparr>vt_world := w\<rparr>) \<bind> (\<lambda>(code, s). Some ((code, i), s)))" if "vt_vtabs t p \<noteq> None" for t outs
  proof -
    obtain err i w' where c: "copyToC K L pr outs info (vt_world t) = ((err, i), w')" by (metis prod.collapse)
    obtain z e w2 where z: "sqliteCString K L pr (id_String (out_ID outs)) (vt_world t) = ((z, e), w2)" by (metis prod.collapse)
    have "w' = vt_world t \<or> w' = w2" using c z by (auto simp: copyToC_def Let_def split: if_splits)
    then have "mem_grows M D (vt_world t) w'" using sqliteCString_result(1) [OF lib z] mem_grows_refl by metis
    from fine_first [OF vt_quiet_world [OF this] ret [of "t\<lparr>vt_world := w'\<rparr>" err i]] that show ?thesis using c by simp
  qed
  have "fine M D (s\<lparr>vt_world := w\<rparr>) (k_BestIndex G x ins (s\<lparr>vt_world := w\<rparr>) \<bind> (\<lambda>((outputs, err), s).
      if err \<noteq> None then do { (code, s) \<leftarrow> vtab_return K L pr p err s; Some ((code, info), s) }
      else do {
        outputs \<leftarrow> outputs;
        if length (ii_constraints info) < length (out_ConstraintUsage outputs) then do {
          s \<leftarrow> setErrorMessage K L pr p (''len(ConstraintUsage) = '' @ FormatInt (int (length (out_ConstraintUsage outputs))) @ '' (> '' @
            FormatInt (int (length (ii_constraints info))) @ '')'') s;
          Some ((K ''SQLITE_MISUSE'', info), s)
        }
        else case copyToC K L pr outputs info (vt_world s) of ((err, info), w) \<Rightarrow> do {
          (code, s) \<leftarrow> vtab_return K L pr p err (s\<lparr>vt_world := w\<rparr>);
          Some ((code, info), s)
        }
      }))" (is "fine M D ?s (?r \<bind> ?g)")
  proof (rule fine_bind [OF calm_fine [OF go_vt_okD(3) [OF go]]])
    fix o_err t assume r: "?r = Some (o_err, t)" and t: "vt_quiet M D ?s t"
    obtain out err where oe: "o_err = (out, err)" by (cases o_err)
    have nn: "err = None \<longrightarrow> out \<noteq> None" using calm_result [OF go_vt_okD(3) [OF go] r] oe by simp
    show "fine M D t (?g (o_err, t))"
    proof (cases "err = None")
      case False
      then show ?thesis using ret [OF live [OF t]] oe by simp
    next
      case True
      then obtain outs where outs: "out = Some outs" using nn by blast
      obtain u where "setErrorMessage K L pr p (''len(ConstraintUsage) = '' @ FormatInt (int (length (out_ConstraintUsage outs))) @ '' (> '' @
            FormatInt (int (length (ii_constraints info))) @ '')'') t = Some u" "vt_quiet M D t u" using setErrorMessage_quiet [OF lib live [OF t]] by metis
      then show ?thesis using True outs oe copy [OF live [OF t]] by (simp add: fine_Some)
    qed
  qed
  then show ?thesis using fine_first [OF q] a n by (simp add: vtabBestIndexTrampoline_def)
qed

lemma cursor_calls_fine:
  assumes lib: "lib_vt_ok K L M D" and go: "go_vt_ok K G M D" and inv: "vt_inv M D v s" and "v_cursors v c \<noteq> None"
  shows "fine M D s (call_cursor K L pr G m c s)" and "fine M D s (vtabEOFTrampoline G c s)" and "fine M D s (vtabRowIDTrampoline K L pr G c s)"
proof -
  obtain cw x where c: "find_cursor c s = Some (cw, x)" "vt_vtabs s (cw_vtab cw) \<noteq> None" using find_cursor_live [OF inv assms(4)] by blast
  show "fine M D s (call_cursor K L pr G m c s)" using call_return_fine [OF lib go c(2)] c(1) by (simp add: call_cursor_def)
  have "fine M D s (k_EOF G x s \<bind> (\<lambda>(eof, s). Some (if eof then 1 else 0 :: int, s)))" by (rule fine_bind [OF go_fine(3) [OF go]]) (simp add: fine_same)
  then show "fine M D s (vtabEOFTrampoline G c s)" using c(1) by (simp add: vtabEOFTrampoline_def)
  have ret: "fine M D t (vtab_return K L pr (cw_vtab cw) err t \<bind> (\<lambda>(code, s). Some ((code, r), s)))" if "vt_quiet M D s t" for t err and r :: "int option"
    by (rule fine_bind [OF vtab_return_fine [OF lib]]) (use c(2) vt_quiet_live [OF that] in \<open>auto simp: fine_same\<close>)
  have "fine M D s (k_RowID G x s \<bind> (\<lambda>((rowid, err), s). vtab_return K L pr (cw_vtab cw) err s \<bind> (\<lambda>(code, s). Some ((code, if err = None then Some rowid else None), s))))"
    by (rule fine_bind [OF go_fine(4) [OF go]]) (auto simp: ret)
  then show "fine M D s (vtabRowIDTrampoline K L pr G c s)" using c(1) by (simp add: vtabRowIDTrampoline_def)
qed

text \<open>A result of a proper type can always be set.\<close>

lemma set_result_grows: "lib_vt_ok K L M D \<Longrightarrow> mem_grows M D (fn_world f) (fn_world (set_result L ctx r f))"
  by (simp add: set_result_def lib_vt_okD(13))

lemma resultError_grows:
  assumes "lib_vt_ok K L M D"
  shows "\<exists>f'. resultError K L ctx e f = Some f' \<and> mem_grows M D (fn_world f) (fn_world f')"
proof -
  obtain err w where c: "x_cstring L (error_text L e) (fn_world f) = (err, w)" by (metis prod.collapse)
  have "err = None" using lib_vt_okD(8) [OF assms, of e "fn_world f"] c by simp
  then show ?thesis using c mem_grows_trans [OF lib_vt_okD(7) [OF assms c] lib_vt_okD(13) [OF assms]] by (auto simp: resultError_def set_result_def)
qed

lemma result_bytes_grows:
  assumes "lib_vt_ok K L M D" and "\<And>w err w'. alloc w = (err, w') \<Longrightarrow> mem_grows M D w w'"
  shows "\<exists>f'. result_bytes K L ctx bytes mk alloc f = Some f' \<and> mem_grows M D (fn_world f) (fn_world f')"
proof (cases "length bytes = 0")
  case True
  then show ?thesis using set_result_grows [OF assms(1)] by (auto simp: result_bytes_def)
next
  case False
  obtain err w where a: "alloc (fn_world f) = (err, w)" by (metis prod.collapse)
  note g = assms(2) [OF a]
  obtain f' where "resultError K L ctx (Errorf ''alloc function result: %w'' (the err)) (f\<lparr>fn_world := w\<rparr>) = Some f'" "mem_grows M D w (fn_world f')"
    using resultError_grows [OF assms(1), of ctx _ "f\<lparr>fn_world := w\<rparr>"] by auto
  then show ?thesis using False a mem_grows_trans [OF g] mem_grows_trans [OF g lib_vt_okD(13) [OF assms(1)]]
    by (cases "err = None") (auto simp: result_bytes_def Let_def set_result_def)
qed

lemma Context_result_grows:
  assumes "lib_vt_ok K L M D" and "proper_value K v"
  shows "\<exists>f'. Context_result K L ctx v None f = Some f' \<and> mem_grows M D (fn_world f) (fn_world f')"
proof -
  note set = set_result_grows [OF assms(1)] and err = resultError_grows [OF assms(1)]
  have al: "mem_grows M D w w'" if "malloc L n w = (e, w')" for n w e w'
    using that lib_vt_okD(9) [OF assms(1)] by (auto simp: malloc_def split: prod.splits)
  note b = result_bytes_grows [OF assms(1) lib_vt_okD(7) [OF assms(1)]] result_bytes_grows [OF assms(1) al]
  show ?thesis
  proof (cases "v_tls v")
    case (Some tls)
    then show ?thesis using set err by (cases "cx_tls ctx = tls") (simp_all add: Context_result_def)
  next
    case None
    then have t: "int (ptrOrType v) \<in> {0, TypeNull K, TypeInteger K, TypeFloat K, TypeText K, TypeBlob K}" using assms(2) by (simp add: proper_value_def)
    show ?thesis using None t set b unfolding Context_result_def Let_def by (auto split: if_splits)
  qed
qed

lemma TextValue_proper: "proper_value K (TextValue K str)"
  by (auto simp: proper_value_def TextValue_def)

lemma column_fine:
  assumes lib: "lib_vt_ok K L M D" and go: "go_vt_ok K G M D" and inv: "vt_inv M D v s" and "v_cursors v c \<noteq> None"
  shows "fine M D s (vtabColumnTrampoline K L G c ctx n s)"
proof -
  obtain cw x where c: "find_cursor c s = Some (cw, x)" using find_cursor_live [OF inv assms(4)] by blast
  let ?nc = "x_vtab_nochange L (cx_ptr ctx) (vt_world s)"
  have res: "\<exists>u. column_result K L ctx y t = Some u \<and> vt_quiet M D t u" if pv: "proper_value K y" for y t
  proof -
    obtain f' where "Context_result K L ctx y None \<lparr>fn_xfuncs = handles_init, fn_factories = handles_init, fn_aggs = handles_init, fn_collations = handles_init,
        fn_auxdata = handles_init, fn_cells = (\<lambda>_. 0), fn_world = vt_world t\<rparr> = Some f'" "mem_grows M D (vt_world t) (fn_world f')"
      using Context_result_grows [OF lib pv] by (metis fn_state.select_convs(7))
    then show ?thesis using vt_quiet_world by (auto simp: column_result_def)
  qed
  have "fine M D s (k_Column G x n ?nc s \<bind> (\<lambda>((v, err), s). case err of
          Some e \<Rightarrow> do { s \<leftarrow> column_result K L ctx (TextValue K (error_text L e)) s; Some (wrap32 (ErrCode K err), s) }
        | None \<Rightarrow>
            if ?nc \<and> v_tls v = None \<and> ptrOrType v = 0 \<and> v_n v \<noteq> 0 then Some (ResultOK K, s)
            else do { s \<leftarrow> column_result K L ctx v s; Some (ResultOK K, s) }))" (is "fine M D s (?r \<bind> ?g)")
  proof (rule fine_bind [OF calm_fine [OF go_vt_okD(7) [OF go]]])
    fix ve t assume r: "?r = Some (ve, t)"
    obtain y err where ve: "ve = (y, err)" by (cases ve)
    have y: "proper_value K y" using calm_result [OF go_vt_okD(7) [OF go] r] ve by simp
    show "fine M D t (?g (ve, t))"
    proof (cases err)
      case None
      obtain u where "column_result K L ctx y t = Some u" "vt_quiet M D t u" using res [OF y] by blast
      then show ?thesis using None ve by (simp add: fine_same fine_Some)
    next
      case (Some e)
      obtain u where "column_result K L ctx (TextValue K (error_text L e)) t = Some u" "vt_quiet M D t u" using res [OF TextValue_proper] by blast
      then show ?thesis using Some ve by (simp add: fine_Some)
    qed
  qed
  then show ?thesis using c by (simp add: vtabColumnTrampoline_def Let_def)
qed

section \<open>Calls that make and end tables and cursors\<close>

text \<open>The objects that calls reach.\<close>

definition same_objects :: "vt_view \<Rightarrow> vt_view \<Rightarrow> 'w vt_state \<Rightarrow> 'w vt_state \<Rightarrow> bool" where
  "same_objects v v' s s' \<longleftrightarrow> (\<forall>p \<in> v_tables v \<inter> v_tables v'. find_vtable p s' = find_vtable p s) \<and>
     (\<forall>c \<in> dom (v_cursors v) \<inter> dom (v_cursors v'). map_option snd (find_cursor c s') = map_option snd (find_cursor c s))"

lemma find_vtable_ids: "find_vtable p s = map_option (\<lambda>i. case reg_m (vt_tables s) i of Some t \<Rightarrow> t | None \<Rightarrow> no_vtable) (map_option vw_id (vt_vtabs s p))"
  by (cases "vt_vtabs s p") (simp_all add: find_vtable_def)

lemma find_cursor_ids: "map_option snd (find_cursor c s) = (map_option cw_id (vt_curs s c) \<bind> reg_m (vt_cursors s)) \<bind> (\<lambda>t. t)"
  by (cases "vt_curs s c") (auto simp: find_cursor_def split: option.splits Option.bind_splits)

lemma vt_quiet_objects: "vt_quiet M D s s' \<Longrightarrow> same_objects v v' s s'"
  by (simp add: same_objects_def find_vtable_ids find_cursor_ids vt_quiet_same)

lemma same_objects_trans:
  assumes "same_objects v v s t" and "same_objects v v' t u"
  shows "same_objects v v' s u"
  using assms by (simp add: same_objects_def)

definition safe_result :: "('w \<Rightarrow> nat set) \<Rightarrow> ('w \<Rightarrow> nat set) \<Rightarrow> vt_view \<Rightarrow> 'w vt_state \<Rightarrow> (vt_view \<times> 'w vt_state) option \<Rightarrow> bool" where
  "safe_result M D v s r \<longleftrightarrow> (\<exists>v' s'. r = Some (v', s') \<and> vt_inv M D v' s' \<and> same_objects v v' s s')"

lemma fine_safe:
  assumes "vt_inv M D v s" and "fine M D s r"
  shows "safe_result M D v s (v_same v r)"
  using assms(2) vt_quiet_inv [OF _ assms(1)] vt_quiet_objects unfolding fine_def safe_result_def v_same_def by fastforce

lemma safe_result_first:
  assumes "vt_quiet M D s t" and "safe_result M D v t r"
  shows "safe_result M D v s r"
  using assms(2) same_objects_trans [OF vt_quiet_objects [OF assms(1)]] unfolding safe_result_def by fast

lemma block_addr_cong: "vt_vtabs t = vt_vtabs s \<Longrightarrow> vt_curs t = vt_curs s \<Longrightarrow> vt_modules t = vt_modules s \<Longrightarrow> block_addr t = block_addr s"
proof
  assume "vt_vtabs t = vt_vtabs s" "vt_curs t = vt_curs s" "vt_modules t = vt_modules s"
  then show "block_addr t b = block_addr s b" for b by (cases b) simp_all
qed

text \<open>A fresh address names no block.\<close>

lemma fresh_address:
  assumes "owned (block_addr s) A" and "a \<notin> A"
  shows "vt_vtabs s a = None" and "vt_curs s a = None" and "vt_modules s a = None"
proof -
  have "block_addr s b \<noteq> Some a" for b using assms by (auto simp: owned_def)
  from this [of "B_table a"] this [of "B_cursor a"] this [of "B_module a"]
  show "vt_vtabs s a = None" "vt_curs s a = None" "vt_modules s a = None" by (auto split: if_splits)
qed

lemma add_table:
  assumes "vt_inv M D v s" and "mem_grows M D (vt_world s) w" and "p \<notin> M (vt_world s)" and "p \<in> M w"
    and "reg_add idGen_next t (vt_tables s) = (i, r)" and "av_VTable t \<noteq> None"
  defines "s' \<equiv> s\<lparr>vt_tables := r, vt_vtabs := (vt_vtabs s)(p \<mapsto> \<lparr>vw_errmsg = None, vw_id = i\<rparr>), vt_world := w\<rparr>"
    and "v' \<equiv> v\<lparr>v_tables := insert p (v_tables v)\<rparr>"
  shows "vt_inv M D v' s'" and "same_objects v v' s s'"
proof -
  have o: "owned (block_addr s) (M (vt_world s))" and li: "linked (\<lambda>p. map_option vw_id (vt_vtabs s p)) (vt_tables s)" using assms(1) by (simp_all add: vt_inv_def)
  note fr = fresh_address [OF o assms(3)]
  have "block_addr s' = (block_addr s)(B_table p \<mapsto> p)"
  proof
    show "block_addr s' b = ((block_addr s)(B_table p \<mapsto> p)) b" for b using fr(1) by (cases b) (auto simp: s'_def)
  qed
  moreover have "owned ((block_addr s)(B_table p \<mapsto> p)) (insert p (M (vt_world s)))" by (rule owned_add [OF o _ assms(3)]) (simp add: fr(1))
  ultimately have own: "owned (block_addr s') (M w)" using owned_mono [OF _ map_le_refl, of _ "insert p (M (vt_world s))" "M w"] assms(2,4) by (simp add: mem_grows_def)
  have ids: "(\<lambda>q. map_option vw_id (vt_vtabs s' q)) = (\<lambda>q. map_option vw_id (vt_vtabs s q))(p \<mapsto> i)" by (auto simp: s'_def)
  note la = linked_add [OF li _ assms(5), of p]
  have l: "linked (\<lambda>q. map_option vw_id (vt_vtabs s' q)) r" "reg_m r = (reg_m (vt_tables s))(i \<mapsto> t)" "reg_m (vt_tables s) i = None" using la fr(1) ids by simp_all
  show "vt_inv M D v' s'" using assms(1,2,6) own l unfolding vt_inv_def by (auto simp: s'_def v'_def mem_grows_def)
  have "map_option vw_id (vt_vtabs s q) \<noteq> Some i" for q using l(3) linked_entry [OF li, of q i] by auto
  then show "same_objects v v' s s'" using l(2) fr(1) assms(1) by (auto simp: same_objects_def find_vtable_ids find_cursor_ids s'_def v'_def vt_inv_def)
qed

lemma remove_table:
  assumes "vt_inv M D v s" and "p \<in> v_tables v" and "p \<notin> ran (v_cursors v)" and "M (vt_world s) - {p} \<subseteq> M w" and "D w = D (vt_world s)" and "vt_vtabs s p = Some vw"
  defines "v' \<equiv> v\<lparr>v_tables := v_tables v - {p}\<rparr>"
  shows "\<exists>r. reg_del idGen_reclaim (vw_id vw) (vt_tables s) = Some r \<and>
    (let s' = s\<lparr>vt_vtabs := (vt_vtabs s)(p := None), vt_tables := r, vt_world := w\<rparr> in vt_inv M D v' s' \<and> same_objects v v' s s')"
proof -
  have o: "owned (block_addr s) (M (vt_world s))" and li: "linked (\<lambda>p. map_option vw_id (vt_vtabs s p)) (vt_tables s)" using assms(1) by (simp_all add: vt_inv_def)
  obtain r where r: "reg_del idGen_reclaim (vw_id vw) (vt_tables s) = Some r" "linked ((\<lambda>p. map_option vw_id (vt_vtabs s p))(p := None)) r"
    "reg_m r = (reg_m (vt_tables s))(vw_id vw := None)" using linked_del [OF li, of p "vw_id vw"] assms(6) by auto
  let ?s = "s\<lparr>vt_vtabs := (vt_vtabs s)(p := None), vt_tables := r, vt_world := w\<rparr>"
  have b: "block_addr ?s = (block_addr s)(B_table p := None, B_message p := None)"
  proof
    show "block_addr ?s b = ((block_addr s)(B_table p := None, B_message p := None)) b" for b by (cases b) auto
  qed
  have "owned ((block_addr s)(B_table p := None)) (M (vt_world s) - {p})" by (rule owned_del [OF o]) (simp add: assms(6))
  then have own: "owned (block_addr ?s) (M w)" unfolding b by (rule owned_mono) (use assms(4) in \<open>auto simp: map_le_def\<close>)
  have l: "linked (\<lambda>q. map_option vw_id (vt_vtabs ?s q)) r" using r(2) by (simp add: fun_upd_def if_distrib cong: if_cong)
  have inv: "vt_inv M D v' ?s" using assms(1,3,5) own l r(3) unfolding vt_inv_def by (auto simp: v'_def)
  have "inj_on (\<lambda>p. map_option vw_id (vt_vtabs s p)) (dom (\<lambda>p. map_option vw_id (vt_vtabs s p)))" using li by (simp add: linked_def)
  then have "map_option vw_id (vt_vtabs s q) \<noteq> Some (vw_id vw)" if "q \<noteq> p" for q using that assms(6) by (auto simp: inj_on_def dom_def)
  then have "find_vtable q ?s = find_vtable q s" if "q \<noteq> p" for q using r(3) that by (cases "vt_vtabs s q") (auto simp: find_vtable_def)
  then have "same_objects v v' s ?s" by (auto simp: same_objects_def find_cursor_ids v'_def)
  then show ?thesis using r(1) inv by (auto simp: Let_def)
qed

lemma end_table_safe:
  assumes lib: "lib_vt_ok K L M D" and go: "go_vt_ok K G M D" and inv: "vt_inv M D v s" and "p \<in> v_tables v" and "p \<notin> ran (v_cursors v)"
  shows "\<exists>code s'. end_vtable K L G m p s = Some (code, s') \<and> vt_inv M D (v\<lparr>v_tables := v_tables v - {p}\<rparr>) s' \<and>
    same_objects v (v\<lparr>v_tables := v_tables v - {p}\<rparr>) s s' \<and> (m = M_Destroy \<longrightarrow> code = ResultOK K)"
proof -
  let ?v = "v\<lparr>v_tables := v_tables v - {p}\<rparr>"
  obtain avt x where a: "find_vtable p s = Some avt" "av_VTable avt = Some x" "vt_vtabs s p \<noteq> None" using find_vtable_live [OF inv assms(4)] by blast
  then obtain vw where vw: "vt_vtabs s p = Some vw" by blast
  obtain r where r: "reg_del idGen_reclaim (vw_id vw) (vt_tables s) = Some r"
    "vt_inv M D ?v (s\<lparr>vt_vtabs := (vt_vtabs s)(p := None), vt_tables := r, vt_world := x_sqlite_free L p (vt_world s)\<rparr>)" (is "vt_inv M D ?v ?s")
    "same_objects v ?v s (s\<lparr>vt_vtabs := (vt_vtabs s)(p := None), vt_tables := r, vt_world := x_sqlite_free L p (vt_world s)\<rparr>)"
    using remove_table [OF inv assms(4,5) lib_vt_okD(5,6) [OF lib] vw] by (auto simp: Let_def)
  obtain err s' where c: "k_call G m x ?s = Some (err, s')" "vt_quiet M D ?s s'" using go_fine(1) [OF go] unfolding fine_def by metis
  have e: "m = M_Destroy \<longrightarrow> err = None" using calm_result [OF go_vt_okD(2) [OF go] c(1)] .
  have "end_vtable K L G m p s = Some (wrap32 (ErrCode K err), s')" using vw a r(1) c(1) by (simp add: end_vtable_def)
  moreover have "vt_inv M D ?v s'" using vt_quiet_inv [OF c(2) r(2)] .
  moreover have "same_objects v ?v s s'" using r(3) vt_quiet_objects [OF c(2), of v ?v] by (simp add: same_objects_def)
  moreover have "wrap32 (ErrCode K None) = ResultOK K" by (simp add: ErrCode_def lib_vt_okD(1) [OF lib] wrap32_def)
  ultimately show ?thesis using e by auto
qed

lemma configure_grows: "lib_vt_ok K L M D \<Longrightarrow> mem_grows M D w (configure K L cfg w)"
  by (auto simp: configure_def Let_def intro: mem_grows_trans lib_vt_okD(12) mem_grows_refl)

lemma connect_safe:
  assumes lib: "lib_vt_ok K L M D" and go: "go_vt_ok K G M D" and inv: "vt_inv M D v s" and "connect \<noteq> None"
  shows "safe_result M D v s (map_option (\<lambda>(r, s). (v_connected K v r, s)) (callConnectFunc K L pr G connect argv s))"
proof -
  obtain f where f: "connect = Some f" using assms(4) by blast
  note go1 = go_vt_okD(1) [OF go, of s f "connect_options argv"]
  obtain vtab cfg err t where c: "k_connect G f (connect_options argv) s = Some ((vtab, cfg, err), t)" and q: "vt_quiet M D s t"
    using calm_fine [OF go1] unfolding fine_def by (metis prod.collapse)
  have h: "has_code K err" "err = None \<longrightarrow> vtab \<noteq> None \<and> cfg \<noteq> None" using calm_result [OF go1 c] by auto
  note invt = vt_quiet_inv [OF q inv]
  note ok = lib_vt_okD(1) [OF lib]
  have unchanged: "safe_result M D v t (Some (v_connected K v (code, p, z), u))" if "vt_quiet M D t u" "code \<noteq> ResultOK K" for u code p z
    using that vt_quiet_inv [OF that(1) invt] vt_quiet_objects [OF that(1)] by (simp add: safe_result_def v_connected_def)
  have "safe_result M D v t (map_option (\<lambda>(r, s). (v_connected K v r, s)) (callConnectFunc K L pr G connect argv s))"
  proof (cases err)
    case (Some e)
    obtain z ze w where z: "sqliteCString K L pr (error_text L e) (vt_world t) = ((z, ze), w)" by (metis prod.collapse)
    from unchanged [OF vt_quiet_world [OF sqliteCString_result(1) [OF lib z]]] h(1) Some show ?thesis
      using f c z by (simp add: callConnectFunc_def has_code_def)
  next
    case None
    obtain y cf where y: "vtab = Some y" "cfg = Some cf" using h(2) None by blast
    obtain code p u where i: "install_vtable K L G vtab cf t = ((code, p), u)" by (metis prod.collapse)
    obtain e1 w1 where w1: "x_cstring L (vc_Declaration cf) (vt_world t) = (e1, w1)" by (metis prod.collapse)
    obtain res w2 where w2: "x_declare_vtab L (vc_Declaration cf) w1 = (res, w2)" by (metis prod.collapse)
    obtain a w3 where w3: "x_sqlite_malloc L (sizeof L ''vtabWrapper'') (configure K L cf w2) = (a, w3)" by (metis prod.collapse)
    obtain j r where j: "reg_add idGen_next (assertVTable G vtab) (vt_tables t) = (j, r)" by (metis prod.collapse)
    note g1 = lib_vt_okD(7) [OF lib w1] and g2 = lib_vt_okD(10) [OF lib w2] and g3 = lib_vt_okD(3) [OF lib w3]
    have g12: "mem_grows M D (vt_world t) (configure K L cf w2)" using mem_grows_trans [OF mem_grows_trans [OF g1 g2] configure_grows [OF lib]] .
    consider (bad) "code \<noteq> ResultOK K" "vt_quiet M D t u"
      | (good) "code = ResultOK K" "e1 = None" "a \<noteq> 0" "p = a" "u = t\<lparr>vt_tables := r, vt_vtabs := (vt_vtabs t)(p \<mapsto> \<lparr>vw_errmsg = None, vw_id = j\<rparr>), vt_world := w3\<rparr>"
    proof -
      have "vt_quiet M D t (t\<lparr>vt_world := w1\<rparr>)" "vt_quiet M D t (t\<lparr>vt_world := w2\<rparr>)" "vt_quiet M D t (t\<lparr>vt_world := w3\<rparr>)"
        using g1 mem_grows_trans [OF g1 g2] mem_grows_trans [OF g12 g3] by (simp_all add: vt_quiet_world)
      moreover have "\<not> IsSuccess K res \<Longrightarrow> wrap32 res \<noteq> ResultOK K" using lib_vt_okD(11) [OF lib w2] by (auto simp: IsSuccess_def)
      ultimately show ?thesis using that i w1 w2 w3 j ok lib_vt_okD(2) [OF lib]
        by (simp add: install_vtable_def split: if_splits) (elim conjE, simp)
    qed
    then show ?thesis
    proof cases
      case bad
      obtain err' u' where d: "k_call G M_Disconnect y u = Some (err', u')" "vt_quiet M D u u'" using go_fine(1) [OF go] unfolding fine_def by metis
      from unchanged [OF vt_quiet_trans [OF bad(2) d(2)] bad(1)] show ?thesis using f c None y i bad d(1) by (simp add: callConnectFunc_def)
    next
      case good
      have "a \<notin> M (configure K L cf w2) \<and> a \<in> M w3" using lib_vt_okD(4) [OF lib w3 good(3)] .
      then have fresh: "p \<notin> M (vt_world t)" "p \<in> M w3" using g12 good(4) by (auto simp: mem_grows_def)
      have "av_VTable (assertVTable G vtab) \<noteq> None" using y by (simp add: assertVTable_def)
      from add_table [OF invt mem_grows_trans [OF g12 g3] fresh j this] show ?thesis
        using f c None y i good by (simp add: callConnectFunc_def safe_result_def v_connected_def)
    qed
  qed
  then show ?thesis by (rule safe_result_first [OF q])
qed

text \<open>Cursors, after SQLite has entered the table.\<close>

lemma add_cursor:
  assumes "vt_inv M D v s" and "p \<in> v_tables v" and "mem_grows M D (vt_world s) w" and "c \<notin> M (vt_world s)" and "c \<in> M w"
    and "reg_add idGen_next (Some x) (vt_cursors s) = (i, r)"
  defines "s' \<equiv> s\<lparr>vt_cursors := r, vt_curs := (vt_curs s)(c \<mapsto> \<lparr>cw_vtab = p, cw_id = i\<rparr>), vt_world := w\<rparr>"
    and "v' \<equiv> v\<lparr>v_cursors := (v_cursors v)(c \<mapsto> p)\<rparr>"
  shows "vt_inv M D v' s'" and "same_objects v v' s s'"
proof -
  have o: "owned (block_addr s) (M (vt_world s))" and li: "linked (\<lambda>c. map_option cw_id (vt_curs s c)) (vt_cursors s)" using assms(1) by (simp_all add: vt_inv_def)
  note fr = fresh_address [OF o assms(4)]
  have "block_addr s' = (block_addr s)(B_cursor c \<mapsto> c)"
  proof
    show "block_addr s' b = ((block_addr s)(B_cursor c \<mapsto> c)) b" for b using fr(2) by (cases b) (auto simp: s'_def)
  qed
  moreover have "owned ((block_addr s)(B_cursor c \<mapsto> c)) (insert c (M (vt_world s)))" by (rule owned_add [OF o _ assms(4)]) (simp add: fr(2))
  ultimately have own: "owned (block_addr s') (M w)" using owned_mono [OF _ map_le_refl, of _ "insert c (M (vt_world s))" "M w"] assms(3,5) by (simp add: mem_grows_def)
  have ids: "(\<lambda>q. map_option cw_id (vt_curs s' q)) = (\<lambda>q. map_option cw_id (vt_curs s q))(c \<mapsto> i)" by (auto simp: s'_def)
  note la = linked_add [OF li _ assms(6), of c]
  have l: "linked (\<lambda>q. map_option cw_id (vt_curs s' q)) r" "reg_m r = (reg_m (vt_cursors s))(i \<mapsto> Some x)" "reg_m (vt_cursors s) i = None" using la fr(2) ids by simp_all
  have "ran (v_cursors v) \<subseteq> v_tables v" using assms(1) unfolding vt_inv_def by (elim conjE)
  then have "ran (v_cursors v') \<subseteq> v_tables v'" using assms(2) by (auto simp: v'_def ran_def)
  moreover have "v_cursors v' = (\<lambda>c. map_option cw_vtab (vt_curs s' c))" using assms(1) by (auto simp: v'_def s'_def vt_inv_def)
  ultimately show "vt_inv M D v' s'" using assms(1,3) own l unfolding vt_inv_def by (auto simp: s'_def v'_def mem_grows_def)
  have "map_option cw_id (vt_curs s q) \<noteq> Some i" for q using l(3) linked_entry [OF li, of q i] by auto
  moreover have "v_cursors v c = None" using assms(1) fr(2) by (simp add: vt_inv_def)
  ultimately have "map_option snd (find_cursor q s') = map_option snd (find_cursor q s)" if "v_cursors v q \<noteq> None" for q
    using that l(2) unfolding find_cursor_ids by (cases "vt_curs s q") (auto simp: s'_def)
  then show "same_objects v v' s s'" by (auto simp: same_objects_def find_vtable_ids s'_def)
qed

lemma remove_cursor:
  assumes "vt_inv M D v s" and "M (vt_world s) - {c} \<subseteq> M w" and "D w = D (vt_world s)" and "vt_curs s c = Some cw"
  defines "v' \<equiv> v\<lparr>v_cursors := (v_cursors v)(c := None)\<rparr>"
  shows "\<exists>r. reg_del idGen_reclaim (cw_id cw) (vt_cursors s) = Some r \<and>
    (let s' = s\<lparr>vt_cursors := r, vt_curs := (vt_curs s)(c := None), vt_world := w\<rparr> in vt_inv M D v' s' \<and> same_objects v v' s s')"
proof -
  have o: "owned (block_addr s) (M (vt_world s))" and li: "linked (\<lambda>c. map_option cw_id (vt_curs s c)) (vt_cursors s)" using assms(1) by (simp_all add: vt_inv_def)
  obtain r where r: "reg_del idGen_reclaim (cw_id cw) (vt_cursors s) = Some r" "linked ((\<lambda>c. map_option cw_id (vt_curs s c))(c := None)) r"
    "reg_m r = (reg_m (vt_cursors s))(cw_id cw := None)" using linked_del [OF li, of c "cw_id cw"] assms(4) by auto
  let ?s = "s\<lparr>vt_cursors := r, vt_curs := (vt_curs s)(c := None), vt_world := w\<rparr>"
  have b: "block_addr ?s = (block_addr s)(B_cursor c := None)"
  proof
    show "block_addr ?s b = ((block_addr s)(B_cursor c := None)) b" for b by (cases b) auto
  qed
  have "owned ((block_addr s)(B_cursor c := None)) (M (vt_world s) - {c})" by (rule owned_del [OF o]) (simp add: assms(4))
  then have own: "owned (block_addr ?s) (M w)" unfolding b by (rule owned_mono) (use assms(2) in auto)
  have l: "linked (\<lambda>q. map_option cw_id (vt_curs ?s q)) r" using r(2) by (simp add: fun_upd_def if_distrib cong: if_cong)
  have "ran (v_cursors v) \<subseteq> v_tables v" using assms(1) unfolding vt_inv_def by (elim conjE)
  then have "ran (v_cursors v') \<subseteq> v_tables v'" by (auto simp: v'_def ran_def)
  moreover have "v_cursors v' = (\<lambda>q. map_option cw_vtab (vt_curs ?s q))" using assms(1) by (auto simp: v'_def vt_inv_def)
  ultimately have inv: "vt_inv M D v' ?s" using assms(1,3) own l r(3) unfolding vt_inv_def by (auto simp: v'_def)
  have "inj_on (\<lambda>c. map_option cw_id (vt_curs s c)) (dom (\<lambda>c. map_option cw_id (vt_curs s c)))" using li by (simp add: linked_def)
  then have "map_option cw_id (vt_curs s q) \<noteq> Some (cw_id cw)" if "q \<noteq> c" for q using that assms(4) by (auto simp: inj_on_def dom_def)
  then have "map_option snd (find_cursor q ?s) = map_option snd (find_cursor q s)" if "q \<noteq> c" for q
    using r(3) that unfolding find_cursor_ids by (cases "vt_curs s q") auto
  then have "same_objects v v' s ?s" by (auto simp: same_objects_def find_vtable_ids v'_def)
  then show ?thesis using r(1) inv by (auto simp: Let_def)
qed

lemma close_safe:
  assumes lib: "lib_vt_ok K L M D" and go: "go_vt_ok K G M D" and inv: "vt_inv M D v s" and "v_cursors v c \<noteq> None"
  defines "v' \<equiv> v\<lparr>v_cursors := (v_cursors v)(c := None)\<rparr>"
  shows "safe_result M D v s (map_option (\<lambda>(_, s). (v', s)) (vtabCloseTrampoline K L pr G c s))"
proof -
  obtain cw x where c: "find_cursor c s = Some (cw, x)" "vt_curs s c = Some cw" "vt_vtabs s (cw_vtab cw) \<noteq> None" using find_cursor_live [OF inv assms(4)] by blast
  obtain r where r: "reg_del idGen_reclaim (cw_id cw) (vt_cursors s) = Some r"
    "vt_inv M D v' (s\<lparr>vt_cursors := r, vt_curs := (vt_curs s)(c := None), vt_world := x_sqlite_free L c (vt_world s)\<rparr>)" (is "vt_inv M D v' ?s")
    "same_objects v v' s (s\<lparr>vt_cursors := r, vt_curs := (vt_curs s)(c := None), vt_world := x_sqlite_free L c (vt_world s)\<rparr>)"
    using remove_cursor [OF inv lib_vt_okD(5,6) [OF lib] c(2)] by (auto simp: Let_def v'_def)
  have "fine M D ?s (k_call G M_Close x ?s \<bind> (\<lambda>(err, s). vtab_return K L pr (cw_vtab cw) err s))" by (rule call_return_fine [OF lib go]) (simp add: c(3))
  then obtain code u where u: "k_call G M_Close x ?s \<bind> (\<lambda>(err, s). vtab_return K L pr (cw_vtab cw) err s) = Some (code, u)" "vt_quiet M D ?s u" unfolding fine_def by (elim exE conjE)
  have "same_objects v v' s u" using r(3) vt_quiet_objects [OF u(2), of v v'] by (simp add: same_objects_def)
  moreover have "vtabCloseTrampoline K L pr G c s = Some (code, u)" using c(1) r(1) u(1) by (simp add: vtabCloseTrampoline_def)
  ultimately show ?thesis using vt_quiet_inv [OF u(2) r(2)] by (simp add: safe_result_def)
qed

lemma vtab_return_code:
  assumes "lib_vt_ok K L M D" and "vt_vtabs s p \<noteq> None" and "err \<noteq> None"
  shows "\<exists>u. vtab_return K L pr p err s = Some (wrap32 (ErrCode K err), u) \<and> vt_quiet M D s u"
proof -
  obtain e where e: "err = Some e" using assms(3) by blast
  obtain u where "setErrorMessage K L pr p (error_text L e) s = Some u" "vt_quiet M D s u" using setErrorMessage_quiet [OF assms(1,2)] by metis
  then show ?thesis using e by (simp add: vtab_return_def)
qed

lemma open_safe:
  assumes lib: "lib_vt_ok K L M D" and go: "go_vt_ok K G M D" and inv: "vt_inv M D v s" and "p \<in> v_tables v"
  shows "safe_result M D v s (map_option (v_opened K p v) (vtabOpenTrampoline K L pr G p s))"
proof -
  obtain avt x where a: "find_vtable p s = Some avt" "av_VTable avt = Some x" "vt_vtabs s p \<noteq> None" using find_vtable_live [OF inv assms(4)] by blast
  note go4 = go_vt_okD(4) [OF go, of s x]
  obtain cursor err t where o: "k_Open G x s = Some ((cursor, err), t)" and q: "vt_quiet M D s t" using calm_fine [OF go4] unfolding fine_def by (metis prod.collapse)
  have h: "has_code K err" "err = None \<longrightarrow> cursor \<noteq> None" using calm_result [OF go4 o] by auto
  note invt = vt_quiet_inv [OF q inv]
  have live: "vt_vtabs u p \<noteq> None" if "vt_quiet M D t u" for u using vt_quiet_live [OF that] vt_quiet_live [OF q] a(3) by simp
  have unchanged: "safe_result M D v t (Some (v_opened K p v ((code, c), u)))" if "vt_quiet M D t u" "code \<noteq> ResultOK K" for u code c
    using that vt_quiet_inv [OF that(1) invt] vt_quiet_objects [OF that(1)] by (simp add: safe_result_def v_opened_def)
  have "safe_result M D v t (map_option (v_opened K p v) (vtabOpenTrampoline K L pr G p s))"
  proof (cases "err = None")
    case False
    obtain u where u: "vtab_return K L pr p err t = Some (wrap32 (ErrCode K err), u)" "vt_quiet M D t u" using vtab_return_code [OF lib live [OF vt_quiet_refl] False] by blast
    from unchanged [OF u(2)] h(1) False show ?thesis using a o u(1) by (auto simp: vtabOpenTrampoline_def has_code_def)
  next
    case True
    obtain y where y: "cursor = Some y" using h(2) True by blast
    obtain c w where c: "x_sqlite_malloc L (sizeof L ''vtabWrapper'') (vt_world t) = (c, w)" by (metis prod.collapse)
    note g = lib_vt_okD(3) [OF lib c]
    show ?thesis
    proof (cases "c = 0")
      case True
      let ?t = "t\<lparr>vt_world := w\<rparr>"
      obtain e u where u: "k_call G M_Close y ?t = Some (e, u)" "vt_quiet M D ?t u" using go_fine(1) [OF go] unfolding fine_def by metis
      note qu = vt_quiet_trans [OF vt_quiet_world [OF g] u(2)]
      obtain u' where u': "setErrorMessage K L pr p ''no memory for cursor wrapper'' u = Some u'" "vt_quiet M D u u'" using setErrorMessage_quiet [OF lib live [OF qu]] by blast
      have "K ''SQLITE_NOMEM'' \<noteq> ResultOK K" using lib_vt_okD(1,2) [OF lib] by simp
      from unchanged [OF vt_quiet_trans [OF qu u'(2)] this] show ?thesis using a o \<open>err = None\<close> y c True u(1) u'(1) by (simp add: vtabOpenTrampoline_def)
    next
      case False
      obtain i r where i: "reg_add idGen_next (Some y) (vt_cursors t) = (i, r)" by (metis prod.collapse)
      have pt: "p \<in> v_tables v" by (fact assms(4))
      have fr: "c \<notin> M (vt_world t)" "c \<in> M w" using lib_vt_okD(4) [OF lib c False] by simp_all
      have "vtabOpenTrampoline K L pr G p s = Some ((ResultOK K, c), t\<lparr>vt_world := w, vt_cursors := r, vt_curs := (vt_curs t)(c \<mapsto> \<lparr>cw_vtab = 0, cw_id = i\<rparr>)\<rparr>)"
        using a o True y c False i by (simp add: vtabOpenTrampoline_def)
      then have "map_option (v_opened K p v) (vtabOpenTrampoline K L pr G p s) = Some (v\<lparr>v_cursors := (v_cursors v)(c \<mapsto> p)\<rparr>,
          t\<lparr>vt_cursors := r, vt_curs := (vt_curs t)(c \<mapsto> \<lparr>cw_vtab = p, cw_id = i\<rparr>), vt_world := w\<rparr>)" by (simp add: v_opened_def)
      then show ?thesis unfolding safe_result_def using add_cursor [OF invt pt g fr i] by (intro exI conjI)
    qed
  qed
  then show ?thesis by (rule safe_result_first [OF q])
qed

lemma import_safe:
  assumes lib: "lib_vt_ok K L M D" and inv: "vt_inv M D v s" and "p \<in> v_tables v"
  shows "safe_result M D v s (map_option (Pair v) (v_import L p s))"
proof -
  obtain vw where vw: "vt_vtabs s p = Some vw" using find_vtable_live [OF inv assms(3)] by blast
  have "\<exists>u. v_import L p s = Some u \<and> vt_quiet M D s u"
  proof (cases "vw_errmsg vw")
    case None
    then show ?thesis using vw vt_quiet_refl by (simp add: v_import_def)
  next
    case (Some m)
    let ?w = "x_sqlite_free L (fst m) (vt_world s)"
    have "vt_quiet M D s (s\<lparr>vt_vtabs := (vt_vtabs s)(p \<mapsto> vw\<lparr>vw_errmsg := None\<rparr>), vt_world := ?w\<rparr>)"
    proof (rule vt_quiet_message [where D = D and w = ?w, OF vw lib_vt_okD(6) [OF lib]])
      assume "owned (block_addr s) (M (vt_world s))"
      from owned_del [OF this, of "B_message p" "fst m"] have "owned ((block_addr s)(B_message p := None)) (M (vt_world s) - {fst m})" using vw Some by simp
      then show "owned ((block_addr s)(B_message p := map_option fst None)) (M ?w)" using owned_mono [OF _ map_le_refl lib_vt_okD(5) [OF lib]] by simp
    qed
    then show ?thesis using vw Some by (cases m) (simp add: v_import_def)
  qed
  then obtain u where "v_import L p s = Some u" "vt_quiet M D s u" by blast
  then show ?thesis using vt_quiet_inv [OF _ inv] vt_quiet_objects by (fastforce simp: safe_result_def)
qed

text \<open>Modules: destructors run for some, in any order.\<close>

lemma destroyModules:
  assumes "lib_vt_ok K L M D" and "distinct gone" and "set gone \<subseteq> dom (vt_modules s)" and "owned (block_addr s) (M (vt_world s))"
  shows "\<exists>w'. foldl (\<lambda>s p. destroyModule L p s) s gone = s\<lparr>vt_modules := vt_modules s |` (- set gone), vt_world := w'\<rparr> \<and> D w' = D (vt_world s) \<and>
    owned (block_addr (s\<lparr>vt_modules := vt_modules s |` (- set gone)\<rparr>)) (M w')"
  using assms(2-4)
proof (induction gone arbitrary: s)
  case Nil
  have "vt_modules s |` UNIV = vt_modules s" by (simp add: restrict_map_def)
  then show ?case using Nil(3) by (intro exI [of _ "vt_world s"]) simp
next
  case (Cons a gone)
  let ?t = "destroyModule L a s"
  have b: "block_addr (s\<lparr>vt_modules := (vt_modules s)(a := None)\<rparr>) = (block_addr s)(B_module a := None)"
  proof
    show "block_addr (s\<lparr>vt_modules := (vt_modules s)(a := None)\<rparr>) b = ((block_addr s)(B_module a := None)) b" for b by (cases b) auto
  qed
  have "owned ((block_addr s)(B_module a := None)) (M (vt_world s) - {a})" by (rule owned_del [OF Cons.prems(3)]) (use Cons.prems(2) in auto)
  then have "owned (block_addr ?t) (M (vt_world ?t))" using owned_mono [OF _ map_le_refl lib_vt_okD(5) [OF assms(1)]] by (simp add: destroyModule_def b)
  moreover have "distinct gone" "set gone \<subseteq> dom (vt_modules ?t)" using Cons.prems(1,2) by (auto simp: destroyModule_def)
  ultimately obtain w' where w': "foldl (\<lambda>s p. destroyModule L p s) ?t gone = ?t\<lparr>vt_modules := vt_modules ?t |` (- set gone), vt_world := w'\<rparr>" "D w' = D (vt_world ?t)"
    "owned (block_addr (?t\<lparr>vt_modules := vt_modules ?t |` (- set gone)\<rparr>)) (M w')" using Cons.IH by blast
  have "(vt_modules s)(a := None) |` (- set gone) = vt_modules s |` (- set (a # gone))" by (auto simp: restrict_map_def)
  then show ?case using w' lib_vt_okD(6) [OF assms(1)] by (intro exI [of _ w']) (simp add: destroyModule_def block_addr_cong [of "s\<lparr>vt_world := _, vt_modules := _\<rparr>" "s\<lparr>vt_modules := _\<rparr>"])
qed

lemma create_module_safe:
  assumes lib: "lib_vt_ok K L M D" and "\<forall>a m. vt_modules s a = Some m \<longrightarrow> md_Connect m \<noteq> None" and o: "owned (block_addr s) (M (vt_world s))"
    and dom: "dom (vt_modules s) = D (vt_world s) \<union> fst ` set_option cm"
  shows "\<exists>ms w. snd (create_module K L pr name cm s) = s\<lparr>vt_modules := ms, vt_world := w\<rparr> \<and> D w = dom ms \<and> (\<forall>a m. ms a = Some m \<longrightarrow> md_Connect m \<noteq> None) \<and>
    owned (block_addr (s\<lparr>vt_modules := ms\<rparr>)) (M w)"
proof -
  obtain res gone w where x: "x_create_module L name cm (vt_world s) = ((res, gone), w)" by (metis prod.collapse)
  have l: "M (vt_world s) \<subseteq> M w" "distinct gone" "set gone \<subseteq> D (vt_world s) \<union> fst ` set_option cm" "D w = (D (vt_world s) \<union> fst ` set_option cm) - set gone"
    using lib_vt_okD(14) [OF lib x] by auto
  let ?t = "s\<lparr>vt_world := w\<rparr>"
  have "owned (block_addr ?t) (M (vt_world ?t))" using owned_mono [OF o map_le_refl l(1)] by simp
  moreover have "set gone \<subseteq> dom (vt_modules ?t)" using l(3) dom by simp
  ultimately obtain w' where w': "foldl (\<lambda>s p. destroyModule L p s) ?t gone = ?t\<lparr>vt_modules := vt_modules ?t |` (- set gone), vt_world := w'\<rparr>" "D w' = D w"
    "owned (block_addr (?t\<lparr>vt_modules := vt_modules ?t |` (- set gone)\<rparr>)) (M w')" using destroyModules [OF lib l(2), of ?t] by auto
  have "block_addr (?t\<lparr>vt_modules := vt_modules s |` (- set gone)\<rparr>) = block_addr (s\<lparr>vt_modules := vt_modules s |` (- set gone)\<rparr>)" by (rule block_addr_cong) simp_all
  moreover have "D w' = dom (vt_modules s |` (- set gone))" unfolding dom_restrict dom using w'(2) l(4) by auto
  moreover have "\<forall>a m. (vt_modules s |` (- set gone)) a = Some m \<longrightarrow> md_Connect m \<noteq> None" using assms(2) by (simp add: restrict_map_def)
  ultimately show ?thesis using w'(1,3) x by (intro exI [of _ "vt_modules s |` (- set gone)"] exI [of _ w']) (simp add: create_module_def)
qed

lemma set_module_safe:
  assumes lib: "lib_vt_ok K L M D" and inv: "vt_inv M D v s"
  shows "safe_result M D v s (Some (v, snd (SetModule K L pr False name module s)))"
proof -
  have finish: "safe_result M D v s (Some (v, u))"
    if "u = s\<lparr>vt_modules := ms, vt_world := w\<rparr>" "D w = dom ms" "\<forall>a m. ms a = Some m \<longrightarrow> md_Connect m \<noteq> None" "owned (block_addr (s\<lparr>vt_modules := ms\<rparr>)) (M w)" for u ms w
  proof -
    have "vt_inv M D v u" using that inv unfolding vt_inv_def by (elim conjE) (intro conjI; simp)
    moreover have "same_objects v v s u" using that(1) by (simp add: same_objects_def find_vtable_def find_cursor_def)
    ultimately show ?thesis by (simp add: safe_result_def)
  qed
  have mods: "\<forall>a m. vt_modules s a = Some m \<longrightarrow> md_Connect m \<noteq> None" and o: "owned (block_addr s) (M (vt_world s))" and d: "D (vt_world s) = dom (vt_modules s)"
    using inv by (simp_all add: vt_inv_def)
  obtain err w where c: "x_cstring L name (vt_world s) = (err, w)" by (metis prod.collapse)
  note g = lib_vt_okD(7) [OF lib c]
  have same: "safe_result M D v s (Some (v, s\<lparr>vt_world := w'\<rparr>))" if "mem_grows M D (vt_world s) w'" for w'
    using vt_quiet_inv [OF vt_quiet_world [OF that] inv] vt_quiet_objects [OF vt_quiet_world [OF that]] by (simp add: safe_result_def)
  let ?s = "s\<lparr>vt_world := w\<rparr>"
  consider "err \<noteq> None" | "err = None" "module = None" | m where "err = None" "module = Some m" by blast
  then show ?thesis
  proof cases
    case 1
    then show ?thesis using same [OF g] c by (auto simp: SetModule_def Let_def split: option.splits)
  next
    case 2
    have "owned (block_addr ?s) (M (vt_world ?s))" "dom (vt_modules ?s) = D (vt_world ?s) \<union> fst ` set_option None"
      using owned_mono [OF o map_le_refl] g d by (simp_all add: mem_grows_def)
    from create_module_safe [OF lib _ this, of pr name] mods obtain ms w' where
      "snd (create_module K L pr name None ?s) = ?s\<lparr>vt_modules := ms, vt_world := w'\<rparr>" "D w' = dom ms" "\<forall>a m. ms a = Some m \<longrightarrow> md_Connect m \<noteq> None"
      "owned (block_addr (?s\<lparr>vt_modules := ms\<rparr>)) (M w')" by auto
    moreover have "block_addr (?s\<lparr>vt_modules := ms\<rparr>) = block_addr (s\<lparr>vt_modules := ms\<rparr>)" by (rule block_addr_cong) simp_all
    ultimately show ?thesis using finish [where u = "snd (create_module K L pr name None ?s)" and ms = ms and w = w'] 2 c by (cases s) (simp add: SetModule_def Let_def)
  next
    case 3
    obtain a w2 where a: "x_sqlite_malloc L (sizeof L ''sqlite3_module'') w = (a, w2)" by (metis prod.collapse)
    note g2 = mem_grows_trans [OF g lib_vt_okD(3) [OF lib a]]
    show ?thesis
    proof (cases "md_Connect m = None \<or> a = 0")
      case True
      then show ?thesis using same [OF g] same [OF g2] 3 c a by (auto simp: SetModule_def Let_def)
    next
      case False
      have fr: "a \<notin> M (vt_world s)" "a \<in> M w2" using lib_vt_okD(4) [OF lib a] False g by (auto simp: mem_grows_def)
      let ?t = "s\<lparr>vt_world := w2, vt_modules := (vt_modules s)(a \<mapsto> m)\<rparr>"
      have b: "block_addr ?t = (block_addr s)(B_module a \<mapsto> a)"
      proof
        show "block_addr ?t b = ((block_addr s)(B_module a \<mapsto> a)) b" for b by (cases b) auto
      qed
      have "owned ((block_addr s)(B_module a \<mapsto> a)) (insert a (M (vt_world s)))" by (rule owned_add [OF o _ fr(1)]) (simp add: fresh_address(3) [OF o fr(1)])
      then have own: "owned (block_addr ?t) (M (vt_world ?t))" unfolding b by (rule owned_mono) (use fr g2 in \<open>auto simp: mem_grows_def\<close>)
      have md: "\<forall>a m. vt_modules ?t a = Some m \<longrightarrow> md_Connect m \<noteq> None" using mods False by auto
      have dt: "dom (vt_modules ?t) = D (vt_world ?t) \<union> fst ` set_option (Some (a, xCreate m))" using d g2 by (simp add: mem_grows_def)
      obtain ms w' where r: "snd (create_module K L pr name (Some (a, xCreate m)) ?t) = ?t\<lparr>vt_modules := ms, vt_world := w'\<rparr>" "D w' = dom ms"
        "\<forall>a m. ms a = Some m \<longrightarrow> md_Connect m \<noteq> None" "owned (block_addr (?t\<lparr>vt_modules := ms\<rparr>)) (M w')"
        using create_module_safe [OF lib md own dt, of pr name] by auto
      have "block_addr (?t\<lparr>vt_modules := ms\<rparr>) = block_addr (s\<lparr>vt_modules := ms\<rparr>)" by (rule block_addr_cong) simp_all
      moreover have "?t\<lparr>vt_modules := ms, vt_world := w'\<rparr> = s\<lparr>vt_modules := ms, vt_world := w'\<rparr>" by (cases s) simp
      moreover have "snd (SetModule K L pr False name module s) = snd (create_module K L pr name (Some (a, xCreate m)) ?t)" using 3 c a False by (auto simp: SetModule_def Let_def)
      ultimately show ?thesis using finish [where ms = ms and w = w'] r by simp
    qed
  qed
qed

section \<open>All orders of calls\<close>

lemma event_safe:
  assumes lib: "lib_vt_ok K L M D" and go: "go_vt_ok K G M D" and inv: "vt_inv M D v s" and "v_allows v s e"
  shows "safe_result M D v s (v_event K L pr G tls e v s)"
proof -
  note tab = fine_safe [OF inv table_calls_fine(1) [OF lib go inv]] and cur = fine_safe [OF inv cursor_calls_fine(1) [OF lib go inv]]
  have mods: "\<forall>a m. vt_modules s a = Some m \<longrightarrow> md_Connect m \<noteq> None" using inv by (simp add: vt_inv_def)
  have disc: "safe_result M D v s (v_event K L pr G tls (E_Disconnect p) v s)" if "p \<in> v_tables v" "p \<notin> ran (v_cursors v)" for p
    using end_table_safe [OF lib go inv that, of M_Disconnect] by (auto simp: safe_result_def vtabDisconnect_def)
  have dest: "safe_result M D v s (v_event K L pr G tls (E_Destroy p) v s)" if "p \<in> v_tables v" "p \<notin> ran (v_cursors v)" for p
    using end_table_safe [OF lib go inv that, of M_Destroy] by (auto simp: safe_result_def vtabDestroy_def)
  show ?thesis
  proof (cases e)
    case (E_SetModule name m)
    then show ?thesis using set_module_safe [OF lib inv] by simp
  next
    case (E_Create a argv)
    then obtain m where m: "vt_modules s a = Some m" "md_Create m \<noteq> None" using assms(4) by (auto simp: xCreate_def split: if_splits)
    then show ?thesis using E_Create connect_safe [OF lib go inv m(2)] by (simp add: vtabCreateTrampoline_def)
  next
    case (E_Connect a argv)
    then obtain m where m: "vt_modules s a = Some m" using assms(4) by auto
    then have "md_Connect m \<noteq> None" using mods by blast
    from connect_safe [OF lib go inv this] show ?thesis using E_Connect m by (simp add: vtabConnectTrampoline_def)
  next
    case (E_Disconnect p)
    then show ?thesis using assms(4) disc by simp
  next
    case (E_Destroy p)
    then show ?thesis using assms(4) dest by simp
  next
    case (E_BestIndex p info)
    then show ?thesis using assms(4) fine_safe [OF inv best_index_fine [OF lib go inv]] by simp
  next
    case (E_Update p argv)
    then show ?thesis using assms(4) fine_safe [OF inv update_fine [OF lib go inv]] by simp
  next
    case (E_Rename p new)
    then show ?thesis using assms(4) fine_safe [OF inv table_calls_fine(2) [OF lib go inv]] by simp
  next
    case (E_Open p)
    then show ?thesis using assms(4) open_safe [OF lib go inv] by simp
  next
    case (E_Close c)
    then show ?thesis using assms(4) close_safe [OF lib go inv] by simp
  next
    case (E_EOF c)
    then show ?thesis using assms(4) fine_safe [OF inv cursor_calls_fine(2) [OF lib go inv]] by simp
  next
    case (E_RowID c)
    then show ?thesis using assms(4) fine_safe [OF inv cursor_calls_fine(3) [OF lib go inv]] by simp
  next
    case (E_Column c ptr n)
    then show ?thesis using assms(4) fine_safe [OF inv column_fine [OF lib go inv]] by simp
  next
    case (E_Import p)
    then show ?thesis using assms(4) import_safe [OF lib inv] by simp
  qed (use assms(4) tab cur in \<open>simp_all add: vtabBeginTrampoline_def vtabSyncTrampoline_def vtabCommitTrampoline_def vtabRollbackTrampoline_def
      vtabSavepointTrampoline_def vtabReleaseTrampoline_def vtabRollbackToTrampoline_def vtabFilterTrampoline_def vtabNextTrampoline_def\<close>)
qed

text \<open>The states that SQLite's calls reach, from the start of the program.\<close>

definition vt_start :: "'w \<Rightarrow> 'w vt_state" where
  "vt_start w = \<lparr>vt_modules = Map.empty, vt_tables = handles_init, vt_cursors = handles_init, vt_vtabs = Map.empty, vt_curs = Map.empty, vt_world = w\<rparr>"

inductive vt_reachable :: "lib_consts \<Rightarrow> ('w, 'm) vt_lib_scheme \<Rightarrow> (nat \<Rightarrow> bool) \<Rightarrow> 'w vt_code \<Rightarrow> nat \<Rightarrow> ('w \<Rightarrow> nat set) \<Rightarrow> vt_view \<Rightarrow> 'w vt_state \<Rightarrow> bool"
  for K :: lib_consts and L :: "('w, 'm) vt_lib_scheme" and pr :: "nat \<Rightarrow> bool" and G :: "'w vt_code" and tls :: nat and D :: "'w \<Rightarrow> nat set" where
  start: "D w = {} \<Longrightarrow> vt_reachable K L pr G tls D \<lparr>v_tables = {}, v_cursors = Map.empty\<rparr> (vt_start w)"
| event: "vt_reachable K L pr G tls D v s \<Longrightarrow> v_allows v s e \<Longrightarrow> v_event K L pr G tls e v s = Some (v', s') \<Longrightarrow> vt_reachable K L pr G tls D v' s'"

lemma start_inv:
  assumes "D w = {}"
  shows "vt_inv M D \<lparr>v_tables = {}, v_cursors = Map.empty\<rparr> (vt_start w)"
proof -
  have "block_addr (vt_start w) b = None" for b by (cases b) (simp_all add: vt_start_def)
  then have "owned (block_addr (vt_start w)) A" for A by (simp add: owned_def)
  then show ?thesis using assms unfolding vt_inv_def by (simp add: vt_start_def linked_empty) (simp add: handles_init_def)
qed

lemma vt_reachable_inv:
  assumes "vt_reachable K L pr G tls D v s" and "lib_vt_ok K L M D" and "go_vt_ok K G M D"
  shows "vt_inv M D v s"
  using assms(1)
proof (induction rule: vt_reachable.induct)
  case (start w)
  then show ?case by (rule start_inv)
next
  case (event v s e v' s')
  from event_safe [OF assms(2,3) event.IH event.hyps(2), of pr tls] event.hyps(3) show ?case by (auto simp: safe_result_def)
qed


text \<open>A small SQLite: memory is handed out in order and never used again; the world is the last address and the modules.\<close>

definition vt_K :: lib_consts where
  "vt_K = demo_K(''SQLITE_NOMEM'' := 7)"

definition vt_demo :: "(nat \<times> nat set) vt_lib" where
  "vt_demo = fn_lib.extend (sqlite_lib.extend null_lib
     \<lparr>error_text = (\<lambda>_. ''error''), x_user_data = (\<lambda>p w. p), x_aggregate_context = (\<lambda>p w. (p, w)), x_result = (\<lambda>p r w. w), x_create_function = (\<lambda>name n r i w. ((0, []), w)),
       x_create_window_function = (\<lambda>name n r i w. ((0, []), w)), x_create_collation = (\<lambda>name io w. ((0, []), w)), x_get_auxdata = (\<lambda>p n w. 0), x_set_auxdata = (\<lambda>p n i w. ([], w))\<rparr>)
     \<lparr>x_sqlite_malloc = (\<lambda>n w. (fst w + 1, (fst w + 1, snd w))), x_sqlite_free = (\<lambda>a w. w), x_declare_vtab = (\<lambda>q w. (0, w)), x_vtab_config = (\<lambda>op b w. w), x_vtab_nochange = (\<lambda>p w. False),
       x_create_module = (\<lambda>name cm w. ((0, []), (fst w, snd w \<union> fst ` set_option cm))), type_name = (\<lambda>_. ''T''), sizeof = (\<lambda>_. 64)\<rparr>"

lemma vt_demo_sel [simp]:
  "error_text vt_demo e = ''error''" "x_result vt_demo p sr w = w" "x_sqlite_malloc vt_demo n w = (fst w + 1, (fst w + 1, snd w))" "x_sqlite_free vt_demo a w = w"
  "x_declare_vtab vt_demo q w = (0, w)" "x_vtab_config vt_demo op b w = w" "x_create_module vt_demo name cm w = ((0, []), (fst w, snd w \<union> fst ` set_option cm))"
  "x_cstring vt_demo q w = (None, w)" "x_malloc vt_demo sz w = (True, w)"
  by (simp_all add: vt_demo_def fn_lib.defs sqlite_lib.defs null_lib_def)

lemma vt_K_consts [simp]: "ResultOK vt_K = 0" "vt_K ''SQLITE_OK'' = 0" "vt_K ''SQLITE_NOMEM'' = 7" "IsSuccess vt_K 0"
  by (simp_all add: vt_K_def demo_K_def result_consts IsSuccess_def)

lemma vt_demo_ok: "lib_vt_ok vt_K vt_demo (\<lambda>w. {1..fst w}) snd"
  unfolding lib_vt_ok_def by (auto simp: mem_grows_def wrap32_def)

text \<open>Tables that do nothing.\<close>

definition vt_demo_code :: "(nat \<times> nat set) vt_code" where
  "vt_demo_code = \<lparr>k_implements = (\<lambda>x i. False),
     k_connect = (\<lambda>f opts s. Some ((Some f, Some \<lparr>vc_Declaration = ''CREATE TABLE x(a)'', vc_ConstraintSupport = False, vc_AllowIndirect = True\<rparr>, None), s)),
     k_call = (\<lambda>m x s. Some (None, s)), k_BestIndex = (\<lambda>x ins s. Some ((None, Some (ErrorString ''none'')), s)), k_Open = (\<lambda>x s. Some ((Some x, None), s)), k_Update = (\<lambda>x ps s. Some ((0, None), s)),
     k_EOF = (\<lambda>x s. Some (True, s)), k_Column = (\<lambda>x n b s. Some ((zero_Value, None), s)), k_RowID = (\<lambda>x s. Some ((0, None), s))\<rparr>"

lemma vt_calm_same: "Q x \<Longrightarrow> vt_calm M D Q s (Some (x, s))"
  unfolding vt_calm_def by (intro exI [of _ x] exI [of _ "vt_world s"]) (simp add: mem_grows_refl)

lemma vt_demo_code_ok: "go_vt_ok vt_K vt_demo_code M D"
  unfolding go_vt_ok_def by (intro conjI allI) (simp_all add: vt_calm_same vt_demo_code_def has_code_def proper_value_def zero_Value_def)

text \<open>A module is registered, a table connected and a cursor opened on it.\<close>

definition vt_demo_module :: Module where
  "vt_demo_module = \<lparr>md_Connect = Some 5, md_Create = None, md_UseConnectAsCreate = True\<rparr>"


text \<open>If \<open>Destroy\<close> fails, SQLite keeps a table whose memory is gone, and its next call on it is a use after free.\<close>

lemma failed_Destroy_dangles:
  assumes "\<And>m x t. \<exists>err w. k_call G m x t = Some (err, t\<lparr>vt_world := w\<rparr>) \<and> wrap32 (ErrCode K err) \<noteq> ResultOK K"
    and "vt_inv M D v s" and "p \<in> v_tables v"
  shows "\<exists>s'. v_event K L pr G tls (E_Destroy p) v s = Some (v, s') \<and> v_event K L pr G tls (E_Disconnect p) v s' = None"
proof -
  obtain avt x where a: "find_vtable p s = Some avt" "av_VTable avt = Some x" "vt_vtabs s p \<noteq> None" using find_vtable_live [OF assms(2,3)] by blast
  then obtain vw where vw: "vt_vtabs s p = Some vw" by blast
  have "linked (\<lambda>p. map_option vw_id (vt_vtabs s p)) (vt_tables s)" using assms(2) by (simp add: vt_inv_def)
  then obtain r where r: "reg_del idGen_reclaim (vw_id vw) (vt_tables s) = Some r" using linked_del [where p = p and i = "vw_id vw"] vw by fastforce
  let ?s = "s\<lparr>vt_vtabs := (vt_vtabs s)(p := None), vt_tables := r, vt_world := x_sqlite_free L p (vt_world s)\<rparr>"
  obtain err w where c: "k_call G M_Destroy x ?s = Some (err, ?s\<lparr>vt_world := w\<rparr>)" "wrap32 (ErrCode K err) \<noteq> ResultOK K" using assms(1) by blast
  have "v_event K L pr G tls (E_Destroy p) v s = Some (v, ?s\<lparr>vt_world := w\<rparr>)" using vw a r c by (simp add: vtabDestroy_def end_vtable_def)
  moreover have "v_event K L pr G tls (E_Disconnect p) v (?s\<lparr>vt_world := w\<rparr>) = None" by (simp add: vtabDisconnect_def end_vtable_def)
  ultimately show ?thesis by blast
qed

end
