(* ===== verification/Session.thy ===== *)
theory Session
  imports Funcs Savepoint
begin

text \<open>
  Sessions and changesets (session.go).  Changesets are read and written through streams: while a call of SQLite runs, it calls back into Go with the ID of a reader, a writer or a pair of
  functions that was filed for the time of the call.

  A call of SQLite that calls back is a tree (\<open>strm\<close>): a result, or one callback and how the call goes on for each of its answers.  That the tree is well-founded says that such a call
  comes to an end.  Readers, writers and functions are references, what they do is the parameter \<open>sn_code\<close>.  \<open>None\<close> is a panic.
\<close>

section \<open>State and parameters\<close>

text \<open>The callbacks carry the state of SQLite before them, and go on from the state after them.  A result may come with a pointer.\<close>

datatype 'w strm =
    S_Return int nat 'w
  | S_Input nat nat 'w "int \<times> gostring \<times> 'w \<Rightarrow> 'w strm"
  | S_Output nat gostring 'w "int \<times> 'w \<Rightarrow> 'w strm"
  | S_Filter nat gostring 'w "int \<times> 'w \<Rightarrow> 'w strm"
  | S_Conflict nat int nat 'w "int \<times> 'w \<Rightarrow> 'w strm"

record applyFuncs =
  af_filterFn :: "nat option"
  af_conflictFn :: nat

text \<open>A writer is one of the caller's, or one that counts what it passes on.\<close>

datatype sn_writer = Writer "nat option" | writeCounter nat "nat option"

record 'w sn_state =
  sn_readers :: "nat option handles"
  sn_writers :: "sn_writer handles"
  sn_applies :: "applyFuncs handles"
  sn_counts :: "int list"
  sn_world :: 'w

record 'w sn_code =
  n_Read :: "nat \<Rightarrow> nat \<Rightarrow> 'w sn_state \<Rightarrow> ((gostring \<times> error) \<times> 'w sn_state) option"
  n_Write :: "nat \<Rightarrow> gostring \<Rightarrow> 'w sn_state \<Rightarrow> ((int \<times> error) \<times> 'w sn_state) option"
  n_filter :: "nat \<Rightarrow> gostring \<Rightarrow> 'w sn_state \<Rightarrow> (bool \<times> 'w sn_state) option"
  n_conflict :: "nat \<Rightarrow> int \<Rightarrow> nat \<Rightarrow> 'w sn_state \<Rightarrow> (int \<times> 'w sn_state) option"

record 'w sn_lib = "'w fn_lib" +
  x_session_create :: "gostring \<Rightarrow> 'w \<Rightarrow> (int \<times> nat) \<times> 'w"
  x_session_delete :: "nat \<Rightarrow> 'w \<Rightarrow> 'w"
  x_session_enable :: "nat \<Rightarrow> int \<Rightarrow> 'w \<Rightarrow> 'w"
  x_session_attach :: "nat \<Rightarrow> gostring option \<Rightarrow> 'w \<Rightarrow> int \<times> 'w"
  x_session_diff :: "nat \<Rightarrow> gostring \<Rightarrow> gostring \<Rightarrow> 'w \<Rightarrow> (int \<times> gostring option) \<times> 'w"
  x_session_changeset_strm :: "nat \<Rightarrow> nat \<Rightarrow> 'w \<Rightarrow> 'w strm"
  x_session_patchset_strm :: "nat \<Rightarrow> nat \<Rightarrow> 'w \<Rightarrow> 'w strm"
  x_changeset_apply_strm :: "nat \<Rightarrow> bool \<Rightarrow> nat \<Rightarrow> 'w \<Rightarrow> 'w strm"
  x_changeset_invert_strm :: "nat \<Rightarrow> nat \<Rightarrow> 'w \<Rightarrow> 'w strm"
  x_changeset_concat_strm :: "nat \<Rightarrow> nat \<Rightarrow> nat \<Rightarrow> 'w \<Rightarrow> 'w strm"
  x_changeset_start_strm :: "nat \<Rightarrow> 'w \<Rightarrow> 'w strm"
  x_changeset_next :: "nat \<Rightarrow> 'w \<Rightarrow> 'w strm"
  x_changeset_finalize :: "nat \<Rightarrow> 'w \<Rightarrow> int \<times> 'w"
  x_changeset_op :: "nat \<Rightarrow> 'w \<Rightarrow> (int \<times> gostring \<times> int \<times> int \<times> int) \<times> 'w"
  x_changeset_old :: "nat \<Rightarrow> int \<Rightarrow> 'w \<Rightarrow> (int \<times> nat) \<times> 'w"
  x_changeset_new :: "nat \<Rightarrow> int \<Rightarrow> 'w \<Rightarrow> (int \<times> nat) \<times> 'w"
  x_changeset_conflict :: "nat \<Rightarrow> int \<Rightarrow> 'w \<Rightarrow> (int \<times> nat) \<times> 'w"
  x_changeset_fk_conflicts :: "nat \<Rightarrow> 'w \<Rightarrow> (int \<times> int) \<times> 'w"
  x_changeset_pk :: "nat \<Rightarrow> 'w \<Rightarrow> (int \<times> gostring) \<times> 'w"
  x_changegroup_new :: "'w \<Rightarrow> (int \<times> nat) \<times> 'w"
  x_changegroup_delete :: "nat \<Rightarrow> 'w \<Rightarrow> 'w"
  x_changegroup_add_strm :: "nat \<Rightarrow> nat \<Rightarrow> 'w \<Rightarrow> 'w strm"
  x_changegroup_output_strm :: "nat \<Rightarrow> nat \<Rightarrow> 'w \<Rightarrow> 'w strm"

section \<open>Callbacks\<close>

text \<open>A reader that gives nothing and no end of file is an error, as is a reader that is gone or nil.\<close>

definition sessionStreamInput :: "lib_consts \<Rightarrow> 'w sn_code \<Rightarrow> nat \<Rightarrow> nat \<Rightarrow> 'w sn_state \<Rightarrow> ((int \<times> gostring) \<times> 'w sn_state) option" where
  "sessionStreamInput K G pIn n s = (case Option.bind (reg_m (sn_readers s) pIn) (\<lambda>r. r) of
     None \<Rightarrow> Some ((K ''SQLITE_MISUSE'', ''''), s)
   | Some r \<Rightarrow> do {
       ((data, err), s) \<leftarrow> n_Read G r n s;
       Some ((if length data = 0 \<and> err \<noteq> Some io_EOF then K ''SQLITE_IOERR_READ'' else K ''SQLITE_OK'', data), s)
     })"

definition writeCounter_Write :: "'w sn_code \<Rightarrow> nat \<Rightarrow> nat \<Rightarrow> gostring \<Rightarrow> 'w sn_state \<Rightarrow> ((int \<times> error) \<times> 'w sn_state) option" where
  "writeCounter_Write G cell w p s = do {
     ((n, err), s) \<leftarrow> n_Write G w p s;
     Some ((n, err), s\<lparr>sn_counts := (sn_counts s)[cell := wrap64 (sn_counts s ! cell + n)]\<rparr>)
   }"

definition sn_Write :: "'w sn_code \<Rightarrow> sn_writer \<Rightarrow> gostring \<Rightarrow> 'w sn_state \<Rightarrow> ((int \<times> error) \<times> 'w sn_state) option" where
  "sn_Write G w p s = (case w of
     Writer w \<Rightarrow> do { w \<leftarrow> w; n_Write G w p s }
   | writeCounter cell w \<Rightarrow> do { w \<leftarrow> w; writeCounter_Write G cell w p s })"

definition sessionStreamOutput :: "lib_consts \<Rightarrow> 'w sn_code \<Rightarrow> nat \<Rightarrow> gostring \<Rightarrow> 'w sn_state \<Rightarrow> (int \<times> 'w sn_state) option" where
  "sessionStreamOutput K G pOut data s = (case reg_m (sn_writers s) pOut of
     None \<Rightarrow> Some (K ''SQLITE_MISUSE'', s)
   | Some (Writer None) \<Rightarrow> Some (K ''SQLITE_MISUSE'', s)
   | Some w \<Rightarrow> do {
       ((_, err), s) \<leftarrow> sn_Write G w data s;
       Some (if err \<noteq> None then K ''SQLITE_IOERR_WRITE'' else K ''SQLITE_OK'', s)
     })"

text \<open>Functions that are gone are a failed type assertion.\<close>

definition changesetApplyFilter :: "'w sn_code \<Rightarrow> nat \<Rightarrow> gostring \<Rightarrow> 'w sn_state \<Rightarrow> (int \<times> 'w sn_state) option" where
  "changesetApplyFilter G pCtx zTab s = do {
     funcs \<leftarrow> reg_m (sn_applies s) pCtx;
     f \<leftarrow> af_filterFn funcs;
     (ok, s) \<leftarrow> n_filter G f zTab s;
     Some (if ok then 1 else 0, s)
   }"

definition changesetApplyConflict :: "'w sn_code \<Rightarrow> nat \<Rightarrow> int \<Rightarrow> nat \<Rightarrow> 'w sn_state \<Rightarrow> (int \<times> 'w sn_state) option" where
  "changesetApplyConflict G pCtx eConflict p s = do {
     funcs \<leftarrow> reg_m (sn_applies s) pCtx;
     n_conflict G (af_conflictFn funcs) eConflict p s
   }"

primrec run_strm :: "lib_consts \<Rightarrow> 'w sn_code \<Rightarrow> 'w strm \<Rightarrow> 'w sn_state \<Rightarrow> ((int \<times> nat) \<times> 'w sn_state) option" where
  "run_strm K G (S_Return code p w) s = Some ((code, p), s\<lparr>sn_world := w\<rparr>)"
| "run_strm K G (S_Input pIn n w k) s = do {
     ((code, data), s) \<leftarrow> sessionStreamInput K G pIn n (s\<lparr>sn_world := w\<rparr>);
     run_strm K G (k (code, data, sn_world s)) s
   }"
| "run_strm K G (S_Output pOut data w k) s = do {
     (code, s) \<leftarrow> sessionStreamOutput K G pOut data (s\<lparr>sn_world := w\<rparr>);
     run_strm K G (k (code, sn_world s)) s
   }"
| "run_strm K G (S_Filter pCtx zTab w k) s = do {
     (code, s) \<leftarrow> changesetApplyFilter G pCtx zTab (s\<lparr>sn_world := w\<rparr>);
     run_strm K G (k (code, sn_world s)) s
   }"
| "run_strm K G (S_Conflict pCtx e p w k) s = do {
     (code, s) \<leftarrow> changesetApplyConflict G pCtx e p (s\<lparr>sn_world := w\<rparr>);
     run_strm K G (k (code, sn_world s)) s
   }"

text \<open>A reader, a writer or functions are filed while \<open>body\<close> runs; the deferred calls remove them.\<close>

definition with_reader :: "nat option \<Rightarrow> (nat \<Rightarrow> 'w sn_state \<Rightarrow> ('r \<times> 'w sn_state) option) \<Rightarrow> 'w sn_state \<Rightarrow> ('r \<times> 'w sn_state) option" where
  "with_reader r body s = (case registerStreamReader r (sn_readers s) of (pIn, rs) \<Rightarrow> do {
     (x, s) \<leftarrow> body pIn (s\<lparr>sn_readers := rs\<rparr>);
     rs \<leftarrow> unregisterStreamReader pIn (sn_readers s);
     Some (x, s\<lparr>sn_readers := rs\<rparr>)
   })"

definition with_writer :: "sn_writer \<Rightarrow> (nat \<Rightarrow> 'w sn_state \<Rightarrow> ('r \<times> 'w sn_state) option) \<Rightarrow> 'w sn_state \<Rightarrow> ('r \<times> 'w sn_state) option" where
  "with_writer w body s = (case registerStreamWriter w (sn_writers s) of (pOut, ws) \<Rightarrow> do {
     (x, s) \<leftarrow> body pOut (s\<lparr>sn_writers := ws\<rparr>);
     ws \<leftarrow> unregisterStreamWriter pOut (sn_writers s);
     Some (x, s\<lparr>sn_writers := ws\<rparr>)
   })"

definition with_applies :: "applyFuncs \<Rightarrow> (nat \<Rightarrow> 'w sn_state \<Rightarrow> ('r \<times> 'w sn_state) option) \<Rightarrow> 'w sn_state \<Rightarrow> ('r \<times> 'w sn_state) option" where
  "with_applies f body s = (case reg_add idGen_next f (sn_applies s) of (pCtx, fs) \<Rightarrow> do {
     (x, s) \<leftarrow> body pCtx (s\<lparr>sn_applies := fs\<rparr>);
     fs \<leftarrow> reg_del idGen_reclaim pCtx (sn_applies s);
     Some (x, s\<lparr>sn_applies := fs\<rparr>)
   })"

text \<open>A call of SQLite, and its result as an error.\<close>

definition strm_call :: "lib_consts \<Rightarrow> 'w sn_code \<Rightarrow> gostring \<Rightarrow> ('w \<Rightarrow> 'w strm) \<Rightarrow> 'w sn_state \<Rightarrow> (error \<times> 'w sn_state) option" where
  "strm_call K G what call s = do {
     ((res, _), s) \<leftarrow> run_strm K G (call (sn_world s)) s;
     Some (wrap_error (''sqlite: '' @ what @ '': %w'') (ToError K res), s)
   }"

section \<open>Sessions\<close>

text \<open>A deleted session has pointer 0.\<close>

record Session =
  ss_ptr :: nat

definition sn_call :: "('w \<Rightarrow> 'r \<times> 'w) \<Rightarrow> 'w sn_state \<Rightarrow> 'r \<times> 'w sn_state" where
  "sn_call f s = (case f (sn_world s) of (r, w) \<Rightarrow> (r, s\<lparr>sn_world := w\<rparr>))"

definition CreateSession :: "lib_consts \<Rightarrow> ('w, 'm) sn_lib_scheme \<Rightarrow> bool \<Rightarrow> gostring \<Rightarrow> 'w sn_state \<Rightarrow> (Session option \<times> error) \<times> 'w sn_state" where
  "CreateSession K L nilConn db s =
     (if nilConn then ((None, Some (ErrorString ''sqlite: create session: nil connection'')), s)
      else case (if db = '''' \<or> db = ''main'' then (None, s) else sn_call (x_cstring L db) s) of (err, s) \<Rightarrow>
        if err \<noteq> None then ((None, wrap_error ''sqlite: create session: %w'' err), s)
        else case sn_call (malloc L 8) s of (err, s) \<Rightarrow>
          if err \<noteq> None then ((None, wrap_error ''sqlite: create session: %w'' err), s)
          else case sn_call (x_session_create L (if db = '''' then ''main'' else db)) s of ((res, p), s) \<Rightarrow>
            (case ToError K res of
               None \<Rightarrow> ((Some \<lparr>ss_ptr = p\<rparr>, None), s)
             | Some e \<Rightarrow> ((None, Some (Errorf ''sqlite: create session: %w'' e)), s)))"

definition Session_Delete :: "('w, 'm) sn_lib_scheme \<Rightarrow> Session \<Rightarrow> 'w sn_state \<Rightarrow> (Session \<times> 'w sn_state) option" where
  "Session_Delete L ss s = (if ss_ptr ss = 0 then None else Some (\<lparr>ss_ptr = 0\<rparr>, s\<lparr>sn_world := x_session_delete L (ss_ptr ss) (sn_world s)\<rparr>))"

definition Session_Enable :: "('w, 'm) sn_lib_scheme \<Rightarrow> Session \<Rightarrow> 'w sn_state \<Rightarrow> 'w sn_state option" where
  "Session_Enable L ss s = (if ss_ptr ss = 0 then None else Some (s\<lparr>sn_world := x_session_enable L (ss_ptr ss) 1 (sn_world s)\<rparr>))"

definition Session_Disable :: "('w, 'm) sn_lib_scheme \<Rightarrow> Session \<Rightarrow> 'w sn_state \<Rightarrow> 'w sn_state option" where
  "Session_Disable L ss s = (if ss_ptr ss = 0 then None else Some (s\<lparr>sn_world := x_session_enable L (ss_ptr ss) 0 (sn_world s)\<rparr>))"

definition Session_Attach :: "lib_consts \<Rightarrow> ('w, 'm) sn_lib_scheme \<Rightarrow> (nat \<Rightarrow> bool) \<Rightarrow> Session \<Rightarrow> gostring \<Rightarrow> 'w sn_state \<Rightarrow> error \<times> 'w sn_state" where
  "Session_Attach K L isPrint ss tableName s =
     (let pre = ''sqlite: attach table '' @ Quote isPrint tableName @ '' to session: '' in
      if ss_ptr ss = 0 then (Some (ErrorString (pre @ ''session deleted'')), s)
      else case (if tableName = '''' then (None, s) else sn_call (x_cstring L tableName) s) of (err, s) \<Rightarrow>
        (case err of
           Some e \<Rightarrow> (Some (ErrorString (pre @ error_text L e)), s)
         | None \<Rightarrow>
             (case sn_call (x_session_attach L (ss_ptr ss) (if tableName = '''' then None else Some tableName)) s of (res, s) \<Rightarrow>
                (wrap_error (pre @ ''%w'') (ToError K res), s))))"

definition Session_Diff :: "lib_consts \<Rightarrow> ('w, 'm) sn_lib_scheme \<Rightarrow> (nat \<Rightarrow> bool) \<Rightarrow> Session \<Rightarrow> gostring \<Rightarrow> gostring \<Rightarrow> 'w sn_state \<Rightarrow> error \<times> 'w sn_state" where
  "Session_Diff K L isPrint ss srcDB tableName s =
     (let pre = ''sqlite: diff table '' @ Quote isPrint tableName @ '': ''; fail = (\<lambda>e s. (Some (ErrorString (pre @ error_text L e)), s)) in
      if ss_ptr ss = 0 then (Some (ErrorString (pre @ ''session deleted'')), s)
      else case sn_call (malloc L 8) s of (err, s) \<Rightarrow> (case err of Some e \<Rightarrow> fail e s | None \<Rightarrow>
        (case sn_call (x_cstring L srcDB) s of (err, s) \<Rightarrow> (case err of Some e \<Rightarrow> fail e s | None \<Rightarrow>
          (case sn_call (x_cstring L tableName) s of (err, s) \<Rightarrow> (case err of Some e \<Rightarrow> fail e s | None \<Rightarrow>
            (case sn_call (x_session_diff L (ss_ptr ss) srcDB tableName) s of ((res, msg), s) \<Rightarrow>
              (wrap_error (case msg of None \<Rightarrow> pre @ ''%w'' | Some m \<Rightarrow> pre @ ''%w ('' @ m @ '')'') (ToError K res), s))))))))"

definition WriteChangeset :: "lib_consts \<Rightarrow> ('w, 'm) sn_lib_scheme \<Rightarrow> 'w sn_code \<Rightarrow> Session \<Rightarrow> nat option \<Rightarrow> 'w sn_state \<Rightarrow> (error \<times> 'w sn_state) option" where
  "WriteChangeset K L G ss w s =
     (if ss_ptr ss = 0 then Some (Some (ErrorString ''sqlite: write session changeset: session deleted''), s)
      else with_writer (Writer w) (\<lambda>pOut. strm_call K G ''write session changeset'' (x_session_changeset_strm L (ss_ptr ss) pOut)) s)"

definition WritePatchset :: "lib_consts \<Rightarrow> ('w, 'm) sn_lib_scheme \<Rightarrow> 'w sn_code \<Rightarrow> Session \<Rightarrow> nat option \<Rightarrow> 'w sn_state \<Rightarrow> (error \<times> 'w sn_state) option" where
  "WritePatchset K L G ss w s =
     (if ss_ptr ss = 0 then Some (Some (ErrorString ''sqlite: write session patchset: session deleted''), s)
      else with_writer (Writer w) (\<lambda>pOut. strm_call K G ''write session patchset'' (x_session_patchset_strm L (ss_ptr ss) pOut)) s)"

section \<open>Changesets\<close>

definition ApplyChangeset :: "lib_consts \<Rightarrow> ('w, 'm) sn_lib_scheme \<Rightarrow> 'w sn_code \<Rightarrow> bool \<Rightarrow> nat option \<Rightarrow> nat option \<Rightarrow> nat option \<Rightarrow> 'w sn_state \<Rightarrow> (error \<times> 'w sn_state) option" where
  "ApplyChangeset K L G nilConn r filterFn conflictFn s =
     (if nilConn then Some (Some (ErrorString ''sqlite: apply changeset: nil connection''), s)
      else case conflictFn of
        None \<Rightarrow> Some (Some (ErrorString ''sqlite: apply changeset: no conflict handler provided''), s)
      | Some cf \<Rightarrow> with_reader r (\<lambda>pIn. with_applies \<lparr>af_filterFn = filterFn, af_conflictFn = cf\<rparr> (\<lambda>pCtx.
          strm_call K G ''apply changeset'' (x_changeset_apply_strm L pIn (filterFn \<noteq> None) pCtx))) s)"

definition InvertChangeset :: "lib_consts \<Rightarrow> ('w, 'm) sn_lib_scheme \<Rightarrow> 'w sn_code \<Rightarrow> nat option \<Rightarrow> nat option \<Rightarrow> 'w sn_state \<Rightarrow> (error \<times> 'w sn_state) option" where
  "InvertChangeset K L G w r s =
     with_reader r (\<lambda>pIn. with_writer (Writer w) (\<lambda>pOut. strm_call K G ''invert changeset'' (x_changeset_invert_strm L pIn pOut))) s"

definition ConcatChangesets :: "lib_consts \<Rightarrow> ('w, 'm) sn_lib_scheme \<Rightarrow> 'w sn_code \<Rightarrow> nat option \<Rightarrow> nat option \<Rightarrow> nat option \<Rightarrow> 'w sn_state \<Rightarrow> (error \<times> 'w sn_state) option" where
  "ConcatChangesets K L G w changeset1 changeset2 s =
     with_reader changeset1 (\<lambda>pIn1. with_reader changeset2 (\<lambda>pIn2. with_writer (Writer w) (\<lambda>pOut.
       strm_call K G ''concatenate changesets'' (x_changeset_concat_strm L pIn1 pIn2 pOut)))) s"

text \<open>\<open>ApplyInverseChangeset\<close> runs \<open>InvertChangeset(pw, pr)\<close> in a goroutine and \<open>ApplyChangeset(pr, ...)\<close> itself, where \<open>pr\<close> and \<open>pw\<close> are the ends of one pipe.
  A write waits for reads that take its bytes, and a read for a write; only the first call writes.  When it returns, the pipe is closed; when the second returns, the rest is read and discarded.
  The state is what is left of the two calls.\<close>

inductive pipe_step :: "lib_consts \<Rightarrow> 'w strm \<times> 'w strm \<Rightarrow> 'w strm \<times> 'w strm \<Rightarrow> bool" for K :: lib_consts where
  copied: "data \<noteq> [] \<Longrightarrow> 0 < n \<Longrightarrow>
    pipe_step K (S_Output pOut data w k, S_Input pIn n w' k') (if length data \<le> n then k (K ''SQLITE_OK'', w) else S_Output pOut (drop n data) w k, k' (K ''SQLITE_OK'', take n data, w'))"
| finished: "pipe_step K (S_Return code p w, S_Input pIn n w' k')
    (S_Return code p w, k' (if ToError K code = None then K ''SQLITE_OK'' else K ''SQLITE_IOERR_READ'', [], w'))"
| filtered: "pipe_step K (i, S_Filter pCtx zTab w k) (i, k (code, w'))"
| resolved: "pipe_step K (i, S_Conflict pCtx e p w k) (i, k (code, w'))"
| drained: "pipe_step K (S_Output pOut data w k, S_Return code p w') (k (K ''SQLITE_OK'', w), S_Return code p w')"

definition ApplyInverseChangeset :: "('w, 'm) sn_lib_scheme \<Rightarrow> nat \<times> nat \<times> 'w \<Rightarrow> nat \<times> bool \<times> nat \<times> 'w \<Rightarrow> 'w strm \<times> 'w strm" where
  "ApplyInverseChangeset L = (\<lambda>(pr1, pw, w1) (pr2, filter, pCtx, w2). (x_changeset_invert_strm L pr1 pw w1, x_changeset_apply_strm L pr2 filter pCtx w2))"

text \<open>Iterators: 0 as the pointer is an iterator that was closed, 0 as the reader one that SQLite made for a conflict handler.\<close>

record ChangesetIterator =
  ci_ptr :: nat
  ci_ownTLS :: bool
  ci_pIn :: nat

definition NewChangesetIterator :: "lib_consts \<Rightarrow> ('w, 'm) sn_lib_scheme \<Rightarrow> 'w sn_code \<Rightarrow> nat option \<Rightarrow> 'w sn_state \<Rightarrow> ((ChangesetIterator option \<times> error) \<times> 'w sn_state) option" where
  "NewChangesetIterator K L G r s =
     (case registerStreamReader r (sn_readers s) of (pIn, rs) \<Rightarrow>
      case sn_call (malloc L 8) (s\<lparr>sn_readers := rs\<rparr>) of (err, s) \<Rightarrow>
        (case err of
           Some e \<Rightarrow> do {
             rs \<leftarrow> unregisterStreamReader pIn (sn_readers s);
             Some ((None, Some (ErrorString (''sqlite: start changeset iterator: '' @ error_text L e))), s\<lparr>sn_readers := rs\<rparr>)
           }
         | None \<Rightarrow> do {
             ((res, p), s) \<leftarrow> run_strm K G (x_changeset_start_strm L pIn (sn_world s)) s;
             (case ToError K res of
                Some e \<Rightarrow> do {
                  rs \<leftarrow> unregisterStreamReader pIn (sn_readers s);
                  Some ((None, Some (Errorf ''sqlite: start changeset iterator: %w'' e)), s\<lparr>sn_readers := rs\<rparr>)
                }
              | None \<Rightarrow> Some ((Some \<lparr>ci_ptr = p, ci_ownTLS = True, ci_pIn = pIn\<rparr>, None), s))
           }))"

definition ChangesetIterator_Close :: "lib_consts \<Rightarrow> ('w, 'm) sn_lib_scheme \<Rightarrow> ChangesetIterator \<Rightarrow> 'w sn_state \<Rightarrow> ((error \<times> ChangesetIterator) \<times> 'w sn_state) option" where
  "ChangesetIterator_Close K L iter s =
     (if ci_ptr iter = 0 then Some ((Some (ErrorString ''sqlite: finalize changeset iterator: called twice on same iterator''), iter), s)
      else case sn_call (x_changeset_finalize L (ci_ptr iter)) s of (res, s) \<Rightarrow>
        let iter' = iter\<lparr>ci_ptr := 0, ci_pIn := 0\<rparr>; err = wrap_error ''sqlite: finalize changeset iterator: %w'' (ToError K res) in
        if ci_pIn iter \<noteq> 0 then do { rs \<leftarrow> unregisterStreamReader (ci_pIn iter) (sn_readers s); Some ((err, iter'), s\<lparr>sn_readers := rs\<rparr>) }
        else Some ((err, iter'), s))"

text \<open>\<open>Next\<close> has no check for a closed iterator: SQLite follows the pointer 0.\<close>

definition ChangesetIterator_Next :: "lib_consts \<Rightarrow> ('w, 'm) sn_lib_scheme \<Rightarrow> 'w sn_code \<Rightarrow> ChangesetIterator \<Rightarrow> 'w sn_state \<Rightarrow> ((bool \<times> error) \<times> 'w sn_state) option" where
  "ChangesetIterator_Next K L G iter s =
     (if ci_ptr iter = 0 then None
      else do {
        ((res, _), s) \<leftarrow> run_strm K G (x_changeset_next L (ci_ptr iter) (sn_world s)) s;
        Some (if res = ResultRow K then (True, None) else if res = ResultDone K then (False, None)
              else (False, errorf_w ''sqlite: iterate changeset: %w'' (ToError K res)), s)
      })"

record ChangesetOperation =
  co_Type :: int
  co_TableName :: gostring
  co_NumColumns :: int
  co_Indirect :: bool

text \<open>The temporary cells that receive the results are allocated one after the other.\<close>

fun alloc_cells :: "('w, 'm) sn_lib_scheme \<Rightarrow> nat list \<Rightarrow> 'w sn_state \<Rightarrow> error \<times> 'w sn_state" where
  "alloc_cells L [] s = (None, s)"
| "alloc_cells L (n # ns) s = (case sn_call (malloc L n) s of (err, s) \<Rightarrow> if err \<noteq> None then (err, s) else alloc_cells L ns s)"

definition ChangesetIterator_Operation :: "lib_consts \<Rightarrow> ('w, 'm) sn_lib_scheme \<Rightarrow> ChangesetIterator \<Rightarrow> 'w sn_state \<Rightarrow> (ChangesetOperation option \<times> error) \<times> 'w sn_state" where
  "ChangesetIterator_Operation K L iter s =
     (if ci_ptr iter = 0 then ((None, Some (ErrorString ''sqlite: changeset iterator operation: iterator finalized'')), s)
      else case alloc_cells L [8, 4, 4, 4] s of (err, s) \<Rightarrow> (case err of
          Some e \<Rightarrow> ((None, Some (ErrorString (''sqlite: changeset iterator operation: '' @ error_text L e))), s)
        | None \<Rightarrow> (case sn_call (x_changeset_op L (ci_ptr iter)) s of ((res, zTab, nCol, op, bIndirect), s) \<Rightarrow>
            (case ToError K res of
               Some e \<Rightarrow> ((None, Some (Errorf ''sqlite: changeset iterator operation: %w'' e)), s)
             | None \<Rightarrow> ((Some \<lparr>co_Type = op, co_TableName = zTab, co_NumColumns = nCol, co_Indirect = (bIndirect \<noteq> 0)\<rparr>, None), s)))))"

text \<open>\<open>Old\<close>, \<open>New\<close> and \<open>ConflictValue\<close> differ in the function of SQLite only; \<open>int32\<close> cuts the column.\<close>

definition iter_value :: "lib_consts \<Rightarrow> ('w, 'm) sn_lib_scheme \<Rightarrow> (nat \<Rightarrow> int \<Rightarrow> 'w \<Rightarrow> (int \<times> nat) \<times> 'w) \<Rightarrow> nat \<Rightarrow> ChangesetIterator \<Rightarrow> int \<Rightarrow> 'w sn_state \<Rightarrow>
    (Value \<times> error) \<times> 'w sn_state" where
  "iter_value K L f tls iter col s =
     (if ci_ptr iter = 0 then ((zero_Value, Some (ErrorString ''sqlite: get changeset iterator value: iterator finalized'')), s)
      else case alloc_cells L [8] s of (err, s) \<Rightarrow> (case err of
          Some e \<Rightarrow> ((zero_Value, Some (ErrorString (''sqlite: get changeset iterator value: '' @ error_text L e))), s)
        | None \<Rightarrow> (case sn_call (f (ci_ptr iter) (wrap32 col)) s of ((res, p), s) \<Rightarrow>
            (case ToError K res of
               Some e \<Rightarrow> ((zero_Value, Some (Errorf ''sqlite: get changeset iterator value: %w'' e)), s)
             | None \<Rightarrow> ((zero_Value\<lparr>v_tls := Some tls, ptrOrType := p\<rparr>, None), s)))))"

definition ChangesetIterator_Old :: "lib_consts \<Rightarrow> ('w, 'm) sn_lib_scheme \<Rightarrow> nat \<Rightarrow> ChangesetIterator \<Rightarrow> int \<Rightarrow> 'w sn_state \<Rightarrow> (Value \<times> error) \<times> 'w sn_state" where
  "ChangesetIterator_Old K L tls iter col s = iter_value K L (x_changeset_old L) tls iter col s"

definition ChangesetIterator_New :: "lib_consts \<Rightarrow> ('w, 'm) sn_lib_scheme \<Rightarrow> nat \<Rightarrow> ChangesetIterator \<Rightarrow> int \<Rightarrow> 'w sn_state \<Rightarrow> (Value \<times> error) \<times> 'w sn_state" where
  "ChangesetIterator_New K L tls iter col s = iter_value K L (x_changeset_new L) tls iter col s"

definition ChangesetIterator_ConflictValue :: "lib_consts \<Rightarrow> ('w, 'm) sn_lib_scheme \<Rightarrow> nat \<Rightarrow> ChangesetIterator \<Rightarrow> int \<Rightarrow> 'w sn_state \<Rightarrow> (Value \<times> error) \<times> 'w sn_state" where
  "ChangesetIterator_ConflictValue K L tls iter col s = iter_value K L (x_changeset_conflict L) tls iter col s"

definition ForeignKeyConflicts :: "lib_consts \<Rightarrow> ('w, 'm) sn_lib_scheme \<Rightarrow> ChangesetIterator \<Rightarrow> 'w sn_state \<Rightarrow> ((int \<times> error) \<times> 'w sn_state) option" where
  "ForeignKeyConflicts K L iter s =
     (case alloc_cells L [4] s of (err, s) \<Rightarrow> (case err of
          Some e \<Rightarrow> Some ((0, Some (ErrorString (''sqlite: get number of foreign key conflicts: '' @ error_text L e))), s)
        | None \<Rightarrow> if ci_ptr iter = 0 then None
            else case sn_call (x_changeset_fk_conflicts L (ci_ptr iter)) s of ((res, n), s) \<Rightarrow>
              Some (case ToError K res of Some e \<Rightarrow> (0, Some (Errorf ''sqlite: get number of foreign key conflicts: %w'' e)) | None \<Rightarrow> (n, None), s)))"

definition PrimaryKey :: "lib_consts \<Rightarrow> ('w, 'm) sn_lib_scheme \<Rightarrow> ChangesetIterator \<Rightarrow> 'w sn_state \<Rightarrow> ((bool list \<times> error) \<times> 'w sn_state) option" where
  "PrimaryKey K L iter s =
     (case alloc_cells L [8, 4] s of (err, s) \<Rightarrow> (case err of
          Some e \<Rightarrow> Some (([], Some (ErrorString (''sqlite: get primary key columns: '' @ error_text L e))), s)
        | None \<Rightarrow> if ci_ptr iter = 0 then None
            else case sn_call (x_changeset_pk L (ci_ptr iter)) s of ((res, c), s) \<Rightarrow>
              Some (case ToError K res of Some e \<Rightarrow> ([], Some (Errorf ''sqlite: get primary key columns: %w'' e))
                    | None \<Rightarrow> (map (\<lambda>b. b \<noteq> CHR 0x00) c, None), s)))"

section \<open>Changegroups\<close>

text \<open>The zero value is an empty changegroup; the thread state and the object of SQLite are made when they are needed.\<close>

record Changegroup =
  cg_tls :: bool
  cg_ptr :: nat

definition Changegroup_zero :: Changegroup where "Changegroup_zero = \<lparr>cg_tls = False, cg_ptr = 0\<rparr>"

definition Changegroup_init :: "lib_consts \<Rightarrow> ('w, 'm) sn_lib_scheme \<Rightarrow> Changegroup \<Rightarrow> 'w sn_state \<Rightarrow> (error \<times> Changegroup) \<times> 'w sn_state" where
  "Changegroup_init K L cg s =
     (let cg = cg\<lparr>cg_tls := True\<rparr> in
      if cg_ptr cg = 0 then
        (case sn_call (malloc L 8) s of (err, s) \<Rightarrow> (case err of
           Some e \<Rightarrow> ((Some (ErrorString (''init changegroup: '' @ error_text L e)), cg\<lparr>cg_tls := False\<rparr>), s)
         | None \<Rightarrow> (case sn_call (x_changegroup_new L) s of ((res, p), s) \<Rightarrow>
             (case ToError K res of
                Some e \<Rightarrow> ((Some (Errorf ''init changegroup: %w'' e), cg\<lparr>cg_tls := False\<rparr>), s)
              | None \<Rightarrow> ((None, cg\<lparr>cg_ptr := p\<rparr>), s)))))
      else ((None, cg), s))"

definition NewChangegroup :: "lib_consts \<Rightarrow> ('w, 'm) sn_lib_scheme \<Rightarrow> 'w sn_state \<Rightarrow> (Changegroup option \<times> error) \<times> 'w sn_state" where
  "NewChangegroup K L s = (case Changegroup_init K L Changegroup_zero s of ((err, cg), s) \<Rightarrow>
     if err \<noteq> None then ((None, wrap_error ''sqlite: %w'' err), s) else ((Some cg, None), s))"

definition Changegroup_Clear :: "('w, 'm) sn_lib_scheme \<Rightarrow> Changegroup option \<Rightarrow> 'w sn_state \<Rightarrow> Changegroup option \<times> 'w sn_state" where
  "Changegroup_Clear L cg s = (case cg of
     None \<Rightarrow> (None, s)
   | Some cg \<Rightarrow> (Some Changegroup_zero, if cg_ptr cg \<noteq> 0 then s\<lparr>sn_world := x_changegroup_delete L (cg_ptr cg) (sn_world s)\<rparr> else s))"

definition Changegroup_Add :: "lib_consts \<Rightarrow> ('w, 'm) sn_lib_scheme \<Rightarrow> 'w sn_code \<Rightarrow> Changegroup \<Rightarrow> nat option \<Rightarrow> 'w sn_state \<Rightarrow> ((error \<times> Changegroup) \<times> 'w sn_state) option" where
  "Changegroup_Add K L G cg r s =
     (case Changegroup_init K L cg s of ((err, cg), s) \<Rightarrow>
        if err \<noteq> None then Some ((wrap_error ''sqlite: add to changegroup: %w'' err, cg), s)
        else do {
          (err, s) \<leftarrow> with_reader r (\<lambda>pIn. strm_call K G ''add to changegroup'' (x_changegroup_add_strm L (cg_ptr cg) pIn)) s;
          Some ((err, cg), s)
        })"

text \<open>A changegroup without an object gets one for the time of the call.\<close>

definition Changegroup_WriteTo :: "lib_consts \<Rightarrow> ('w, 'm) sn_lib_scheme \<Rightarrow> 'w sn_code \<Rightarrow> Changegroup option \<Rightarrow> nat option \<Rightarrow> 'w sn_state \<Rightarrow>
    (((int \<times> error) \<times> Changegroup option) \<times> 'w sn_state) option" where
  "Changegroup_WriteTo K L G cg0 w s =
     (let cg = (case cg0 of None \<Rightarrow> Changegroup_zero | Some cg \<Rightarrow> cg);
          finish = (\<lambda>r cg' s. case (if cg_ptr cg = 0 then Changegroup_Clear L (Some cg') s else (Some cg', s)) of (cg'', s) \<Rightarrow>
            Some ((r, case cg0 of None \<Rightarrow> None | Some _ \<Rightarrow> cg''), s)) in
      case Changegroup_init K L cg s of ((err, cg'), s) \<Rightarrow>
        if err \<noteq> None then finish (0, wrap_error ''sqlite: write changegroup: %w'' err) cg' s
        else let cell = length (sn_counts s) in do {
          (err, s) \<leftarrow> with_writer (writeCounter cell w) (\<lambda>pOut. strm_call K G ''write changegroup'' (x_changegroup_output_strm L (cg_ptr cg') pOut)) (s\<lparr>sn_counts := sn_counts s @ [0]\<rparr>);
          finish (sn_counts s ! cell, err) cg' s
        })"

section \<open>Handles are released\<close>

text \<open>The handles that a call of SQLite calls back with, and whether it filters.\<close>

primrec strm_uses :: "nat set \<Rightarrow> nat set \<Rightarrow> nat set \<Rightarrow> bool \<Rightarrow> 'w strm \<Rightarrow> bool" where
  "strm_uses R W A f (S_Return code p w) = True"
| "strm_uses R W A f (S_Input pIn n w k) = (pIn \<in> R \<and> (\<forall>x. strm_uses R W A f (k x)))"
| "strm_uses R W A f (S_Output pOut data w k) = (pOut \<in> W \<and> (\<forall>x. strm_uses R W A f (k x)))"
| "strm_uses R W A f (S_Filter pCtx zTab w k) = (pCtx \<in> A \<and> f \<and> (\<forall>x. strm_uses R W A f (k x)))"
| "strm_uses R W A f (S_Conflict pCtx e p w k) = (pCtx \<in> A \<and> (\<forall>x. strm_uses R W A f (k x)))"

text \<open>SQLite calls back with what it was given.\<close>

definition lib_sn_ok :: "('w, 'm) sn_lib_scheme \<Rightarrow> bool" where
  "lib_sn_ok L \<longleftrightarrow>
     (\<forall>p i w. strm_uses {} {i} {} False (x_session_changeset_strm L p i w)) \<and>
     (\<forall>p i w. strm_uses {} {i} {} False (x_session_patchset_strm L p i w)) \<and>
     (\<forall>i f a w. strm_uses {i} {} {a} f (x_changeset_apply_strm L i f a w)) \<and>
     (\<forall>i j w. strm_uses {i} {j} {} False (x_changeset_invert_strm L i j w)) \<and>
     (\<forall>i i' j w. strm_uses {i, i'} {j} {} False (x_changeset_concat_strm L i i' j w)) \<and>
     (\<forall>i w. strm_uses {i} {} {} False (x_changeset_start_strm L i w)) \<and>
     (\<forall>p i w. strm_uses {i} {} {} False (x_changegroup_add_strm L p i w)) \<and>
     (\<forall>p j w. strm_uses {} {j} {} False (x_changegroup_output_strm L p j w))"

definition sn_inv :: "'w sn_state \<Rightarrow> bool" where
  "sn_inv s \<longleftrightarrow> reg_inv idGen_live (sn_readers s) \<and> reg_inv idGen_live (sn_writers s) \<and> reg_inv idGen_live (sn_applies s)"

text \<open>The same entries are filed before and after; functions may file and remove others in between.\<close>

definition sn_same :: "'w sn_state \<Rightarrow> 'w sn_state \<Rightarrow> bool" where
  "sn_same s s' \<longleftrightarrow> sn_inv s' \<and> reg_m (sn_readers s') = reg_m (sn_readers s) \<and> reg_m (sn_writers s') = reg_m (sn_writers s) \<and> reg_m (sn_applies s') = reg_m (sn_applies s)"

definition released :: "'w sn_state \<Rightarrow> ('r \<times> 'w sn_state) option \<Rightarrow> bool" where
  "released s r \<longleftrightarrow> (\<exists>x s'. r = Some (x, s') \<and> sn_same s s')"

definition go_sn_ok :: "'w sn_code \<Rightarrow> bool" where
  "go_sn_ok G \<longleftrightarrow> (\<forall>s. sn_inv s \<longrightarrow> (\<forall>r n. released s (n_Read G r n s)) \<and> (\<forall>w p. released s (n_Write G w p s)) \<and> (\<forall>f t. released s (n_filter G f t s)) \<and>
     (\<forall>f e p. released s (n_conflict G f e p s)))"

lemma sn_same_refl: "sn_inv s \<Longrightarrow> sn_same s s"
  by (simp add: sn_same_def)

lemma sn_same_trans: "sn_same s t \<Longrightarrow> sn_same t u \<Longrightarrow> sn_same s u"
  by (simp add: sn_same_def)

lemma sn_same_inv: "sn_same s t \<Longrightarrow> sn_inv t"
  by (simp add: sn_same_def)

lemma sn_inv_free [simp]: "sn_inv (s\<lparr>sn_world := w\<rparr>) = sn_inv s" "sn_inv (s\<lparr>sn_counts := c\<rparr>) = sn_inv s"
  by (simp_all add: sn_inv_def)

lemma sn_same_free [simp]:
  "sn_same s (t\<lparr>sn_world := w\<rparr>) = sn_same s t" "sn_same (s\<lparr>sn_world := w\<rparr>) t = sn_same s t"
  "sn_same s (t\<lparr>sn_counts := c\<rparr>) = sn_same s t" "sn_same (s\<lparr>sn_counts := c\<rparr>) t = sn_same s t"
  by (simp_all add: sn_same_def)

lemma released_Some: "sn_same s t \<Longrightarrow> released s (Some (x, t))"
  by (simp add: released_def)

lemma released_bind:
  assumes "released s r" and "\<And>x t. r = Some (x, t) \<Longrightarrow> sn_same s t \<Longrightarrow> released t (g (x, t))"
  shows "released s (r \<bind> g)"
proof -
  obtain x t where r: "r = Some (x, t)" "sn_same s t" using assms(1) by (auto simp: released_def)
  then show ?thesis using assms(2) sn_same_trans by (fastforce simp: released_def)
qed

lemma released_world [simp]: "released (s\<lparr>sn_world := w\<rparr>) r = released s r" "released (s\<lparr>sn_counts := c\<rparr>) r = released s r"
  by (simp_all add: released_def)

text \<open>A call with handles that are filed, and with a writer that is not the counter of nothing.\<close>

definition filed_for :: "nat set \<Rightarrow> nat set \<Rightarrow> nat set \<Rightarrow> bool \<Rightarrow> 'w sn_state \<Rightarrow> bool" where
  "filed_for R W A f s \<longleftrightarrow> sn_inv s \<and> (\<forall>i \<in> R. reg_m (sn_readers s) i \<noteq> None) \<and> (\<forall>i \<in> W. \<exists>w. reg_m (sn_writers s) i = Some w \<and> (\<forall>c. w \<noteq> writeCounter c None)) \<and>
     (\<forall>i \<in> A. \<exists>fs. reg_m (sn_applies s) i = Some fs \<and> (f \<longrightarrow> af_filterFn fs \<noteq> None))"

lemma filed_for_same: "filed_for R W A f s \<Longrightarrow> sn_same s t \<Longrightarrow> filed_for R W A f t"
  by (simp add: filed_for_def sn_same_def)

lemma filed_for_world [simp]: "filed_for R W A f (s\<lparr>sn_world := w\<rparr>) = filed_for R W A f s"
  by (simp add: filed_for_def)

lemma callbacks_released:
  assumes go: "go_sn_ok G" and fl: "filed_for R W A f s"
  shows "pIn \<in> R \<Longrightarrow> released s (sessionStreamInput K G pIn n s)" and "pOut \<in> W \<Longrightarrow> released s (sessionStreamOutput K G pOut data s)"
    and "pCtx \<in> A \<Longrightarrow> f \<Longrightarrow> released s (changesetApplyFilter G pCtx zTab s)" and "pCtx \<in> A \<Longrightarrow> released s (changesetApplyConflict G pCtx e p s)"
proof -
  have inv: "sn_inv s" using fl by (simp add: filed_for_def)
  have calls: "released s (n_Read G r n s)" "released s (n_Write G w p s)" "released s (n_filter G g t s)" "released s (n_conflict G g e q s)" for r n w p g t e q
    using go inv by (simp_all add: go_sn_ok_def)
  have same: "released t (Some (x, t))" if "sn_same s t" for t and x :: 'r using that by (simp add: released_def sn_same_def)
  show "released s (sessionStreamInput K G pIn n s)" if "pIn \<in> R"
  proof (cases "Option.bind (reg_m (sn_readers s) pIn) (\<lambda>r. r)")
    case None
    then show ?thesis using sn_same_refl [OF inv] by (simp add: sessionStreamInput_def released_Some)
  next
    case (Some r)
    have "released s (n_Read G r n s \<bind> (\<lambda>((data, err), s). Some ((if length data = 0 \<and> err \<noteq> Some io_EOF then K ''SQLITE_IOERR_READ'' else K ''SQLITE_OK'', data), s)))"
      by (rule released_bind [OF calls(1)]) (auto simp: released_def sn_same_def)
    then show ?thesis using Some by (simp add: sessionStreamInput_def)
  qed
  have count: "released s (writeCounter_Write G c x data s)" for c x unfolding writeCounter_Write_def
    by (rule released_bind [OF calls(2)]) (auto simp: released_def sn_same_def)
  show "released s (sessionStreamOutput K G pOut data s)" if po: "pOut \<in> W"
  proof -
    obtain w where w: "reg_m (sn_writers s) pOut = Some w" "\<forall>c. w \<noteq> writeCounter c None" using fl po by (auto simp: filed_for_def)
    have out: "released s (r \<bind> (\<lambda>((n, err), s). Some (if err \<noteq> None then K ''SQLITE_IOERR_WRITE'' else K ''SQLITE_OK'', s)))" if "released s r" for r :: "((int \<times> error) \<times> _) option"
      by (rule released_bind [OF that]) (auto simp: released_def sn_same_def)
    consider "w = Writer None" | x where "w = Writer (Some x)" | c x where "w = writeCounter c (Some x)" using w(2) by (cases w) (metis option.exhaust)+
    then show ?thesis
      by cases (use w sn_same_refl [OF inv] out [OF calls(2)] out [OF count] in \<open>simp_all add: sessionStreamOutput_def sn_Write_def released_Some\<close>)
  qed
  have ap: "\<exists>fs. reg_m (sn_applies s) pCtx = Some fs \<and> (f \<longrightarrow> af_filterFn fs \<noteq> None)" if "pCtx \<in> A" using fl that by (simp add: filed_for_def)
  show "released s (changesetApplyFilter G pCtx zTab s)" if a: "pCtx \<in> A" and f
  proof -
    obtain fs g where g: "reg_m (sn_applies s) pCtx = Some fs" "af_filterFn fs = Some g" using ap [OF a] \<open>f\<close> by auto
    have "released s (n_filter G g zTab s \<bind> (\<lambda>(ok, s). Some (if ok then 1 else 0 :: int, s)))" by (rule released_bind [OF calls(3)]) (simp add: released_def sn_same_def)
    then show ?thesis using g by (simp add: changesetApplyFilter_def)
  qed
  show "released s (changesetApplyConflict G pCtx e p s)" if "pCtx \<in> A" using ap [OF that] calls(4) by (auto simp: changesetApplyConflict_def)
qed

lemma run_strm_released:
  assumes "go_sn_ok G"
  shows "strm_uses R W A f t \<Longrightarrow> filed_for R W A f s \<Longrightarrow> released s (run_strm K G t s)"
proof (induction t arbitrary: s)
  case (S_Return code p w)
  then show ?case by (simp add: released_def sn_same_def filed_for_def)
next
  case (S_Input pIn n w k)
  let ?s = "s\<lparr>sn_world := w\<rparr>"
  have "released ?s (sessionStreamInput K G pIn n ?s \<bind> (\<lambda>((code, data), s). run_strm K G (k (code, data, sn_world s)) s))"
  proof (rule released_bind [OF callbacks_released(1) [OF assms, of R W A f]])
    fix x t assume "sn_same ?s t"
    then have "filed_for R W A f t" using filed_for_same S_Input.prems(2) by fastforce
    then show "released t ((\<lambda>((code, data), s). run_strm K G (k (code, data, sn_world s)) s) (x, t))" using S_Input by (cases x) simp
  qed (use S_Input.prems in simp_all)
  then show ?case by simp
next
  case (S_Output pOut data w k)
  let ?s = "s\<lparr>sn_world := w\<rparr>"
  have "released ?s (sessionStreamOutput K G pOut data ?s \<bind> (\<lambda>(code, s). run_strm K G (k (code, sn_world s)) s))"
  proof (rule released_bind [OF callbacks_released(2) [OF assms, of R W A f]])
    fix x t assume "sn_same ?s t"
    then have "filed_for R W A f t" using filed_for_same S_Output.prems(2) by fastforce
    then show "released t (case (x, t) of (code, s) \<Rightarrow> run_strm K G (k (code, sn_world s)) s)" using S_Output by simp
  qed (use S_Output.prems in simp_all)
  then show ?case by simp
next
  case (S_Filter pCtx zTab w k)
  let ?s = "s\<lparr>sn_world := w\<rparr>"
  have "released ?s (changesetApplyFilter G pCtx zTab ?s \<bind> (\<lambda>(code, s). run_strm K G (k (code, sn_world s)) s))"
  proof (rule released_bind [OF callbacks_released(3) [OF assms, of R W A f]])
    fix x t assume "sn_same ?s t"
    then have "filed_for R W A f t" using filed_for_same S_Filter.prems(2) by fastforce
    then show "released t (case (x, t) of (code, s) \<Rightarrow> run_strm K G (k (code, sn_world s)) s)" using S_Filter.IH [OF rangeI] S_Filter.prems(1) by auto
  qed (use S_Filter.prems in simp_all)
  then show ?case by simp
next
  case (S_Conflict pCtx e p w k)
  let ?s = "s\<lparr>sn_world := w\<rparr>"
  have "released ?s (changesetApplyConflict G pCtx e p ?s \<bind> (\<lambda>(code, s). run_strm K G (k (code, sn_world s)) s))"
  proof (rule released_bind [OF callbacks_released(4) [OF assms, of R W A f]])
    fix x t assume "sn_same ?s t"
    then have "filed_for R W A f t" using filed_for_same S_Conflict.prems(2) by fastforce
    then show "released t (case (x, t) of (code, s) \<Rightarrow> run_strm K G (k (code, sn_world s)) s)" using S_Conflict by simp
  qed (use S_Conflict.prems in simp_all)
  then show ?case by simp
qed

text \<open>What is filed for the time of a call is gone after it.\<close>

lemma with_reader_released:
  assumes "sn_inv s" and "\<And>pIn t. sn_inv t \<Longrightarrow> reg_m (sn_readers t) = (reg_m (sn_readers s))(pIn \<mapsto> r) \<Longrightarrow> reg_m (sn_writers t) = reg_m (sn_writers s) \<Longrightarrow>
    reg_m (sn_applies t) = reg_m (sn_applies s) \<Longrightarrow> reg_m (sn_readers s) pIn = None \<Longrightarrow> released t (body pIn t)"
  shows "released s (with_reader r body s)"
proof -
  obtain pIn rs where a: "reg_add idGen_next r (sn_readers s) = (pIn, rs)" by (metis prod.collapse)
  have i: "reg_inv idGen_live (sn_readers s)" using assms(1) by (simp add: sn_inv_def)
  note add = idgen.add_inv [OF i a]
  let ?t = "s\<lparr>sn_readers := rs\<rparr>"
  have "released ?t (body pIn ?t)" by (rule assms(2)) (use assms(1) add in \<open>simp_all add: sn_inv_def\<close>)
  then obtain x u where u: "body pIn ?t = Some (x, u)" "sn_same ?t u" by (auto simp: released_def)
  have iu: "reg_inv idGen_live (sn_readers u)" "reg_m (sn_readers u) = (reg_m (sn_readers s))(pIn \<mapsto> r)" using u(2) add(4) by (simp_all add: sn_same_def sn_inv_def)
  obtain rs' where d: "reg_del idGen_reclaim pIn (sn_readers u) = Some rs'" "reg_inv idGen_live rs'" "reg_m rs' = (reg_m (sn_readers u))(pIn := None)"
    using idgen.del_inv [OF iu(1), of pIn] iu(2) by auto
  have "reg_m rs' = reg_m (sn_readers s)" using d(3) iu(2) add(3) by (simp add: fun_upd_idem)
  then have "sn_same s (u\<lparr>sn_readers := rs'\<rparr>)" using u(2) d(2) by (simp add: sn_same_def sn_inv_def)
  then show ?thesis using a u(1) d(1) by (simp add: with_reader_def registerStreamReader_def unregisterStreamReader_def released_Some)
qed

lemma with_writer_released:
  assumes "sn_inv s" and "\<And>pOut t. sn_inv t \<Longrightarrow> reg_m (sn_writers t) = (reg_m (sn_writers s))(pOut \<mapsto> wr) \<Longrightarrow> reg_m (sn_readers t) = reg_m (sn_readers s) \<Longrightarrow>
    reg_m (sn_applies t) = reg_m (sn_applies s) \<Longrightarrow> released t (body pOut t)"
  shows "released s (with_writer wr body s)"
proof -
  obtain pOut ws where a: "reg_add idGen_next wr (sn_writers s) = (pOut, ws)" by (metis prod.collapse)
  have i: "reg_inv idGen_live (sn_writers s)" using assms(1) by (simp add: sn_inv_def)
  note add = idgen.add_inv [OF i a]
  let ?t = "s\<lparr>sn_writers := ws\<rparr>"
  have "released ?t (body pOut ?t)" by (rule assms(2)) (use assms(1) add in \<open>simp_all add: sn_inv_def\<close>)
  then obtain x u where u: "body pOut ?t = Some (x, u)" "sn_same ?t u" by (auto simp: released_def)
  have iu: "reg_inv idGen_live (sn_writers u)" "reg_m (sn_writers u) = (reg_m (sn_writers s))(pOut \<mapsto> wr)" using u(2) add(4) by (simp_all add: sn_same_def sn_inv_def)
  obtain ws' where d: "reg_del idGen_reclaim pOut (sn_writers u) = Some ws'" "reg_inv idGen_live ws'" "reg_m ws' = (reg_m (sn_writers u))(pOut := None)"
    using idgen.del_inv [OF iu(1), of pOut] iu(2) by auto
  have "reg_m ws' = reg_m (sn_writers s)" using d(3) iu(2) add(3) by (simp add: fun_upd_idem)
  then have "sn_same s (u\<lparr>sn_writers := ws'\<rparr>)" using u(2) d(2) by (simp add: sn_same_def sn_inv_def)
  then show ?thesis using a u(1) d(1) by (simp add: with_writer_def registerStreamWriter_def unregisterStreamWriter_def released_Some)
qed

lemma with_applies_released:
  assumes "sn_inv s" and "\<And>pCtx t. sn_inv t \<Longrightarrow> reg_m (sn_applies t) = (reg_m (sn_applies s))(pCtx \<mapsto> fs) \<Longrightarrow> reg_m (sn_readers t) = reg_m (sn_readers s) \<Longrightarrow>
    reg_m (sn_writers t) = reg_m (sn_writers s) \<Longrightarrow> released t (body pCtx t)"
  shows "released s (with_applies fs body s)"
proof -
  obtain pCtx as where a: "reg_add idGen_next fs (sn_applies s) = (pCtx, as)" by (metis prod.collapse)
  have i: "reg_inv idGen_live (sn_applies s)" using assms(1) by (simp add: sn_inv_def)
  note add = idgen.add_inv [OF i a]
  let ?t = "s\<lparr>sn_applies := as\<rparr>"
  have "released ?t (body pCtx ?t)" by (rule assms(2)) (use assms(1) add in \<open>simp_all add: sn_inv_def\<close>)
  then obtain x u where u: "body pCtx ?t = Some (x, u)" "sn_same ?t u" by (auto simp: released_def)
  have iu: "reg_inv idGen_live (sn_applies u)" "reg_m (sn_applies u) = (reg_m (sn_applies s))(pCtx \<mapsto> fs)" using u(2) add(4) by (simp_all add: sn_same_def sn_inv_def)
  obtain as' where d: "reg_del idGen_reclaim pCtx (sn_applies u) = Some as'" "reg_inv idGen_live as'" "reg_m as' = (reg_m (sn_applies u))(pCtx := None)"
    using idgen.del_inv [OF iu(1), of pCtx] iu(2) by auto
  have "reg_m as' = reg_m (sn_applies s)" using d(3) iu(2) add(3) by (simp add: fun_upd_idem)
  then have "sn_same s (u\<lparr>sn_applies := as'\<rparr>)" using u(2) d(2) by (simp add: sn_same_def sn_inv_def)
  then show ?thesis using a u(1) d(1) by (simp add: with_applies_def released_Some)
qed

lemma strm_call_released:
  assumes "go_sn_ok G" and "filed_for R W A f s" and "strm_uses R W A f (call (sn_world s))"
  shows "released s (strm_call K G what call s)"
  unfolding strm_call_def by (rule released_bind [OF run_strm_released [OF assms(1,3,2)]]) (auto simp: released_def sn_same_def)

lemma lib_sn_okD:
  assumes "lib_sn_ok L"
  shows "strm_uses {} {i} {} False (x_session_changeset_strm L p i w)" and "strm_uses {} {i} {} False (x_session_patchset_strm L p i w)"
    and "strm_uses {i} {} {a} f (x_changeset_apply_strm L i f a w)" and "strm_uses {i} {j} {} False (x_changeset_invert_strm L i j w)"
    and "strm_uses {i, i'} {j} {} False (x_changeset_concat_strm L i i' j w)" and "strm_uses {i} {} {} False (x_changeset_start_strm L i w)"
    and "strm_uses {i} {} {} False (x_changegroup_add_strm L p i w)" and "strm_uses {} {j} {} False (x_changegroup_output_strm L p j w)"
  using assms by (simp_all add: lib_sn_ok_def)

lemma init_released:
  assumes "sn_inv s" and "Changegroup_init K L cg s = ((err, cg'), s')"
  shows "sn_same s s'"
  using assms by (auto simp: Changegroup_init_def Let_def sn_call_def sn_same_refl split: if_splits prod.splits option.splits)

text \<open>An iterator keeps its reader until it is closed.\<close>

lemma iterator_released:
  assumes lib: "lib_sn_ok L" and go: "go_sn_ok G" and inv: "sn_inv s"
  shows "\<exists>iter err s'. NewChangesetIterator K L G r s = Some ((iter, err), s') \<and>
    (case iter of
       None \<Rightarrow> sn_same s s'
     | Some it \<Rightarrow> ci_pIn it \<noteq> 0 \<and> sn_inv s' \<and> reg_m (sn_readers s') = (reg_m (sn_readers s))(ci_pIn it \<mapsto> r) \<and> reg_m (sn_readers s) (ci_pIn it) = None \<and>
         (ci_ptr it \<noteq> 0 \<longrightarrow> (\<exists>e it' t. ChangesetIterator_Close K L it s' = Some ((e, it'), t) \<and> sn_same s t)))"
proof -
  obtain pIn rs where a: "reg_add idGen_next r (sn_readers s) = (pIn, rs)" by (metis prod.collapse)
  have i: "reg_inv idGen_live (sn_readers s)" using inv by (simp add: sn_inv_def)
  note add = idgen.add_inv [OF i a]
  obtain e0 w0 where m: "malloc L 8 (sn_world s) = (e0, w0)" by (metis prod.collapse)
  let ?t = "s\<lparr>sn_readers := rs, sn_world := w0\<rparr>"
  have fl: "filed_for {pIn} {} {} False ?t" using inv add by (simp add: filed_for_def sn_inv_def)
  have gone: "\<exists>rs'. unregisterStreamReader pIn (sn_readers u) = Some rs' \<and> sn_same s (u\<lparr>sn_readers := rs'\<rparr>)" if "sn_same ?t u" for u
  proof -
    have iu: "reg_inv idGen_live (sn_readers u)" "reg_m (sn_readers u) = (reg_m (sn_readers s))(pIn \<mapsto> r)" using that add(4) by (simp_all add: sn_same_def sn_inv_def)
    obtain rs' where d: "reg_del idGen_reclaim pIn (sn_readers u) = Some rs'" "reg_inv idGen_live rs'" "reg_m rs' = (reg_m (sn_readers u))(pIn := None)"
      using idgen.del_inv [OF iu(1), of pIn] iu(2) by auto
    have "reg_m rs' = reg_m (sn_readers s)" using d(3) iu(2) add(3) by (simp add: fun_upd_idem)
    then show ?thesis using d that by (simp add: unregisterStreamReader_def sn_same_def sn_inv_def)
  qed
  have tt: "sn_same ?t ?t" using fl by (simp add: filed_for_def sn_same_def)
  obtain res p u where u: "run_strm K G (x_changeset_start_strm L pIn w0) ?t = Some ((res, p), u)" "sn_same ?t u"
    using run_strm_released [OF go lib_sn_okD(6) [OF lib, of pIn w0] fl, of K] unfolding released_def by (metis prod.collapse)
  obtain rs0 where r0: "unregisterStreamReader pIn rs = Some rs0" "sn_same s (?t\<lparr>sn_readers := rs0\<rparr>)" using gone [OF tt] by auto
  obtain rs1 where r1: "unregisterStreamReader pIn (sn_readers u) = Some rs1" "sn_same s (u\<lparr>sn_readers := rs1\<rparr>)" using gone [OF u(2)] by auto
  consider e where "e0 = Some e" | e where "e0 = None" "ToError K res = Some e" | "e0 = None" "ToError K res = None" by fastforce
  then show ?thesis
  proof cases
    case 1
    then show ?thesis using a m r0 by (simp add: NewChangesetIterator_def registerStreamReader_def sn_call_def sn_same_def sn_inv_def)
  next
    case 2
    then show ?thesis using a m u(1) r1 by (simp add: NewChangesetIterator_def registerStreamReader_def sn_call_def)
  next
    case 3
    obtain res' w' where f: "x_changeset_finalize L p (sn_world u) = (res', w')" by (metis prod.collapse)
    have "sn_same s (u\<lparr>sn_world := w', sn_readers := rs1\<rparr>)" using r1(2) by (simp add: sn_same_def sn_inv_def)
    then show ?thesis using 3 a m u add r1(1) f
      by (simp add: NewChangesetIterator_def registerStreamReader_def sn_call_def ChangesetIterator_Close_def Let_def sn_same_def)
  qed
qed


text \<open>\<open>ApplyInverseChangeset\<close> never returns once SQLite has asked for the first bytes of both changesets: the goroutine reads from the pipe that it should fill, and the reader that
  the caller passed is not used.\<close>

lemma ApplyInverseChangeset_deadlock:
  assumes "x_changeset_invert_strm L pr1 pw w1 = S_Input pr1 n u k" and "x_changeset_apply_strm L pr2 f pCtx w2 = S_Input pr2 n' u' k'"
  shows "\<not> pipe_step K (ApplyInverseChangeset L (pr1, pw, w1) (pr2, f, pCtx, w2)) st"
  using assms by (auto simp: ApplyInverseChangeset_def elim: pipe_step.cases)

text \<open>A SQLite that writes two bytes, or reads once and reports one conflict; readers are at their end and writers accept everything.\<close>

definition sn_demo :: "nat sn_lib" where
  "sn_demo = fn_lib.extend (sqlite_lib.extend null_lib
     \<lparr>error_text = (\<lambda>_. ''error''), x_user_data = (\<lambda>p w. p), x_aggregate_context = (\<lambda>p w. (p, w)), x_result = (\<lambda>p r w. w), x_create_function = (\<lambda>name n r i w. ((0, []), w)),
       x_create_window_function = (\<lambda>name n r i w. ((0, []), w)), x_create_collation = (\<lambda>name io w. ((0, []), w)), x_get_auxdata = (\<lambda>p n w. 0), x_set_auxdata = (\<lambda>p n i w. ([], w))\<rparr>)
     \<lparr>x_session_create = (\<lambda>db w. ((0, 1), w)), x_session_delete = (\<lambda>p w. w), x_session_enable = (\<lambda>p b w. w), x_session_attach = (\<lambda>p t w. (0, w)), x_session_diff = (\<lambda>p d t w. ((0, None), w)),
       x_session_changeset_strm = (\<lambda>p j w. S_Output j ''ab'' w (\<lambda>(code, w). S_Return code 0 (w + 1))),
       x_session_patchset_strm = (\<lambda>p j w. S_Output j ''ab'' w (\<lambda>(code, w). S_Return code 0 w)),
       x_changeset_apply_strm = (\<lambda>i f a w. S_Input i 10 w (\<lambda>(code, d, w). S_Conflict a 1 7 w (\<lambda>(c, w). S_Return 0 0 w))),
       x_changeset_invert_strm = (\<lambda>i j w. S_Input i 10 w (\<lambda>(code, d, w). S_Output j d w (\<lambda>(c, w). S_Return c 0 w))),
       x_changeset_concat_strm = (\<lambda>i i' j w. S_Return 0 0 w), x_changeset_start_strm = (\<lambda>i w. S_Input i 10 w (\<lambda>(code, d, w). S_Return 0 5 w)), x_changeset_next = (\<lambda>p w. S_Return 101 0 w),
       x_changeset_finalize = (\<lambda>p w. (0, w)), x_changeset_op = (\<lambda>p w. ((0, ''t'', 1, 18, 0), w)), x_changeset_old = (\<lambda>p n w. ((0, 0), w)), x_changeset_new = (\<lambda>p n w. ((0, 0), w)),
       x_changeset_conflict = (\<lambda>p n w. ((0, 0), w)), x_changeset_fk_conflicts = (\<lambda>p w. ((0, 0), w)), x_changeset_pk = (\<lambda>p w. ((0, ''''), w)),
       x_changegroup_new = (\<lambda>w. ((0, 3), w)), x_changegroup_delete = (\<lambda>p w. w), x_changegroup_add_strm = (\<lambda>p i w. S_Return 0 0 w), x_changegroup_output_strm = (\<lambda>p j w. S_Output j ''xyz'' w (\<lambda>(c, w). S_Return c 0 w))\<rparr>"

lemma sn_demo_ok: "lib_sn_ok sn_demo"
  by (simp add: lib_sn_ok_def sn_demo_def fn_lib.defs sqlite_lib.defs)

definition sn_demo_code :: "nat sn_code" where
  "sn_demo_code = \<lparr>n_Read = (\<lambda>r n s. Some (('''', Some io_EOF), s)), n_Write = (\<lambda>w p s. Some ((int (length p), None), s)), n_filter = (\<lambda>f t s. Some (True, s)), n_conflict = (\<lambda>f e p s. Some (0, s))\<rparr>"

lemma sn_demo_code_ok: "go_sn_ok sn_demo_code"
  by (simp add: go_sn_ok_def sn_demo_code_def released_Some sn_same_refl)

definition sn_start :: "nat sn_state" where
  "sn_start = \<lparr>sn_readers = handles_init, sn_writers = handles_init, sn_applies = handles_init, sn_counts = [], sn_world = 0\<rparr>"

lemma sn_start_inv: "sn_inv sn_start"
  by (simp add: sn_inv_def sn_start_def handles_reachable_inv [OF handles_reachable.init])


end
