(* ===== verification/Migration.thy ===== *)
theory Migration
  imports Savepoint
begin

text \<open>
  Schema migration (sqlitemigration.go): the scripts that a database has not seen yet are run, each in a transaction that also advances \<open>user_version\<close>.

  The loop is written over the operations on the connection that it calls (\<open>mig_ops\<close>), so that what it guarantees can be stated for their interface; \<open>conn_ops\<close> are the operations of the
  package.  \<open>None\<close> is a panic, or that the call never returns.
\<close>

section \<open>Schema\<close>

record MigrationOptions =
  mo_DisableForeignKeys :: bool

record Schema =
  sc_Migrations :: "gostring list"
  sc_MigrationOptions :: "MigrationOptions option list"
  sc_AppID :: int
  sc_RepeatableMigration :: gostring

section \<open>Operations on the connection\<close>

text \<open>A function for the rows that assigns to a variable of its caller: \<open>sqlitex.ExecuteTransient\<close> with the variable beside the connection.\<close>

definition capture_rows :: "lib_consts \<Rightarrow> ('w, 'm) sqlite_lib_scheme \<Rightarrow> (nat \<Rightarrow> 'w Conn \<Rightarrow> 'v option) \<Rightarrow> nat \<Rightarrow> 'v \<times> 'w Conn \<Rightarrow> (error \<times> 'v \<times> 'w Conn) option" where
  "capture_rows K L get s = row_loop (\<lambda>(v, c). map_option (\<lambda>(r, c). (r, v, c)) (Step K L s c)) (Some (\<lambda>(v, c). map_option (\<lambda>v. (None, v, c)) (get s c)))"

definition capture_opts :: "(nat \<Rightarrow> 'w Conn \<Rightarrow> 'v option) \<Rightarrow> 'w ExecOptions" where
  "capture_opts get = \<lparr>o_Args = [], o_Named = [], o_ResultFunc = Some (\<lambda>s c. map_option (\<lambda>_. (None, c)) (get s c))\<rparr>"

definition capture_exec :: "lib_consts \<Rightarrow> ('w, 'm) sqlite_lib_scheme \<Rightarrow> (nat \<Rightarrow> 'w Conn \<Rightarrow> 'v option) \<Rightarrow> nat \<Rightarrow> 'v \<times> 'w Conn \<Rightarrow> (error \<times> 'v \<times> 'w Conn) option" where
  "capture_exec K L get s = (\<lambda>(v, c).
     let paramCount = BindParamCount (stmt_at c s); provided = newBitset paramCount; flags = forbidMissing OR forbidExtra in do {
        ((err, provided), c) \<leftarrow> exec_bind K L s flags (Some (capture_opts get)) provided c;
        if err \<noteq> None then Some (err, v, c)
        else if flags AND forbidMissing \<noteq> 0 \<and> \<not> hasAll provided paramCount then
          (let i = firstMissing provided + 1;
               name = BindParamName (stmt_at c s) (int i);
               name = (if name = '''' then ''?'' @ FormatInt (int i) else name)
           in Some (err_missing name, v, c))
        else capture_rows K L get s (v, c)
      })"

definition capture_transient :: "lib_consts \<Rightarrow> ('w, 'm) sqlite_lib_scheme \<Rightarrow> gostring \<Rightarrow> (nat \<Rightarrow> 'w Conn \<Rightarrow> 'v option) \<Rightarrow> 'v \<Rightarrow> 'w Conn \<Rightarrow> ((error \<times> 'v) \<times> 'w Conn) option" where
  "capture_transient K L query get v c =
     (case PrepareTransient K L query c of
        ((Some s, trailing, None), c) \<Rightarrow> do {
          (err, v, c) \<leftarrow> (if trailing \<noteq> 0 then Some (Some err_query_trailing, v, c) else capture_exec K L get s (v, c));
          (ferr, c) \<leftarrow> Finalize K L s c;
          Some ((if err = None then ferr else err, v), c)
        }
      | ((_, _, err), c) \<Rightarrow> Some ((err, v), c))"

text \<open>It is that call, but for the variable.\<close>

lemma row_loop_captured:
  fixes step :: "'c \<Rightarrow> ((bool \<times> error) \<times> 'c) option" and get :: "'c \<Rightarrow> 'v option"
  defines "step' \<equiv> \<lambda>(v :: 'v, c). map_option (\<lambda>(r, c). (r, v, c)) (step c)" and "fn' \<equiv> \<lambda>(v :: 'v, c). map_option (\<lambda>v. (None :: error, v, c)) (get c)"
    and "fn \<equiv> \<lambda>c. map_option (\<lambda>_. (None :: error, c)) (get c)"
  shows "map_option (\<lambda>(err, v, c). (err, c)) (row_loop step' (Some fn') (v, c)) = row_loop step (Some fn) c"
proof -
  have one: "row_loop step (Some fn) (snd vc) = Some (fst r, snd (snd r))" if "row_loop step' (Some fn') vc = Some r" for vc r
  proof (rule row_loop.raw_induct [where P = "\<lambda>st f vc r. st = step' \<longrightarrow> f = Some fn' \<longrightarrow> row_loop step (Some fn) (snd vc) = Some (fst r, snd (snd r))", OF _ that, rule_format], goal_cases)
    case (1 loop st f vc r)
    obtain v c0 where vc: "vc = (v, c0)" by (cases vc)
    note IH = 1(1) [OF _ refl refl]
    obtain row err c1 where st: "step c0 = Some ((row, err), c1)" using 1(2,3) vc by (auto simp: bind_eq_Some_conv step'_def)
    consider "err \<noteq> None" | "err = None" "\<not> row" | "err = None" row by blast
    then show ?case
    proof cases
      case 3
      then obtain x where g: "get c1 = Some x" "loop step' (Some fn') (x, c1) = Some r" using 1(2-4) vc st by (auto simp: bind_eq_Some_conv step'_def fn'_def)
      then show ?thesis using 3 st IH [OF g(2)] vc by (subst row_loop.simps) (simp add: fn_def)
    qed (use 1(2-4) vc st in \<open>subst row_loop.simps, auto simp: step'_def\<close>)+
  qed auto
  have two: "\<exists>v'. row_loop step' (Some fn') (v, c) = Some (fst r, v', snd r)" if "row_loop step (Some fn) c = Some r" for v c r
  proof (rule row_loop.raw_induct [where P = "\<lambda>st f c r. st = step \<longrightarrow> f = Some fn \<longrightarrow> (\<forall>v. \<exists>v'. row_loop step' (Some fn') (v, c) = Some (fst r, v', snd r))", OF _ that, rule_format], goal_cases)
    case (1 loop st f c r v)
    obtain row err c1 where st: "step c = Some ((row, err), c1)" using 1(2,3) by (auto simp: bind_eq_Some_conv)
    consider "err \<noteq> None" | "err = None" "\<not> row" | "err = None" row by blast
    then show ?case
    proof cases
      case 3
      then obtain x where g: "get c1 = Some x" "loop step (Some fn) c1 = Some r" using 1(2-4) st by (auto simp: bind_eq_Some_conv fn_def)
      obtain v' where "row_loop step' (Some fn') (x, c1) = Some (fst r, v', snd r)" using 1(1) [OF g(2) refl refl] by blast
      then show ?thesis using 3 st g(1) by (subst row_loop.simps) (simp add: step'_def fn'_def)
    qed (use 1(2-4) st in \<open>subst row_loop.simps, auto simp: step'_def\<close>)+
  qed auto
  show ?thesis
  proof (cases "row_loop step (Some fn) c")
    case None
    then show ?thesis using one [of "(v, c)"] by (cases "row_loop step' (Some fn') (v, c)") auto
  next
    case (Some r)
    then show ?thesis using two [of c r v] by (auto simp: prod_eq_iff)
  qed
qed

lemma capture_transient_ExecuteTransient:
  "map_option (\<lambda>((err, v), c). (err, c)) (capture_transient K L query get v c) = ExecuteTransient K L query (Some (capture_opts get)) c"
proof -
  have rows: "map_option (\<lambda>(err, v, c). (err, c)) (capture_rows K L get s (v, c)) = row_loop (Step K L s) (Some (\<lambda>c. map_option (\<lambda>_. (None, c)) (get s c))) c" for s v c
    using row_loop_captured [of "Step K L s" "get s" v c] by (simp add: capture_rows_def)
  have ex: "map_option (\<lambda>(err, v, c). (err, c)) (capture_exec K L get s (v, c)) = exec K L s (forbidMissing OR forbidExtra) (Some (capture_opts get)) c" for s v c
    by (auto simp: capture_exec_def exec_def Let_def rows capture_opts_def split: Option.bind_splits prod.splits)
  have fin: "map_option (\<lambda>((err, v), c). (err, c)) (r \<bind> (\<lambda>(err, v, c). Finalize K L s c \<bind> (\<lambda>(ferr, c). Some ((if err = None then ferr else err, v), c)))) =
      map_option (\<lambda>(err, v, c). (err, c)) r \<bind> (\<lambda>(err, c). Finalize K L s c \<bind> (\<lambda>(ferr, c). Some (if err = None then ferr else err, c)))" for r :: "(error \<times> _ \<times> _) option" and s
    by (cases r) (auto split: Option.bind_splits prod.splits)
  show ?thesis
    by (auto simp: capture_transient_def ExecuteTransient_def exec_transient_def fin ex split: prod.splits option.splits) (auto split: Option.bind_splits)
qed

definition stepAndReset :: "lib_consts \<Rightarrow> ('w, 'm) sqlite_lib_scheme \<Rightarrow> nat \<Rightarrow> 'w Conn \<Rightarrow> (error \<times> 'w Conn) option" where
  "stepAndReset K L s c = do {
     ((_, err), c) \<leftarrow> Step K L s c;
     if err \<noteq> None then Some (err, c) else Reset K L s c
   }"

definition userVersion :: "lib_consts \<Rightarrow> ('w, 'm) sqlite_lib_scheme \<Rightarrow> 'w Conn \<Rightarrow> ((int \<times> error) \<times> 'w Conn) option" where
  "userVersion K L c = do {
     ((err, version), c) \<leftarrow> capture_transient K L ''PRAGMA user_version;'' (\<lambda>s c. ColumnInt32 L s 0 c) 0 c;
     Some (if err \<noteq> None then (0, wrap_error ''get database user_version: %w'' err) else (version, None), c)
   }"

definition rollback :: "lib_consts \<Rightarrow> ('w, 'm) sqlite_lib_scheme \<Rightarrow> 'w Conn \<Rightarrow> 'w Conn option" where
  "rollback K L c = (if AutocommitEnabled L c then Some c else map_option snd (ExecuteTransient K L ''ROLLBACK;'' None c))"

text \<open>The verb \<open>%#x\<close>.\<close>

definition hexInt :: "int \<Rightarrow> gostring" where
  "hexInt n = (if n < 0 then CHR ''-'' # FormatHex (nat (- n)) else FormatHex (nat n))"

text \<open>The work in the transaction; the deferred function ends it with the error that is about to be returned.\<close>

definition appID_body :: "lib_consts \<Rightarrow> ('w, 'm) sqlite_lib_scheme \<Rightarrow> int \<Rightarrow> 'w Conn \<Rightarrow> ((int \<times> error) \<times> 'w Conn) option" where
  "appID_body K L wantAppID c = do {
     ((err, hasSchema), c) \<leftarrow> capture_transient K L ''VALUES ((SELECT COUNT(*) FROM sqlite_master) > 0);'' (\<lambda>s c. map_option (\<lambda>n. n \<noteq> 0) (ColumnInt L s 0 c)) False c;
     if err \<noteq> None then Some ((0, err), c)
     else do {
       ((err, dbAppID), c) \<leftarrow> capture_transient K L ''PRAGMA application_id;'' (\<lambda>s c. ColumnInt32 L s 0 c) 0 c;
       if err \<noteq> None then Some ((0, err), c)
       else if dbAppID \<noteq> wantAppID \<and> \<not> (dbAppID = 0 \<and> \<not> hasSchema) then
         Some ((0, Some (ErrorString (''database application_id = '' @ hexInt dbAppID @ '' (expected '' @ hexInt wantAppID @ '')''))), c)
       else do {
         ((schemaVersion, err), c) \<leftarrow> userVersion K L c;
         if err \<noteq> None then Some ((0, err), c)
         else do {
           (err, c) \<leftarrow> ExecuteTransient K L (''PRAGMA application_id = '' @ FormatInt wantAppID @ '';'') None c;
           Some (if err \<noteq> None then (0, err) else (schemaVersion, None), c)
         }
       }
     }
   }"

text \<open>\<open>schemaVersion\<close> keeps its value if only the end of the transaction fails.\<close>

definition ensureAppID :: "lib_consts \<Rightarrow> ('w, 'm) sqlite_lib_scheme \<Rightarrow> (nat \<Rightarrow> bool) \<Rightarrow> int \<Rightarrow> 'w Conn \<Rightarrow> ((int \<times> error) \<times> 'w Conn) option" where
  "ensureAppID K L isPrint wantAppID c = do {
     ((endFn, err), c) \<leftarrow> ImmediateTransaction K L c;
     if err \<noteq> None then Some ((0, err), c)
     else do {
       ((schemaVersion, err), c) \<leftarrow> appID_body K L wantAppID c;
       ((panic, err), c) \<leftarrow> run_release K L isPrint endFn err (None :: go_error option) c;
       if panic \<noteq> None then None else Some ((schemaVersion, err), c)
     }
   }"

section \<open>The loop\<close>

record 'c mig_ops =
  m_exec :: "gostring \<Rightarrow> 'c \<Rightarrow> (error \<times> 'c) option"
  m_begin :: "'c \<Rightarrow> (error \<times> 'c) option"
  m_commit :: "'c \<Rightarrow> (error \<times> 'c) option"
  m_rollback :: "'c \<Rightarrow> 'c option"
  m_userVersion :: "'c \<Rightarrow> ((int \<times> error) \<times> 'c) option"
  m_script :: "gostring \<Rightarrow> 'c \<Rightarrow> (error \<times> 'c) option"

definition conn_ops :: "lib_consts \<Rightarrow> ('w, 'm) sqlite_lib_scheme \<Rightarrow> (nat \<Rightarrow> bool) \<Rightarrow> nat \<Rightarrow> nat \<Rightarrow> 'w Conn mig_ops" where
  "conn_ops K L isPrint beginStmt commitStmt =
     \<lparr>m_exec = (\<lambda>q. ExecuteTransient K L q None), m_begin = stepAndReset K L beginStmt, m_commit = stepAndReset K L commitStmt, m_rollback = rollback K L,
      m_userVersion = userVersion K L,
      m_script = (\<lambda>q c. do { (r, c) \<leftarrow> ExecScript K L isPrint q c; (case r of Inl _ \<Rightarrow> None | Inr err \<Rightarrow> Some (err, c)) })\<rparr>"

definition apply_fmt :: "int \<Rightarrow> gostring" where
  "apply_fmt v = ''migrate database: apply migrations['' @ FormatInt v @ '']: %w''"

definition disable_fks :: "Schema \<Rightarrow> bool \<Rightarrow> nat \<Rightarrow> bool" where
  "disable_fks S foreignKeysEnabled v = (foreignKeysEnabled \<and> v < length (sc_MigrationOptions S) \<and>
     (case sc_MigrationOptions S ! v of None \<Rightarrow> False | Some mo \<Rightarrow> mo_DisableForeignKeys mo))"

definition migration_script :: "Schema \<Rightarrow> nat \<Rightarrow> gostring" where
  "migration_script S v = sc_Migrations S ! v @ '';'' @ [CHR 0x0A] @ ''PRAGMA user_version = '' @ FormatInt (wrap32 (int v + 1)) @ '';'' @ [CHR 0x0A]"

text \<open>The part inside the transaction: the scripts and the commit; an error rolls back.\<close>

definition apply_migration :: "'c mig_ops \<Rightarrow> Schema \<Rightarrow> nat \<Rightarrow> 'c \<Rightarrow> (error \<times> 'c) option" where
  "apply_migration Op S v c = do {
     (err, c) \<leftarrow> m_script Op (migration_script S v) c;
     if err \<noteq> None then do { c \<leftarrow> m_rollback Op c; Some (wrap_error (apply_fmt (int v)) err, c) }
     else do {
       (err, c) \<leftarrow> (if v = length (sc_Migrations S) - 1 \<and> sc_RepeatableMigration S \<noteq> '''' then m_script Op (sc_RepeatableMigration S) c else Some (None, c));
       if err \<noteq> None then do { c \<leftarrow> m_rollback Op c; Some (wrap_error ''migrate database: apply repeatable migration: %w'' err, c) }
       else do {
         (err, c) \<leftarrow> m_commit Op c;
         if err \<noteq> None then do { c \<leftarrow> m_rollback Op c; Some (wrap_error (apply_fmt (int v)) err, c) } else Some (None, c)
       }
     }
   }"

text \<open>A negative version is an index out of range.  The version is 32 bits wide.\<close>

partial_function (option) migrate_loop :: "'c mig_ops \<Rightarrow> Schema \<Rightarrow> bool \<Rightarrow> int \<Rightarrow> 'c \<Rightarrow> (error \<times> 'c) option" where
  "migrate_loop Op S foreignKeysEnabled schemaVersion c =
     (if int (length (sc_Migrations S)) \<le> schemaVersion then Some (None, c)
      else if schemaVersion < 0 then None
      else let v = nat schemaVersion; disableFKs = disable_fks S foreignKeysEnabled v in do {
        (err, c) \<leftarrow> (if disableFKs then m_exec Op ''PRAGMA foreign_keys = off;'' c else Some (None, c));
        if err \<noteq> None then Some (wrap_error ''migrate database: disable foreign keys: %w'' err, c)
        else do {
          (err, c) \<leftarrow> m_begin Op c;
          if err \<noteq> None then Some (wrap_error (apply_fmt schemaVersion) err, c)
          else do {
            ((actualSchemaVersion, err), c) \<leftarrow> m_userVersion Op c;
            if err \<noteq> None then do { c \<leftarrow> m_rollback Op c; Some (wrap_error ''migrate database: %w'' err, c) }
            else if actualSchemaVersion \<noteq> schemaVersion then do {
              c \<leftarrow> m_rollback Op c;
              migrate_loop Op S foreignKeysEnabled (wrap32 (wrap32 (actualSchemaVersion - 1) + 1)) c
            }
            else do {
              (err, c) \<leftarrow> apply_migration Op S v c;
              if err \<noteq> None then Some (err, c)
              else do {
                (err, c) \<leftarrow> (if disableFKs then m_exec Op ''PRAGMA foreign_keys = on;'' c else Some (None, c));
                if err \<noteq> None then Some (wrap_error ''migrate database: reenable foreign keys: %w'' err, c)
                else migrate_loop Op S foreignKeysEnabled (wrap32 (schemaVersion + 1)) c
              }
            }
          }
        }
      })"

text \<open>The statements are prepared once; deferred calls finalize them and restore the interrupt channel.  \<open>onStart\<close> is the caller's function.\<close>

definition SignalFunc_call :: "('c \<Rightarrow> 'c option) option \<Rightarrow> 'c \<Rightarrow> 'c option" where
  "SignalFunc_call f c = (case f of None \<Rightarrow> Some c | Some f \<Rightarrow> f c)"

definition migrate_prepared :: "lib_consts \<Rightarrow> ('w, 'm) sqlite_lib_scheme \<Rightarrow> (nat \<Rightarrow> bool) \<Rightarrow> Schema \<Rightarrow> bool \<Rightarrow> int \<Rightarrow> 'w Conn \<Rightarrow> (error \<times> 'w Conn) option" where
  "migrate_prepared K L isPrint S foreignKeysEnabled schemaVersion c =
     (case PrepareTransient K L ''BEGIN IMMEDIATE;'' c of ((beginStmt, _, err), c) \<Rightarrow>
        if err \<noteq> None then Some (wrap_error ''migrate database: %w'' err, c)
        else do {
          b \<leftarrow> beginStmt;
          (err, c) \<leftarrow> (case PrepareTransient K L ''COMMIT;'' c of ((commitStmt, _, err), c) \<Rightarrow>
            if err \<noteq> None then Some (wrap_error ''migrate database: %w'' err, c)
            else do {
              m \<leftarrow> commitStmt;
              (err, c) \<leftarrow> migrate_loop (conn_ops K L isPrint b m) S foreignKeysEnabled schemaVersion c;
              (_, c) \<leftarrow> Finalize K L m c;
              Some (err, c)
            });
          (_, c) \<leftarrow> Finalize K L b c;
          Some (err, c)
        })"

definition migrateDB :: "lib_consts \<Rightarrow> ('w, 'm) sqlite_lib_scheme \<Rightarrow> (nat \<Rightarrow> bool) \<Rightarrow> nat option \<Rightarrow> Schema \<Rightarrow> ('w Conn \<Rightarrow> 'w Conn option) option \<Rightarrow> 'w Conn \<Rightarrow> (error \<times> 'w Conn) option" where
  "migrateDB K L isPrint ctxDone S onStart c = do {
     (oldDoneCh, c) \<leftarrow> SetInterrupt K L ctxDone c;
     ((schemaVersion, err), c) \<leftarrow> ensureAppID K L isPrint (sc_AppID S) c;
     (err, c) \<leftarrow>
       (if err \<noteq> None then Some (wrap_error ''migrate database: %w'' err, c)
        else do {
          c \<leftarrow> SignalFunc_call onStart c;
          ((err, foreignKeysEnabled), c) \<leftarrow> capture_transient K L ''PRAGMA foreign_keys;'' (\<lambda>s c. ColumnBool L s 0 c) False c;
          if err \<noteq> None then Some (wrap_error ''migrate database: %w'' err, c)
          else migrate_prepared K L isPrint S foreignKeysEnabled schemaVersion c
        });
     (_, c) \<leftarrow> SetInterrupt K L oldDoneCh c;
     Some (err, c)
   }"

definition Migrate :: "lib_consts \<Rightarrow> ('w, 'm) sqlite_lib_scheme \<Rightarrow> (nat \<Rightarrow> bool) \<Rightarrow> nat option \<Rightarrow> Schema \<Rightarrow> 'w Conn \<Rightarrow> (error \<times> 'w Conn) option" where
  "Migrate K L isPrint ctxDone S c = migrateDB K L isPrint ctxDone S None c"

section \<open>What the loop needs of the connection\<close>

text \<open>The database as the connection sees it: outside a transaction, or in one, with the contents at its start and now.\<close>

datatype 'd mig_phase = Idle 'd | Open 'd 'd

definition mig_scripts :: "Schema \<Rightarrow> gostring set" where
  "mig_scripts S = insert (sc_RepeatableMigration S) (migration_script S ` {..< length (sc_Migrations S)})"

text \<open>\<open>ver\<close> is \<open>user_version\<close>, \<open>eff\<close> what a script does to the contents.  Outside of transactions other processes may change the database (\<open>oth\<close>).  An operation that fails in a
  transaction leaves it as it was, or SQLite has rolled it back; \<open>ROLLBACK\<close> works.\<close>

definition mig_ops_ok :: "'c mig_ops \<Rightarrow> Schema \<Rightarrow> ('c \<Rightarrow> 'd mig_phase) \<Rightarrow> ('d \<Rightarrow> int) \<Rightarrow> (gostring \<Rightarrow> 'd \<Rightarrow> 'd) \<Rightarrow> ('d \<Rightarrow> 'd \<Rightarrow> bool) \<Rightarrow> bool" where
  "mig_ops_ok Op S ph ver eff oth \<longleftrightarrow>
     (\<forall>q c d. ph c = Idle d \<longrightarrow> (\<exists>err c' d'. m_exec Op q c = Some (err, c') \<and> ph c' = Idle d' \<and> oth d d')) \<and>
     (\<forall>c d. ph c = Idle d \<longrightarrow> (\<exists>err c' d'. m_begin Op c = Some (err, c') \<and> ph c' = (if err = None then Open d' d' else Idle d') \<and> oth d d')) \<and>
     (\<forall>c d0 d. ph c = Open d0 d \<longrightarrow> (\<exists>v err c'. m_userVersion Op c = Some ((v, err), c') \<and>
        (if err = None then v = ver d \<and> ph c' = Open d0 d else ph c' = Open d0 d \<or> ph c' = Idle d0))) \<and>
     (\<forall>q \<in> mig_scripts S. \<forall>c d0 d. ph c = Open d0 d \<longrightarrow> (\<exists>err c'. m_script Op q c = Some (err, c') \<and>
        (if err = None then ph c' = Open d0 (eff q d) else ph c' = Open d0 d \<or> ph c' = Idle d0))) \<and>
     (\<forall>c d0 d. ph c = Open d0 d \<longrightarrow> (\<exists>err c'. m_commit Op c = Some (err, c') \<and> (if err = None then ph c' = Idle d else ph c' = Open d0 d \<or> ph c' = Idle d0))) \<and>
     (\<forall>c d0. ph c = Idle d0 \<or> (\<exists>d. ph c = Open d0 d) \<longrightarrow> (\<exists>c'. m_rollback Op c = Some c' \<and> ph c' = Idle d0))"

lemma mig_ops_okD:
  assumes "mig_ops_ok Op S ph ver eff oth"
  shows "ph c = Idle d \<Longrightarrow> \<exists>err c' d'. m_exec Op q c = Some (err, c') \<and> ph c' = Idle d' \<and> oth d d'"
    and "ph c = Idle d \<Longrightarrow> \<exists>err c' d'. m_begin Op c = Some (err, c') \<and> ph c' = (if err = None then Open d' d' else Idle d') \<and> oth d d'"
    and "ph c = Open d0 d \<Longrightarrow> \<exists>v err c'. m_userVersion Op c = Some ((v, err), c') \<and> (if err = None then v = ver d \<and> ph c' = Open d0 d else ph c' = Open d0 d \<or> ph c' = Idle d0)"
    and "q \<in> mig_scripts S \<Longrightarrow> ph c = Open d0 d \<Longrightarrow> \<exists>err c'. m_script Op q c = Some (err, c') \<and> (if err = None then ph c' = Open d0 (eff q d) else ph c' = Open d0 d \<or> ph c' = Idle d0)"
    and "ph c = Open d0 d \<Longrightarrow> \<exists>err c'. m_commit Op c = Some (err, c') \<and> (if err = None then ph c' = Idle d else ph c' = Open d0 d \<or> ph c' = Idle d0)"
    and "ph c = Open d0 d \<or> ph c = Idle d0 \<Longrightarrow> \<exists>c'. m_rollback Op c = Some c' \<and> ph c' = Idle d0"
  using assms unfolding mig_ops_ok_def by metis+

text \<open>The contents after the first \<open>i\<close> migrations (\<open>P i\<close>): \<open>user_version\<close> tells how many there were.  A migration leads from one stage to the next; so do the other processes.\<close>

definition mig_good :: "(nat \<Rightarrow> 'd \<Rightarrow> bool) \<Rightarrow> ('d \<Rightarrow> int) \<Rightarrow> 'd \<Rightarrow> bool" where
  "mig_good P ver d \<longleftrightarrow> 0 \<le> ver d \<and> ver d < 2 ^ 31 \<and> P (nat (ver d)) d"

definition mig_effect :: "Schema \<Rightarrow> (gostring \<Rightarrow> 'd \<Rightarrow> 'd) \<Rightarrow> nat \<Rightarrow> 'd \<Rightarrow> 'd" where
  "mig_effect S eff i d = (let d = eff (migration_script S i) d in
     if i = length (sc_Migrations S) - 1 \<and> sc_RepeatableMigration S \<noteq> '''' then eff (sc_RepeatableMigration S) d else d)"

definition schema_ok :: "Schema \<Rightarrow> (nat \<Rightarrow> 'd \<Rightarrow> bool) \<Rightarrow> ('d \<Rightarrow> int) \<Rightarrow> (gostring \<Rightarrow> 'd \<Rightarrow> 'd) \<Rightarrow> ('d \<Rightarrow> 'd \<Rightarrow> bool) \<Rightarrow> bool" where
  "schema_ok S P ver eff oth \<longleftrightarrow> int (length (sc_Migrations S)) < 2 ^ 31 \<and>
     (\<forall>i < length (sc_Migrations S). \<forall>d. ver d = int i \<longrightarrow> P i d \<longrightarrow> ver (mig_effect S eff i d) = int (i + 1) \<and> P (i + 1) (mig_effect S eff i d)) \<and>
     (\<forall>d d'. oth d d' \<longrightarrow> mig_good P ver d \<longrightarrow> mig_good P ver d' \<and> ver d \<le> ver d')"

lemma apply_migration_result:
  assumes ok: "mig_ops_ok Op S ph ver eff oth" and "v < length (sc_Migrations S)" and "ph c = Open d0 d"
  shows "\<exists>err c'. apply_migration Op S v c = Some (err, c') \<and> ph c' = Idle (if err = None then mig_effect S eff v d else d0)"
proof -
  have undo: "\<exists>c'. m_rollback Op c = Some c' \<and> ph c' = Idle d0" if "ph c = Open d0 d \<or> ph c = Idle d0" for c d using mig_ops_okD(6) [OF ok that] .
  have fail: "\<exists>err c'. (m_rollback Op c \<bind> (\<lambda>c. Some (wrap_error fmt (Some e), c))) = Some (err, c') \<and> ph c' = Idle (if err = None then x else d0)"
    if "ph c = Open d0 d \<or> ph c = Idle d0" for c d fmt e x using undo [OF that] by (auto simp: wrap_error_def)
  have m1: "migration_script S v \<in> mig_scripts S" and m2: "sc_RepeatableMigration S \<in> mig_scripts S" using assms(2) by (auto simp: mig_scripts_def)
  let ?last = "v = length (sc_Migrations S) - 1 \<and> sc_RepeatableMigration S \<noteq> ''''"
  obtain e1 c1 where s1: "m_script Op (migration_script S v) c = Some (e1, c1)" "if e1 = None then ph c1 = Open d0 (eff (migration_script S v) d) else ph c1 = Open d0 d \<or> ph c1 = Idle d0"
    using mig_ops_okD(4) [OF ok m1 assms(3)] by blast
  show ?thesis
  proof (cases e1)
    case (Some e)
    then show ?thesis using s1 fail [of c1 d] by (auto simp: apply_migration_def)
  next
    case None
    then have p1: "ph c1 = Open d0 (eff (migration_script S v) d)" using s1 by simp
    obtain e2 c2 where s2: "(if ?last then m_script Op (sc_RepeatableMigration S) c1 else Some (None, c1)) = Some (e2, c2)"
      "if e2 = None then ph c2 = Open d0 (mig_effect S eff v d) else (\<exists>d. ph c2 = Open d0 d \<or> ph c2 = Idle d0)"
    proof (cases ?last)
      case True
      obtain e2 c2 where "m_script Op (sc_RepeatableMigration S) c1 = Some (e2, c2)"
        "if e2 = None then ph c2 = Open d0 (eff (sc_RepeatableMigration S) (eff (migration_script S v) d)) else ph c2 = Open d0 (eff (migration_script S v) d) \<or> ph c2 = Idle d0"
        using mig_ops_okD(4) [OF ok m2 p1] by blast
      then show ?thesis using that [of e2 c2] True by (auto simp: mig_effect_def Let_def split: if_splits)
    next
      case False
      then show ?thesis using that [of None c1] p1 by (auto simp: mig_effect_def Let_def)
    qed
    show ?thesis
    proof (cases e2)
      case (Some e)
      then obtain x where "ph c2 = Open d0 x \<or> ph c2 = Idle d0" using s2(2) by auto
      then show ?thesis using s1(1) None s2(1) Some fail [of c2 x] by (auto simp: apply_migration_def)
    next
      case None
      then have p2: "ph c2 = Open d0 (mig_effect S eff v d)" using s2(2) by simp
      obtain e3 c3 where s3: "m_commit Op c2 = Some (e3, c3)" "if e3 = None then ph c3 = Idle (mig_effect S eff v d) else ph c3 = Open d0 (mig_effect S eff v d) \<or> ph c3 = Idle d0"
        using mig_ops_okD(5) [OF ok p2] by blast
      then show ?thesis using s1(1) \<open>e1 = None\<close> s2(1) None fail [of c3 "mig_effect S eff v d"] by (cases e3) (auto simp: apply_migration_def)
    qed
  qed
qed

text \<open>How a turn of the loop ends, begun with the contents \<open>d\<close>: with an error, or with the next turn at a greater version.  It is outside of transactions, at a stage of the schema.\<close>

definition mig_stage :: "('c \<Rightarrow> 'd mig_phase) \<Rightarrow> (nat \<Rightarrow> 'd \<Rightarrow> bool) \<Rightarrow> ('d \<Rightarrow> int) \<Rightarrow> int \<Rightarrow> 'c \<Rightarrow> bool" where
  "mig_stage ph P ver v c \<longleftrightarrow> (\<exists>d. ph c = Idle d \<and> mig_good P ver d \<and> v \<le> ver d)"

definition mig_turn :: "'c mig_ops \<Rightarrow> Schema \<Rightarrow> bool \<Rightarrow> ('c \<Rightarrow> 'd mig_phase) \<Rightarrow> (nat \<Rightarrow> 'd \<Rightarrow> bool) \<Rightarrow> ('d \<Rightarrow> int) \<Rightarrow> int \<Rightarrow> int \<Rightarrow> (error \<times> 'c) option \<Rightarrow> bool" where
  "mig_turn Op S fk ph P ver v low r \<longleftrightarrow> (\<exists>e c. r = Some (Some e, c) \<and> mig_stage ph P ver low c) \<or>
     (\<exists>v' c. r = migrate_loop Op S fk v' c \<and> v < v' \<and> mig_stage ph P ver (max low v') c)"

lemma mig_stage_mono: "mig_stage ph P ver v c \<Longrightarrow> w \<le> v \<Longrightarrow> mig_stage ph P ver w c"
  by (auto simp: mig_stage_def)

lemma mig_turn_err: "mig_stage ph P ver low c \<Longrightarrow> mig_turn Op S fk ph P ver v low (Some (Some e, c))"
  by (auto simp: mig_turn_def)

lemma mig_turn_next: "mig_stage ph P ver w c \<Longrightarrow> v < v' \<Longrightarrow> max low v' \<le> w \<Longrightarrow> mig_turn Op S fk ph P ver v low (migrate_loop Op S fk v' c)"
  unfolding mig_turn_def using mig_stage_mono [of ph P ver w c "max low v'"] by blast

lemma mig_turn_mono: "mig_turn Op S fk ph P ver v low r \<Longrightarrow> low' \<le> low \<Longrightarrow> mig_turn Op S fk ph P ver v low' r"
  unfolding mig_turn_def by (elim disjE exE conjE) (blast intro: mig_stage_mono max.mono)+

lemma schema_okD:
  assumes "schema_ok S P ver eff oth"
  shows "int (length (sc_Migrations S)) < 2 ^ 31" and "oth d d' \<Longrightarrow> mig_good P ver d \<Longrightarrow> mig_good P ver d' \<and> ver d \<le> ver d'"
    and "i < length (sc_Migrations S) \<Longrightarrow> ver d = int i \<Longrightarrow> mig_good P ver d \<Longrightarrow> mig_good P ver (mig_effect S eff i d) \<and> ver (mig_effect S eff i d) = int i + 1"
proof -
  show n: "int (length (sc_Migrations S)) < 2 ^ 31" using assms by (simp add: schema_ok_def)
  show "mig_good P ver d' \<and> ver d \<le> ver d'" if "oth d d'" "mig_good P ver d" using assms that unfolding schema_ok_def by blast
  show "mig_good P ver (mig_effect S eff i d) \<and> ver (mig_effect S eff i d) = int i + 1" if "i < length (sc_Migrations S)" "ver d = int i" "mig_good P ver d"
  proof -
    have "ver (mig_effect S eff i d) = int (i + 1) \<and> P (i + 1) (mig_effect S eff i d)" using assms that unfolding schema_ok_def mig_good_def by simp
    then show ?thesis using n that(1) by (simp add: mig_good_def nat_add_distrib)
  qed
qed

lemma set_fks_result:
  assumes "mig_ops_ok Op S ph ver eff oth" and "schema_ok S P ver eff oth" and "mig_stage ph P ver v c"
  shows "\<exists>err c'. (if dis then m_exec Op q c else Some (None, c)) = Some (err, c') \<and> mig_stage ph P ver v c'"
proof -
  obtain d where d: "ph c = Idle d" "mig_good P ver d" "v \<le> ver d" using assms(3) by (auto simp: mig_stage_def)
  obtain err c' d' where "m_exec Op q c = Some (err, c')" "ph c' = Idle d'" "oth d d'" using mig_ops_okD(1) [OF assms(1) d(1)] by blast
  then show ?thesis using schema_okD(2) [OF assms(2), of d d'] d assms(3) unfolding mig_stage_def by (cases dis) fastforce+
qed

lemma begin_result:
  assumes "mig_ops_ok Op S ph ver eff oth" and "schema_ok S P ver eff oth" and "mig_stage ph P ver v c"
  shows "\<exists>err c'. m_begin Op c = Some (err, c') \<and> (if err = None then \<exists>d. ph c' = Open d d \<and> mig_good P ver d \<and> v \<le> ver d else mig_stage ph P ver v c')"
proof -
  obtain d where d: "ph c = Idle d" "mig_good P ver d" "v \<le> ver d" using assms(3) by (auto simp: mig_stage_def)
  obtain err c' d' where b: "m_begin Op c = Some (err, c')" "ph c' = (if err = None then Open d' d' else Idle d')" "oth d d'" using mig_ops_okD(2) [OF assms(1) d(1)] by blast
  have "mig_good P ver d'" "v \<le> ver d'" using schema_okD(2) [OF assms(2) b(3) d(2)] d(3) by auto
  then show ?thesis using b by (auto simp: mig_stage_def)
qed

text \<open>The turn from its migration on.\<close>

lemma apply_turn:
  assumes ok: "mig_ops_ok Op S ph ver eff oth" and sc: "schema_ok S P ver eff oth" and "ph c = Open d d" and "mig_good P ver d" and "ver d = v" and "v < int (length (sc_Migrations S))"
  shows "mig_turn Op S fk ph P ver v v (apply_migration Op S (nat v) c \<bind> (\<lambda>(err, c). if err \<noteq> None then Some (err, c)
     else (if dis then m_exec Op q c else Some (None, c)) \<bind> (\<lambda>(err, c). if err \<noteq> None then Some (wrap_error fmt err, c) else migrate_loop Op S fk (wrap32 (v + 1)) c)))"
proof -
  have v: "0 \<le> v" "nat v < length (sc_Migrations S)" using assms(4-6) by (auto simp: mig_good_def)
  obtain e1 c1 where a: "apply_migration Op S (nat v) c = Some (e1, c1)" "ph c1 = Idle (if e1 = None then mig_effect S eff (nat v) d else d)"
    using apply_migration_result [OF ok v(2) assms(3)] by blast
  show ?thesis
  proof (cases e1)
    case (Some e)
    then show ?thesis using a assms(4,5) by (simp add: mig_turn_def mig_stage_def)
  next
    case None
    then have "mig_stage ph P ver (v + 1) c1" using schema_okD(3) [OF sc v(2) _ assms(4)] a(2) assms(5) v(1) by (simp add: mig_stage_def)
    from set_fks_result [OF ok sc this] obtain e2 c2 where f: "(if dis then m_exec Op q c1 else Some (None, c1)) = Some (e2, c2)" "mig_stage ph P ver (v + 1) c2" by blast
    have "wrap32 (v + 1) = v + 1" using v schema_okD(1) [OF sc] by (simp add: wrap32_id in_int32_def)
    then show ?thesis using a(1) None f mig_turn_err [OF mig_stage_mono [OF f(2), of v]] mig_turn_next [OF f(2), of v "v + 1" v] by (cases e2) (simp_all add: wrap_error_def)
  qed
qed

text \<open>The turn from the check of the version on.\<close>

lemma version_turn:
  assumes ok: "mig_ops_ok Op S ph ver eff oth" and sc: "schema_ok S P ver eff oth" and "ph c = Open d d" and "mig_good P ver d" and "v \<le> ver d" and "v < int (length (sc_Migrations S))"
  shows "mig_turn Op S fk ph P ver v (ver d) (m_userVersion Op c \<bind> (\<lambda>((x, err), c). if err \<noteq> None then m_rollback Op c \<bind> (\<lambda>c. Some (wrap_error fmt0 err, c))
     else if x \<noteq> v then m_rollback Op c \<bind> (\<lambda>c. migrate_loop Op S fk (wrap32 (wrap32 (x - 1) + 1)) c)
     else apply_migration Op S (nat v) c \<bind> (\<lambda>(err, c). if err \<noteq> None then Some (err, c)
     else (if dis then m_exec Op q c else Some (None, c)) \<bind> (\<lambda>(err, c). if err \<noteq> None then Some (wrap_error fmt err, c) else migrate_loop Op S fk (wrap32 (v + 1)) c))))"
proof -
  obtain x e c1 where u: "m_userVersion Op c = Some ((x, e), c1)" "if e = None then x = ver d \<and> ph c1 = Open d d else ph c1 = Open d d \<or> ph c1 = Idle d"
    using mig_ops_okD(3) [OF ok assms(3)] by blast
  then have "ph c1 = Open d d \<or> ph c1 = Idle d" by (auto split: if_splits)
  then obtain c2 where r: "m_rollback Op c1 = Some c2" "ph c2 = Idle d" using mig_ops_okD(6) [OF ok] by blast
  consider e' where "e = Some e'" | "e = None" "x \<noteq> v" | "e = None" "x = v" by blast
  then show ?thesis
  proof cases
    case 1
    then show ?thesis using u(1) r assms(4) by (auto simp: mig_turn_def mig_stage_def wrap_error_def)
  next
    case 2
    have x: "x = ver d" using u(2) 2 by simp
    then have "wrap32 (wrap32 (x - 1) + 1) = x" using assms(4) by (simp add: mig_good_def wrap32_id in_int32_def)
    moreover have "mig_turn Op S fk ph P ver v (ver d) (migrate_loop Op S fk x c2)" by (rule mig_turn_next [where w = "ver d"]) (use r assms(4,5) 2 x in \<open>auto simp: mig_stage_def\<close>)
    ultimately show ?thesis using u(1) r 2 by simp
  next
    case 3
    then have "ph c1 = Open d d" "ver d = v" using u(2) by auto
    then show ?thesis using u(1) 3 apply_turn [OF ok sc _ assms(4) _ assms(6)] by simp
  qed
qed

lemma migrate_turn:
  assumes ok: "mig_ops_ok Op S ph ver eff oth" and sc: "schema_ok S P ver eff oth" and "mig_stage ph P ver low c" and "0 \<le> v" and "v \<le> low" and "v < int (length (sc_Migrations S))"
  shows "mig_turn Op S fk ph P ver v low (migrate_loop Op S fk v c)"
proof -
  let ?dis = "disable_fks S fk (nat v)"
  obtain e1 c1 where f: "(if ?dis then m_exec Op ''PRAGMA foreign_keys = off;'' c else Some (None, c)) = Some (e1, c1)" "mig_stage ph P ver low c1"
    using set_fks_result [OF ok sc assms(3)] by blast
  obtain e2 c2 where b: "m_begin Op c1 = Some (e2, c2)" "if e2 = None then \<exists>d. ph c2 = Open d d \<and> mig_good P ver d \<and> low \<le> ver d else mig_stage ph P ver low c2"
    using begin_result [OF ok sc f(2)] by blast
  consider e where "e1 = Some e" | e where "e1 = None" "e2 = Some e" | "e1 = None" "e2 = None" by (cases e1; cases e2) auto
  then show ?thesis
  proof cases
    case 3
    then obtain d where d: "ph c2 = Open d d" "mig_good P ver d" "low \<le> ver d" using b(2) by auto
    show ?thesis using assms(4,6) f(1) b(1) 3 mig_turn_mono [OF version_turn [OF ok sc d(1,2) order_trans [OF assms(5) d(3)] assms(6)] d(3)]
      by (subst migrate_loop.simps) (simp add: Let_def)
  qed (use assms(4,6) f b in \<open>subst migrate_loop.simps, simp add: mig_turn_def wrap_error_def\<close>)+
qed


text \<open>A database that records the scripts run on it, with two migrations and no other processes.\<close>

definition log_ops :: "gostring list mig_phase mig_ops" where
  "log_ops = \<lparr>m_exec = (\<lambda>q c. Some (None, c)), m_begin = (\<lambda>c. Some (None, case c of Idle d \<Rightarrow> Open d d | Open a b \<Rightarrow> Open a b)),
     m_commit = (\<lambda>c. Some (None, case c of Idle d \<Rightarrow> Idle d | Open a b \<Rightarrow> Idle b)), m_rollback = (\<lambda>c. Some (case c of Idle d \<Rightarrow> Idle d | Open a b \<Rightarrow> Idle a)),
     m_userVersion = (\<lambda>c. Some ((case c of Idle d \<Rightarrow> int (length d) | Open a b \<Rightarrow> int (length b), None), c)),
     m_script = (\<lambda>q c. Some (None, case c of Idle d \<Rightarrow> Idle (d @ [q]) | Open a b \<Rightarrow> Open a (b @ [q])))\<rparr>"

definition two_migrations :: Schema where
  "two_migrations = \<lparr>sc_Migrations = [''CREATE TABLE a(x)'', ''CREATE TABLE b(x)''], sc_MigrationOptions = [], sc_AppID = 7, sc_RepeatableMigration = ''''\<rparr>"

lemma log_ops_ok: "mig_ops_ok log_ops S id (\<lambda>d. int (length d)) (\<lambda>q d. d @ [q]) (=)"
  unfolding mig_ops_ok_def log_ops_def by auto

lemma two_migrations_ok:
  "schema_ok two_migrations (\<lambda>i d. d = map (migration_script two_migrations) [0..<i]) (\<lambda>d. int (length d)) (\<lambda>q d. d @ [q]) (=)"
  by (auto simp: schema_ok_def mig_effect_def two_migrations_def)

lemma two_migrations_run:
  "migrate_loop log_ops two_migrations True 0 (Idle []) = Some (None, Idle [migration_script two_migrations 0, migration_script two_migrations 1])"
  by (simp add: migrate_loop.simps log_ops_def apply_migration_def disable_fks_def two_migrations_def in_int32_def)


section \<open>The pool\<close>

text \<open>
  A pool opens and migrates the database in a goroutine (\<open>open\<close>); \<open>Take\<close> waits for it.  The goroutine is at the start of an attempt, waits for a retry after a failed one, or is done.
  \<open>retry\<close> is a channel for one signal; \<open>ready\<close> is closed at the end; the context is cancelled by \<open>Close\<close>.  The calls of \<open>OnError\<close> and \<open>OnReady\<close> are kept as a log.
\<close>

datatype open_phase = Trying | Waiting | Finished

datatype pool_signal = OnError go_error | OnReady

record 'p mig_pool =
  mp_phase :: open_phase
  mp_retry :: bool
  mp_ready :: bool
  mp_cancelled :: bool
  mp_pool :: "'p option"
  mp_err :: error
  mp_closed :: bool
  mp_log :: "pool_signal list"

definition mig_NewPool :: "'p mig_pool" where
  "mig_NewPool = \<lparr>mp_phase = Trying, mp_retry = False, mp_ready = False, mp_cancelled = False, mp_pool = None, mp_err = None, mp_closed = False, mp_log = []\<rparr>"

definition err_closed_early :: go_error where
  "err_closed_early = ErrorString ''closed before successful migration''"

text \<open>The end of the goroutine: the results are stored, an error is reported, the context is cancelled and \<open>ready\<close> closed.\<close>

definition open_finish :: "'p option \<Rightarrow> error \<Rightarrow> 'p mig_pool \<Rightarrow> 'p mig_pool" where
  "open_finish p err s = s\<lparr>mp_phase := Finished, mp_pool := p, mp_err := err, mp_log := mp_log s @ (case err of None \<Rightarrow> [] | Some e \<Rightarrow> [OnError e]), mp_cancelled := True, mp_ready := True\<rparr>"

definition close_report :: "gostring \<Rightarrow> error \<Rightarrow> 'p mig_pool \<Rightarrow> 'p mig_pool" where
  "close_report what closeErr s = (case closeErr of None \<Rightarrow> s | Some e \<Rightarrow> s\<lparr>mp_log := mp_log s @ [OnError (Errorf (what @ '': %w'') e)]\<rparr>)"

text \<open>What an attempt of the loop in \<open>open\<close> can meet: the pool of connections cannot be made; its \<open>Take\<close> is cancelled or fails; the migration fails; all is well.\<close>

datatype 'p attempt = NoPool go_error | TakeCancelled | TakeFailed go_error error | MigrateFailed go_error error | Migrated 'p

definition open_attempt :: "'p attempt \<Rightarrow> 'p mig_pool \<Rightarrow> 'p mig_pool" where
  "open_attempt a s = (case a of
     NoPool e \<Rightarrow> s\<lparr>mp_phase := Waiting, mp_log := mp_log s @ [OnError e]\<rparr>
   | TakeCancelled \<Rightarrow> open_finish None (Some err_closed_early) s
   | TakeFailed e closeErr \<Rightarrow> open_finish None (Some e) (close_report ''close after failed connection preparation'' closeErr s)
   | MigrateFailed e closeErr \<Rightarrow> open_finish None (Some e) (close_report ''close after failed migration'' closeErr s)
   | Migrated p \<Rightarrow> open_finish (Some p) None (s\<lparr>mp_log := mp_log s @ [OnReady]\<rparr>))"

text \<open>The first part of \<open>Take\<close>: a signal for another attempt, dropped if there is one already.  Then it waits for \<open>ready\<close> (\<open>None\<close>: still waiting).\<close>

definition Take_signal :: "'p mig_pool \<Rightarrow> 'p mig_pool" where
  "Take_signal s = s\<lparr>mp_retry := True\<rparr>"

definition mig_Take :: "('p \<Rightarrow> 'r \<times> error) \<Rightarrow> 'p mig_pool \<Rightarrow> ('r option \<times> error) option" where
  "mig_Take tk s =
     (if \<not> mp_ready s then None
      else if mp_err s \<noteq> None then Some (None, wrap_error ''get sqlite connection: %w'' (mp_err s))
      else case mp_pool s of
        None \<Rightarrow> None
      | Some p \<Rightarrow> (case tk p of (conn, err) \<Rightarrow> if err \<noteq> None then Some (None, wrap_error ''get sqlite connection: %w'' err) else Some (Some conn, None)))"

text \<open>\<open>None\<close>: a panic.\<close>

definition mig_Put :: "'p mig_pool \<Rightarrow> 'p option" where
  "mig_Put s = (if \<not> mp_ready s then None else if mp_err s \<noteq> None then None else mp_pool s)"

definition CheckHealth :: "'p mig_pool \<Rightarrow> error" where
  "CheckHealth s =
     (if mp_closed s then Some (ErrorString ''sqlite pool health: closed'')
      else if mp_ready s then wrap_error ''sqlite pool health: %w'' (mp_err s)
      else Some (ErrorString ''sqlite pool health: not ready''))"

text \<open>\<open>Close\<close> before and after it has waited for \<open>ready\<close>: the pool of connections to close, if there is one.\<close>

definition Close_begin :: "'p mig_pool \<Rightarrow> error \<times> 'p mig_pool" where
  "Close_begin s = (if mp_closed s then (Some (ErrorString ''close sqlite pool: already closed''), s) else (None, s\<lparr>mp_closed := True, mp_cancelled := True\<rparr>))"

definition Close_end :: "'p mig_pool \<Rightarrow> 'p option" where
  "Close_end s = mp_pool s"

inductive mig_pool_step :: "'p mig_pool \<Rightarrow> 'p mig_pool \<Rightarrow> bool" where
  attempt: "mp_phase s = Trying \<Longrightarrow> mig_pool_step s (open_attempt a s)"
| again: "mp_phase s = Waiting \<Longrightarrow> mp_retry s \<Longrightarrow> mig_pool_step s (s\<lparr>mp_phase := Trying, mp_retry := False\<rparr>)"
| stopped: "mp_phase s = Waiting \<Longrightarrow> mp_cancelled s \<Longrightarrow> mig_pool_step s (open_finish None (Some err_closed_early) s)"
| signal: "mig_pool_step s (Take_signal s)"
| close: "Close_begin s = (None, s') \<Longrightarrow> mig_pool_step s s'"

inductive mig_pool_reach :: "'p mig_pool \<Rightarrow> bool" where
  new: "mig_pool_reach mig_NewPool"
| step: "mig_pool_reach s \<Longrightarrow> mig_pool_step s s' \<Longrightarrow> mig_pool_reach s'"

lemma mig_pool_inv:
  assumes "mig_pool_reach s"
  shows "(mp_ready s \<longleftrightarrow> mp_phase s = Finished) \<and> (mp_ready s \<longrightarrow> (mp_err s = None \<longleftrightarrow> mp_pool s \<noteq> None)) \<and> (\<not> mp_ready s \<longrightarrow> mp_pool s = None \<and> mp_err s = None) \<and>
    count_list (mp_log s) OnReady = (if mp_ready s \<and> mp_err s = None then 1 else 0)"
  using assms
proof (induction rule: mig_pool_reach.induct)
  case new
  then show ?case by (simp add: mig_NewPool_def)
next
  case (step s s')
  have c: "mp_ready (close_report w e s) = mp_ready s" "mp_phase (close_report w e s) = mp_phase s" "count_list (mp_log (close_report w e s)) OnReady = count_list (mp_log s) OnReady"
    "mp_pool (close_report w e s) = mp_pool s" "mp_err (close_report w e s) = mp_err s" for w e by (simp_all add: close_report_def split: option.splits)
  from step.hyps(2) show ?case
  proof cases
    case (attempt a)
    then show ?thesis using step.IH c by (cases a) (auto simp: open_attempt_def open_finish_def)
  qed (use step.IH in \<open>auto simp: open_finish_def Take_signal_def Close_begin_def split: if_splits\<close>)
qed

text \<open>Connections come from a migrated pool only; who has got one can put it back; the pool is healthy exactly when it is ready, migrated and not closed; a closed pool comes to an end.\<close>

lemma mig_pool_correct:
  assumes "mig_pool_reach s"
  shows "mig_Take tk s = Some (Some conn, None) \<Longrightarrow> OnReady \<in> set (mp_log s) \<and> mig_Put s \<noteq> None"
    and "CheckHealth s = None \<longleftrightarrow> \<not> mp_closed s \<and> mp_ready s \<and> mp_err s = None"
    and "mp_cancelled s \<Longrightarrow> mp_phase s = Waiting \<Longrightarrow> \<exists>s'. mig_pool_step s s' \<and> mp_ready s'"
    and "mp_ready s \<Longrightarrow> mig_Take tk s \<noteq> None"
proof -
  note inv = mig_pool_inv [OF assms]
  show "OnReady \<in> set (mp_log s) \<and> mig_Put s \<noteq> None" if "mig_Take tk s = Some (Some conn, None)"
  proof -
    have "mp_ready s" "mp_err s = None" "mp_pool s \<noteq> None" using that by (auto simp: mig_Take_def split: if_splits option.splits)
    moreover from this have "count_list (mp_log s) OnReady \<noteq> 0" using inv by simp
    then have "OnReady \<in> set (mp_log s)" by (metis count_notin)
    ultimately show ?thesis by (simp add: mig_Put_def)
  qed
  show "CheckHealth s = None \<longleftrightarrow> \<not> mp_closed s \<and> mp_ready s \<and> mp_err s = None" by (simp add: CheckHealth_def wrap_error_def)
  show "\<exists>s'. mig_pool_step s s' \<and> mp_ready s'" if "mp_cancelled s" "mp_phase s = Waiting"
    using mig_pool_step.stopped [OF that(2,1)] by (auto simp: open_finish_def)
  show "mig_Take tk s \<noteq> None" if "mp_ready s" using that inv by (cases "mp_err s"; cases "mp_pool s"; cases "tk (the (mp_pool s))"; cases "snd (tk (the (mp_pool s)))") (auto simp: mig_Take_def)
qed

text \<open>A migration that runs without foreign keys and fails leaves them off: nothing on the way out turns them on again.\<close>

definition fk_ops :: "bool mig_ops" where
  "fk_ops = \<lparr>m_exec = (\<lambda>q _. Some (None, q = ''PRAGMA foreign_keys = on;'')), m_begin = (\<lambda>c. Some (None, c)), m_commit = (\<lambda>c. Some (None, c)), m_rollback = Some,
     m_userVersion = (\<lambda>c. Some ((0, None), c)), m_script = (\<lambda>q c. Some (Some (ErrorString ''syntax error''), c))\<rparr>"

lemma foreign_keys_stay_off:
  "\<exists>err. migrate_loop fk_ops \<lparr>sc_Migrations = [''x''], sc_MigrationOptions = [Some \<lparr>mo_DisableForeignKeys = True\<rparr>], sc_AppID = 0, sc_RepeatableMigration = ''''\<rparr> True 0 True = Some (Some err, False)"
  by (simp add: migrate_loop.simps fk_ops_def disable_fks_def apply_migration_def wrap_error_def)

end
