(* ===== verification/Auth.thy ===== *)
theory Auth
  imports Stmt
begin

text \<open>
  Authorizers (auth.go): the table of authorizers by connection, the trampoline that asks one of them, and the accessors of an action, which give names to the arguments that
  SQLite passes.
\<close>

section \<open>Actions\<close>

record Action =
  a_op :: int
  a_arg1 :: gostring
  a_arg2 :: gostring
  a_database :: gostring
  a_trigger :: gostring

text \<open>\<open>case\<close> labels: the operation is one of those with these names in C.\<close>

definition op_in :: "lib_consts \<Rightarrow> gostring list \<Rightarrow> Action \<Rightarrow> bool" where
  "op_in K names action \<longleftrightarrow> a_op action \<in> set (map K names)"

definition Action_Type :: "Action \<Rightarrow> int" where "Action_Type action = a_op action"
definition Action_Accessor :: "Action \<Rightarrow> gostring" where "Action_Accessor action = a_trigger action"

definition Action_Database :: "lib_consts \<Rightarrow> Action \<Rightarrow> gostring" where
  "Action_Database K action = (if op_in K [''SQLITE_DETACH'', ''SQLITE_ALTER_TABLE''] action then a_arg1 action else a_database action)"

definition Action_Index :: "lib_consts \<Rightarrow> Action \<Rightarrow> gostring" where
  "Action_Index K action =
     (if op_in K [''SQLITE_CREATE_INDEX'', ''SQLITE_CREATE_TEMP_INDEX'', ''SQLITE_DROP_INDEX'', ''SQLITE_DROP_TEMP_INDEX'', ''SQLITE_REINDEX''] action
      then a_arg1 action else '''')"

definition Action_Table :: "lib_consts \<Rightarrow> Action \<Rightarrow> gostring" where
  "Action_Table K action =
     (if op_in K [''SQLITE_CREATE_TABLE'', ''SQLITE_CREATE_TEMP_TABLE'', ''SQLITE_DELETE'', ''SQLITE_DROP_TABLE'', ''SQLITE_DROP_TEMP_TABLE'', ''SQLITE_INSERT'',
         ''SQLITE_READ'', ''SQLITE_UPDATE'', ''SQLITE_ANALYZE'', ''SQLITE_CREATE_VTABLE'', ''SQLITE_DROP_VTABLE''] action
      then a_arg1 action
      else if op_in K [''SQLITE_CREATE_INDEX'', ''SQLITE_CREATE_TEMP_INDEX'', ''SQLITE_CREATE_TEMP_TRIGGER'', ''SQLITE_CREATE_TRIGGER'', ''SQLITE_DROP_INDEX'',
         ''SQLITE_DROP_TEMP_INDEX'', ''SQLITE_DROP_TEMP_TRIGGER'', ''SQLITE_DROP_TRIGGER'', ''SQLITE_ALTER_TABLE''] action
      then a_arg2 action else '''')"

definition Action_Trigger :: "lib_consts \<Rightarrow> Action \<Rightarrow> gostring" where
  "Action_Trigger K action =
     (if op_in K [''SQLITE_CREATE_TEMP_TRIGGER'', ''SQLITE_CREATE_TRIGGER'', ''SQLITE_DROP_TEMP_TRIGGER'', ''SQLITE_DROP_TRIGGER''] action
      then a_arg1 action else '''')"

definition Action_View :: "lib_consts \<Rightarrow> Action \<Rightarrow> gostring" where
  "Action_View K action =
     (if op_in K [''SQLITE_CREATE_TEMP_VIEW'', ''SQLITE_CREATE_VIEW'', ''SQLITE_DROP_TEMP_VIEW'', ''SQLITE_DROP_VIEW''] action then a_arg1 action else '''')"

definition Action_Pragma :: "lib_consts \<Rightarrow> Action \<Rightarrow> gostring" where
  "Action_Pragma K action = (if a_op action \<noteq> K ''SQLITE_PRAGMA'' then '''' else a_arg1 action)"

definition Action_PragmaArg :: "lib_consts \<Rightarrow> Action \<Rightarrow> gostring" where
  "Action_PragmaArg K action = (if a_op action \<noteq> K ''SQLITE_PRAGMA'' then '''' else a_arg2 action)"

definition Action_Column :: "lib_consts \<Rightarrow> Action \<Rightarrow> gostring" where
  "Action_Column K action = (if op_in K [''SQLITE_READ'', ''SQLITE_UPDATE''] action then a_arg2 action else '''')"

definition Action_Operation :: "lib_consts \<Rightarrow> Action \<Rightarrow> gostring" where
  "Action_Operation K action = (if op_in K [''SQLITE_TRANSACTION'', ''SQLITE_SAVEPOINT''] action then a_arg1 action else '''')"

definition Action_File :: "lib_consts \<Rightarrow> Action \<Rightarrow> gostring" where
  "Action_File K action = (if a_op action \<noteq> K ''SQLITE_ATTACH'' then '''' else a_arg1 action)"

definition Action_Module :: "lib_consts \<Rightarrow> Action \<Rightarrow> gostring" where
  "Action_Module K action = (if op_in K [''SQLITE_CREATE_VTABLE'', ''SQLITE_DROP_VTABLE''] action then a_arg2 action else '''')"

definition Action_Savepoint :: "lib_consts \<Rightarrow> Action \<Rightarrow> gostring" where
  "Action_Savepoint K action = (if a_op action \<noteq> K ''SQLITE_SAVEPOINT'' then '''' else a_arg2 action)"

definition action_params :: "lib_consts \<Rightarrow> Action \<Rightarrow> (gostring \<times> gostring) list" where
  "action_params K action =
     [(''database'', Action_Database K action), (''file'', Action_File K action), (''trigger'', Action_Trigger K action), (''index'', Action_Index K action),
      (''table'', Action_Table K action), (''view'', Action_View K action), (''module'', Action_Module K action), (''column'', Action_Column K action),
      (''operation'', Action_Operation K action), (''savepoint'', Action_Savepoint K action), (''pragma'', Action_Pragma K action), (''arg'', Action_PragmaArg K action)]"

definition Action_String :: "lib_consts \<Rightarrow> Action \<Rightarrow> gostring" where
  "Action_String K action = OpType_String K (a_op action) @
     concat (map (\<lambda>(name, value). if value \<noteq> '''' then '' '' @ name @ '':'' @ value else '''') (action_params K action))"

section \<open>The table of authorizers\<close>

text \<open>An authorizer is a reference; \<open>ask\<close> is what its method answers.  SQLite keeps, for each connection, whether the trampoline is installed.\<close>

record 'w auth_lib =
  x_set_authorizer :: "nat \<Rightarrow> bool \<Rightarrow> 'w \<Rightarrow> int \<times> 'w"

record 'w auth_state =
  au_m :: "nat \<rightharpoonup> nat"
  au_world :: 'w

definition releaseAuthorizer :: "nat \<Rightarrow> 'w auth_state \<Rightarrow> 'w auth_state" where
  "releaseAuthorizer conn s = s\<lparr>au_m := (au_m s)(conn := None)\<rparr>"

definition set_authorizer :: "lib_consts \<Rightarrow> 'w auth_lib \<Rightarrow> nat \<Rightarrow> bool \<Rightarrow> 'w auth_state \<Rightarrow> error \<times> 'w auth_state" where
  "set_authorizer K L conn on s = (case x_set_authorizer L conn on (au_world s) of (res, w) \<Rightarrow>
     (wrap_error ''sqlite: set authorizer: %w'' (ToError K res), s\<lparr>au_world := w\<rparr>))"

definition SetAuthorizer :: "lib_consts \<Rightarrow> 'w auth_lib \<Rightarrow> nat option \<Rightarrow> nat option \<Rightarrow> 'w auth_state \<Rightarrow> error \<times> 'w auth_state" where
  "SetAuthorizer K L c auth s = (case c of
     None \<Rightarrow> (Some (ErrorString ''sqlite: set authorizer: nil connection''), s)
   | Some conn \<Rightarrow> (case auth of
       None \<Rightarrow> set_authorizer K L conn False (releaseAuthorizer conn s)
     | Some a \<Rightarrow> set_authorizer K L conn True (s\<lparr>au_m := (au_m s)(conn \<mapsto> a)\<rparr>)))"

text \<open>A null argument is the empty string.  The call of a missing authorizer is a nil panic.\<close>

definition GoString :: "gostring option \<Rightarrow> gostring" where
  "GoString s = (case s of None \<Rightarrow> '''' | Some s \<Rightarrow> s)"

definition authTrampoline :: "(nat \<Rightarrow> Action \<Rightarrow> int) \<Rightarrow> nat \<Rightarrow> int \<Rightarrow> gostring option \<Rightarrow> gostring option \<Rightarrow> gostring option \<Rightarrow> gostring option \<Rightarrow> 'w auth_state \<Rightarrow> int option" where
  "authTrampoline ask conn op cArg1 cArg2 cDB cTrigger s =
     map_option (\<lambda>a. ask a \<lparr>a_op = op, a_arg1 = GoString cArg1, a_arg2 = GoString cArg2, a_database = GoString cDB, a_trigger = GoString cTrigger\<rparr>) (au_m s conn)"

section \<open>Lemmas\<close>

text \<open>What SQLite documents of the two arguments of each operation.\<close>

datatype arg_kind = Arg_none | Arg_index | Arg_table | Arg_trigger | Arg_view | Arg_pragma | Arg_pragma_arg | Arg_column | Arg_operation | Arg_file | Arg_database | Arg_module | Arg_savepoint | Arg_function

definition documented_args :: "(gostring \<times> arg_kind \<times> arg_kind) list" where
  "documented_args =
     [(''SQLITE_CREATE_INDEX'', Arg_index, Arg_table), (''SQLITE_CREATE_TABLE'', Arg_table, Arg_none), (''SQLITE_CREATE_TEMP_INDEX'', Arg_index, Arg_table),
      (''SQLITE_CREATE_TEMP_TABLE'', Arg_table, Arg_none), (''SQLITE_CREATE_TEMP_TRIGGER'', Arg_trigger, Arg_table), (''SQLITE_CREATE_TEMP_VIEW'', Arg_view, Arg_none),
      (''SQLITE_CREATE_TRIGGER'', Arg_trigger, Arg_table), (''SQLITE_CREATE_VIEW'', Arg_view, Arg_none), (''SQLITE_DELETE'', Arg_table, Arg_none),
      (''SQLITE_DROP_INDEX'', Arg_index, Arg_table), (''SQLITE_DROP_TABLE'', Arg_table, Arg_none), (''SQLITE_DROP_TEMP_INDEX'', Arg_index, Arg_table),
      (''SQLITE_DROP_TEMP_TABLE'', Arg_table, Arg_none), (''SQLITE_DROP_TEMP_TRIGGER'', Arg_trigger, Arg_table), (''SQLITE_DROP_TEMP_VIEW'', Arg_view, Arg_none),
      (''SQLITE_DROP_TRIGGER'', Arg_trigger, Arg_table), (''SQLITE_DROP_VIEW'', Arg_view, Arg_none), (''SQLITE_INSERT'', Arg_table, Arg_none),
      (''SQLITE_PRAGMA'', Arg_pragma, Arg_pragma_arg), (''SQLITE_READ'', Arg_table, Arg_column), (''SQLITE_SELECT'', Arg_none, Arg_none),
      (''SQLITE_TRANSACTION'', Arg_operation, Arg_none), (''SQLITE_UPDATE'', Arg_table, Arg_column), (''SQLITE_ATTACH'', Arg_file, Arg_none),
      (''SQLITE_DETACH'', Arg_database, Arg_none), (''SQLITE_ALTER_TABLE'', Arg_database, Arg_table), (''SQLITE_REINDEX'', Arg_index, Arg_none),
      (''SQLITE_ANALYZE'', Arg_table, Arg_none), (''SQLITE_CREATE_VTABLE'', Arg_table, Arg_module), (''SQLITE_DROP_VTABLE'', Arg_table, Arg_module),
      (''SQLITE_FUNCTION'', Arg_none, Arg_function), (''SQLITE_SAVEPOINT'', Arg_operation, Arg_savepoint), (''SQLITE_RECURSIVE'', Arg_none, Arg_none)]"

definition documented :: "gostring \<Rightarrow> arg_kind \<times> arg_kind" where
  "documented name = (case map_of documented_args name of Some k \<Rightarrow> k | None \<Rightarrow> (Arg_none, Arg_none))"

definition doc_value :: "lib_consts \<Rightarrow> arg_kind \<Rightarrow> gostring \<Rightarrow> Action \<Rightarrow> gostring" where
  "doc_value K kind name action =
     (if fst (documented name) = kind then a_arg1 action else if snd (documented name) = kind then a_arg2 action else '''')"

text \<open>An accessor that takes the first argument for the operations \<open>ns1\<close> and the second for \<open>ns2\<close> gives the argument of a kind, if these are the operations that are documented
  to have it.\<close>

definition kind_ops :: "arg_kind \<Rightarrow> gostring list \<Rightarrow> gostring list \<Rightarrow> bool" where
  "kind_ops k ns1 ns2 \<longleftrightarrow> list_all (\<lambda>n. n \<in> fst ` set documented_args) (ns1 @ ns2) \<and>
     list_all (\<lambda>(n, k1, k2). (k1 = k \<longleftrightarrow> n \<in> set ns1) \<and> (k1 = k \<or> (k2 = k \<longleftrightarrow> n \<in> set ns2))) documented_args"

lemma documented_entry: "(name, k) \<in> set documented_args \<Longrightarrow> documented name = k"
proof -
  have "distinct (map fst documented_args)" by code_simp
  then show "documented name = k" if "(name, k) \<in> set documented_args" using that by (simp add: documented_def)
qed

lemma op_in_documented:
  assumes "inj_on K (fst ` set documented_args)" and "name \<in> fst ` set documented_args" and "a_op action = K name" and "set ns \<subseteq> fst ` set documented_args"
  shows "op_in K ns action \<longleftrightarrow> name \<in> set ns"
  using inj_on_image_mem_iff [OF assms(1,2,4)] assms(3) by (simp add: op_in_def)

lemma kind_value:
  assumes "inj_on K (fst ` set documented_args)" and "name \<in> fst ` set documented_args" and "a_op action = K name" and "kind_ops k ns1 ns2"
  shows "(if op_in K ns1 action then a_arg1 action else if op_in K ns2 action then a_arg2 action else '''') = doc_value K k name action"
proof -
  have sub: "set ns1 \<subseteq> fst ` set documented_args" "set ns2 \<subseteq> fst ` set documented_args" using assms(4) by (auto simp: kind_ops_def list_all_iff)
  obtain k1 k2 where k: "(name, k1, k2) \<in> set documented_args" using assms(2) by (auto simp del: set_simps)
  have "(k1 = k \<longleftrightarrow> name \<in> set ns1) \<and> (k1 = k \<or> (k2 = k \<longleftrightarrow> name \<in> set ns2))"
    using bspec [OF conjunct2 [OF assms(4) [unfolded kind_ops_def list_all_iff]] k] by (auto simp only: prod.case)
  then show ?thesis using documented_entry [OF k] op_in_documented [OF assms(1-3) sub(1)] op_in_documented [OF assms(1-3) sub(2)] by (auto simp: doc_value_def)
qed

lemma op_in_single: "op_in K [n] action = (a_op action = K n)" "op_in K [] action = False"
  by (simp_all add: op_in_def)

lemma kind_ops_all:
  "kind_ops Arg_index [''SQLITE_CREATE_INDEX'', ''SQLITE_CREATE_TEMP_INDEX'', ''SQLITE_DROP_INDEX'', ''SQLITE_DROP_TEMP_INDEX'', ''SQLITE_REINDEX''] []"
  "kind_ops Arg_table [''SQLITE_CREATE_TABLE'', ''SQLITE_CREATE_TEMP_TABLE'', ''SQLITE_DELETE'', ''SQLITE_DROP_TABLE'', ''SQLITE_DROP_TEMP_TABLE'', ''SQLITE_INSERT'',
     ''SQLITE_READ'', ''SQLITE_UPDATE'', ''SQLITE_ANALYZE'', ''SQLITE_CREATE_VTABLE'', ''SQLITE_DROP_VTABLE'']
    [''SQLITE_CREATE_INDEX'', ''SQLITE_CREATE_TEMP_INDEX'', ''SQLITE_CREATE_TEMP_TRIGGER'', ''SQLITE_CREATE_TRIGGER'', ''SQLITE_DROP_INDEX'',
     ''SQLITE_DROP_TEMP_INDEX'', ''SQLITE_DROP_TEMP_TRIGGER'', ''SQLITE_DROP_TRIGGER'', ''SQLITE_ALTER_TABLE'']"
  "kind_ops Arg_trigger [''SQLITE_CREATE_TEMP_TRIGGER'', ''SQLITE_CREATE_TRIGGER'', ''SQLITE_DROP_TEMP_TRIGGER'', ''SQLITE_DROP_TRIGGER''] []"
  "kind_ops Arg_view [''SQLITE_CREATE_TEMP_VIEW'', ''SQLITE_CREATE_VIEW'', ''SQLITE_DROP_TEMP_VIEW'', ''SQLITE_DROP_VIEW''] []"
  "kind_ops Arg_pragma [''SQLITE_PRAGMA''] []" "kind_ops Arg_pragma_arg [] [''SQLITE_PRAGMA'']" "kind_ops Arg_column [] [''SQLITE_READ'', ''SQLITE_UPDATE'']"
  "kind_ops Arg_operation [''SQLITE_TRANSACTION'', ''SQLITE_SAVEPOINT''] []" "kind_ops Arg_file [''SQLITE_ATTACH''] []"
  "kind_ops Arg_module [] [''SQLITE_CREATE_VTABLE'', ''SQLITE_DROP_VTABLE'']" "kind_ops Arg_savepoint [] [''SQLITE_SAVEPOINT'']"
  by code_simp+

text \<open>The accessors agree with the documentation: each gives the argument that is documented to be of its kind, and the empty string for the other operations.\<close>

lemma accessors_documented:
  assumes "inj_on K (fst ` set documented_args)" and "name \<in> fst ` set documented_args" and "a_op action = K name"
  shows "Action_Index K action = doc_value K Arg_index name action" and "Action_Table K action = doc_value K Arg_table name action"
    and "Action_Trigger K action = doc_value K Arg_trigger name action" and "Action_View K action = doc_value K Arg_view name action"
    and "Action_Pragma K action = doc_value K Arg_pragma name action" and "Action_PragmaArg K action = doc_value K Arg_pragma_arg name action"
    and "Action_Column K action = doc_value K Arg_column name action" and "Action_Operation K action = doc_value K Arg_operation name action"
    and "Action_File K action = doc_value K Arg_file name action" and "Action_Module K action = doc_value K Arg_module name action"
    and "Action_Savepoint K action = doc_value K Arg_savepoint name action"
proof -
  note kv = kind_value [OF assms]
  show "Action_Index K action = doc_value K Arg_index name action"
    using kv [OF kind_ops_all(1), unfolded op_in_single if_False] by (auto simp: Action_Index_def split: if_splits)
  show "Action_Table K action = doc_value K Arg_table name action"
    using kv [OF kind_ops_all(2), unfolded op_in_single if_False] by (auto simp: Action_Table_def split: if_splits)
  show "Action_Trigger K action = doc_value K Arg_trigger name action"
    using kv [OF kind_ops_all(3), unfolded op_in_single if_False] by (auto simp: Action_Trigger_def split: if_splits)
  show "Action_View K action = doc_value K Arg_view name action"
    using kv [OF kind_ops_all(4), unfolded op_in_single if_False] by (auto simp: Action_View_def split: if_splits)
  show "Action_Pragma K action = doc_value K Arg_pragma name action"
    using kv [OF kind_ops_all(5), unfolded op_in_single if_False] by (auto simp: Action_Pragma_def split: if_splits)
  show "Action_PragmaArg K action = doc_value K Arg_pragma_arg name action"
    using kv [OF kind_ops_all(6), unfolded op_in_single if_False] by (auto simp: Action_PragmaArg_def split: if_splits)
  show "Action_Column K action = doc_value K Arg_column name action"
    using kv [OF kind_ops_all(7), unfolded op_in_single if_False] by (auto simp: Action_Column_def split: if_splits)
  show "Action_Operation K action = doc_value K Arg_operation name action"
    using kv [OF kind_ops_all(8), unfolded op_in_single if_False] by (auto simp: Action_Operation_def split: if_splits)
  show "Action_File K action = doc_value K Arg_file name action"
    using kv [OF kind_ops_all(9), unfolded op_in_single if_False] by (auto simp: Action_File_def split: if_splits)
  show "Action_Module K action = doc_value K Arg_module name action"
    using kv [OF kind_ops_all(10), unfolded op_in_single if_False] by (auto simp: Action_Module_def split: if_splits)
  show "Action_Savepoint K action = doc_value K Arg_savepoint name action"
    using kv [OF kind_ops_all(11), unfolded op_in_single if_False] by (auto simp: Action_Savepoint_def split: if_splits)
qed

end
