(* ===== verification/Backup.thy ===== *)
theory Backup
  imports Blob Funcs Savepoint
begin

text \<open>
  Databases as a whole: online backup (backup.go), and from sqlite.go the serialization of a database and the settings of a connection.
\<close>

section \<open>Parameters\<close>

text \<open>A pointer is 0 if SQLite could not give one; a serialized database is its bytes.  Memory of SQLite and variable argument lists may be refused.\<close>

record 'w db_lib = "'w fn_lib" +
  x_backup_init :: "gostring \<Rightarrow> nat \<Rightarrow> gostring \<Rightarrow> 'w \<Rightarrow> nat \<times> 'w"
  x_backup_step :: "nat \<Rightarrow> int \<Rightarrow> 'w \<Rightarrow> int \<times> 'w"
  x_backup_remaining :: "nat \<Rightarrow> 'w \<Rightarrow> int"
  x_backup_pagecount :: "nat \<Rightarrow> 'w \<Rightarrow> int"
  x_backup_finish :: "nat \<Rightarrow> 'w \<Rightarrow> int \<times> 'w"
  x_errcode :: "'w \<Rightarrow> int"
  x_serialize :: "gostring \<Rightarrow> int \<Rightarrow> 'w \<Rightarrow> gostring option \<times> 'w"
  x_deserialize :: "gostring \<Rightarrow> gostring \<Rightarrow> int \<Rightarrow> 'w \<Rightarrow> int \<times> 'w"
  x_db_malloc :: "int \<Rightarrow> 'w \<Rightarrow> bool \<times> 'w"
  x_changes :: "'w \<Rightarrow> int"
  x_limit :: "int \<Rightarrow> int \<Rightarrow> 'w \<Rightarrow> int \<times> 'w"
  x_va_list :: "int \<Rightarrow> 'w \<Rightarrow> bool \<times> 'w"
  x_db_config :: "int \<Rightarrow> int \<Rightarrow> 'w \<Rightarrow> int \<times> 'w"

section \<open>Backup\<close>

record Backup =
  bk_ptr :: nat

text \<open>\<open>src\<close> is the other connection.\<close>

definition NewBackup :: "lib_consts \<Rightarrow> ('w, 'm) db_lib_scheme \<Rightarrow> gostring \<Rightarrow> nat \<Rightarrow> gostring \<Rightarrow> 'w Conn \<Rightarrow> (Backup option \<times> error) \<times> 'w Conn" where
  "NewBackup K L dstName src srcName c =
     (case cDBName L dstName c of ((cDst, err), c) \<Rightarrow>
        if err \<noteq> None then ((None, wrap_error ''sqlite: new backup: %w'' err), c)
        else case cDBName L srcName c of ((cSrc, err), c) \<Rightarrow>
          if err \<noteq> None then ((None, wrap_error ''sqlite: new backup: %w'' err), c)
          else case lib_call (x_backup_init L cDst src cSrc) c of (p, c) \<Rightarrow>
            if p = 0 then ((None, errorf_w ''sqlite: new backup: %w'' (conn_extreserr K L (x_errcode L (c_world c)) c)), c)
            else ((Some \<lparr>bk_ptr = p\<rparr>, None), c))"

definition ResultBusy :: "lib_consts \<Rightarrow> int" where "ResultBusy K = K ''SQLITE_BUSY''"

definition Backup_Step :: "lib_consts \<Rightarrow> ('w, 'm) db_lib_scheme \<Rightarrow> Backup \<Rightarrow> int \<Rightarrow> 'w Conn \<Rightarrow> (bool \<times> error) \<times> 'w Conn" where
  "Backup_Step K L b n c =
     (case lib_call (x_backup_step L (bk_ptr b) (wrap32 n)) c of (res, c) \<Rightarrow>
        (if res = ResultOK K then (True, None)
         else if res = ResultDone K then (False, None)
         else if res = ResultBusy K \<or> res = ResultLocked K then (True, errorf_w ''sqlite: backup step: %w'' (ToError K res))
         else (False, errorf_w ''sqlite: backup step: %w'' (ToError K res)), c))"

definition Backup_Remaining :: "('w, 'm) db_lib_scheme \<Rightarrow> Backup \<Rightarrow> 'w Conn \<Rightarrow> int" where
  "Backup_Remaining L b c = x_backup_remaining L (bk_ptr b) (c_world c)"

definition Backup_PageCount :: "('w, 'm) db_lib_scheme \<Rightarrow> Backup \<Rightarrow> 'w Conn \<Rightarrow> int" where
  "Backup_PageCount L b c = x_backup_pagecount L (bk_ptr b) (c_world c)"

definition Backup_Close :: "('w, 'm) db_lib_scheme \<Rightarrow> Backup \<Rightarrow> 'w Conn \<Rightarrow> error \<times> 'w Conn" where
  "Backup_Close L b c = (None, snd (lib_call (x_backup_finish L (bk_ptr b)) c))"

text \<open>The results of \<open>Step\<close> tell apart what a caller has to do: go on, stop, try again, give up.\<close>

lemma Backup_Step_cases:
  assumes "Backup_Step K L b n c = ((mo, err), c')" and "x_backup_step L (bk_ptr b) (wrap32 n) (c_world c) = (res, w)" and "ResultOK K \<noteq> ResultDone K"
  shows "err = None \<longleftrightarrow> res \<in> {ResultOK K, ResultDone K}" and "err = None \<Longrightarrow> mo \<longleftrightarrow> res = ResultOK K"
    and "err \<noteq> None \<Longrightarrow> mo \<longleftrightarrow> res \<in> {ResultBusy K, ResultLocked K}"
  using assms by (auto simp: Backup_Step_def lib_call_def errorf_w_def split: if_splits)

text \<open>A caller that steps until there is no more; \<open>None\<close> if that does not happen within \<open>fuel\<close> steps.\<close>

fun backup_all :: "lib_consts \<Rightarrow> ('w, 'm) db_lib_scheme \<Rightarrow> nat \<Rightarrow> Backup \<Rightarrow> int \<Rightarrow> 'w Conn \<Rightarrow> (error \<times> 'w Conn) option" where
  "backup_all K L 0 b n c = None"
| "backup_all K L (Suc fuel) b n c = (case Backup_Step K L b n c of ((mo, err), c) \<Rightarrow>
     if err \<noteq> None then Some (err, c) else if mo then backup_all K L fuel b n c else Some (None, c))"

text \<open>If every successful step takes at least one page off the rest and SQLite reports the end only when nothing is left, the loop ends within as many steps as there are pages.\<close>

lemma backup_all_complete:
  assumes "\<And>w res w'. x_backup_step L (bk_ptr b) (wrap32 n) w = (res, w') \<Longrightarrow> (res = ResultOK K \<longrightarrow> x_backup_remaining L (bk_ptr b) w' < x_backup_remaining L (bk_ptr b) w) \<and>
      (res = ResultDone K \<longrightarrow> x_backup_remaining L (bk_ptr b) w' = 0)"
    and "\<And>w. 0 \<le> x_backup_remaining L (bk_ptr b) w" and "ResultOK K \<noteq> ResultDone K" and "nat (Backup_Remaining L b c) < fuel"
  shows "\<exists>err c'. backup_all K L fuel b n c = Some (err, c') \<and> (err = None \<longrightarrow> Backup_Remaining L b c' = 0)"
  using assms(4)
proof (induction fuel arbitrary: c)
  case (Suc fuel)
  obtain res w where x: "x_backup_step L (bk_ptr b) (wrap32 n) (c_world c) = (res, w)" by (metis prod.collapse)
  obtain mo err c1 where s: "Backup_Step K L b n c = ((mo, err), c1)" by (metis prod.collapse)
  have c1: "c_world c1 = w" using s x by (auto simp: Backup_Step_def lib_call_def split: if_splits)
  note k = Backup_Step_cases [OF s x assms(3)] and l = assms(1) [OF x]
  show ?case
  proof (cases "err = None \<and> mo")
    case True
    then have "nat (Backup_Remaining L b c1) < fuel" using k l c1 Suc.prems assms(2) [of w] assms(2) [of "c_world c"] by (auto simp: Backup_Remaining_def)
    from Suc.IH [OF this] show ?thesis using s True by simp
  next
    case False
    then show ?thesis using s k l c1 by (auto simp: Backup_Remaining_def)
  qed
qed simp

section \<open>Serialization\<close>

definition Serialize :: "lib_consts \<Rightarrow> ('w, 'm) db_lib_scheme \<Rightarrow> (nat \<Rightarrow> bool) \<Rightarrow> bool \<Rightarrow> gostring \<Rightarrow> 'w Conn \<Rightarrow> (gostring option \<times> error) \<times> 'w Conn" where
  "Serialize K L isPrint nilConn dbName c =
     (let pre = ''sqlite: serialize '' @ Quote isPrint dbName @ '': '' in
      if nilConn then ((None, Some (ErrorString (pre @ ''nil connection''))), c)
      else case cDBName L dbName c of ((zSchema, err), c) \<Rightarrow> (case err of
        Some e \<Rightarrow> ((None, Some (ErrorString (pre @ error_text L e))), c)
      | None \<Rightarrow> (case lib_call (x_db_malloc L 8) c of (ok, c) \<Rightarrow>
          if \<not> ok then ((None, Some (ErrorString (pre @ ''memory allocation failure''))), c)
          else case lib_call (x_serialize L zSchema (K ''SQLITE_SERIALIZE_NOCOPY'')) c of (p, c) \<Rightarrow> (case p of
              Some bytes \<Rightarrow> ((Some bytes, None), c)
            | None \<Rightarrow> (case lib_call (x_serialize L zSchema 0) c of (p, c) \<Rightarrow> (case p of
                Some bytes \<Rightarrow> ((Some bytes, None), c)
              | None \<Rightarrow> ((None, Some (ErrorString (pre @ ''unable to serialize''))), c)))))))"

definition Deserialize :: "lib_consts \<Rightarrow> ('w, 'm) db_lib_scheme \<Rightarrow> (nat \<Rightarrow> bool) \<Rightarrow> bool \<Rightarrow> gostring \<Rightarrow> gostring \<Rightarrow> 'w Conn \<Rightarrow> error \<times> 'w Conn" where
  "Deserialize K L isPrint nilConn dbName bytes c =
     (let pre = ''sqlite: deserialize to '' @ Quote isPrint dbName @ '': '' in
      if nilConn then (Some (ErrorString (pre @ ''nil connection'')), c)
      else case cDBName L dbName c of ((zSchema, err), c) \<Rightarrow> (case err of
        Some e \<Rightarrow> (Some (ErrorString (pre @ error_text L e)), c)
      | None \<Rightarrow> (case lib_call (x_db_malloc L (int (length bytes))) c of (ok, c) \<Rightarrow>
          if \<not> ok then (Some (ErrorString (pre @ ''memory allocation failure'')), c)
          else case lib_call (x_deserialize L zSchema bytes (K ''SQLITE_DESERIALIZE_FREEONCLOSE'' OR K ''SQLITE_DESERIALIZE_RESIZEABLE'')) c of (res, c) \<Rightarrow>
            (if \<not> IsSuccess K res then errorf_w (pre @ ''%w'') (ToError K res) else None, c))))"

text \<open>\<open>dbimg db w\<close> are the bytes of a database.  SQLite gives them when it serializes, sets them when it deserializes, and keeps them otherwise.\<close>

definition lib_image_ok :: "lib_consts \<Rightarrow> ('w, 'm) db_lib_scheme \<Rightarrow> (gostring \<Rightarrow> 'w \<Rightarrow> gostring) \<Rightarrow> bool" where
  "lib_image_ok K L dbimg \<longleftrightarrow>
     (\<forall>db f w p w'. x_serialize L db f w = (p, w') \<longrightarrow> dbimg db w' = dbimg db w \<and> (p \<noteq> None \<longrightarrow> p = Some (dbimg db w))) \<and>
     (\<forall>db b f w res w'. x_deserialize L db b f w = (res, w') \<longrightarrow> IsSuccess K res \<longrightarrow> dbimg db w' = b) \<and>
     (\<forall>q db w. dbimg db (snd (x_cstring L q w)) = dbimg db w) \<and> (\<forall>n db w. dbimg db (snd (x_db_malloc L n w)) = dbimg db w)"

lemma lib_image_okD:
  assumes "lib_image_ok K L dbimg"
  shows "x_serialize L db f w = (p, w') \<Longrightarrow> dbimg db w' = dbimg db w" and "x_serialize L db f w = (p, w') \<Longrightarrow> p \<noteq> None \<Longrightarrow> p = Some (dbimg db w)"
    and "x_deserialize L db b f w = (res, w') \<Longrightarrow> IsSuccess K res \<Longrightarrow> dbimg db w' = b"
  using assms unfolding lib_image_ok_def by (simp_all del: not_None_eq)

lemma cDBName_result:
  "fst (fst (cDBName L db c)) = (if db = [] \<or> db = ''main'' then ''main'' else db)"
  "c_world (snd (cDBName L db c)) = c_world c \<or> c_world (snd (cDBName L db c)) = snd (x_cstring L db (c_world c))"
  by (simp_all add: cDBName_def lib_call_def split: prod.split)

text \<open>What was deserialized is what \<open>Serialize\<close> returns, on both of its paths.\<close>

lemma Deserialize_Serialize:
  assumes "lib_image_ok K L dbimg" and "Deserialize K L pr False db bytes c = (None, c1)" and "Serialize K L pr False db c1 = ((r, None), c2)"
  shows "r = Some bytes"
proof -
  let ?z = "if db = '''' \<or> db = ''main'' then ''main'' else db"
  obtain z err c0 where n: "cDBName L db c = ((z, err), c0)" by (metis prod.collapse)
  obtain ok cm where m: "lib_call (x_db_malloc L (int (length bytes))) c0 = (ok, cm)" by (metis prod.collapse)
  have z: "z = ?z" using cDBName_result(1) [of L db c] n by simp
  have e: "err = None" "ok" using assms(2) n m by (auto simp: Deserialize_def Let_def split: option.splits if_splits)
  obtain res w where d: "x_deserialize L z bytes (K ''SQLITE_DESERIALIZE_FREEONCLOSE'' OR K ''SQLITE_DESERIALIZE_RESIZEABLE'') (c_world cm) = (res, w)" by (metis prod.collapse)
  have c1: "IsSuccess K res" "c_world c1 = w" using assms(2) n m e d by (auto simp: Deserialize_def Let_def lib_call_def errorf_w_def split: if_splits)
  have i1: "dbimg z (c_world c1) = bytes" using lib_image_okD(3) [OF assms(1) d] c1 by simp
  obtain z' err' c3 where n': "cDBName L db c1 = ((z', err'), c3)" by (metis prod.collapse)
  have z': "z' = z" using cDBName_result(1) [of L db c1] n' z by simp
  have cs: "dbimg z (snd (x_cstring L db w)) = dbimg z w" for w using assms(1) by (simp add: lib_image_ok_def)
  have "c_world c3 = c_world c1 \<or> c_world c3 = snd (x_cstring L db (c_world c1))" using cDBName_result(2) [of L db c1] n' by simp
  then have i3: "dbimg z (c_world c3) = bytes" using i1 cs by metis
  obtain ok' c4 where m': "lib_call (x_db_malloc L 8) c3 = (ok', c4)" by (metis prod.collapse)
  have "c_world c4 = snd (x_db_malloc L 8 (c_world c3))" using m' by (auto simp: lib_call_def split: prod.splits)
  then have i4: "dbimg z (c_world c4) = bytes" using i3 assms(1) by (simp add: lib_image_ok_def)
  obtain p w5 where s: "x_serialize L z (K ''SQLITE_SERIALIZE_NOCOPY'') (c_world c4) = (p, w5)" by (metis prod.collapse)
  have i5: "dbimg z w5 = bytes" "p \<noteq> None \<longrightarrow> p = Some bytes" using lib_image_okD(1,2) [OF assms(1) s] i4 by simp_all
  obtain p' w6 where s': "x_serialize L z 0 w5 = (p', w6)" by (metis prod.collapse)
  have i6: "p' \<noteq> None \<longrightarrow> p' = Some bytes" using lib_image_okD(2) [OF assms(1) s'] i5(1) by simp
  show ?thesis using assms(3) n' z' m' s s' i5 i6 by (auto simp: Serialize_def Let_def lib_call_def split: if_splits option.splits)
qed

section \<open>Settings\<close>

definition Changes :: "('w, 'm) db_lib_scheme \<Rightarrow> bool \<Rightarrow> 'w Conn \<Rightarrow> int" where
  "Changes L nilConn c = (if nilConn then 0 else x_changes L (c_world c))"

definition Conn_Limit :: "('w, 'm) db_lib_scheme \<Rightarrow> bool \<Rightarrow> int \<Rightarrow> int \<Rightarrow> 'w Conn \<Rightarrow> int \<times> 'w Conn" where
  "Conn_Limit L nilConn i v c = (if nilConn then (0, c) else lib_call (x_limit L i v) c)"

definition SetDefensive :: "lib_consts \<Rightarrow> ('w, 'm) db_lib_scheme \<Rightarrow> bool \<Rightarrow> bool \<Rightarrow> 'w Conn \<Rightarrow> error \<times> 'w Conn" where
  "SetDefensive K L nilConn enabled c =
     (let pre = ''sqlite: set defensive='' @ (if enabled then ''true'' else ''false'') @ '': '' in
      if nilConn then (Some (ErrorString (pre @ ''nil connection'')), c)
      else case lib_call (x_va_list L (if enabled then 1 else 0)) c of (ok, c) \<Rightarrow>
        if \<not> ok then (Some (ErrorString (pre @ ''cannot allocate memory'')), c)
        else case lib_call (x_db_config L (K ''SQLITE_DBCONFIG_DEFENSIVE'') (if enabled then 1 else 0)) c of (res, c) \<Rightarrow>
          (wrap_error (pre @ ''%w'') (ToError K res), c))"

end
