(* ===== verification/Refunc.thy ===== *)
theory Refunc
  imports Funcs
begin

text \<open>
  The operator REGEXP (ext/refunc/refunc.go): a scalar function that keeps the compiled pattern as auxiliary data of its first argument.  Go's package regexp is a parameter; a compiled
  expression is a reference.
\<close>

record re_lib =
  re_Compile :: "gostring \<Rightarrow> go_error + nat"
  re_MatchString :: "nat \<Rightarrow> gostring \<Rightarrow> bool"
  re_is_Regexp :: "nat \<Rightarrow> bool"

text \<open>\<open>f\<close> is the reference to \<open>regexpFunc\<close>.\<close>

definition Impl :: "nat \<Rightarrow> FunctionImpl" where
  "Impl f = \<lparr>fi_NArgs = 2, fi_Scalar = Some f, fi_MakeAggregate = None, fi_Deterministic = True, fi_AllowIndirect = True\<rparr>"

definition Register :: "lib_consts \<Rightarrow> ('w, 'm) fn_lib_scheme \<Rightarrow> bool \<Rightarrow> nat \<Rightarrow> 'w fn_state \<Rightarrow> (error \<times> 'w fn_state) option" where
  "Register K L nilConn f s = CreateFunction K L nilConn ''regexp'' (Impl f) s"

text \<open>The text of an argument; \<open>None\<close> is an index out of range.\<close>

definition arg_text :: "lib_consts \<Rightarrow> value_lib \<Rightarrow> float_ops \<Rightarrow> Value list \<Rightarrow> nat \<Rightarrow> gostring option" where
  "arg_text K V F args i = (if i < length args then Value_Text K V F (args ! i) else None)"

definition compiled :: "lib_consts \<Rightarrow> ('w, 'm) fn_lib_scheme \<Rightarrow> re_lib \<Rightarrow> value_lib \<Rightarrow> float_ops \<Rightarrow> Context \<Rightarrow> Value list \<Rightarrow> 'w fn_state \<Rightarrow>
    ((go_error + nat) \<times> 'w fn_state) option" where
  "compiled K L E V F ctx args s = (case Option.bind (AuxData L ctx 0 s) (\<lambda>a. if re_is_Regexp E a then Some a else None) of
     Some re \<Rightarrow> Some (Inr re, s)
   | None \<Rightarrow> do {
       p \<leftarrow> arg_text K V F args 0;
       (case re_Compile E p of
          Inl e \<Rightarrow> Some (Inl e, s)
        | Inr re \<Rightarrow> do { s \<leftarrow> SetAuxData L ctx 0 re s; Some (Inr re, s) })
     })"

definition regexpFunc :: "lib_consts \<Rightarrow> ('w, 'm) fn_lib_scheme \<Rightarrow> re_lib \<Rightarrow> value_lib \<Rightarrow> float_ops \<Rightarrow> Context \<Rightarrow> Value list \<Rightarrow> 'w fn_state \<Rightarrow>
    ((Value \<times> error) \<times> 'w fn_state) option" where
  "regexpFunc K L E V F ctx args s = do {
     (r, s) \<leftarrow> compiled K L E V F ctx args s;
     (case r of
        Inl e \<Rightarrow> Some ((zero_Value, Some (Errorf ''regexp: %w'' e)), s)
      | Inr re \<Rightarrow> do {
          t \<leftarrow> arg_text K V F args 1;
          Some ((IntegerValue K (if re_MatchString E re t then 1 else 0), None), s)
        })
   }"

text \<open>The function without a cache.\<close>

definition regexp_spec :: "lib_consts \<Rightarrow> re_lib \<Rightarrow> gostring \<Rightarrow> gostring \<Rightarrow> Value \<times> error" where
  "regexp_spec K E p t = (case re_Compile E p of
     Inl e \<Rightarrow> (zero_Value, Some (Errorf ''regexp: %w'' e))
   | Inr re \<Rightarrow> (IntegerValue K (if re_MatchString E re t then 1 else 0), None))"

text \<open>The auxiliary data of a call with the pattern \<open>p\<close>, if there is any, was compiled from it: SQLite drops the data when the argument changes.\<close>

definition aux_for :: "('w, 'm) fn_lib_scheme \<Rightarrow> re_lib \<Rightarrow> Context \<Rightarrow> gostring \<Rightarrow> 'w fn_state \<Rightarrow> bool" where
  "aux_for L E ctx p s \<longleftrightarrow> (\<forall>a. AuxData L ctx 0 s = Some a \<and> re_is_Regexp E a \<longrightarrow> re_Compile E p = Inr a)"

lemma SetAuxData_found:
  assumes "lib_fn_ok K L R" and "fn_inv R s" and "\<And>i w hs w'. x_set_auxdata L (cx_ptr ctx) 0 i w = (hs, w') \<Longrightarrow> x_get_auxdata L (cx_ptr ctx) 0 w' \<in> {0, i}"
  shows "\<exists>s'. SetAuxData L ctx 0 d s = Some s' \<and> fn_inv R s' \<and> (AuxData L ctx 0 s' = None \<or> AuxData L ctx 0 s' = Some d)"
proof -
  obtain i r where a: "reg_add idGen_next d (fn_auxdata s) = (i, r)" by fastforce
  have ok: "tables_ok s" using assms(2) by (simp add: fn_inv_def)
  note fl = reg_add_filed(4) [OF ok a]
  obtain hs w' where c: "x_set_auxdata L (cx_ptr ctx) (wrap32 0) i (fn_world s) = (hs, w')" by fastforce
  note rg = lib_fn_okD(5) [OF assms(1) c filed_new [OF assms(2) fl]]
  let ?g = "\<lambda>w. case x_set_auxdata L (cx_ptr ctx) (wrap32 0) i w of (hs, w) \<Rightarrow> (((), hs), w)"
  have "?g (fn_world s) = (((), hs), w')" using c by simp
  from filed_calls_back [where g = ?g, OF assms(2) fl this rg] obtain s' where s': "calls_back ?g (s\<lparr>fn_auxdata := r\<rparr>) = Some ((), s')" "fn_inv R s'" "fn_world s' = w'"
    "\<forall>k. fn_find s' k = (if k \<in> set hs then None else if k = H_aux i then Some d else fn_find s k)" by blast
  have z: "wrap32 0 = 0" by (simp add: wrap32_id in_int32_def)
  have "reg_m (fn_auxdata s') i = (if H_aux i \<in> set hs then None else Some d)" using s'(4) [rule_format, of "H_aux i"] by (simp add: fn_find_def)
  moreover have "x_get_auxdata L (cx_ptr ctx) 0 w' \<in> {0, i}" using assms(3) c z by simp
  ultimately have "AuxData L ctx 0 s' = None \<or> AuxData L ctx 0 s' = Some d" using s'(3) z by (auto simp: AuxData_def Let_def split: if_splits)
  then show ?thesis using a s'(1,2) by (simp add: SetAuxData_def)
qed

text \<open>The cache cannot be seen: every call gives what compiling the pattern anew would give, and leaves the cache right for the next call with the same pattern.\<close>

lemma regexpFunc_correct:
  assumes "lib_fn_ok K L R" and "fn_inv R s" and "\<And>i w hs w'. x_set_auxdata L (cx_ptr ctx) 0 i w = (hs, w') \<Longrightarrow> x_get_auxdata L (cx_ptr ctx) 0 w' \<in> {0, i}"
    and "arg_text K V F args 0 = Some p" and "arg_text K V F args 1 = Some t" and "aux_for L E ctx p s"
  shows "\<exists>s'. regexpFunc K L E V F ctx args s = Some (regexp_spec K E p t, s') \<and> aux_for L E ctx p s' \<and> fn_inv R s'"
proof (cases "Option.bind (AuxData L ctx 0 s) (\<lambda>a. if re_is_Regexp E a then Some a else None)")
  case (Some a)
  then have "re_Compile E p = Inr a" using assms(6) by (auto simp: aux_for_def bind_eq_Some_conv split: if_splits)
  then show ?thesis using Some assms(2,5,6) by (simp add: regexpFunc_def compiled_def regexp_spec_def)
next
  case None
  show ?thesis
  proof (cases "re_Compile E p")
    case (Inl e)
    then show ?thesis using None assms(2,4,6) by (simp add: regexpFunc_def compiled_def regexp_spec_def)
  next
    case (Inr re)
    obtain s' where "SetAuxData L ctx 0 re s = Some s'" "fn_inv R s'" "AuxData L ctx 0 s' = None \<or> AuxData L ctx 0 s' = Some re" using SetAuxData_found [OF assms(1,2), of ctx re] assms(3) by blast
    then show ?thesis using None Inr assms(4,5) by (auto simp: regexpFunc_def compiled_def regexp_spec_def aux_for_def)
  qed
qed

end
