(* ===== verification/Shell.thy ===== *)
theory Shell
  imports Exec
begin

text \<open>
  The interactive shell (shell/shell.go): it reads lines, collects them until SQLite says that they are complete, and runs the statements.  The terminal is part of the world: \<open>sh_Readline\<close> gives
  a line or an error, the printing functions write to the standard output and to the standard error.
\<close>

record 'w shell_lib = "'w sqlite_lib" +
  sh_NewEx :: "'w \<Rightarrow> error \<times> 'w"
  sh_SetPrompt :: "gostring \<Rightarrow> 'w \<Rightarrow> 'w"
  sh_Readline :: "'w \<Rightarrow> (go_error + gostring) \<times> 'w"
  sh_Close :: "'w \<Rightarrow> 'w"
  sh_IsTerminal :: bool
  sh_Version :: gostring
  sh_Println :: "gostring \<Rightarrow> 'w \<Rightarrow> 'w"
  sh_Eprintln :: "gostring + go_error \<Rightarrow> 'w \<Rightarrow> 'w"
  sh_complete :: "gostring \<Rightarrow> bool"
  sh_float :: "uint64 \<Rightarrow> gostring"

definition shell_prompt :: gostring where "shell_prompt = ''sqlite> ''"
definition continuationPrompt :: gostring where "continuationPrompt = ''   ...> ''"

definition println :: "('w, 'm) shell_lib_scheme \<Rightarrow> gostring \<Rightarrow> 'w Conn \<Rightarrow> 'w Conn" where
  "println L t c = c\<lparr>c_world := sh_Println L t (c_world c)\<rparr>"

definition eprintln :: "('w, 'm) shell_lib_scheme \<Rightarrow> gostring + go_error \<Rightarrow> 'w Conn \<Rightarrow> 'w Conn" where
  "eprintln L t c = c\<lparr>c_world := sh_Eprintln L t (c_world c)\<rparr>"

definition eprint_err :: "('w, 'm) shell_lib_scheme \<Rightarrow> error \<Rightarrow> 'w Conn \<Rightarrow> 'w Conn" where
  "eprint_err L err c = (case err of None \<Rightarrow> c | Some e \<Rightarrow> eprintln L (Inr e) c)"

text \<open>\<open>None\<close>: the panic when there is no memory for the text.\<close>

definition isCompleteStmt :: "('w, 'm) shell_lib_scheme \<Rightarrow> gostring \<Rightarrow> 'w Conn \<Rightarrow> (bool \<times> 'w Conn) option" where
  "isCompleteStmt L s c = (if s = [] then Some (True, c)
     else case lib_call (x_cstring L (s @ '';'')) c of (err, c) \<Rightarrow> if err \<noteq> None then None else Some (sh_complete L (s @ '';''), c))"

definition cell_text :: "lib_consts \<Rightarrow> ('w, 'm) shell_lib_scheme \<Rightarrow> nat \<Rightarrow> nat \<Rightarrow> 'w Conn \<Rightarrow> gostring option" where
  "cell_text K L s i c = do {
     t \<leftarrow> Stmt_ColumnType L s (int i) c;
     if t = TypeInteger K then map_option FormatInt (ColumnInt64 L s (int i) c)
     else if t = TypeFloat K then map_option (sh_float L) (ColumnFloat L s (int i) c)
     else if t = TypeBlob K then do { n \<leftarrow> ColumnLen L s (int i) c; map_option snd (ColumnBytes L s (int i) (replicate n (CHR 0x00)) c) }
     else if t = TypeText K then ColumnText L s (int i) c
     else Some []
   }"

fun cell_texts :: "lib_consts \<Rightarrow> ('w, 'm) shell_lib_scheme \<Rightarrow> nat \<Rightarrow> nat list \<Rightarrow> 'w Conn \<Rightarrow> gostring list option" where
  "cell_texts K L s [] c = Some []"
| "cell_texts K L s (i # is) c = do { t \<leftarrow> cell_text K L s i c; ts \<leftarrow> cell_texts K L s is c; Some (t # ts) }"

definition row_text :: "lib_consts \<Rightarrow> ('w, 'm) shell_lib_scheme \<Rightarrow> nat \<Rightarrow> 'w Conn \<Rightarrow> gostring option" where
  "row_text K L s c = do { n \<leftarrow> ColumnCount L s c; ts \<leftarrow> cell_texts K L s [0..<n] c; Some (strings_Join ts ''|'') }"

partial_function (option) shell_rows :: "lib_consts \<Rightarrow> ('w, 'm) shell_lib_scheme \<Rightarrow> nat \<Rightarrow> 'w Conn \<Rightarrow> 'w Conn option" where
  "shell_rows K L s c = do {
     ((hasData, err), c) \<leftarrow> Step K L s c;
     if err \<noteq> None then Some (eprint_err L err c)
     else if \<not> hasData then Some c
     else do { t \<leftarrow> row_text K L s c; shell_rows K L s (println L t c) }
   }"

text \<open>The statements of the text collected so far; what is left of it is returned.  The number of trailing bytes is an index into the text.\<close>

partial_function (option) shell_stmts :: "lib_consts \<Rightarrow> ('w, 'm) shell_lib_scheme \<Rightarrow> gostring \<Rightarrow> 'w Conn \<Rightarrow> (gostring \<times> 'w Conn) option" where
  "shell_stmts K L sql c = do {
     (ok, c) \<leftarrow> isCompleteStmt L sql c;
     if \<not> ok then Some (sql, c)
     else let sql = TrimLeftSpace sql in
       if sql = [] then Some ([], c)
       else case PrepareTransient K L sql c of ((stmt, trailingBytes, err), c) \<Rightarrow>
         if trailingBytes < 0 \<or> int (length sql) < trailingBytes then None
         else let sql = drop (length sql - nat trailingBytes) sql in
           if err \<noteq> None then shell_stmts K L sql (eprint_err L err c)
           else do {
             s \<leftarrow> stmt;
             c \<leftarrow> shell_rows K L s c;
             (_, c) \<leftarrow> Finalize K L s c;
             shell_stmts K L sql c
           }
   }"

text \<open>The index of the first white space.\<close>

fun space_index :: "gostring \<Rightarrow> nat" where
  "space_index [] = 0"
| "space_index (ch # s) = (if strip_prefix space_seqs (ch # s) \<noteq> None then 0 else Suc (space_index s))"

definition schema_opts :: "('w, 'm) shell_lib_scheme \<Rightarrow> 'w ExecOptions" where
  "schema_opts L = \<lparr>o_Args = [], o_Named = [], o_ResultFunc = Some (\<lambda>s c. do { t \<leftarrow> ColumnText L s 0 c; Some (None, println L (t @ '';'') c) })\<rparr>"

text \<open>A line that begins with a dot; the flag says whether the shell goes on.\<close>

definition dot_command :: "lib_consts \<Rightarrow> ('w, 'm) shell_lib_scheme \<Rightarrow> gostring \<Rightarrow> 'w Conn \<Rightarrow> (bool \<times> 'w Conn) option" where
  "dot_command K L line c = (let word = drop 1 (take (space_index line) line) in
     if word = ''schema'' then do { (err, c) \<leftarrow> ExecuteTransient K L ''SELECT sql FROM sqlite_master;'' (Some (schema_opts L)) c; Some (True, eprint_err L err c) }
     else if word = ''quit'' then Some (False, c)
     else Some (True, eprintln L (Inl (''unknown command .'' @ word)) c))"

partial_function (option) shell_loop :: "lib_consts \<Rightarrow> ('w, 'm) shell_lib_scheme \<Rightarrow> gostring \<Rightarrow> 'w Conn \<Rightarrow> 'w Conn option" where
  "shell_loop K L sql c =
     (case lib_call (\<lambda>w. sh_Readline L (sh_SetPrompt L (if 0 < length sql then continuationPrompt else shell_prompt) w)) c of
        (Inl e, c) \<Rightarrow> if e = io_EOF then Some c else Some (eprintln L (Inr e) c)
      | (Inr line, c) \<Rightarrow>
          if length sql = 0 \<and> take 1 line = ''.'' then do {
            (goOn, c) \<leftarrow> dot_command K L line c;
            if goOn then shell_loop K L sql c else Some c
          }
          else let line = TrimLeftSpace line in
            if line = [] then shell_loop K L sql c
            else let sql = sql @ line @ [CHR 0x0A] in
              if \<not> strings_ContainsByte line (CHR '';'') then shell_loop K L sql c
              else do { (sql, c) \<leftarrow> shell_stmts K L sql c; shell_loop K L sql c })"

definition Run :: "lib_consts \<Rightarrow> ('w, 'm) shell_lib_scheme \<Rightarrow> 'w Conn \<Rightarrow> 'w Conn option" where
  "Run K L c = (case lib_call (sh_NewEx L) c of (err, c) \<Rightarrow>
     if err \<noteq> None then Some (eprint_err L err c)
     else do {
       c \<leftarrow> shell_loop K L [] (if sh_IsTerminal L then println L (''SQLite version '' @ sh_Version L) c else c);
       Some (c\<lparr>c_world := sh_Close L (c_world c)\<rparr>)
     })"

text \<open>What is left after the statements have been run is nothing, or a text that SQLite does not take to be complete: no complete statement waits.\<close>

lemma shell_stmts_rest:
  assumes "shell_stmts K L sql c = Some (sql', c')"
  shows "sql' = [] \<or> \<not> sh_complete L (sql' @ '';'')"
proof -
  have "fst r = [] \<or> \<not> sh_complete L (fst r @ '';'')" if "shell_stmts K L sql c = Some r" for r
  proof (rule shell_stmts.raw_induct [where P = "\<lambda>K L sql c r. fst r = [] \<or> \<not> sh_complete L (fst r @ '';'')", OF _ that], goal_cases)
    case (1 f K L sql c r)
    obtain ok c1 where i: "isCompleteStmt L sql c = Some (ok, c1)" using 1(2) by (auto simp: bind_eq_Some_conv)
    show ?case
    proof (cases ok)
      case False
      then have "\<not> sh_complete L (sql @ '';'')" using i by (auto simp: isCompleteStmt_def split: if_splits prod.splits)
      then show ?thesis using 1(2) i False by auto
    next
      case True
      obtain s n err c2 where p: "PrepareTransient K L (TrimLeftSpace sql) c1 = ((s, n, err), c2)" by (metis prod.collapse)
      show ?thesis using 1(2) i True p by (cases "TrimLeftSpace sql = []") (auto simp: Let_def bind_eq_Some_conv split: if_splits dest!: 1(1))
    qed
  qed
  from this [OF assms] show ?thesis by simp
qed

lemma length_trim_left: "length (trim_left ps s) \<le> length s"
proof (induction ps s rule: trim_left.induct)
  case (1 ps s)
  then show ?case using strip_prefix_shorter [of ps s] by (subst trim_left.simps) (fastforce split: option.split)
qed

lemma length_TrimLeftSpace: "length (TrimLeftSpace s) \<le> length s"
  by (simp add: TrimLeftSpace_def length_trim_left)

text \<open>The loop ends if SQLite takes at least one byte for every statement and the statements end themselves.\<close>

lemma shell_stmts_returns:
  assumes alloc: "\<And>q w. fst (x_cstring L q w) = None"
    and prep: "\<And>q c s n err c'. PrepareTransient K L q c = ((s, n, err), c') \<Longrightarrow> q \<noteq> [] \<Longrightarrow> 0 \<le> n \<and> n < int (length q) \<and> (err = None \<longrightarrow> s \<noteq> None)"
    and rows: "\<And>s c. \<exists>c'. shell_rows K L s c = Some c'" and fin: "\<And>s c. \<exists>r. Finalize K L s c = Some r"
  shows "\<exists>sql' c'. shell_stmts K L sql c = Some (sql', c')"
proof (induction "length sql" arbitrary: sql c rule: less_induct)
  case less
  obtain ok c1 where i: "isCompleteStmt L sql c = Some (ok, c1)" using alloc [of "sql @ '';''" "c_world c"] by (cases "x_cstring L (sql @ '';'') (c_world c)"; cases "sql = []") (auto simp: isCompleteStmt_def lib_call_def)
  let ?t = "TrimLeftSpace sql"
  obtain s n err c2 where p: "PrepareTransient K L ?t c1 = ((s, n, err), c2)" by (metis prod.collapse)
  consider "\<not> ok" | "ok" "?t = []" | "ok" "?t \<noteq> []" by blast
  then show ?case
  proof cases
    case 3
    note n = prep [OF p 3(2)]
    have "length ?t \<le> length sql" by (rule length_TrimLeftSpace)
    then have "length (drop (length ?t - nat n) ?t) < length sql" using n by auto
    note ih = less [OF this]
    show ?thesis
    proof (cases err)
      case None
      obtain s' where s': "s = Some s'" using n None by auto
      obtain c3 where c3: "shell_rows K L s' c2 = Some c3" using rows by blast
      obtain e c4 where c4: "Finalize K L s' c3 = Some (e, c4)" using fin [of s' c3] by auto
      show ?thesis using ih [of c4] i p n 3 None s' c3 c4 by (subst shell_stmts.simps) (simp add: Let_def)
    next
      case (Some e)
      then show ?thesis using ih [of "eprint_err L err c2"] i p n 3 by (subst shell_stmts.simps) (simp add: Let_def)
    qed
  qed (use i in \<open>subst shell_stmts.simps, simp\<close>)+
qed

end
