(* ===== verification/Rewrite.thy ===== *)
theory Rewrite
  imports Savepoint
begin

text \<open>
  The tool cmd/zombiezen-sqlite-migrate, which rewrites Go programs from the API of crawshaw.io/sqlite to the one of this package: the tables of renamed symbols, the rewriting of the
  syntax tree of a file (\<open>process\<close>) and the program around it (\<open>run\<close>).  Syntax trees are trees of identifiers, selector expressions and other nodes; the type checker's answers, the
  packages of golang.org/x/tools and the operating system are parameters.
\<close>

section \<open>Symbols\<close>

definition crawshaw :: gostring where "crawshaw = ''crawshaw.io/sqlite''"
definition crawshawX :: gostring where "crawshawX = crawshaw @ ''/sqlitex''"
definition zombiezen :: gostring where "zombiezen = ''zombiezen.com/go/sqlite''"
definition zombiezenX :: gostring where "zombiezenX = zombiezen @ ''/sqlitex''"
definition zombiezenFile :: gostring where "zombiezenFile = zombiezen @ ''/sqlitefile''"
definition bass :: gostring where "bass = ''zombiezen.com/go/bass/sql''"
definition bassFile :: gostring where "bassFile = ''zombiezen.com/go/bass/sql/sqlitefile''"

definition importRemaps :: "(gostring \<times> gostring) list" where
  "importRemaps = [(crawshaw, zombiezen), (crawshawX, zombiezenX), (bass @ ''/sqlitemigration'', zombiezen @ ''/sqlitemigration'')]"

datatype symbol = Symbol (sy_importPath: gostring) (sy_typeName: gostring) (sy_name: gostring)

definition rewrites_names :: "(symbol \<times> symbol) list" where
  "rewrites_names = [
     (Symbol crawshaw '''' ''ErrorCode'', Symbol zombiezen '''' ''ResultCode''),
     (Symbol crawshaw '''' ''ChangesetInvert'', Symbol zombiezen '''' ''InvertChangeset''),
     (Symbol crawshaw '''' ''ChangesetConcat'', Symbol zombiezen '''' ''ConcatChangesets''),
     (Symbol crawshaw ''Conn'' ''GetAutocommit'', Symbol zombiezen ''Conn'' ''AutocommitEnabled''),
     (Symbol crawshaw ''Conn'' ''ChangesetApply'', Symbol zombiezen ''Conn'' ''ApplyChangeset''),
     (Symbol crawshaw ''Conn'' ''ChangesetApplyInverse'', Symbol zombiezen ''Conn'' ''ApplyInverseChangeset''),
     (Symbol crawshaw ''Session'' ''Changeset'', Symbol zombiezen ''Session'' ''WriteChangeset''),
     (Symbol crawshaw ''Session'' ''Patchset'', Symbol zombiezen ''Session'' ''WritePatchset''),
     (Symbol crawshaw '''' ''ChangesetIter'', Symbol zombiezen '''' ''ChangesetIterator''),
     (Symbol crawshaw '''' ''ChangesetIterStart'', Symbol zombiezen '''' ''NewChangesetIterator''),
     (Symbol crawshaw ''ChangesetIter'' ''Finalize'', Symbol zombiezen ''ChangesetIterator'' ''Close''),
     (Symbol crawshaw ''ChangesetIter'' ''Conflict'', Symbol zombiezen ''ChangesetIterator'' ''ConflictValue''),
     (Symbol crawshaw ''ChangesetIter'' ''FKConflicts'', Symbol zombiezen ''ChangesetIterator'' ''ForeignKeyConflicts''),
     (Symbol crawshaw ''ChangesetIter'' ''PK'', Symbol zombiezen ''ChangesetIterator'' ''PrimaryKey''),
     (Symbol crawshaw ''Changegroup'' ''Delete'', Symbol zombiezen ''Changegroup'' ''Clear''),
     (Symbol crawshaw ''Changegroup'' ''Output'', Symbol zombiezen ''Changegroup'' ''WriteTo''),
     (Symbol crawshawX '''' ''Buffer'', Symbol zombiezenFile '''' ''Buffer''),
     (Symbol crawshawX '''' ''File'', Symbol zombiezenFile '''' ''File''),
     (Symbol crawshawX '''' ''NewBuffer'', Symbol zombiezenFile '''' ''NewBuffer''),
     (Symbol crawshawX '''' ''NewBufferSize'', Symbol zombiezenFile '''' ''NewBufferSize''),
     (Symbol crawshawX '''' ''NewFile'', Symbol zombiezenFile '''' ''NewFile''),
     (Symbol crawshawX '''' ''NewFileSize'', Symbol zombiezenFile '''' ''NewFileSize''),
     (Symbol bassFile '''' ''ExecOptions'', Symbol zombiezenX '''' ''ExecOptions''),
     (Symbol bassFile '''' ''Exec'', Symbol zombiezenX '''' ''ExecuteFS''),
     (Symbol bassFile '''' ''ExecTransient'', Symbol zombiezenX '''' ''ExecuteTransientFS''),
     (Symbol bassFile '''' ''PrepareTransient'', Symbol zombiezenX '''' ''PrepareTransientFS''),
     (Symbol bassFile '''' ''ExecScript'', Symbol zombiezenX '''' ''ExecuteScriptFS''),
     (Symbol zombiezenX '''' ''ExecFS'', Symbol zombiezenX '''' ''ExecuteFS''),
     (Symbol zombiezenX '''' ''ExecTransientFS'', Symbol zombiezenX '''' ''ExecuteTransientFS''),
     (Symbol zombiezenX '''' ''ExecScriptFS'', Symbol zombiezenX '''' ''ExecuteScriptFS'')]"

definition rewrites_OpenFlags :: "(gostring \<times> gostring) list" where
  "rewrites_OpenFlags = [
     (''SQLITE_OPEN_READONLY'', ''OpenReadOnly''), (''SQLITE_OPEN_READWRITE'', ''OpenReadWrite''), (''SQLITE_OPEN_CREATE'', ''OpenCreate''),
     (''SQLITE_OPEN_URI'', ''OpenURI''), (''SQLITE_OPEN_MEMORY'', ''OpenMemory''), (''SQLITE_OPEN_NOMUTEX'', ''OpenNoMutex''),
     (''SQLITE_OPEN_FULLMUTEX'', ''OpenFullMutex''), (''SQLITE_OPEN_SHAREDCACHE'', ''OpenSharedCache''),
     (''SQLITE_OPEN_PRIVATECACHE'', ''OpenPrivateCache''), (''SQLITE_OPEN_WAL'', ''OpenWAL'')]"

definition rewrites_ColumnType :: "(gostring \<times> gostring) list" where
  "rewrites_ColumnType = [
     (''SQLITE_INTEGER'', ''TypeInteger''), (''SQLITE_FLOAT'', ''TypeFloat''), (''SQLITE_TEXT'', ''TypeText''), (''SQLITE_BLOB'', ''TypeBlob''),
     (''SQLITE_NULL'', ''TypeNull'')]"

definition rewrites_primary :: "(gostring \<times> gostring) list" where
  "rewrites_primary = [
     (''SQLITE_OK'', ''ResultOK''), (''SQLITE_ERROR'', ''ResultError''), (''SQLITE_INTERNAL'', ''ResultInternal''), (''SQLITE_PERM'', ''ResultPerm''),
     (''SQLITE_ABORT'', ''ResultAbort''), (''SQLITE_BUSY'', ''ResultBusy''), (''SQLITE_LOCKED'', ''ResultLocked''),
     (''SQLITE_NOMEM'', ''ResultNoMem''), (''SQLITE_READONLY'', ''ResultReadOnly''), (''SQLITE_INTERRUPT'', ''ResultInterrupt''),
     (''SQLITE_IOERR'', ''ResultIOErr''), (''SQLITE_CORRUPT'', ''ResultCorrupt''), (''SQLITE_NOTFOUND'', ''ResultNotFound''),
     (''SQLITE_FULL'', ''ResultFull''), (''SQLITE_CANTOPEN'', ''ResultCantOpen''), (''SQLITE_PROTOCOL'', ''ResultProtocol''),
     (''SQLITE_EMPTY'', ''ResultEmpty''), (''SQLITE_SCHEMA'', ''ResultSchema''), (''SQLITE_TOOBIG'', ''ResultTooBig''),
     (''SQLITE_CONSTRAINT'', ''ResultConstraint''), (''SQLITE_MISMATCH'', ''ResultMismatch''), (''SQLITE_MISUSE'', ''ResultMisuse''),
     (''SQLITE_NOLFS'', ''ResultNoLFS''), (''SQLITE_AUTH'', ''ResultAuth''), (''SQLITE_FORMAT'', ''ResultFormat''),
     (''SQLITE_RANGE'', ''ResultRange''), (''SQLITE_NOTADB'', ''ResultNotADB''), (''SQLITE_NOTICE'', ''ResultNotice''),
     (''SQLITE_WARNING'', ''ResultWarning''), (''SQLITE_ROW'', ''ResultRow''), (''SQLITE_DONE'', ''ResultDone'')]"

definition rewrites_extended :: "(gostring \<times> gostring) list" where
  "rewrites_extended = [
     (''SQLITE_ERROR_MISSING_COLLSEQ'', ''ResultErrorMissingCollSeq''), (''SQLITE_ERROR_RETRY'', ''ResultErrorRetry''),
     (''SQLITE_ERROR_SNAPSHOT'', ''ResultErrorSnapshot''), (''SQLITE_IOERR_READ'', ''ResultIOErrRead''),
     (''SQLITE_IOERR_SHORT_READ'', ''ResultIOErrShortRead''), (''SQLITE_IOERR_WRITE'', ''ResultIOErrWrite''),
     (''SQLITE_IOERR_FSYNC'', ''ResultIOErrFsync''), (''SQLITE_IOERR_DIR_FSYNC'', ''ResultIOErrDirFsync''),
     (''SQLITE_IOERR_TRUNCATE'', ''ResultIOErrTruncate''), (''SQLITE_IOERR_FSTAT'', ''ResultIOErrFstat''),
     (''SQLITE_IOERR_UNLOCK'', ''ResultIOErrUnlock''), (''SQLITE_IOERR_RDLOCK'', ''ResultIOErrReadLock''),
     (''SQLITE_IOERR_DELETE'', ''ResultIOErrDelete''), (''SQLITE_IOERR_BLOCKED'', ''ResultIOErrBlocked''),
     (''SQLITE_IOERR_NOMEM'', ''ResultIOErrNoMem''), (''SQLITE_IOERR_ACCESS'', ''ResultIOErrAccess''),
     (''SQLITE_IOERR_CHECKRESERVEDLOCK'', ''ResultIOErrCheckReservedLock''), (''SQLITE_IOERR_LOCK'', ''ResultIOErrLock''),
     (''SQLITE_IOERR_CLOSE'', ''ResultIOErrClose''), (''SQLITE_IOERR_DIR_CLOSE'', ''ResultIOErrDirClose''),
     (''SQLITE_IOERR_SHMOPEN'', ''ResultIOErrSHMOpen''), (''SQLITE_IOERR_SHMSIZE'', ''ResultIOErrSHMSize''),
     (''SQLITE_IOERR_SHMLOCK'', ''ResultIOErrSHMLock''), (''SQLITE_IOERR_SHMMAP'', ''ResultIOErrSHMMap''),
     (''SQLITE_IOERR_SEEK'', ''ResultIOErrSeek''), (''SQLITE_IOERR_DELETE_NOENT'', ''ResultIOErrDeleteNoEnt''),
     (''SQLITE_IOERR_MMAP'', ''ResultIOErrMMap''), (''SQLITE_IOERR_GETTEMPPATH'', ''ResultIOErrGetTempPath''),
     (''SQLITE_IOERR_CONVPATH'', ''ResultIOErrConvPath''), (''SQLITE_IOERR_VNODE'', ''ResultIOErrVNode''),
     (''SQLITE_IOERR_AUTH'', ''ResultIOErrAuth''), (''SQLITE_IOERR_BEGIN_ATOMIC'', ''ResultIOErrBeginAtomic''),
     (''SQLITE_IOERR_COMMIT_ATOMIC'', ''ResultIOErrCommitAtomic''), (''SQLITE_IOERR_ROLLBACK_ATOMIC'', ''ResultIOErrRollbackAtomic''),
     (''SQLITE_LOCKED_SHAREDCACHE'', ''ResultLockedSharedCache''), (''SQLITE_BUSY_RECOVERY'', ''ResultBusyRecovery''),
     (''SQLITE_BUSY_SNAPSHOT'', ''ResultBusySnapshot''), (''SQLITE_CANTOPEN_NOTEMPDIR'', ''ResultCantOpenNoTempDir''),
     (''SQLITE_CANTOPEN_ISDIR'', ''ResultCantOpenIsDir''), (''SQLITE_CANTOPEN_FULLPATH'', ''ResultCantOpenFullPath''),
     (''SQLITE_CANTOPEN_CONVPATH'', ''ResultCantOpenConvPath''), (''SQLITE_CORRUPT_VTAB'', ''ResultCorruptVTab''),
     (''SQLITE_READONLY_RECOVERY'', ''ResultReadOnlyRecovery''), (''SQLITE_READONLY_CANTLOCK'', ''ResultReadOnlyCantLock''),
     (''SQLITE_READONLY_ROLLBACK'', ''ResultReadOnlyRollback''), (''SQLITE_READONLY_DBMOVED'', ''ResultReadOnlyDBMoved''),
     (''SQLITE_READONLY_CANTINIT'', ''ResultReadOnlyCantInit''), (''SQLITE_READONLY_DIRECTORY'', ''ResultReadOnlyDirectory''),
     (''SQLITE_ABORT_ROLLBACK'', ''ResultAbortRollback''), (''SQLITE_CONSTRAINT_CHECK'', ''ResultConstraintCheck''),
     (''SQLITE_CONSTRAINT_COMMITHOOK'', ''ResultConstraintCommitHook''), (''SQLITE_CONSTRAINT_FOREIGNKEY'', ''ResultConstraintForeignKey''),
     (''SQLITE_CONSTRAINT_FUNCTION'', ''ResultConstraintFunction''), (''SQLITE_CONSTRAINT_NOTNULL'', ''ResultConstraintNotNull''),
     (''SQLITE_CONSTRAINT_PRIMARYKEY'', ''ResultConstraintPrimaryKey''), (''SQLITE_CONSTRAINT_TRIGGER'', ''ResultConstraintTrigger''),
     (''SQLITE_CONSTRAINT_UNIQUE'', ''ResultConstraintUnique''), (''SQLITE_CONSTRAINT_VTAB'', ''ResultConstraintVTab''),
     (''SQLITE_CONSTRAINT_ROWID'', ''ResultConstraintRowID''), (''SQLITE_NOTICE_RECOVER_WAL'', ''ResultNoticeRecoverWAL''),
     (''SQLITE_NOTICE_RECOVER_ROLLBACK'', ''ResultNoticeRecoverRollback''), (''SQLITE_WARNING_AUTOINDEX'', ''ResultWarningAutoIndex''),
     (''SQLITE_AUTH_USER'', ''ResultAuthUser'')]"

definition rewrites_OpType :: "(gostring \<times> gostring) list" where
  "rewrites_OpType = [
     (''SQLITE_CREATE_INDEX'', ''OpCreateIndex''), (''SQLITE_CREATE_TABLE'', ''OpCreateTable''),
     (''SQLITE_CREATE_TEMP_INDEX'', ''OpCreateTempIndex''), (''SQLITE_CREATE_TEMP_TABLE'', ''OpCreateTempTable''),
     (''SQLITE_CREATE_TEMP_TRIGGER'', ''OpCreateTempTrigger''), (''SQLITE_CREATE_TEMP_VIEW'', ''OpCreateTempView''),
     (''SQLITE_CREATE_TRIGGER'', ''OpCreateTrigger''), (''SQLITE_CREATE_VIEW'', ''OpCreateView''), (''SQLITE_DELETE'', ''OpDelete''),
     (''SQLITE_DROP_INDEX'', ''OpDropIndex''), (''SQLITE_DROP_TABLE'', ''OpDropTable''), (''SQLITE_DROP_TEMP_INDEX'', ''OpDropTempIndex''),
     (''SQLITE_DROP_TEMP_TABLE'', ''OpDropTempTable''), (''SQLITE_DROP_TEMP_TRIGGER'', ''OpDropTempTrigger''),
     (''SQLITE_DROP_TEMP_VIEW'', ''OpDropTempView''), (''SQLITE_DROP_TRIGGER'', ''OpDropTrigger''), (''SQLITE_DROP_VIEW'', ''OpDropView''),
     (''SQLITE_INSERT'', ''OpInsert''), (''SQLITE_PRAGMA'', ''OpPragma''), (''SQLITE_READ'', ''OpRead''), (''SQLITE_SELECT'', ''OpSelect''),
     (''SQLITE_TRANSACTION'', ''OpTransaction''), (''SQLITE_UPDATE'', ''OpUpdate''), (''SQLITE_ATTACH'', ''OpAttach''),
     (''SQLITE_DETACH'', ''OpDetach''), (''SQLITE_ALTER_TABLE'', ''OpAlterTable''), (''SQLITE_REINDEX'', ''OpReindex''),
     (''SQLITE_ANALYZE'', ''OpAnalyze''), (''SQLITE_CREATE_VTABLE'', ''OpCreateVTable''), (''SQLITE_DROP_VTABLE'', ''OpDropVTable''),
     (''SQLITE_FUNCTION'', ''OpFunction''), (''SQLITE_SAVEPOINT'', ''OpSavepoint''), (''SQLITE_COPY'', ''OpCopy''),
     (''SQLITE_RECURSIVE'', ''OpRecursive'')]"

definition rewrites_Limit :: "(gostring \<times> gostring) list" where
  "rewrites_Limit = [
     (''SQLITE_LIMIT_LENGTH'', ''LimitLength''), (''SQLITE_LIMIT_SQL_LENGTH'', ''LimitSQLLength''), (''SQLITE_LIMIT_COLUMN'', ''LimitColumn''),
     (''SQLITE_LIMIT_EXPR_DEPTH'', ''LimitExprDepth''), (''SQLITE_LIMIT_COMPOUND_SELECT'', ''LimitCompoundSelect''),
     (''SQLITE_LIMIT_VDBE_OP'', ''LimitVDBEOp''), (''SQLITE_LIMIT_FUNCTION_ARG'', ''LimitFunctionArg''),
     (''SQLITE_LIMIT_ATTACHED'', ''LimitAttached''), (''SQLITE_LIMIT_LIKE_PATTERN_LENGTH'', ''LimitLikePatternLength''),
     (''SQLITE_LIMIT_VARIABLE_NUMBER'', ''LimitVariableNumber''), (''SQLITE_LIMIT_TRIGGER_DEPTH'', ''LimitTriggerDepth''),
     (''SQLITE_LIMIT_WORKER_THREADS'', ''LimitWorkerThreads'')]"

definition rewrites_AuthResult :: "(gostring \<times> gostring) list" where
  "rewrites_AuthResult = [
     (''SQLITE_DENY'', ''AuthResultDeny''), (''SQLITE_IGNORE'', ''AuthResultIgnore'')]"

definition rewrites_conflicts :: "(gostring \<times> gostring) list" where
  "rewrites_conflicts = [
     (''SQLITE_CHANGESET_DATA'', ''ChangesetData''), (''SQLITE_CHANGESET_NOTFOUND'', ''ChangesetNotFound''),
     (''SQLITE_CHANGESET_CONFLICT'', ''ChangesetConflict''), (''SQLITE_CHANGESET_CONSTRAINT'', ''ChangesetConstraint''),
     (''SQLITE_CHANGESET_FOREIGN_KEY'', ''ChangesetForeignKey''), (''SQLITE_CHANGESET_OMIT'', ''ChangesetOmit''),
     (''SQLITE_CHANGESET_ABORT'', ''ChangesetAbort''), (''SQLITE_CHANGESET_REPLACE'', ''ChangesetReplace'')]"

text \<open>The constants are all renamed from crawshaw to zombiezen.\<close>

definition const_rewrites :: "(gostring \<times> gostring) list" where
  "const_rewrites = rewrites_OpenFlags @ rewrites_ColumnType @ rewrites_primary @ rewrites_extended @ rewrites_OpType @ rewrites_Limit @ rewrites_AuthResult @ rewrites_conflicts"

definition symbolRewrites :: "(symbol \<times> symbol) list" where
  "symbolRewrites = rewrites_names @ map (\<lambda>(c, g). (Symbol crawshaw [] c, Symbol zombiezen [] g)) const_rewrites"

definition removedWarning :: gostring where "removedWarning = ''gone with no replacement available''"

definition symbolWarnings :: "(symbol \<times> gostring) list" where
  "symbolWarnings = [
     (Symbol crawshaw ''Blob'' ''ReadAt'', removedWarning),
     (Symbol crawshaw ''Blob'' ''WriteAt'', removedWarning),
     (Symbol crawshaw ''Blob'' ''Closer'', removedWarning),
     (Symbol crawshaw ''Blob'' ''ReadWriteSeeker'', removedWarning),
     (Symbol crawshaw ''Blob'' ''ReaderAt'', removedWarning),
     (Symbol crawshaw ''Blob'' ''WriterAt'', removedWarning),
     (Symbol crawshaw '''' ''Error'', ''use sqlite.ErrorCode instead''),
     (Symbol crawshaw ''Conn'' ''CreateFunction'', ''CreateFunction'' @ [CHR 0x27] @ ''s API has changed substantially and this code needs to be rewritten''),
     (Symbol crawshaw ''Conn'' ''EnableDoubleQuotedStringLiterals'', removedWarning),
     (Symbol crawshaw ''Conn'' ''EnableLoadExtension'', removedWarning),
     (Symbol crawshaw ''Value'' ''IsNil'', removedWarning),
     (Symbol crawshaw ''Value'' ''Len'', ''use Value.Blob or Value.Text methods'')]"

text \<open>The declarations of openflags.go: Go name and C name.\<close>

definition OpenFlags_consts :: "(gostring \<times> gostring) list" where
  "OpenFlags_consts = [
     (''OpenReadOnly'', ''SQLITE_OPEN_READONLY''),
     (''OpenReadWrite'', ''SQLITE_OPEN_READWRITE''),
     (''OpenCreate'', ''SQLITE_OPEN_CREATE''),
     (''OpenURI'', ''SQLITE_OPEN_URI''),
     (''OpenMemory'', ''SQLITE_OPEN_MEMORY''),
     (''OpenSharedCache'', ''SQLITE_OPEN_SHAREDCACHE''),
     (''OpenPrivateCache'', ''SQLITE_OPEN_PRIVATECACHE''),
     (''OpenWAL'', ''SQLITE_OPEN_WAL''),
     (''OpenNoMutex'', ''SQLITE_OPEN_NOMUTEX''),
     (''OpenFullMutex'', ''SQLITE_OPEN_FULLMUTEX'')]"

section \<open>Parameters\<close>

text \<open>What the type checker says: types as far as the tool looks at them, the object that an identifier denotes, the selection of a selector expression.  Syntax nodes are numbered.\<close>

datatype gotype = T_Pointer gotype | T_Named gostring | T_Signature "gotype option" | T_other

record object =
  ob_pkg :: "gostring option"
  ob_name :: gostring
  ob_type :: gotype

record selection =
  se_obj :: object
  se_recv :: "gotype option"

record types_info =
  ti_ObjectOf :: "nat \<Rightarrow> object option"
  ti_Selections :: "nat \<Rightarrow> selection option"

text \<open>An import: its name, the literal of its path, and the package name that the type checker found for an import without name.\<close>

record ImportSpec =
  is_Name :: "gostring option"
  is_Path :: "gostring option"
  is_Implicit :: "gostring option"

text \<open>From Go's library \<open>strconv.Unquote\<close>, \<open>strconv.IsPrint\<close> beyond ASCII and \<open>token.IsIdentifier\<close>; from golang.org/x/tools the functions that add an import to a file.\<close>

record tool_lib =
  t_Unquote :: "gostring \<Rightarrow> gostring option"
  t_isPrint :: "nat \<Rightarrow> bool"
  t_IsIdentifier :: "gostring \<Rightarrow> bool"
  t_AddImport :: "gostring \<Rightarrow> ImportSpec list \<Rightarrow> ImportSpec list"
  t_AddNamedImport :: "gostring \<Rightarrow> gostring \<Rightarrow> ImportSpec list \<Rightarrow> ImportSpec list"

section \<open>Imports\<close>

text \<open>\<open>path.Base\<close>.\<close>

definition path_Base :: "gostring \<Rightarrow> gostring" where
  "path_Base p = (if p = [] then ''.'' else
     let q = dropWhile (\<lambda>c. c = CHR ''/'') (rev p); r = rev (takeWhile (\<lambda>c. c \<noteq> CHR ''/'') q) in if r = [] then ''/'' else r)"

text \<open>\<open>None\<close>: the import has no path, which the code takes for granted here.\<close>

definition localImportName :: "tool_lib \<Rightarrow> ImportSpec \<Rightarrow> gostring option" where
  "localImportName T imp = (case is_Name imp of
     Some n \<Rightarrow> Some n
   | None \<Rightarrow> (case is_Implicit imp of
       Some n \<Rightarrow> Some n
     | None \<Rightarrow> do {
         lit \<leftarrow> is_Path imp;
         Some (case t_Unquote T lit of None \<Rightarrow> [] | Some path \<Rightarrow> let base = path_Base path in if \<not> t_IsIdentifier T base then [] else base)
       }))"

definition remap_import :: "tool_lib \<Rightarrow> ImportSpec \<Rightarrow> ImportSpec option" where
  "remap_import T imp = (case is_Path imp of
     None \<Rightarrow> Some imp
   | Some lit \<Rightarrow> (case t_Unquote T lit of
       None \<Rightarrow> Some imp
     | Some impPath \<Rightarrow> (case map_of importRemaps impPath of
         None \<Rightarrow> Some imp
       | Some remapped \<Rightarrow> do {
           local \<leftarrow> localImportName T imp;
           let imp = (if local \<noteq> path_Base remapped then imp\<lparr>is_Name := Some local\<rparr> else imp);
           Some (imp\<lparr>is_Path := Some (Quote (t_isPrint T) remapped)\<rparr>)
         })))"

fun remap_imports :: "tool_lib \<Rightarrow> ImportSpec list \<Rightarrow> ImportSpec list option" where
  "remap_imports T [] = Some []"
| "remap_imports T (imp # imps) = do { imp \<leftarrow> remap_import T imp; imps \<leftarrow> remap_imports T imps; Some (imp # imps) }"

text \<open>The loop over the imports: the name of the import of this path (\<open>Inl\<close>), or all names in use.\<close>

fun used_ids :: "tool_lib \<Rightarrow> gostring \<Rightarrow> ImportSpec list \<Rightarrow> gostring list \<Rightarrow> (gostring + gostring list) option" where
  "used_ids T importPath [] used = Some (Inr used)"
| "used_ids T importPath (imp # imps) used = do {
     lit \<leftarrow> is_Path imp;
     (case t_Unquote T lit of
        None \<Rightarrow> used_ids T importPath imps used
      | Some ipath \<Rightarrow> do {
          i \<leftarrow> localImportName T imp;
          if i = ''_'' then used_ids T importPath imps used
          else if ipath = importPath then Some (Inl i)
          else used_ids T importPath imps (i # used)
        })
   }"

partial_function (option) fresh_id :: "gostring \<Rightarrow> gostring list \<Rightarrow> nat \<Rightarrow> gostring option" where
  "fresh_id base used i = (let n = base @ FormatInt (int i) in if n \<notin> set used then Some n else fresh_id base used (i + 1))"

definition acquirePackageID :: "tool_lib \<Rightarrow> ImportSpec list \<Rightarrow> gostring \<Rightarrow> (gostring \<times> ImportSpec list) option" where
  "acquirePackageID T imps importPath = do {
     r \<leftarrow> used_ids T importPath imps [];
     (case r of
        Inl i \<Rightarrow> Some (i, imps)
      | Inr used \<Rightarrow>
          let base = path_Base importPath in
          if base \<notin> set used then Some (base, t_AddImport T importPath imps)
          else do { i \<leftarrow> fresh_id base used 2; Some (i, t_AddNamedImport T i importPath imps) })
   }"

section \<open>Rewriting the tree\<close>

text \<open>The children of a node are in the order in which \<open>astutil.Apply\<close> visits them.  A selector expression has its operand and the identifier after the dot.\<close>

datatype node = Ident nat gostring | SelectorExpr nat node nat gostring | Node nat "node list"

record rewrite_state =
  rs_imports :: "ImportSpec list"
  rs_warnings :: "(nat \<times> gostring) list"
  rs_skip :: "nat set"

fun depointerType :: "gotype \<Rightarrow> gotype" where
  "depointerType (T_Pointer t) = depointerType t"
| "depointerType t = t"

definition named :: "gotype \<Rightarrow> gostring" where
  "named t = (case depointerType t of T_Named n \<Rightarrow> n | _ \<Rightarrow> [])"

definition ident_symbol :: "types_info \<Rightarrow> nat \<Rightarrow> symbol option" where
  "ident_symbol I i = do {
     obj \<leftarrow> ti_ObjectOf I i;
     objPkg \<leftarrow> ob_pkg obj;
     Some (Symbol objPkg (case ob_type obj of T_Signature (Some recv) \<Rightarrow> named recv | _ \<Rightarrow> []) (ob_name obj))
   }"

definition selection_symbol :: "types_info \<Rightarrow> nat \<Rightarrow> symbol option" where
  "selection_symbol I i = do {
     sel \<leftarrow> ti_Selections I i;
     objPkg \<leftarrow> ob_pkg (se_obj sel);
     Some (Symbol objPkg (case se_recv sel of Some recv \<Rightarrow> named recv | None \<Rightarrow> []) (ob_name (se_obj sel)))
   }"

definition new_symbol :: "symbol \<Rightarrow> symbol option" where
  "new_symbol sm = (case map_of symbolRewrites sm of None \<Rightarrow> None | Some t \<Rightarrow> if sy_name t \<noteq> [] then Some t else None)"

definition new_name :: "symbol \<Rightarrow> gostring \<Rightarrow> gostring" where
  "new_name sm nm = (case new_symbol sm of None \<Rightarrow> nm | Some t \<Rightarrow> sy_name t)"

text \<open>The package of a symbol that does not move along with its package.\<close>

definition moved_to :: "symbol \<Rightarrow> gostring option" where
  "moved_to sm = (case new_symbol sm of None \<Rightarrow> None
     | Some t \<Rightarrow> if Some (sy_importPath t) \<noteq> map_of importRemaps (sy_importPath sm) then Some (sy_importPath t) else None)"

definition add_warning :: "nat \<Rightarrow> symbol \<Rightarrow> rewrite_state \<Rightarrow> rewrite_state" where
  "add_warning i sm s = (case map_of symbolWarnings sm of
     None \<Rightarrow> s
   | Some warning \<Rightarrow> if warning \<noteq> [] then s\<lparr>rs_warnings := rs_warnings s @ [(i, warning)]\<rparr> else s)"

text \<open>The case of an identifier.  \<open>qualifier\<close>: its parent is a selector expression whose operand is an identifier; the second result is the new name of that operand.\<close>

definition visit_ident :: "tool_lib \<Rightarrow> types_info \<Rightarrow> bool \<Rightarrow> nat \<Rightarrow> gostring \<Rightarrow> rewrite_state \<Rightarrow> ((gostring \<times> gostring option) \<times> rewrite_state) option" where
  "visit_ident T I qualifier i nm s = (case ident_symbol I i of
     None \<Rightarrow> Some ((nm, None), s)
   | Some sm \<Rightarrow> do {
       (q, s) \<leftarrow> (case moved_to sm of
          Some path \<Rightarrow> if qualifier then do { (pkg, imps) \<leftarrow> acquirePackageID T (rs_imports s) path; Some (Some pkg, s\<lparr>rs_imports := imps\<rparr>) } else Some (None, s)
        | None \<Rightarrow> Some (None, s));
       Some ((new_name sm nm, q), add_warning i sm s)
     })"

text \<open>The case of a selector expression; the warning stands at the identifier after the dot, which is not visited again.\<close>

definition visit_selector :: "types_info \<Rightarrow> nat \<Rightarrow> nat \<Rightarrow> gostring \<Rightarrow> rewrite_state \<Rightarrow> gostring \<times> rewrite_state" where
  "visit_selector I i j nm s = (case selection_symbol I i of
     None \<Rightarrow> (nm, s)
   | Some sm \<Rightarrow> (new_name sm nm, (add_warning j sm s)\<lparr>rs_skip := insert j (rs_skip s)\<rparr>))"

definition is_ident :: "node \<Rightarrow> bool" where
  "is_ident x = (case x of Ident _ _ \<Rightarrow> True | _ \<Rightarrow> False)"

definition set_ident :: "gostring option \<Rightarrow> node \<Rightarrow> node" where
  "set_ident q x = (case (x, q) of (Ident k _, Some n) \<Rightarrow> Ident k n | _ \<Rightarrow> x)"

text \<open>An operand that is an identifier has a selector expression as its parent, and is the operand of it.\<close>

fun apply_node :: "tool_lib \<Rightarrow> types_info \<Rightarrow> bool \<Rightarrow> node \<Rightarrow> rewrite_state \<Rightarrow> (node \<times> rewrite_state) option"
  and apply_nodes :: "tool_lib \<Rightarrow> types_info \<Rightarrow> node list \<Rightarrow> rewrite_state \<Rightarrow> (node list \<times> rewrite_state) option" where
  "apply_node T I operand (Ident i nm) s =
     (if i \<in> rs_skip s then Some (Ident i nm, s)
      else do { ((nm, q), s) \<leftarrow> visit_ident T I operand i nm s; Some (set_ident q (Ident i nm), s) })"
| "apply_node T I operand (SelectorExpr i x j sel) s =
     (if i \<in> rs_skip s then Some (SelectorExpr i x j sel, s)
      else case visit_selector I i j sel s of (sel, s) \<Rightarrow> do {
        (x, s) \<leftarrow> apply_node T I True x s;
        if j \<in> rs_skip s then Some (SelectorExpr i x j sel, s)
        else do { ((sel, q), s) \<leftarrow> visit_ident T I (is_ident x) j sel s; Some (SelectorExpr i (set_ident q x) j sel, s) }
      })"
| "apply_node T I operand (Node i cs) s =
     (if i \<in> rs_skip s then Some (Node i cs, s) else do { (cs, s) \<leftarrow> apply_nodes T I cs s; Some (Node i cs, s) })"
| "apply_nodes T I [] s = Some ([], s)"
| "apply_nodes T I (n # ns) s = do { (n, s) \<leftarrow> apply_node T I False n s; (ns, s) \<leftarrow> apply_nodes T I ns s; Some (n # ns, s) }"

text \<open>A file: its imports and its other declarations.\<close>

record go_file =
  gf_path :: gostring
  gf_imports :: "ImportSpec list"
  gf_decls :: "node list"

definition process :: "tool_lib \<Rightarrow> types_info \<Rightarrow> go_file \<Rightarrow> ((nat \<times> gostring) list \<times> go_file) option" where
  "process T I file = do {
     imps \<leftarrow> remap_imports T (gf_imports file);
     (decls, s) \<leftarrow> apply_nodes T I (gf_decls file) \<lparr>rs_imports = imps, rs_warnings = [], rs_skip = {}\<rparr>;
     Some (rs_warnings s, file\<lparr>gf_imports := rs_imports s, gf_decls := decls\<rparr>)
   }"

section \<open>The program\<close>

text \<open>The results of an external command: success, an exit status, any other error.  \<open>io_LoadNames\<close> gives for every package the number of its errors and its path.\<close>

datatype cmd_result = Cmd_ok | Cmd_exit int go_error | Cmd_error go_error

record package =
  pk_info :: types_info
  pk_files :: "go_file list"

record 'w tool_io =
  io_Load :: "gostring list \<Rightarrow> 'w \<Rightarrow> (go_error + package list) \<times> 'w"
  io_LoadNames :: "gostring \<Rightarrow> 'w \<Rightarrow> (go_error + (nat \<times> gostring) list) \<times> 'w"
  io_format :: "go_file \<Rightarrow> go_error + gostring"
  io_goimports :: "gostring \<Rightarrow> gostring \<Rightarrow> 'w \<Rightarrow> (go_error + gostring) \<times> 'w"
  io_WriteFile :: "gostring \<Rightarrow> gostring \<Rightarrow> 'w \<Rightarrow> error \<times> 'w"
  io_CreateTemp :: "'w \<Rightarrow> (go_error + gostring) \<times> 'w"
  io_Write :: "gostring \<Rightarrow> gostring \<Rightarrow> 'w \<Rightarrow> error \<times> 'w"
  io_Close :: "gostring \<Rightarrow> 'w \<Rightarrow> error \<times> 'w"
  io_Remove :: "gostring \<Rightarrow> 'w \<Rightarrow> error \<times> 'w"
  io_diff :: "gostring \<Rightarrow> gostring \<Rightarrow> 'w \<Rightarrow> (cmd_result \<times> gostring) \<times> 'w"
  io_go_get :: "gostring \<Rightarrow> 'w \<Rightarrow> error \<times> 'w"
  io_stdout :: "gostring \<Rightarrow> 'w \<Rightarrow> 'w"
  io_stderr :: "gostring \<Rightarrow> 'w \<Rightarrow> 'w"
  io_Position :: "nat \<Rightarrow> gostring"
  io_Error :: "go_error \<Rightarrow> gostring"

definition programName :: gostring where "programName = ''zombiezen-sqlite-migrate''"

definition say :: "'w tool_io \<Rightarrow> gostring \<Rightarrow> 'w \<Rightarrow> 'w" where
  "say Os m = io_stderr Os (programName @ '': '' @ m @ [CHR 0x0A])"

definition formatFile :: "'w tool_io \<Rightarrow> gostring \<Rightarrow> go_file \<Rightarrow> 'w \<Rightarrow> (go_error + gostring) \<times> 'w" where
  "formatFile Os path file w = (case io_format Os file of Inl e \<Rightarrow> (Inl e, w) | Inr b \<Rightarrow> io_goimports Os path b w)"

definition writeFile :: "'w tool_io \<Rightarrow> gostring \<Rightarrow> go_file \<Rightarrow> 'w \<Rightarrow> error \<times> 'w" where
  "writeFile Os origPath file w = (case formatFile Os origPath file w of
     (Inl e, w) \<Rightarrow> (wrap_error (''write '' @ origPath @ '': %w'') (Some e), w)
   | (Inr formatted, w) \<Rightarrow> io_WriteFile Os origPath formatted w)"

text \<open>After the temporary file was created, and before it is closed again and removed by the deferred function.\<close>

definition diff_temp :: "'w tool_io \<Rightarrow> gostring \<Rightarrow> gostring \<Rightarrow> gostring \<Rightarrow> 'w \<Rightarrow> error \<times> 'w" where
  "diff_temp Os origPath fname formatted w =
     (let pre = ''diff '' @ origPath @ '' '' @ fname @ '': %w'' in
      case io_Write Os fname formatted w of (err, w) \<Rightarrow>
        if err \<noteq> None then (wrap_error pre err, w)
        else case io_Close Os fname w of (err, w) \<Rightarrow>
          if err \<noteq> None then (wrap_error pre err, w)
          else case io_diff Os origPath fname w of ((r, out), w) \<Rightarrow> (case r of
              Cmd_ok \<Rightarrow> (None, w)
            | Cmd_exit code e \<Rightarrow>
                if code \<noteq> 1 then (wrap_error pre (Some e), w)
                else (None, io_stdout Os out (io_stdout Os (''diff -u '' @ origPath @ '' '' @ fname @ [CHR 0x0A]) w))
            | Cmd_error e \<Rightarrow> (wrap_error pre (Some e), w)))"

definition diff :: "'w tool_io \<Rightarrow> gostring \<Rightarrow> go_file \<Rightarrow> 'w \<Rightarrow> error \<times> 'w" where
  "diff Os origPath file w =
     (let pre = ''diff '' @ origPath @ '': %w'' in
      case formatFile Os origPath file w of
        (Inl e, w) \<Rightarrow> (wrap_error pre (Some e), w)
      | (Inr formatted, w) \<Rightarrow> (case io_CreateTemp Os w of
          (Inl e, w) \<Rightarrow> (wrap_error pre (Some e), w)
        | (Inr fname, w) \<Rightarrow> (case diff_temp Os origPath fname formatted w of (err, w) \<Rightarrow>
            case io_Close Os fname w of (_, w) \<Rightarrow>
              case io_Remove Os fname w of (rerr, w) \<Rightarrow>
                (err, case rerr of None \<Rightarrow> w | Some e \<Rightarrow> say Os (''cleaning up temp file: '' @ io_Error Os e) w))))"

definition installModule :: "'w tool_io \<Rightarrow> 'w \<Rightarrow> error \<times> 'w" where
  "installModule Os w =
     (let pre = ''go get '' @ zombiezen @ '': %w'' in
      case io_LoadNames Os zombiezen w of
        (Inl e, w) \<Rightarrow> (wrap_error pre (Some e), w)
      | (Inr pkgs, w) \<Rightarrow>
          if \<exists>p \<in> set pkgs. fst p = 0 \<and> snd p = zombiezen then (None, w)
          else case io_go_get Os (zombiezen @ ''@v0.2.0'') w of (err, w) \<Rightarrow> (wrap_error pre err, w))"

definition run_file :: "tool_lib \<Rightarrow> 'w tool_io \<Rightarrow> bool \<Rightarrow> types_info \<Rightarrow> go_file \<Rightarrow> 'w \<Rightarrow> (go_error list \<times> 'w) option" where
  "run_file T Os writeFiles I f w = do {
     (warnings, f) \<leftarrow> process T I f;
     let es = map (\<lambda>(i, m). ErrorString (io_Position Os i @ '': '' @ m)) warnings;
     (case (if writeFiles then writeFile Os (gf_path f) f w else diff Os (gf_path f) f w) of (err, w) \<Rightarrow>
        Some (es @ (case err of None \<Rightarrow> [] | Some e \<Rightarrow> [e]), w))
   }"

fun run_files :: "tool_lib \<Rightarrow> 'w tool_io \<Rightarrow> bool \<Rightarrow> (types_info \<times> go_file) list \<Rightarrow> 'w \<Rightarrow> (go_error list \<times> 'w) option" where
  "run_files T Os writeFiles [] w = Some ([], w)"
| "run_files T Os writeFiles ((I, f) # fs) w = do {
     (es, w) \<leftarrow> run_file T Os writeFiles I f w;
     (es', w) \<leftarrow> run_files T Os writeFiles fs w;
     Some (es @ es', w)
   }"

definition pkg_files :: "package list \<Rightarrow> (types_info \<times> go_file) list" where
  "pkg_files pkgs = concat (map (\<lambda>pkg. map (\<lambda>f. (pk_info pkg, f)) (pk_files pkg)) pkgs)"

definition tool_run :: "tool_lib \<Rightarrow> 'w tool_io \<Rightarrow> bool \<Rightarrow> gostring list \<Rightarrow> 'w \<Rightarrow> (int \<times> 'w) option" where
  "tool_run T Os writeFiles patterns w =
     (case io_Load Os patterns (say Os ''loading packages...'' w) of
        (Inl e, w) \<Rightarrow> Some (1, say Os (io_Error Os e) w)
      | (Inr pkgs, w) \<Rightarrow> do {
          (errorList, w) \<leftarrow> run_files T Os writeFiles (pkg_files pkgs) (say Os ''packages loaded'' w);
          let w = fold (\<lambda>e. say Os (io_Error Os e)) errorList w;
          (case (if writeFiles then installModule Os w else (None, w)) of (err, w) \<Rightarrow>
             let w = (case err of None \<Rightarrow> w | Some e \<Rightarrow> say Os (io_Error Os e) w)
             in Some (if errorList \<noteq> [] \<or> err \<noteq> None then 1 else 0, w))
        })"

section \<open>The tables\<close>

text \<open>The constants of this package, Go name and C name.\<close>

definition declared_consts :: "(gostring \<times> gostring) list" where
  "declared_consts = OpenFlags_consts @ map (\<lambda>(g, c, s). (g, c))
     (ColumnType_table @ ResultCode_table @ OpType_table @ Limit_table @ AuthResult_table @ ConflictType_table @ ConflictAction_table)"

text \<open>A check that takes one pass when the rows are in the same order.\<close>

fun in_order :: "('a \<times> 'b) list \<Rightarrow> ('b \<times> 'a) list \<Rightarrow> bool" where
  "in_order [] ds = True"
| "in_order (r # rs) [] = False"
| "in_order ((c, g) # rs) ((g', c') # ds) = (if g = g' \<and> c = c' then in_order rs ds else in_order ((c, g) # rs) ds)"

lemma in_order_subset: "in_order rs ds \<Longrightarrow> (c, g) \<in> set rs \<Longrightarrow> (g, c) \<in> set ds"
  by (induction rs ds rule: in_order.induct) (auto split: if_splits)

lemma const_rewrites_declared:
  assumes "(c, g) \<in> set const_rewrites"
  shows "(g, c) \<in> set declared_consts"
proof -
  let ?t = "\<lambda>t :: enum_table. map (\<lambda>(g, c, s). (g, c)) t"
  have "in_order rewrites_ColumnType (?t ColumnType_table)" "in_order rewrites_primary (?t ResultCode_table)" "in_order rewrites_extended (?t ResultCode_table)"
    "in_order rewrites_OpType (?t OpType_table)" "in_order rewrites_Limit (?t Limit_table)" "in_order rewrites_AuthResult (?t AuthResult_table)"
    "in_order rewrites_conflicts (?t ConflictType_table @ ?t ConflictAction_table)" by code_simp+
  note tab = this [THEN in_order_subset]
  have "(g, c) \<in> set OpenFlags_consts" if "(c, g) \<in> set rewrites_OpenFlags" using that by (auto simp: rewrites_OpenFlags_def OpenFlags_consts_def)
  then show ?thesis using assms tab [of c g] unfolding const_rewrites_def declared_consts_def set_append map_append Un_iff by blast
qed

text \<open>No new symbol is renamed again, and a symbol that leaves its package goes to one of two packages.\<close>

lemma rewrites_names_facts:
  "(sm, t) \<in> set rewrites_names \<Longrightarrow> t \<notin> fst ` set rewrites_names"
  "(sm, t) \<in> set rewrites_names \<Longrightarrow> sy_importPath t \<noteq> crawshaw"
  "(sm, t) \<in> set rewrites_names \<Longrightarrow> Some (sy_importPath t) = map_of importRemaps (sy_importPath sm) \<or> sy_importPath t \<in> {zombiezenX, zombiezenFile}"
proof -
  have "list_all (\<lambda>(sm, t). t \<notin> set (map fst rewrites_names)) rewrites_names" by code_simp
  then show "(sm, t) \<in> set rewrites_names \<Longrightarrow> t \<notin> fst ` set rewrites_names" by (auto simp: list_all_iff)
  have "list_all (\<lambda>(sm, t). sy_importPath t \<noteq> crawshaw) rewrites_names" by code_simp
  then show "(sm, t) \<in> set rewrites_names \<Longrightarrow> sy_importPath t \<noteq> crawshaw" by (auto simp: list_all_iff)
  have "list_all (\<lambda>(sm, t). Some (sy_importPath t) = map_of importRemaps (sy_importPath sm) \<or> sy_importPath t \<in> {zombiezenX, zombiezenFile}) rewrites_names" by code_simp
  then show "(sm, t) \<in> set rewrites_names \<Longrightarrow> Some (sy_importPath t) = map_of importRemaps (sy_importPath sm) \<or> sy_importPath t \<in> {zombiezenX, zombiezenFile}" by (auto simp: list_all_iff)
qed

lemma new_symbolD:
  assumes "new_symbol sm = Some t"
  shows "(sm, t) \<in> set rewrites_names \<or> (\<exists>c g. sm = Symbol crawshaw [] c \<and> t = Symbol zombiezen [] g \<and> (c, g) \<in> set const_rewrites)"
  using assms by (auto simp: new_symbol_def symbolRewrites_def split: option.splits if_splits dest!: map_of_SomeD)

lemma rewrite_once: "new_symbol sm = Some t \<Longrightarrow> new_symbol t = None"
proof (rule ccontr)
  assume n: "new_symbol sm = Some t" "new_symbol t \<noteq> None"
  then obtain u where u: "new_symbol t = Some u" by auto
  have "list_all (\<lambda>(sm, t). sy_importPath sm \<noteq> zombiezen) rewrites_names" by code_simp
  then have z: "sy_importPath a \<noteq> zombiezen" if "(a, b) \<in> set rewrites_names" for a b using that by (auto simp: list_all_iff)
  have zc: "zombiezen \<noteq> crawshaw" by (simp add: zombiezen_def crawshaw_def)
  show False using new_symbolD [OF n(1)] new_symbolD [OF u] rewrites_names_facts(1,2) [of sm t] z [of t u] zc by force
qed

lemma moved_to_package: "moved_to sm = Some p \<Longrightarrow> p = zombiezenX \<or> p = zombiezenFile"
  using new_symbolD [of sm] rewrites_names_facts(3) [of sm]
  by (auto simp: moved_to_def importRemaps_def split: option.splits if_splits)

end
