(* ===== verification/RewriteSpec.thy ===== *)
theory RewriteSpec
  imports Rewrite
begin

text \<open>
  What the rewriting tool does to a file: every symbol of the tables gets its new name, everything else keeps its name, and a qualified identifier whose symbol has moved to another package
  is qualified by the name under which the file imports that package.
\<close>

section \<open>Names of imports\<close>

definition import_names :: "tool_lib \<Rightarrow> ImportSpec list \<Rightarrow> (gostring \<times> gostring) set" where
  "import_names T imps = {(n, p). \<exists>imp \<in> set imps. \<exists>lit. is_Path imp = Some lit \<and> t_Unquote T lit = Some p \<and> localImportName T imp = Some n \<and> n \<noteq> ''_''}"

text \<open>\<open>n\<close> is the name of the package \<open>p\<close> and of no other.\<close>

definition denotes :: "tool_lib \<Rightarrow> ImportSpec list \<Rightarrow> gostring \<Rightarrow> gostring \<Rightarrow> bool" where
  "denotes T imps n p \<longleftrightarrow> (n, p) \<in> import_names T imps \<and> (\<forall>p'. (n, p') \<in> import_names T imps \<longrightarrow> p' = p)"

text \<open>What holds of the imports of a file that the compiler accepts, without dot imports.\<close>

definition imports_ok :: "tool_lib \<Rightarrow> ImportSpec list \<Rightarrow> bool" where
  "imports_ok T imps \<longleftrightarrow> (\<forall>imp \<in> set imps. is_Path imp \<noteq> None) \<and> (\<forall>n p. (n, p) \<in> import_names T imps \<longrightarrow> n \<noteq> ''.'' \<and> (\<forall>p'. (n, p') \<in> import_names T imps \<longrightarrow> p' = p))"

text \<open>The quoted paths of the new packages can be unquoted; an import that is absent is added somewhere.\<close>

definition new_import :: "tool_lib \<Rightarrow> gostring option \<Rightarrow> gostring \<Rightarrow> ImportSpec" where
  "new_import T n p = \<lparr>is_Name = n, is_Path = Some (Quote (t_isPrint T) p), is_Implicit = None\<rparr>"

definition tool_ok :: "tool_lib \<Rightarrow> bool" where
  "tool_ok T \<longleftrightarrow> (\<forall>p \<in> insert zombiezenFile (snd ` set importRemaps). t_Unquote T (Quote (t_isPrint T) p) = Some p) \<and> t_IsIdentifier T ''sqlitex'' \<and> t_IsIdentifier T ''sqlitefile'' \<and>
     (\<forall>imps p. (\<forall>n. (n, p) \<notin> import_names T imps) \<longrightarrow>
        set (t_AddImport T p imps) = insert (new_import T None p) (set imps) \<and> (\<forall>n. n \<noteq> [] \<longrightarrow> set (t_AddNamedImport T n p imps) = insert (new_import T (Some n) p) (set imps)))"

lemma imports_ok_denotes: "imports_ok T imps \<Longrightarrow> (n, p) \<in> import_names T imps \<Longrightarrow> denotes T imps n p"
  by (simp add: imports_ok_def denotes_def)

lemma localImportName_Some: "is_Path imp \<noteq> None \<Longrightarrow> \<exists>n. localImportName T imp = Some n"
  by (cases "is_Name imp"; cases "is_Implicit imp"; cases "is_Path imp") (auto simp: localImportName_def)

text \<open>Remapping a path keeps the name.\<close>

definition remapped :: "gostring \<Rightarrow> gostring" where
  "remapped p = (case map_of importRemaps p of None \<Rightarrow> p | Some r \<Rightarrow> r)"

lemma remap_import_result:
  assumes "tool_ok T" and "is_Path imp \<noteq> None"
  shows "\<exists>imp'. remap_import T imp = Some imp' \<and> is_Path imp' \<noteq> None \<and> localImportName T imp' = localImportName T imp \<and>
    Option.bind (is_Path imp') (t_Unquote T) = map_option remapped (Option.bind (is_Path imp) (t_Unquote T))"
proof -
  have q: "t_Unquote T (Quote (t_isPrint T) r) = Some r" if "map_of importRemaps p = Some r" for p r using assms(1) map_of_SomeD [OF that] by (force simp: tool_ok_def)
  obtain lit where lit: "is_Path imp = Some lit" using assms(2) by auto
  consider "t_Unquote T lit = None" | p where "t_Unquote T lit = Some p" "map_of importRemaps p = None" | p r where "t_Unquote T lit = Some p" "map_of importRemaps p = Some r"
    by (cases "t_Unquote T lit") auto
  then show ?thesis
  proof cases
    case 3
    obtain n where n: "localImportName T imp = Some n" using localImportName_Some [of imp T] lit by auto
    have "path_Base r \<noteq> []" by (simp add: path_Base_def Let_def)
    then show ?thesis using 3 lit n q [OF 3(2)] by (auto simp: remap_import_def localImportName_def remapped_def Let_def split: option.splits if_splits)
  qed (use lit in \<open>auto simp: remap_import_def remapped_def\<close>)
qed

lemma remap_imports_result:
  assumes "tool_ok T" and "\<forall>imp \<in> set imps. is_Path imp \<noteq> None"
  shows "\<exists>imps'. remap_imports T imps = Some imps' \<and> (\<forall>imp \<in> set imps'. is_Path imp \<noteq> None) \<and> import_names T imps' = (\<lambda>(n, p). (n, remapped p)) ` import_names T imps"
  using assms(2)
proof (induction imps)
  case (Cons imp imps)
  obtain imp' where i: "remap_import T imp = Some imp'" "is_Path imp' \<noteq> None" "localImportName T imp' = localImportName T imp"
    "Option.bind (is_Path imp') (t_Unquote T) = map_option remapped (Option.bind (is_Path imp) (t_Unquote T))" using remap_import_result [OF assms(1), of imp] Cons.prems by auto
  obtain imps' where r: "remap_imports T imps = Some imps'" "\<forall>imp \<in> set imps'. is_Path imp \<noteq> None" "import_names T imps' = (\<lambda>(n, p). (n, remapped p)) ` import_names T imps"
    using Cons.IH Cons.prems by auto
  have cons: "import_names T (x # xs) = {(n, p). Option.bind (is_Path x) (t_Unquote T) = Some p \<and> localImportName T x = Some n \<and> n \<noteq> ''_''} \<union> import_names T xs" for x xs
    by (auto simp: import_names_def bind_eq_Some_conv)
  have one: "{(n, q). map_option remapped po = Some q \<and> no = Some n \<and> n \<noteq> ''_''} = (\<lambda>(n, p). (n, remapped p)) ` {(n, q). po = Some q \<and> no = Some n \<and> n \<noteq> ''_''}" for po no
    by (cases po; cases no) auto
  have "import_names T (imp' # imps') = (\<lambda>(n, p). (n, remapped p)) ` import_names T (imp # imps)"
    unfolding cons [of imp' imps'] cons [of imp imps] i(3,4) r(3) one image_Un ..
  then show ?case using i(1,2) r(1,2) by auto
qed (simp add: import_names_def)

lemma remap_imports_ok:
  assumes "tool_ok T" and "imports_ok T imps"
  shows "\<exists>imps'. remap_imports T imps = Some imps' \<and> imports_ok T imps' \<and> import_names T imps' = (\<lambda>(n, p). (n, remapped p)) ` import_names T imps"
  using remap_imports_result [OF assms(1), of imps] assms(2) unfolding imports_ok_def by fastforce

section \<open>Acquiring a name\<close>

lemma used_ids_result:
  assumes "\<forall>imp \<in> set imps. is_Path imp \<noteq> None"
  shows "\<exists>r. used_ids T p imps used = Some r \<and> (case r of
    Inl n \<Rightarrow> (n, p) \<in> import_names T imps
  | Inr us \<Rightarrow> (\<forall>n. (n, p) \<notin> import_names T imps) \<and> set us = set used \<union> fst ` import_names T imps)"
  using assms
proof (induction imps arbitrary: used)
  case (Cons imp imps)
  obtain lit where lit: "is_Path imp = Some lit" using Cons.prems by auto
  obtain n where n: "localImportName T imp = Some n" using localImportName_Some [of imp T] lit by auto
  have cons: "import_names T (imp # imps) = (case t_Unquote T lit of None \<Rightarrow> {} | Some q \<Rightarrow> if n = ''_'' then {} else {(n, q)}) \<union> import_names T imps"
    using lit n by (auto simp: import_names_def split: option.split)
  consider "t_Unquote T lit = None \<or> n = ''_''" | "t_Unquote T lit = Some p" "n \<noteq> ''_''" | q where "t_Unquote T lit = Some q" "q \<noteq> p" "n \<noteq> ''_''" by (cases "t_Unquote T lit") auto
  then show ?case
  proof cases
    case 1
    then have eq: "used_ids T p (imp # imps) used = used_ids T p imps used" "import_names T (imp # imps) = import_names T imps" using lit n cons by (cases "t_Unquote T lit"; auto)+
    show ?thesis unfolding eq by (rule Cons.IH) (use Cons.prems in simp)
  next
    case 2
    then show ?thesis using lit n unfolding cons by simp
  next
    case 3
    then have eq: "used_ids T p (imp # imps) used = used_ids T p imps (n # used)" "import_names T (imp # imps) = insert (n, q) (import_names T imps)" using lit n cons by auto
    have "set us = set (n # used) \<union> A \<longleftrightarrow> set us = set used \<union> insert n A" for us A by auto
    then show ?thesis using Cons.IH [of "n # used"] Cons.prems 3(2) unfolding eq by (auto simp del: used_ids.simps split: sum.splits)
  qed
qed (simp add: import_names_def)

lemma FormatInt_inj: "FormatInt (int i) = FormatInt (int j) \<Longrightarrow> i = j"
  unfolding FormatInt_def by (metis digits_val_FormatUint nat_int of_nat_less_0_iff)

lemma fresh_id_result: "\<exists>n. fresh_id base used i = Some n \<and> n \<notin> set used \<and> base \<noteq> n \<and> length base < length n"
proof -
  let ?f = "\<lambda>i. base @ FormatInt (int i)"
  have "inj_on ?f {i..}" by (auto simp: inj_on_def dest: FormatInt_inj)
  then have "infinite (?f ` {i..})" by (simp add: finite_image_iff infinite_Ici)
  then obtain j where j: "i \<le> j" "?f j \<notin> set used" using finite_subset [of "?f ` {i..}" "set used"] by auto
  then show ?thesis
  proof (induction "j - i" arbitrary: i)
    case 0
    then show ?case using FormatUint_nonempty [of 10 j] by (subst fresh_id.simps) (auto simp: Let_def FormatInt_def)
  next
    case (Suc d)
    show ?case
    proof (cases "?f i \<in> set used")
      case True
      have "d = j - (i + 1)" "i + 1 \<le> j" using Suc.hyps(2) by auto
      from Suc.hyps(1) [OF this Suc.prems(2)] True show ?thesis by (subst fresh_id.simps) (simp add: Let_def)
    next
      case False
      then show ?thesis using FormatUint_nonempty [of 10 i] by (subst fresh_id.simps) (auto simp: Let_def FormatInt_def)
    qed
  qed
qed

lemma import_names_insert:
  assumes "tool_ok T" and "p = zombiezenX \<or> p = zombiezenFile" and "set imps' = insert (new_import T no p) (set imps)" and "localImportName T (new_import T no p) = Some n" and "n \<noteq> ''_''"
  shows "import_names T imps' = insert (n, p) (import_names T imps)"
proof -
  have "t_Unquote T (Quote (t_isPrint T) p) = Some p" using assms(1,2) by (auto simp: tool_ok_def importRemaps_def)
  then show ?thesis using assms(3-) by (auto simp: import_names_def new_import_def)
qed

lemma imports_ok_insert:
  assumes "tool_ok T" and "imports_ok T imps" and "p = zombiezenX \<or> p = zombiezenFile" and "set imps' = insert (new_import T no p) (set imps)" and "localImportName T (new_import T no p) = Some n" and "n \<noteq> ''_''" and "n \<noteq> ''.''"
    and "n \<notin> fst ` import_names T imps"
  shows "imports_ok T imps' \<and> import_names T imps' = insert (n, p) (import_names T imps)"
proof -
  note nm = import_names_insert [OF assms(1,3-6)]
  have "\<forall>imp \<in> set imps'. is_Path imp \<noteq> None" using assms(2,4) by (simp add: imports_ok_def new_import_def)
  moreover have "m \<noteq> ''.'' \<and> (\<forall>q'. (m, q') \<in> import_names T imps' \<longrightarrow> q' = q)" if "(m, q) \<in> import_names T imps'" for m q
    using that assms(2,7,8) unfolding nm imports_ok_def by (auto simp: image_iff)
  ultimately have "imports_ok T imps'" unfolding imports_ok_def by blast
  then show ?thesis using nm ..
qed

lemma package_bases: "path_Base zombiezenX = ''sqlitex''" "path_Base zombiezenFile = ''sqlitefile''"
  by code_simp+

lemma acquirePackageID_result:
  assumes "tool_ok T" and "imports_ok T imps" and "p = zombiezenX \<or> p = zombiezenFile"
  shows "\<exists>n imps'. acquirePackageID T imps p = Some (n, imps') \<and> imports_ok T imps' \<and> import_names T imps' = insert (n, p) (import_names T imps)"
proof -
  have paths: "\<forall>imp \<in> set imps. is_Path imp \<noteq> None" using assms(2) by (simp add: imports_ok_def)
  obtain r where r: "used_ids T p imps [] = Some r" "case r of Inl n \<Rightarrow> (n, p) \<in> import_names T imps
    | Inr us \<Rightarrow> (\<forall>n. (n, p) \<notin> import_names T imps) \<and> set us = set [] \<union> fst ` import_names T imps" using used_ids_result [OF paths] by blast
  show ?thesis
  proof (cases r)
    case (Inl n)
    then show ?thesis using r assms(2) by (auto simp: acquirePackageID_def)
  next
    case (Inr us)
    then have us: "\<forall>n. (n, p) \<notin> import_names T imps" "set us = fst ` import_names T imps" using r(2) by simp_all
    let ?b = "path_Base p"
    have b: "?b = ''sqlitex'' \<or> ?b = ''sqlitefile''" "t_IsIdentifier T ?b" using assms(1,3) package_bases by (auto simp: tool_ok_def)
    have add: "set (t_AddImport T p imps) = insert (new_import T None p) (set imps)" "m \<noteq> [] \<Longrightarrow> set (t_AddNamedImport T m p imps) = insert (new_import T (Some m) p) (set imps)" for m
      using assms(1) us(1) by (simp_all add: tool_ok_def)
    show ?thesis
    proof (cases "?b \<in> set us")
      case False
      have "localImportName T (new_import T None p) = Some ?b" using assms(1,3) b(2) by (auto simp: localImportName_def new_import_def tool_ok_def importRemaps_def Let_def)
      from imports_ok_insert [OF assms add(1) this] False us(2) b(1) r(1) Inr show ?thesis by (auto simp: acquirePackageID_def)
    next
      case True
      obtain m where m: "fresh_id ?b us 2 = Some m" "m \<notin> set us" "length ?b < length m" using fresh_id_result by blast
      have "m \<noteq> []" "m \<noteq> ''_''" "m \<noteq> ''.''" using m(3) b(1) by auto
      moreover have "localImportName T (new_import T (Some m) p) = Some m" by (simp add: localImportName_def new_import_def)
      ultimately show ?thesis using imports_ok_insert [OF assms add(2)] m(1,2) True us(2) r(1) Inr by (simp add: acquirePackageID_def Let_def)
    qed
  qed
qed

section \<open>The rewritten tree\<close>

fun node_ids :: "node \<Rightarrow> nat list" where
  "node_ids (Ident i nm) = [i]"
| "node_ids (SelectorExpr i x j sel) = i # node_ids x @ [j]"
| "node_ids (Node i cs) = i # concat (map node_ids cs)"

definition ident_name :: "types_info \<Rightarrow> nat \<Rightarrow> gostring \<Rightarrow> gostring" where
  "ident_name I i nm = (case ident_symbol I i of None \<Rightarrow> nm | Some sm \<Rightarrow> new_name sm nm)"

text \<open>The package that an identifier has moved to.\<close>

definition ident_moved :: "types_info \<Rightarrow> nat \<Rightarrow> gostring option" where
  "ident_moved I i = Option.bind (ident_symbol I i) moved_to"

text \<open>A selection is renamed by its receiver, a qualified identifier by its package; the operand of a qualified identifier that has moved is the name of its new package.\<close>

definition selected_name :: "types_info \<Rightarrow> nat \<Rightarrow> nat \<Rightarrow> gostring \<Rightarrow> gostring" where
  "selected_name I i j nm = (case selection_symbol I i of None \<Rightarrow> ident_name I j nm | Some sm \<Rightarrow> new_name sm nm)"

definition qualified_moved :: "types_info \<Rightarrow> nat \<Rightarrow> node \<Rightarrow> nat \<Rightarrow> gostring option" where
  "qualified_moved I i x j = (if selection_symbol I i = None \<and> is_ident x then ident_moved I j else None)"

definition requalified :: "tool_lib \<Rightarrow> ImportSpec list \<Rightarrow> gostring \<Rightarrow> node \<Rightarrow> node \<Rightarrow> bool" where
  "requalified T imps p x x' \<longleftrightarrow> (\<exists>k nm nm'. x = Ident k nm \<and> x' = Ident k nm' \<and> denotes T imps nm' p)"

fun rewritten :: "tool_lib \<Rightarrow> types_info \<Rightarrow> ImportSpec list \<Rightarrow> bool \<Rightarrow> node \<Rightarrow> node \<Rightarrow> bool"
  and rewritten_all :: "tool_lib \<Rightarrow> types_info \<Rightarrow> ImportSpec list \<Rightarrow> node list \<Rightarrow> node list \<Rightarrow> bool" where
  "rewritten T I imps operand (Ident i nm) n' = (\<exists>nm'. n' = Ident i nm' \<and> (case ident_moved I i of
     Some p \<Rightarrow> if operand then denotes T imps nm' p else nm' = ident_name I i nm
   | None \<Rightarrow> nm' = ident_name I i nm))"
| "rewritten T I imps operand (SelectorExpr i x j sel) n' = (\<exists>x'. n' = SelectorExpr i x' j (selected_name I i j sel) \<and>
     (case qualified_moved I i x j of Some p \<Rightarrow> requalified T imps p x x' | None \<Rightarrow> rewritten T I imps True x x'))"
| "rewritten T I imps operand (Node i cs) n' = (\<exists>cs'. n' = Node i cs' \<and> rewritten_all T I imps cs cs')"
| "rewritten_all T I imps [] ns' = (ns' = [])"
| "rewritten_all T I imps (n # ns) ns' = (\<exists>m ms. ns' = m # ms \<and> rewritten T I imps False n m \<and> rewritten_all T I imps ns ms)"

definition warn_at :: "nat \<Rightarrow> symbol option \<Rightarrow> (nat \<times> gostring) list" where
  "warn_at i so = (case Option.bind so (map_of symbolWarnings) of None \<Rightarrow> [] | Some m \<Rightarrow> if m \<noteq> [] then [(i, m)] else [])"

fun node_warnings :: "types_info \<Rightarrow> node \<Rightarrow> (nat \<times> gostring) list" where
  "node_warnings I (Ident i nm) = warn_at i (ident_symbol I i)"
| "node_warnings I (SelectorExpr i x j sel) = warn_at j (selection_symbol I i) @ node_warnings I x @ (if selection_symbol I i = None then warn_at j (ident_symbol I j) else [])"
| "node_warnings I (Node i cs) = concat (map (node_warnings I) cs)"

text \<open>More imports do not hurt.\<close>

definition more_imports :: "tool_lib \<Rightarrow> ImportSpec list \<Rightarrow> ImportSpec list \<Rightarrow> bool" where
  "more_imports T imps imps' \<longleftrightarrow> imports_ok T imps' \<and> import_names T imps \<subseteq> import_names T imps'"

lemma more_imports_trans: "more_imports T a b \<Longrightarrow> more_imports T b c \<Longrightarrow> more_imports T a c"
  by (auto simp: more_imports_def)

lemma denotes_more: "denotes T imps n p \<Longrightarrow> more_imports T imps imps' \<Longrightarrow> denotes T imps' n p"
  using imports_ok_denotes [of T imps' n p] by (auto simp: more_imports_def denotes_def)

lemma rewritten_more:
  "rewritten T I imps operand n n' \<Longrightarrow> more_imports T imps imps' \<Longrightarrow> rewritten T I imps' operand n n'"
  "rewritten_all T I imps ns ns' \<Longrightarrow> more_imports T imps imps' \<Longrightarrow> rewritten_all T I imps' ns ns'"
proof (induction T I imps operand n n' and T I imps ns ns' rule: rewritten_rewritten_all.induct)
  case (1 T I imps operand i nm n')
  then show ?case using denotes_more [of T imps _ _ imps'] by (cases "ident_moved I i") auto
next
  case (2 T I imps operand i x j sel n')
  then show ?case using denotes_more [of T imps _ _ imps'] by (cases "qualified_moved I i x j") (auto simp: requalified_def)
qed auto

definition visited :: "tool_lib \<Rightarrow> nat list \<Rightarrow> (nat \<times> gostring) list \<Rightarrow> rewrite_state \<Rightarrow> rewrite_state \<Rightarrow> bool" where
  "visited T ids ws s s' \<longleftrightarrow> more_imports T (rs_imports s) (rs_imports s') \<and> rs_warnings s' = rs_warnings s @ ws \<and> rs_skip s' \<subseteq> rs_skip s \<union> set ids \<and> rs_skip s \<subseteq> rs_skip s'"

lemma visited_trans: "visited T ids ws s t \<Longrightarrow> visited T ids' ws' t u \<Longrightarrow> visited T (ids @ ids') (ws @ ws') s u"
  by (auto simp: visited_def intro: more_imports_trans)

lemma add_warning_simps [simp]:
  "rs_imports (add_warning i sm s) = rs_imports s" "rs_skip (add_warning i sm s) = rs_skip s" "rs_warnings (add_warning i sm s) = rs_warnings s @ warn_at i (Some sm)"
  by (auto simp: add_warning_def warn_at_def split: option.split)

lemma visit_ident_result:
  assumes "tool_ok T" and "imports_ok T (rs_imports s)"
  shows "\<exists>q s'. visit_ident T I qualifier i nm s = Some ((ident_name I i nm, q), s') \<and> visited T [] (warn_at i (ident_symbol I i)) s s' \<and> rs_skip s' = rs_skip s \<and>
    (case ident_moved I i of Some p \<Rightarrow> if qualifier then \<exists>n. q = Some n \<and> denotes T (rs_imports s') n p else q = None | None \<Rightarrow> q = None)"
proof (cases "ident_symbol I i")
  case None
  then show ?thesis using assms(2) by (simp add: visit_ident_def visited_def ident_name_def ident_moved_def warn_at_def more_imports_def)
next
  case sm: (Some sm)
  show ?thesis
  proof (cases "qualifier \<and> moved_to sm \<noteq> None")
    case True
    then obtain p where p: "moved_to sm = Some p" by auto
    obtain n imps' where a: "acquirePackageID T (rs_imports s) p = Some (n, imps')" "imports_ok T imps'" "import_names T imps' = insert (n, p) (import_names T (rs_imports s))"
      using acquirePackageID_result [OF assms moved_to_package [OF p]] by blast
    have "denotes T imps' n p" using imports_ok_denotes [OF a(2), of n p] a(3) by simp
    then show ?thesis using sm p True a by (auto simp: visit_ident_def visited_def ident_name_def ident_moved_def more_imports_def)
  next
    case False
    then show ?thesis using sm assms(2) by (auto simp: visit_ident_def visited_def ident_name_def ident_moved_def more_imports_def split: option.splits)
  qed
qed

lemma visit_selector_result:
  assumes "imports_ok T (rs_imports s)" and "visit_selector I i j nm s = (sel, s')"
  shows "visited T [j] (warn_at j (selection_symbol I i)) s s' \<and> sel = (case selection_symbol I i of None \<Rightarrow> nm | Some sm \<Rightarrow> new_name sm nm) \<and>
    rs_skip s' = (if selection_symbol I i = None then rs_skip s else insert j (rs_skip s))"
  using assms by (auto simp: visit_selector_def visited_def warn_at_def more_imports_def split: option.splits)

lemma rewritten_is_ident: "rewritten T I imps operand x x' \<Longrightarrow> is_ident x' = is_ident x"
  by (cases x) (auto simp: is_ident_def)

lemma rewritten_Ident: "rewritten T I imps operand (Ident k nm) x' \<Longrightarrow> \<exists>nm'. x' = Ident k nm'"
  by auto

lemma set_ident_None [simp]: "set_ident None x = x"
  by (cases x) (simp_all add: set_ident_def)

text \<open>A selector expression, from its operand on.\<close>

lemma apply_selector_result:
  assumes ok: "tool_ok T" and s1: "visit_selector I i j sel s = (sel1, s1)" "imports_ok T (rs_imports s)" and "j \<notin> rs_skip s" and "j \<notin> set (node_ids x)"
    and x: "apply_node T I True x s1 = Some (x', s2)" "visited T (node_ids x) (node_warnings I x) s1 s2" "rewritten T I (rs_imports s2) True x x'"
  shows "\<exists>n' s'. (if j \<in> rs_skip s2 then Some (SelectorExpr i x' j sel1, s2)
        else do { ((sel, q), s) \<leftarrow> visit_ident T I (is_ident x') j sel1 s2; Some (SelectorExpr i (set_ident q x') j sel, s) }) = Some (n', s') \<and>
      visited T (node_ids (SelectorExpr i x j sel)) (node_warnings I (SelectorExpr i x j sel)) s s' \<and> rewritten T I (rs_imports s') operand (SelectorExpr i x j sel) n'"
proof (cases "selection_symbol I i")
  case (Some sm)
  note v = visit_selector_result [OF s1(2,1)]
  have "j \<in> rs_skip s2" using v x(2) Some by (auto simp: visited_def)
  moreover have "visited T (node_ids (SelectorExpr i x j sel)) (node_warnings I (SelectorExpr i x j sel)) s s2"
    using visited_trans [of T "[j]" _ s s1, OF _ x(2)] v Some by (auto simp: visited_def)
  ultimately show ?thesis using x(3) v Some by (auto simp: selected_name_def qualified_moved_def)
next
  case None
  note v = visit_selector_result [OF s1(2,1)]
  have j: "j \<notin> rs_skip s2" and sel: "sel1 = sel" using v x(2) None assms(4,5) by (auto simp: visited_def)
  have "imports_ok T (rs_imports s2)" using x(2) by (simp add: visited_def more_imports_def)
  from visit_ident_result [OF ok this, of I "is_ident x'" j sel] obtain q s3 where
    q: "visit_ident T I (is_ident x') j sel s2 = Some ((ident_name I j sel, q), s3)" and v3: "visited T [] (warn_at j (ident_symbol I j)) s2 s3" and
    m: "case ident_moved I j of Some p \<Rightarrow> if is_ident x' then \<exists>n. q = Some n \<and> denotes T (rs_imports s3) n p else q = None | None \<Rightarrow> q = None" by blast
  have "visited T (node_ids (SelectorExpr i x j sel)) (node_warnings I (SelectorExpr i x j sel)) s s3"
    using visited_trans [OF visited_trans [of T "[j]" _ s s1, OF _ x(2)] v3] v None by (auto simp: visited_def warn_at_def)
  moreover have "rewritten T I (rs_imports s3) operand (SelectorExpr i x j sel) (SelectorExpr i (set_ident q x') j (ident_name I j sel))"
  proof (cases "qualified_moved I i x j")
    case no: None
    then have "q = None" using m None rewritten_is_ident [OF x(3)] by (auto simp: qualified_moved_def split: if_splits option.splits)
    then show ?thesis using no None rewritten_more(1) [OF x(3), of "rs_imports s3"] v3 by (auto simp: visited_def selected_name_def)
  next
    case (Some p)
    then obtain k nm where k: "x = Ident k nm" "ident_moved I j = Some p" by (cases x) (auto simp: qualified_moved_def is_ident_def split: if_splits)
    then obtain nm' where "x' = Ident k nm'" using rewritten_Ident x(3) by blast
    then show ?thesis using m k Some None by (auto simp: selected_name_def requalified_def set_ident_def is_ident_def)
  qed
  ultimately show ?thesis using j q sel by auto
qed

lemma apply_node_result:
  "tool_ok T \<Longrightarrow> imports_ok T (rs_imports s) \<Longrightarrow> distinct (node_ids n) \<Longrightarrow> rs_skip s \<inter> set (node_ids n) = {} \<Longrightarrow>
     \<exists>n' s'. apply_node T I operand n s = Some (n', s') \<and> visited T (node_ids n) (node_warnings I n) s s' \<and> rewritten T I (rs_imports s') operand n n'"
  "tool_ok T \<Longrightarrow> imports_ok T (rs_imports s) \<Longrightarrow> distinct (concat (map node_ids ns)) \<Longrightarrow> rs_skip s \<inter> set (concat (map node_ids ns)) = {} \<Longrightarrow>
     \<exists>ns' s'. apply_nodes T I ns s = Some (ns', s') \<and> visited T (concat (map node_ids ns)) (concat (map (node_warnings I) ns)) s s' \<and> rewritten_all T I (rs_imports s') ns ns'"
proof (induction T I operand n s and T I ns s rule: apply_node_apply_nodes.induct)
  case (1 T I operand i nm s)
  obtain q s' where "visit_ident T I operand i nm s = Some ((ident_name I i nm, q), s')" "visited T [] (warn_at i (ident_symbol I i)) s s'" "rs_skip s' = rs_skip s"
    "case ident_moved I i of Some p \<Rightarrow> if operand then \<exists>n. q = Some n \<and> denotes T (rs_imports s') n p else q = None | None \<Rightarrow> q = None"
    using visit_ident_result [OF 1(1,2), of I operand i nm] by blast
  then show ?case using 1(4) by (cases "ident_moved I i") (auto simp: visited_def set_ident_def split: if_splits)
next
  case (2 T I operand i x j sel s)
  obtain sel1 s1 where s1: "visit_selector I i j sel s = (sel1, s1)" by fastforce
  note v = visit_selector_result [OF 2(3) s1]
  have "imports_ok T (rs_imports s1)" "rs_skip s1 \<inter> set (node_ids x) = {}" using v 2(4,5) by (auto simp: visited_def more_imports_def split: if_splits)
  moreover have n: "i \<notin> rs_skip s" "distinct (node_ids x)" "j \<notin> rs_skip s" "j \<notin> set (node_ids x)" using 2(4,5) by auto
  ultimately obtain x' s2 where x: "apply_node T I True x s1 = Some (x', s2)" "visited T (node_ids x) (node_warnings I x) s1 s2" "rewritten T I (rs_imports s2) True x x'"
    using 2(1) [OF n(1) s1 [symmetric] 2(2)] by blast
  from apply_selector_result [OF 2(2) s1 2(3) n(3,4) x] show ?case using n(1) s1 x(1) by (simp del: node_ids.simps node_warnings.simps rewritten.simps)
next
  case (3 T I operand i cs s)
  then show ?case by (fastforce simp: visited_def)
next
  case (4 T I s)
  then show ?case by (simp add: visited_def more_imports_def)
next
  case (5 T I n ns s)
  obtain n' s1 where n: "apply_node T I False n s = Some (n', s1)" "visited T (node_ids n) (node_warnings I n) s s1" "rewritten T I (rs_imports s1) False n n'"
    using 5(1) [OF 5(3,4)] 5(5,6) by auto
  have "imports_ok T (rs_imports s1)" "rs_skip s1 \<inter> set (concat (map node_ids ns)) = {}" using n(2) 5(5,6) by (auto simp: visited_def more_imports_def)
  then obtain ns' s2 where ns: "apply_nodes T I ns s1 = Some (ns', s2)" "visited T (concat (map node_ids ns)) (concat (map (node_warnings I) ns)) s1 s2" "rewritten_all T I (rs_imports s2) ns ns'"
    using 5(2) [OF n(1) refl 5(3)] 5(5) by auto
  have "rewritten T I (rs_imports s2) False n n'" using rewritten_more(1) [OF n(3)] ns(2) by (simp add: visited_def)
  then show ?case using n(1) ns visited_trans [OF n(2) ns(2)] by auto
qed


text \<open>A file that uses a buffer and a constant of the old packages.  Its third declaration calls a method.\<close>

definition strip_ends :: "gostring \<Rightarrow> gostring option" where
  "strip_ends s = (if length s < 2 then None else Some (butlast (tl s)))"

definition demo_tool :: tool_lib where
  "demo_tool = \<lparr>t_Unquote = strip_ends, t_isPrint = (\<lambda>_. True), t_IsIdentifier = (\<lambda>s. s \<noteq> []),
     t_AddImport = (\<lambda>p imps. imps @ [\<lparr>is_Name = None, is_Path = Some (Quote (\<lambda>_. True) p), is_Implicit = None\<rparr>]),
     t_AddNamedImport = (\<lambda>n p imps. imps @ [\<lparr>is_Name = Some n, is_Path = Some (Quote (\<lambda>_. True) p), is_Implicit = None\<rparr>])\<rparr>"

definition demo_info :: types_info where
  "demo_info = \<lparr>ti_ObjectOf = (\<lambda>i. if i = 2 then Some \<lparr>ob_pkg = Some crawshawX, ob_name = ''NewBuffer'', ob_type = T_Signature None\<rparr>
       else if i = 5 then Some \<lparr>ob_pkg = Some crawshaw, ob_name = ''SQLITE_OK'', ob_type = T_other\<rparr> else None),
     ti_Selections = (\<lambda>i. if i = 6 then Some \<lparr>se_obj = \<lparr>ob_pkg = Some crawshaw, ob_name = ''GetAutocommit'', ob_type = T_Signature (Some (T_Pointer (T_Named ''Conn'')))\<rparr>,
       se_recv = Some (T_Pointer (T_Named ''Conn''))\<rparr> else None)\<rparr>"

definition demo_file :: go_file where
  "demo_file = \<lparr>gf_path = ''a.go'',
     gf_imports = [\<lparr>is_Name = None, is_Path = Some ([CHR 0x22] @ crawshaw @ [CHR 0x22]), is_Implicit = Some ''sqlite''\<rparr>,
       \<lparr>is_Name = Some ''sqlitefile'', is_Path = Some ([CHR 0x22] @ crawshawX @ [CHR 0x22]), is_Implicit = None\<rparr>],
     gf_decls = [SelectorExpr 0 (Ident 1 ''sqlitefile'') 2 ''NewBuffer'', SelectorExpr 3 (Ident 4 ''sqlite'') 5 ''SQLITE_OK'', Node 9 [SelectorExpr 6 (Ident 7 ''conn'') 8 ''GetAutocommit'']]\<rparr>"

text \<open>A text of plain characters is quoted as it is.\<close>

lemma Quote_plain: "list_all (\<lambda>c. byte_in 32 126 c \<and> c \<noteq> CHR 0x22 \<and> c \<noteq> CHR 0x5C) s \<Longrightarrow> Quote pr s = [CHR 0x22] @ s @ [CHR 0x22]"
proof -
  have "list_all (\<lambda>c. byte_in 32 126 c \<and> c \<noteq> CHR 0x22 \<and> c \<noteq> CHR 0x5C) s \<Longrightarrow> quote_from pr s = s"
  proof (induction s)
    case (Cons c s)
    then have "utf8_lead c = None" by (auto simp: utf8_lead_def byte_in_def)
    then have "rune_width (c # s) = 1" by (simp add: rune_width_def split: list.split)
    then show ?case using Cons by (subst quote_from.simps) (simp add: quote_rune_def quote_byte_def)
  qed (simp add: quote_from.simps)
  then show "list_all (\<lambda>c. byte_in 32 126 c \<and> c \<noteq> CHR 0x22 \<and> c \<noteq> CHR 0x5C) s \<Longrightarrow> Quote pr s = [CHR 0x22] @ s @ [CHR 0x22]" by (simp add: Quote_def)
qed

lemma demo_tool_ok: "tool_ok demo_tool"
proof -
  have "list_all (list_all (\<lambda>c. byte_in 32 126 c \<and> c \<noteq> CHR 0x22 \<and> c \<noteq> CHR 0x5C)) (zombiezenFile # map snd importRemaps)" by code_simp
  then have "\<forall>p \<in> insert zombiezenFile (snd ` set importRemaps). t_Unquote demo_tool (Quote (t_isPrint demo_tool) p) = Some p"
    by (auto simp: list_all_iff [of "list_all _"] Quote_plain demo_tool_def strip_ends_def)
  then show ?thesis by (simp add: tool_ok_def demo_tool_def new_import_def)
qed

lemma demo_imports_ok: "imports_ok demo_tool (gf_imports demo_file)"
  by (auto simp: imports_ok_def import_names_def demo_file_def demo_tool_def localImportName_def strip_ends_def crawshaw_def crawshawX_def)

text \<open>The constants are looked up after the other symbols, by their C name.\<close>

lemma map_of_consts: "map_of (map (\<lambda>(c, g). (Symbol a [] c, Symbol b [] g)) xs) sm =
    (if sy_importPath sm = a \<and> sy_typeName sm = [] then map_option (Symbol b []) (map_of xs (sy_name sm)) else None)"
  by (induction xs) (auto, (cases sm; auto)+)

lemma new_symbol_code [code]: "new_symbol sm = (case (case map_of rewrites_names sm of Some t \<Rightarrow> Some t
    | None \<Rightarrow> if sy_importPath sm = crawshaw \<and> sy_typeName sm = [] then map_option (Symbol zombiezen []) (map_of const_rewrites (sy_name sm)) else None) of
    None \<Rightarrow> None | Some t \<Rightarrow> if sy_name t \<noteq> [] then Some t else None)"
  unfolding new_symbol_def symbolRewrites_def map_of_append map_add_def map_of_consts ..

declare fresh_id.simps [code]

lemma demo_process: "map_option (\<lambda>(ws, f). (ws, gf_decls f, map (localImportName demo_tool) (gf_imports f))) (process demo_tool demo_info demo_file) =
    Some ([], [SelectorExpr 0 (Ident 1 ''sqlitefile2'') 2 ''NewBuffer'', SelectorExpr 3 (Ident 4 ''sqlite'') 5 ''ResultOK'', Node 9 [SelectorExpr 6 (Ident 7 ''conn'') 8 ''AutocommitEnabled'']],
      [Some ''sqlite'', Some ''sqlitefile'', Some ''sqlitefile2''])"
  by code_simp


text \<open>Constants keep their values: a name of a C constant becomes a name that this package declares with that constant.\<close>

lemma constants_keep_values:
  assumes "new_symbol (Symbol crawshaw [] c) = Some t" and "take 7 c = ''SQLITE_''"
  shows "sy_importPath t = zombiezen \<and> (sy_name t, c) \<in> set declared_consts \<and> new_symbol t = None"
proof -
  have "list_all (\<lambda>(sm, t). take 7 (sy_name sm) \<noteq> ''SQLITE_'') rewrites_names" by code_simp
  then have "(Symbol crawshaw [] c, t) \<notin> set rewrites_names" using assms(2) by (force simp: list_all_iff)
  then show ?thesis using new_symbolD [OF assms(1)] rewrite_once [OF assms(1)] const_rewrites_declared by auto
qed

text \<open>A package that is imported with a dot gets the dot as its name.\<close>

lemma acquirePackageID_dot:
  "is_Path imp = Some lit \<Longrightarrow> t_Unquote T lit = Some p \<Longrightarrow> is_Name imp = Some ''.'' \<Longrightarrow> acquirePackageID T (imp # imps) p = Some (''.'', imp # imps)"
  by (simp add: acquirePackageID_def localImportName_def)

text \<open>The exit status is 0 exactly if the packages were loaded, no file gave a warning or an error, and the module is there.\<close>

lemma run_file_ok:
  assumes "run_file T Os wr I f w = Some ([], w')"
  shows "\<exists>f'. process T I f = Some ([], f')"
proof -
  obtain ws f' where p: "process T I f = Some (ws, f')" using assms by (auto simp: run_file_def bind_eq_Some_conv)
  obtain err u where "(if wr then writeFile Os (gf_path f') f' w else diff Os (gf_path f') f' w) = (err, u)" by fastforce
  then show ?thesis using assms p by (simp add: run_file_def)
qed

lemma run_files_ok:
  "run_files T Os wr fs w = Some ([], w') \<Longrightarrow> (I, f) \<in> set fs \<Longrightarrow> \<exists>f'. process T I f = Some ([], f')"
proof (induction fs arbitrary: w)
  case (Cons x fs)
  obtain J g where x: "x = (J, g)" by (cases x)
  obtain es u where r: "run_file T Os wr J g w = Some (es, u)" "es = []" "run_files T Os wr fs u = Some ([], w')" using Cons.prems(1) x by (auto simp: bind_eq_Some_conv)
  have "\<exists>g'. process T J g = Some ([], g')" by (rule run_file_ok [OF r(1) [unfolded r(2)]])
  then show ?case using Cons.IH [OF r(3)] Cons.prems(2) x by auto
qed simp

lemma tool_run_success:
  assumes "tool_run T Os wr patterns w = Some (0, w')"
  shows "\<exists>pkgs u. io_Load Os patterns (say Os ''loading packages...'' w) = (Inr pkgs, u) \<and> (\<forall>(I, f) \<in> set (pkg_files pkgs). \<exists>f'. process T I f = Some ([], f'))"
proof -
  obtain r u where l: "io_Load Os patterns (say Os ''loading packages...'' w) = (r, u)" by fastforce
  then obtain pkgs where pk: "r = Inr pkgs" using assms by (cases r) (auto simp: tool_run_def)
  obtain es v where f: "run_files T Os wr (pkg_files pkgs) (say Os ''packages loaded'' u) = Some (es, v)" using assms l pk by (auto simp: tool_run_def bind_eq_Some_conv)
  have "es = []" using assms l pk f by (cases es) (auto simp: tool_run_def Let_def split: prod.splits)
  then show ?thesis using l pk run_files_ok [of T Os wr "pkg_files pkgs" _ v] f by blast
qed

end
