(* ===== verification/Spec2Isabelle.thy ===== *)
theory Spec2Isabelle
  imports Series Query Pool Atomic TempFile VTableSafe Session Migration Auth Backup Refunc Shell RewriteSpec
begin

text \<open>
  Verification of the Go module zombiezen.com/go/sqlite (src/), a binding of SQLite for Go.

  \<^bold>\<open>The program.\<close>  The package \<open>sqlite\<close> wraps the C library, translated to Go by modernc.org/sqlite: connections (\<open>Conn\<close>), prepared statements (\<open>Stmt\<close>), BLOB handles, SQL functions,
  virtual tables, authorizers, sessions, backups.  SQLite calls Go code back through trampolines and knows Go objects only by integers, which the ID generator of func.go hands out.
  The package \<open>sqlitex\<close> builds on it: execution with arguments, scripts, savepoints, pools of connections.  \<open>sqlitefile\<close> keeps byte queues and files in temporary BLOBs, \<open>sqlitemigration\<close>
  migrates schemas, \<open>ext/generateseries\<close> is a table-valued function, \<open>ext/refunc\<close> the operator REGEXP, \<open>shell\<close> an interactive shell, and cmd/zombiezen-sqlite-migrate rewrites programs written for crawshaw.io/sqlite.

  \<^bold>\<open>How it is modelled.\<close>  A struct is a record, an error is a value (\<open>error\<close>: \<open>None\<close> is nil), a Go string or byte slice is a list of bytes, signed integers wrap by \<open>wrap32\<close> and
  \<open>wrap64\<close>, bit sets and flags are 64-bit words.  A method takes the state and returns its results and the new state; the result \<open>None\<close> of an operation is a panic or that it does not
  return.  Loops that may run forever are partial functions into \<open>option\<close>, and that they return is a theorem where it holds.  Only the loop of backup steps has fuel; as many steps as there are
  pages are enough.

  SQLite is a parameter: a record of its calls (\<open>sqlite_lib\<close>, extended to \<open>blob_lib\<close>, \<open>open_lib\<close>, \<open>fn_lib\<close>, \<open>vt_lib\<close>, \<open>sn_lib\<close>, \<open>db_lib\<close>) on a world \<open>'w\<close>, and a function \<open>K\<close> from the C names of
  constants to their values.  What the code relies on is a named hypothesis about that record; the hypotheses of a property have a concrete instance on which its
  witness runs:
  \<open>lib_busy_ok\<close> (when a statement is at a row), \<open>lib_alloc_ok\<close> (fresh statement pointers), \<open>lib_unlocks\<close> (lock conflicts end), \<open>range_ok\<close>, \<open>lib_blob_ok\<close> and \<open>lib_store_ok\<close> (BLOBs hold
  what was written), \<open>lib_txn_ok\<close> (savepoint, release, rollback as documented), \<open>lib_fn_ok\<close> and \<open>lib_vt_ok\<close> (destructors, handles and memory), \<open>lib_sn_ok\<close> (the streams that a changeset
  call uses), \<open>lib_image_ok\<close> (serialized databases).  Code of callers is a parameter too, with \<open>tame\<close>, \<open>go_vt_ok\<close>, \<open>go_sn_ok\<close>, \<open>prep_ok\<close>, \<open>rand_ok\<close>.

  \<^bold>\<open>The theories\<close>, in the order of their imports, and what they show.

  \<^item> Prelude, GoLib: integers, byte strings, bit vectors; the functions of strconv and strings that the code calls.
  \<^item> IdGen (func.go, \<open>idGen\<close>): \<open>next\<close> returns the smallest free ID, and handle tables never give a live ID twice (locale \<open>id_allocator\<close>, interpreted by \<open>idgen\<close> on the code's operations).
  \<^item> Codes, Result, Values (result.go, op\_type.go, openflags.go and other enumerations; func.go, \<open>Value\<close>): names of constants, errors and codes survive conversion in both directions, text to integer.
  \<^item> UnlockNote (blocking\_step.go), Stmt, StmtSpec, LineCol, Conn, Open (sqlite.go): statements with the retry loops of \<open>Step\<close> and \<open>Reset\<close>, binding, columns; the cache of statements,
    interrupts, opening and closing.  \<open>Step\<close> tracks whether a statement is at a row and returns when locks end; bind errors are reported once; \<open>CheckReset\<close> is sound in every state reachable by calls;
    \<open>Close\<close> releases everything.
  \<^item> Bitset, Exec, ExecSpec, Query (sqlitex/exec.go, query.go, rand\_id.go): arguments are checked exactly as the flags say, execution returns and leaves its statement reset (locales \<open>index_set\<close>,
    \<open>row_source\<close> and \<open>finite_rows\<close>, interpreted by \<open>bitset\<close>, \<open>stmt_rows\<close> and \<open>stmt_finite\<close>), single results, random keys in their range.
  \<^item> Savepoint, Atomic (sqlitex/savepoint.go, scripts of exec.go): the deferred functions refine the transaction states of the SQLite documentation, all or nothing (locale \<open>txn_conn\<close>, interpreted by
    \<open>savepoints\<close> on \<open>Execute\<close>).
  \<^item> Pool (sqlitex/pool.go): the atomic sections of \<open>Take\<close>, \<open>Put\<close> and \<open>Close\<close> under a step relation with any number of goroutines; exclusive ownership, \<open>Put\<close> can always finish, \<open>Close\<close> is complete.
  \<^item> Blob, Frame, TempBlobs, Buffer, TempFile (blob.go, sqlitefile): BLOB reads and writes are slices; a buffer is a queue of bytes; a file read is a slice of its contents (locale \<open>world_frame\<close>,
    interpreted by \<open>store\<close>).
  \<^item> Funcs (func.go), Auth (auth.go): tables of functions and SQLite stay in step; groups of an aggregate do not meet; accessors of an action follow the documentation.
  \<^item> VTable, VTableSafe (vtable.go, index\_constraint.go), Series (ext/generateseries): every trampoline is memory safe whatever order of calls SQLite's documentation allows; the series is the
    arithmetic progression.
  \<^item> Session (session.go): calls of SQLite that call back are trees; readers, writers and handlers are released on every path.
  \<^item> Migration (sqlitemigration): the loop of migrations is complete and atomic, also beside other processes.  The theorem is stated over the operations that the loop uses (\<open>mig_ops\<close>, with
    \<open>mig_ops_ok\<close> and \<open>schema_ok\<close>); \<open>conn_ops\<close> gives them on a connection.  The pool of the package is a state machine of its own.
  \<^item> Backup (backup.go, and serialization, limits and defensive mode of sqlite.go): the results of \<open>Step\<close>, a loop of steps ends with nothing left, serialization round trip.
  \<^item> Refunc (ext/refunc), Shell (shell/shell.go): the cache of compiled patterns cannot be seen; the shell leaves no complete statement waiting.
  \<^item> Rewrite, RewriteSpec (cmd/zombiezen-sqlite-migrate): the tool renames exactly the symbols of its tables, qualifies moved ones by a name of their new package, and keeps the values of constants.

  Lemmas beside the properties record where the code departs from its documentation: \<open>Filter_null_descending_row\<close>, \<open>series_rows_max_diverges\<close> and \<open>BestIndex_order_bits_lost\<close> (Series),
  \<open>Buffer_short_page_fails\<close> (Buffer), \<open>File_Read_loses_contents\<close> and \<open>Truncate_wrong_size\<close> (TempFile), \<open>failed_Destroy_dangles\<close> (VTableSafe), \<open>ApplyInverseChangeset_deadlock\<close> (Session),
  \<open>foreign_keys_stay_off\<close> (Migration), \<open>acquirePackageID_dot\<close> (RewriteSpec).

  \<^bold>\<open>Not modelled.\<close>  The initialization of the C library, the copying of Go strings to C memory and the conversion of functions to C pointers (\<open>initlib\<close>, \<open>mustCString\<close>, \<open>cFuncPointer\<close>): their effect is in the calls of SQLite.
  Data races: goroutines are interleaved where the code has them (Pool, the pool of Migration); a connection is used by one goroutine, as its documentation asks.  Texts of formatted errors are kept
  as far as \<open>errors.As\<close> sees them.  Floating-point arithmetic is a parameter.  The import declarations of a file that the rewriting tool processes are the list of imports; names in them are not visited.
\<close>

end
